(* ===== verification/Mt_Prelude.thy ===== *)
theory Mt_Prelude
  imports Main "HOL-Library.Word"
begin

text \<open>
  Shared vocabulary of the development: bytes, C buffers and pointers, big-endian
  integers, \<open>size_t\<close> arithmetic, and the generic list facts the components use.

  \<^item> A pointer to a byte region handed over together with its length is a \<open>byte list
    option\<close>: \<open>None\<close> is \<open>NULL\<close>, and the length of the list is the length argument.
    \<open>p + k\<close> (or \<open>&p[k]\<close>) is \<open>drop k p\<close>.
  \<^item> A write into a region is \<open>poke\<close>. It never shrinks the region, and it makes it longer
    exactly when it runs past the end; so a routine whose result has the length of the region
    it was given has written inside that region only.
  \<^item> \<open>size_t\<close> values are \<open>nat\<close>; where an addition of caller-supplied sizes may wrap the
    code's sum is \<open>sz_add\<close>, taken modulo \<open>2 ^ 64\<close>.
\<close>

unbundle bit_operations_syntax

type_synonym byte = "8 word"
type_synonym bytes = "byte list"
type_synonym cptr = "byte list option"
type_synonym u16 = "16 word"
type_synonym u32 = "32 word"
type_synonym u64 = "64 word"

named_theorems wire_defs \<open>definitions unfolded by the wire-format proofs\<close>

subsection \<open>Writing into a C region\<close>

definition poke :: "'a list \<Rightarrow> nat \<Rightarrow> 'a list \<Rightarrow> 'a list" where
  "poke dst off bs = take off dst @ bs @ drop (off + length bs) dst"

lemma poke_0 [simp]: "poke dst 0 bs = bs @ drop (length bs) dst"
  by (simp add: poke_def)

lemma poke_Nil [simp]: "poke dst off [] = dst"
  by (simp add: poke_def)

lemma poke_if_Nil [simp]:
  "(if bs = [] then dst else poke dst off bs) = poke dst off bs"
  "(if bs \<noteq> [] then poke dst off bs else dst) = poke dst off bs"
  by simp_all

lemma poke_Cons [simp]:
  "poke (x # xs) (Suc off) bs = x # poke xs off bs"
  by (simp add: poke_def)

lemma poke_Cons_numeral [simp]:
  "poke (x # xs) (numeral k) bs = x # poke xs (pred_numeral k) bs"
  by (simp add: numeral_eq_Suc)

lemma poke_append: "off = length xs \<Longrightarrow> poke (xs @ ys) off bs = xs @ bs @ drop (length bs) ys"
  by (simp add: poke_def)

lemma length_poke: "off + length bs \<le> length dst \<Longrightarrow> length (poke dst off bs) = length dst"
  by (simp add: poke_def)

lemma length_poke_ge: "length dst \<le> length (poke dst off bs)"
  by (simp add: poke_def)

lemma length_poke_overrun:
  "length dst < off + length bs \<Longrightarrow> bs \<noteq> [] \<Longrightarrow> length dst < length (poke dst off bs)"
  by (cases bs) (auto simp: poke_def)

lemma take_poke_le: "n \<le> off \<Longrightarrow> off \<le> length dst \<Longrightarrow> take n (poke dst off bs) = take n dst"
  by (simp add: poke_def min_def)

lemma drop_poke_ge:
  "off + length bs \<le> n \<Longrightarrow> off \<le> length dst \<Longrightarrow> drop n (poke dst off bs) = drop n dst"
  by (simp add: poke_def)

subsection \<open>Big-endian integers\<close>

lemma unat_byte_lt [simp]: "unat (b :: byte) < 256"
  using unsigned_less [of b] by simp

lemma unat_byte_le [simp]: "unat (b :: byte) \<le> 255"
  using unat_byte_lt [of b] by linarith

lemma unat_u16_lt [simp]: "unat (b :: u16) < 65536"
  using unsigned_less [of b] by simp

lemma unat_u16_le [simp]: "unat (b :: u16) \<le> 65535"
  using unat_u16_lt [of b] by linarith

definition u16_bytes :: "u16 \<Rightarrow> bytes" where
  "u16_bytes value = [ucast (drop_bit 8 value), ucast value]"

definition u32_bytes :: "u32 \<Rightarrow> bytes" where
  "u32_bytes value =
     [ucast (drop_bit 24 value), ucast (drop_bit 16 value), ucast (drop_bit 8 value), ucast value]"

definition bytes_u16 :: "byte \<Rightarrow> byte \<Rightarrow> u16" where
  "bytes_u16 hi lo = push_bit 8 (ucast hi) OR ucast lo"

definition bytes_u32 :: "byte \<Rightarrow> byte \<Rightarrow> byte \<Rightarrow> byte \<Rightarrow> u32" where
  "bytes_u32 b0 b1 b2 b3 =
     push_bit 24 (ucast b0) OR push_bit 16 (ucast b1) OR push_bit 8 (ucast b2) OR ucast b3"

lemma length_u16_bytes [simp]: "length (u16_bytes v) = 2"
  by (simp add: u16_bytes_def)

lemma length_u32_bytes [simp]: "length (u32_bytes v) = 4"
  by (simp add: u32_bytes_def)

lemma byte_bit_ge: "8 \<le> n \<Longrightarrow> \<not> bit (b :: byte) n"
  by (auto dest: bit_imp_le_length)

lemma byte_bit_8_add [simp]: "\<not> bit (b :: byte) (8 + n)"
  by (rule byte_bit_ge) simp

lemma unat_ucast_byte_u16 [simp]: "unat (ucast (b :: byte) :: u16) = unat b"
  by (simp add: unsigned_ucast_eq take_bit_nat_eq_self order.strict_trans [OF unsigned_less])

lemma bytes_u16_inverse [simp]: "bytes_u16 (ucast (drop_bit 8 v)) (ucast v) = v"
  by (rule bit_word_eqI) (auto simp: bytes_u16_def bit_simps)

lemma bytes_u32_inverse [simp]:
  "bytes_u32 (ucast (drop_bit 24 v)) (ucast (drop_bit 16 v)) (ucast (drop_bit 8 v)) (ucast v) = v"
proof (rule bit_word_eqI)
  fix n
  assume "n < LENGTH(32)"
  then have "n < 32" by simp
  then consider "n < 8" | "8 \<le> n \<and> n < 16" | "16 \<le> n \<and> n < 24" | "24 \<le> n \<and> n < 32"
    by linarith
  then show "bit (bytes_u32 (ucast (drop_bit 24 v)) (ucast (drop_bit 16 v))
      (ucast (drop_bit 8 v)) (ucast v)) n = bit v n"
    by cases (auto simp: bytes_u32_def bit_simps)
qed

lemma u16_bytes_inverse: "u16_bytes (bytes_u16 a b) = [a, b]"
  by (auto simp: u16_bytes_def bytes_u16_def bit_simps intro!: bit_word_eqI)

lemma unat_bytes_u16: "unat (bytes_u16 a b) = 256 * unat a + unat b"
proof -
  have "bytes_u16 a b = push_bit 8 (ucast a) + ucast b"
    unfolding bytes_u16_def
    by (rule disjunctive_add [symmetric]) (auto simp: bit_simps dest: bit_imp_le_length)
  moreover have "unat (push_bit 8 (ucast a :: u16)) = 256 * unat a"
    using unat_byte_lt [of a]
    by (simp add: push_bit_eq_mult unat_word_ariths)
  moreover have "256 * unat a + unat b < 65536"
    using unat_byte_le [of a] unat_byte_le [of b] by linarith
  ultimately show ?thesis
    by (simp add: unat_word_ariths)
qed

subsection \<open>\<open>size_t\<close> arithmetic and casts\<close>

definition sz_add :: "nat \<Rightarrow> nat \<Rightarrow> nat" where
  "sz_add a b = (a + b) mod 2 ^ 64"

definition sz_mul :: "nat \<Rightarrow> nat \<Rightarrow> nat" where
  "sz_mul a b = (a * b) mod 2 ^ 64"

lemma sz_add_small: "a + b < 2 ^ 64 \<Longrightarrow> sz_add a b = a + b"
  by (simp add: sz_add_def)

abbreviation to_byte :: "nat \<Rightarrow> byte" where
  "to_byte n \<equiv> word_of_nat n"

lemma unat_to_byte: "n < 256 \<Longrightarrow> unat (to_byte n) = n"
  by (simp add: unat_of_nat)

text \<open>Payload arguments: \<open>payload_len == 0 || payload != NULL\<close>, and the bytes \<open>memcpy\<close> takes.\<close>

definition payload_valid :: "cptr \<Rightarrow> nat \<Rightarrow> bool" where
  "payload_valid payload payload_len \<longleftrightarrow> payload_len = 0 \<or> payload \<noteq> None"

definition mem :: "cptr \<Rightarrow> nat \<Rightarrow> bytes" where
  "mem p n = (case p of None \<Rightarrow> [] | Some bs \<Rightarrow> take n bs)"

lemma mem_Some [simp]: "mem (Some bs) n = take n bs"
  by (simp add: mem_def)

lemma poke_if_mem [simp]:
  "(if bs \<noteq> [] then poke dst off (mem (Some bs) (length bs)) else dst) = poke dst off bs"
  by simp

lemma mem_0 [simp]: "mem p 0 = []"
  by (simp add: mem_def split: option.split)

text \<open>The region \<open>d\<close> after a callee has been given \<open>&d[off]\<close> and left \<open>r\<close> there.\<close>

definition put_back :: "bytes \<Rightarrow> nat \<Rightarrow> cptr \<Rightarrow> bytes" where
  "put_back d off r = (case r of None \<Rightarrow> d | Some r \<Rightarrow> take off d @ r)"

lemma put_back_Some [simp]: "put_back d off (Some r) = take off d @ r"
  by (simp add: put_back_def)

text \<open>\<open>ngx_tolower\<close>: only the letters A to Z are changed.\<close>

definition ngx_tolower :: "byte \<Rightarrow> byte" where
  "ngx_tolower c = (if 65 \<le> c \<and> c \<le> 90 then c OR 32 else c)"

text \<open>The bytes of an ASCII literal, for the string constants of the code.\<close>

definition ascii :: "string \<Rightarrow> bytes" where
  "ascii s = map (\<lambda>c. of_char c) s"

lemma length_ascii [simp]: "length (ascii s) = length s"
  by (simp add: ascii_def)

lemma ascii_Nil [simp]: "ascii [] = []" and ascii_Cons [simp]: "ascii (c # s) = of_char c # ascii s"
  by (simp_all add: ascii_def)

text \<open>The C string in a buffer: the bytes before the first NUL.\<close>

definition cstr :: "bytes \<Rightarrow> bytes" where
  "cstr s = takeWhile (\<lambda>c. c \<noteq> 0) s"

lemma cstr_no_nul: "0 \<notin> set s \<Longrightarrow> cstr (s @ [0]) = s"
  by (induction s) (auto simp: cstr_def)

subsection \<open>Generic list facts\<close>

lemma drop_numeral_add_Cons [simp]:
  "drop (numeral k + n) (x # xs) = drop (pred_numeral k + n) xs"
  by (simp add: numeral_eq_Suc)

lemma drop_numeral_add2_Cons [simp]:
  "drop (numeral k + m + n) (x # xs) = drop (pred_numeral k + m + n) xs"
  by (simp add: numeral_eq_Suc)

lemma take_append_exact: "n = length xs \<Longrightarrow> take n (xs @ ys) = xs"
  by simp

lemma drop_append_exact: "n = length xs \<Longrightarrow> drop n (xs @ ys) = ys"
  by simp

lemma nth_append_first: "i < length xs \<Longrightarrow> (xs @ ys) ! i = xs ! i"
  by (simp add: nth_append)

end
