(* ===== verification/Mt_Framing.thy ===== *)
theory Mt_Framing
  imports Mt_Prelude
begin

text \<open>
  The interface of a self-delimiting wire format. Every message format of the module that is
  read from a byte stream (addresses, Trojan UDP frames, Mtrojan stream frames, SOCKS5
  requests) offers an encoder and a decoder that reports how many bytes it consumed; the
  loops that read them rely only on the three laws below.

  \<open>drain\<close> is the loop such a reader runs: decode one message from the front of the buffer,
  drop its bytes (the \<open>memmove\<close> of the code), and go on until the decoder refuses. The fuel
  is the length of the buffer, which is enough because no message is empty.
\<close>

fun drain :: "nat \<Rightarrow> (bytes \<Rightarrow> 'e + 'f \<times> nat) \<Rightarrow> bytes \<Rightarrow> 'f list \<times> bytes" where
  "drain 0 dec s = ([], s)"
| "drain (Suc fuel) dec s =
     (case dec s of
        Inl _ \<Rightarrow> ([], s)
      | Inr (f, n) \<Rightarrow> map_prod ((#) f) id (drain fuel dec (drop n s)))"

locale framing =
  fixes enc :: "'f \<Rightarrow> bytes"
    and dec :: "bytes \<Rightarrow> 'e + 'f \<times> nat"
    and ok :: "'f \<Rightarrow> bool"
  assumes dec_enc: "ok f \<Longrightarrow> dec (enc f @ rest) = Inr (f, length (enc f))"
    and dec_inv: "dec s = Inr (f, n) \<Longrightarrow> ok f \<and> (\<exists>rest. s = enc f @ rest) \<and> n = length (enc f)"
    and enc_nonempty: "ok f \<Longrightarrow> enc f \<noteq> []"
begin

lemma dec_enc_exact: "ok f \<Longrightarrow> dec (enc f) = Inr (f, length (enc f))"
  using dec_enc [of f "[]"] by simp

lemma dec_consumes: "dec s = Inr (f, n) \<Longrightarrow> 0 < n \<and> n \<le> length s \<and> take n s = enc f"
  using dec_inv [of s f n] enc_nonempty [of f] by auto

lemma dec_extend: "dec s = Inr (f, n) \<Longrightarrow> dec (s @ t) = Inr (f, n)"
  using dec_inv [of s f n] by (auto simp: dec_enc)

lemma prefix_free:
  assumes "ok f" "ok g" "enc f @ r = enc g @ s"
  shows "f = g \<and> r = s"
proof -
  from assms(1,2) have "Inr (f, length (enc f)) = dec (enc g @ s)"
    using dec_enc [OF assms(1), of r] by (simp add: assms(3))
  also have "\<dots> = Inr (g, length (enc g))"
    by (rule dec_enc [OF assms(2)])
  finally have "f = g" by simp
  with assms(3) show ?thesis by simp
qed

lemma enc_inj: "ok f \<Longrightarrow> ok g \<Longrightarrow> enc f = enc g \<Longrightarrow> f = g"
  using prefix_free [of f g "[]" "[]"] by simp

lemma proper_prefix_undecodable:
  assumes "ok f" "enc f = p @ q" "q \<noteq> []"
  shows "\<exists>e. dec p = Inl e"
proof (cases "dec p")
  case (Inr r)
  obtain g n where r: "r = (g, n)" by (cases r)
  with Inr have "dec (p @ q) = Inr (g, n)" using dec_extend by blast
  with assms dec_enc_exact [OF assms(1)] have "n = length (p @ q)" by simp
  moreover from Inr r have "n \<le> length p" using dec_consumes by blast
  ultimately show ?thesis using assms(3) by simp
qed simp

lemma drain_encoded:
  assumes "\<forall>f \<in> set fs. ok f" and "length fs \<le> fuel" and "dec rest = Inl e"
  shows "drain fuel dec (concat (map enc fs) @ rest) = (fs, rest)"
  using assms
proof (induction fs arbitrary: fuel)
  case Nil
  then show ?case by (cases fuel) auto
next
  case (Cons f fs)
  then obtain k where k: "fuel = Suc k" "length fs \<le> k" by (cases fuel) auto
  with Cons show ?case by (simp add: dec_enc)
qed

lemma drain_sound:
  "drain fuel dec s = (fs, rest) \<Longrightarrow>
   s = concat (map enc fs) @ rest \<and> (\<forall>f \<in> set fs. ok f)"
proof (induction fuel arbitrary: s fs)
  case 0
  then show ?case by simp
next
  case (Suc fuel)
  show ?case
  proof (cases "dec s")
    case (Inl e)
    with Suc.prems show ?thesis by simp
  next
    case (Inr r)
    obtain f n where r: "r = (f, n)" by (cases r)
    obtain gs where gs: "drain fuel dec (drop n s) = (gs, rest)" "fs = f # gs"
      using Suc.prems Inr r by (cases "drain fuel dec (drop n s)") auto
    from Inr r have f: "ok f" "take n s = enc f" using dec_inv dec_consumes by blast+
    from Suc.IH [OF gs(1)] have "drop n s = concat (map enc gs) @ rest" and "\<forall>f \<in> set gs. ok f"
      by auto
    moreover have "s = enc f @ drop n s"
      using f(2) append_take_drop_id [of n s] by simp
    ultimately show ?thesis using f(1) gs(2) by simp
  qed
qed

lemma drain_stops:
  "length s \<le> fuel \<Longrightarrow> drain fuel dec s = (fs, rest) \<Longrightarrow> rest = [] \<or> (\<exists>e. dec rest = Inl e)"
proof (induction fuel arbitrary: s fs)
  case 0
  then show ?case by simp
next
  case (Suc fuel)
  show ?case
  proof (cases "dec s")
    case (Inl e)
    with Suc.prems show ?thesis by auto
  next
    case (Inr r)
    obtain f n where r: "r = (f, n)" by (cases r)
    obtain gs where gs: "drain fuel dec (drop n s) = (gs, rest)"
      using Suc.prems Inr r by (cases "drain fuel dec (drop n s)") auto
    from Inr r have "0 < n \<and> n \<le> length s" using dec_consumes by blast
    with Suc.prems(1) have "length (drop n s) \<le> fuel" by auto
    then show ?thesis using gs by (rule Suc.IH)
  qed
qed

end

end
