(* ===== verification/Mt_Address.thy ===== *)
theory Mt_Address
  imports Mt_Framing
begin

text \<open>
  Target addresses (ngx_stream_mtrojan_protocol.h, ngx_stream_mtrojan_protocol.c): the
  address record shared by every protocol of the module, the validity checks on the enum
  values, and the length-prefixed address encoding of the Mtrojan wire format.

  C enum values are \<open>nat\<close> (they may hold values that are no enumerator until a validity
  check has passed). Status codes other than OK are the constructors of \<open>merr\<close>; a call that
  returns OK is \<open>Inr\<close> of what it stores through its result pointers. Result pointers
  themselves are the addresses of variables of the caller and are not NULL; every other
  pointer may be.
\<close>

subsection \<open>Constants and types\<close>

datatype merr = ERR_INVALID | ERR_AGAIN | ERR_NO_SPACE

definition ADDR_DATA_MAX_LEN :: nat where [wire_defs]: "ADDR_DATA_MAX_LEN = 255"
definition MAX_ADDR_LEN :: nat where [wire_defs]: "MAX_ADDR_LEN = 1 + 1 + ADDR_DATA_MAX_LEN + 2"
definition MAX_UDP_PAYLOAD :: nat where [wire_defs]: "MAX_UDP_PAYLOAD = 65535"
definition FLOW_ID_LEN :: nat where [wire_defs]: "FLOW_ID_LEN = 8"
definition KEY_NONCE_LEN :: nat where [wire_defs]: "KEY_NONCE_LEN = 12"
definition KEY_TCP_LEN_LEN :: nat where [wire_defs]: "KEY_TCP_LEN_LEN = 2"
definition KEY_TAG_LEN :: nat where [wire_defs]: "KEY_TAG_LEN = 16"
definition BOOTSTRAP_PAYLOAD_MAX :: nat where [wire_defs]: "BOOTSTRAP_PAYLOAD_MAX = 16384"
definition KEY_PLAIN_MAX :: nat where [wire_defs]: "KEY_PLAIN_MAX = 32768"

definition ADDR_IPV4 :: byte where [wire_defs]: "ADDR_IPV4 = 1"
definition ADDR_DOMAIN :: byte where [wire_defs]: "ADDR_DOMAIN = 3"
definition ADDR_IPV6 :: byte where [wire_defs]: "ADDR_IPV6 = 4"

definition PROTECT_BOOTSTRAP :: nat where [wire_defs]: "PROTECT_BOOTSTRAP = 0"
definition PROTECT_HANDSHAKE :: nat where [wire_defs]: "PROTECT_HANDSHAKE = 1"
definition PROTECT_FULL :: nat where [wire_defs]: "PROTECT_FULL = 2"

definition CMD_CONNECT :: nat where [wire_defs]: "CMD_CONNECT = 1"
definition CMD_ASSOCIATE :: nat where [wire_defs]: "CMD_ASSOCIATE = 3"

text \<open>\<open>host\<close> is the whole array of 255 bytes; \<open>host_len\<close> of them are in use.\<close>

record addr_t =
  addr_type :: byte
  addr_host :: bytes
  addr_host_len :: nat
  addr_port :: u16
  addr_wire_len :: nat

text \<open>\<open>memset(addr, 0, sizeof(*addr))\<close>\<close>

definition addr_zero :: addr_t where
  "addr_zero = \<lparr>addr_type = 0, addr_host = replicate 255 0, addr_host_len = 0,
                addr_port = 0, addr_wire_len = 0\<rparr>"

definition host_bytes :: "addr_t \<Rightarrow> bytes" where
  "host_bytes a = take (addr_host_len a) (addr_host a)"

subsection \<open>Validity of enum values and address lengths\<close>

definition valid_flow_protection :: "nat \<Rightarrow> bool" where
  [wire_defs]: "valid_flow_protection fp \<longleftrightarrow>
     fp = PROTECT_BOOTSTRAP \<or> fp = PROTECT_HANDSHAKE \<or> fp = PROTECT_FULL"

definition valid_no_key_flow_protection :: "nat \<Rightarrow> bool" where
  [wire_defs]: "valid_no_key_flow_protection fp \<longleftrightarrow> fp = PROTECT_BOOTSTRAP"

definition valid_cmd :: "nat \<Rightarrow> bool" where
  [wire_defs]: "valid_cmd cmd \<longleftrightarrow> cmd = CMD_CONNECT \<or> cmd = CMD_ASSOCIATE"

definition valid_addr :: "byte \<Rightarrow> nat \<Rightarrow> bool" where
  "valid_addr type addr_len =
     (if type = ADDR_IPV4 then addr_len = 4
      else if type = ADDR_IPV6 then addr_len = 16
      else if type = ADDR_DOMAIN then 0 < addr_len \<and> addr_len \<le> ADDR_DATA_MAX_LEN
      else False)"

subsection \<open>Reading and writing integers and addresses\<close>

definition write_u16 :: "bytes \<Rightarrow> nat \<Rightarrow> u16 \<Rightarrow> bytes" where
  [wire_defs]: "write_u16 dst off value = poke dst off (u16_bytes value)"

definition write_u32 :: "bytes \<Rightarrow> nat \<Rightarrow> u32 \<Rightarrow> bytes" where
  [wire_defs]: "write_u32 dst off value = poke dst off (u32_bytes value)"

definition read_u16 :: "bytes \<Rightarrow> u16" where
  "read_u16 src = bytes_u16 (src ! 0) (src ! 1)"

definition read_u32 :: "bytes \<Rightarrow> u32" where
  "read_u32 src = bytes_u32 (src ! 0) (src ! 1) (src ! 2) (src ! 3)"

definition addr_header_size :: "byte \<Rightarrow> nat \<Rightarrow> nat" where
  "addr_header_size type addr_len =
     (if \<not> valid_addr type addr_len then 0 else 1 + 1 + addr_len + 2)"

definition write_addr ::
  "cptr \<Rightarrow> byte \<Rightarrow> cptr \<Rightarrow> nat \<Rightarrow> u16 \<Rightarrow> (merr + nat) \<times> cptr" where
  "write_addr dst type addr addr_len port =
     (case (dst, addr) of
        (Some d, Some a) \<Rightarrow>
          if \<not> valid_addr type addr_len then (Inl ERR_INVALID, dst)
          else let need = addr_header_size type addr_len in
            if length d < need then (Inl ERR_NO_SPACE, dst)
            else let d = poke d 0 [type];
                     d = poke d 1 [to_byte addr_len];
                     d = poke d 2 (take addr_len a);
                     d = write_u16 d (2 + addr_len) port
                 in (Inr need, Some d)
      | _ \<Rightarrow> (Inl ERR_INVALID, dst))"

definition read_addr :: "cptr \<Rightarrow> merr + addr_t \<times> nat" where
  "read_addr src =
     (case src of
        None \<Rightarrow> Inl ERR_INVALID
      | Some s \<Rightarrow>
          if length s < 4 then Inl ERR_AGAIN
          else let type = s ! 0; addr_len = unat (s ! 1) in
            if \<not> valid_addr type addr_len then Inl ERR_INVALID
            else let need = addr_header_size type addr_len in
              if length s < need then Inl ERR_AGAIN
              else let addr = addr_zero\<lparr>addr_type := type, addr_host_len := addr_len\<rparr>;
                       addr = addr\<lparr>addr_host :=
                         poke (addr_host addr) 0 (take addr_len (drop 2 s))\<rparr>;
                       addr = addr\<lparr>addr_port := read_u16 (drop (2 + addr_len) s)\<rparr>;
                       addr = addr\<lparr>addr_wire_len := need\<rparr>
                   in Inr (addr, need))"

text \<open>\<open>ngx_stream_mtrojan_parse_addr\<close> drops the consumed count.\<close>

definition parse_addr :: "cptr \<Rightarrow> merr + addr_t" where
  "parse_addr buf = map_sum id fst (read_addr buf)"

subsection \<open>The address format and its two directions\<close>

text \<open>What the bytes mean, independent of the code: type, length, host, port.\<close>

definition addr_wire :: "byte \<Rightarrow> bytes \<Rightarrow> u16 \<Rightarrow> bytes" where
  "addr_wire type h port = [type, to_byte (length h)] @ h @ u16_bytes port"

definition addr_of :: "byte \<Rightarrow> bytes \<Rightarrow> u16 \<Rightarrow> nat \<Rightarrow> addr_t" where
  "addr_of type h port wire_len =
     \<lparr>addr_type = type, addr_host = h @ replicate (255 - length h) 0, addr_host_len = length h,
      addr_port = port, addr_wire_len = wire_len\<rparr>"

lemma read_u32_bytes [simp]: "read_u32 (u32_bytes v @ r) = v"
  by (simp add: read_u32_def u32_bytes_def)

lemma addr_of_simps [simp]:
  "addr_type (addr_of t h p w) = t" "addr_host_len (addr_of t h p w) = length h"
  "addr_port (addr_of t h p w) = p" "addr_wire_len (addr_of t h p w) = w"
  "host_bytes (addr_of t h p w) = h"
  "addr_host (addr_of t h p w) = h @ replicate (255 - length h) 0"
  by (simp_all add: addr_of_def host_bytes_def)

lemma length_addr_wire [simp]: "length (addr_wire t h p) = 4 + length h"
  by (simp add: addr_wire_def)

lemma valid_addr_cases:
  "valid_addr t n \<longleftrightarrow>
   t = ADDR_IPV4 \<and> n = 4 \<or> t = ADDR_IPV6 \<and> n = 16 \<or> t = ADDR_DOMAIN \<and> 0 < n \<and> n \<le> 255"
  by (auto simp: valid_addr_def wire_defs)

lemma valid_addr_bounds: "valid_addr t n \<Longrightarrow> 0 < n \<and> n \<le> 255"
  by (auto simp: valid_addr_cases)

lemma addr_header_size_valid [simp]: "valid_addr t n \<Longrightarrow> addr_header_size t n = 4 + n"
  by (simp add: addr_header_size_def)

lemma addr_header_size_0 [simp]: "addr_header_size t n = 0 \<longleftrightarrow> \<not> valid_addr t n"
  by (simp add: addr_header_size_def)

lemma write_addr_Inr:
  assumes "valid_addr t n" "n \<le> length a" "4 + n \<le> length d"
  shows "write_addr (Some d) t (Some a) n p =
         (Inr (4 + n), Some (addr_wire t (take n a) p @ drop (4 + n) d))"
proof -
  obtain d0 d1 d2 where d: "d = d0 # d1 # d2" "2 + n \<le> length d2"
    using assms(3) by (cases d; cases "tl d") auto
  have "poke (take n a @ drop n d2) n (u16_bytes p) = take n a @ u16_bytes p @ drop (n + 2) d2"
    using assms(2) by (subst poke_append) simp_all
  with assms d show ?thesis
    by (simp add: write_addr_def write_u16_def addr_wire_def)
qed

lemma write_addr_NULL [simp]: "write_addr dst t None n p = (Inl ERR_INVALID, dst)"
  by (simp add: write_addr_def split: option.split)

lemma write_addr_invalid [simp]:
  "\<not> valid_addr t n \<Longrightarrow> write_addr dst t a n p = (Inl ERR_INVALID, dst)"
  by (simp add: write_addr_def split: option.split)

lemma write_addr_no_space:
  "valid_addr t n \<Longrightarrow> length d < 4 + n \<Longrightarrow>
   write_addr (Some d) t (Some a) n p = (Inl ERR_NO_SPACE, Some d)"
  by (simp add: write_addr_def)

lemma read_addr_wire:
  assumes "valid_addr t (length h)"
  shows "read_addr (Some (addr_wire t h p @ rest)) = Inr (addr_of t h p (4 + length h), 4 + length h)"
proof -
  from assms have n: "unat (to_byte (length h)) = length h"
    using valid_addr_bounds [OF assms] by (simp add: unat_to_byte)
  from assms n show ?thesis
    using valid_addr_bounds [OF assms]
    by (simp add: read_addr_def addr_wire_def addr_zero_def addr_of_def read_u16_def u16_bytes_def
        Let_def)
qed

lemma split_addr_wire:
  assumes "4 + n \<le> length s" "n = unat (s ! 1)"
  shows "s = addr_wire (s ! 0) (take n (drop 2 s)) (read_u16 (drop (2 + n) s)) @ drop (4 + n) s"
proof -
  from assms(1) obtain d0 d1 d2 where s: "s = d0 # d1 # d2" "2 + n \<le> length d2"
    by (cases s; cases "tl s") auto
  then obtain x y r where r: "drop n d2 = x # y # r"
    by (cases "drop n d2"; cases "tl (drop n d2)") (auto dest!: arg_cong [where f = length])
  then have "d2 = take n d2 @ x # y # r"
    by (metis append_take_drop_id)
  moreover have "drop (2 + n) d2 = r"
    using r by (metis drop_drop drop_Suc_Cons drop_0 numeral_2_eq_2)
  ultimately show ?thesis
    using s assms(2) r
    by (simp add: addr_wire_def read_u16_def u16_bytes_inverse)
qed

lemma read_addr_inv:
  assumes "read_addr (Some s) = Inr (a, n)"
  obtains t h p rest where "s = addr_wire t h p @ rest" "valid_addr t (length h)"
    "a = addr_of t h p (4 + length h)" "n = 4 + length h"
proof -
  define m where "m = unat (s ! 1)"
  from assms have v: "valid_addr (s ! 0) m" "4 + m \<le> length s"
    by (auto simp: read_addr_def m_def Let_def split: if_splits)
  define h where "h = take m (drop 2 s)"
  from v have h: "length h = m" by (simp add: h_def)
  have s: "s = addr_wire (s ! 0) h (read_u16 (drop (2 + m) s)) @ drop (4 + m) s"
    unfolding h_def by (rule split_addr_wire [OF v(2) m_def])
  have "read_addr (Some s) = Inr (addr_of (s ! 0) h (read_u16 (drop (2 + m) s)) (4 + m), 4 + m)"
    using read_addr_wire [of "s ! 0" h "read_u16 (drop (2 + m) s)" "drop (4 + m) s"] v h s
    by simp
  with assms s v h show thesis by (intro that) auto
qed

subsection \<open>The address codec as a framing\<close>

definition mt_addr_ok :: "addr_t \<Rightarrow> bool" where
  "mt_addr_ok a \<longleftrightarrow>
     valid_addr (addr_type a) (addr_host_len a) \<and> addr_wire_len a = 4 + addr_host_len a \<and>
     addr_host a = host_bytes a @ replicate (255 - addr_host_len a) 0 \<and>
     length (host_bytes a) = addr_host_len a"

definition mt_addr_enc :: "addr_t \<Rightarrow> bytes" where
  "mt_addr_enc a = addr_wire (addr_type a) (host_bytes a) (addr_port a)"

lemma mt_addr_ok_of:
  "mt_addr_ok (addr_of t h p w) \<longleftrightarrow> valid_addr t (length h) \<and> w = 4 + length h"
  by (auto simp: mt_addr_ok_def)

lemma mt_addr_enc_of [simp]: "mt_addr_enc (addr_of t h p w) = addr_wire t h p"
  by (simp add: mt_addr_enc_def)

lemma mt_addr_okE:
  assumes "mt_addr_ok a"
  obtains t h p where "a = addr_of t h p (4 + length h)" "valid_addr t (length h)"
  using assms
  by (intro that [of "addr_type a" "host_bytes a" "addr_port a"])
    (auto simp: mt_addr_ok_def addr_of_def intro!: addr_t.equality)

interpretation addr_codec: framing mt_addr_enc "\<lambda>s. read_addr (Some s)" mt_addr_ok
proof unfold_locales
  fix a rest
  assume "mt_addr_ok a"
  then show "read_addr (Some (mt_addr_enc a @ rest)) = Inr (a, length (mt_addr_enc a))"
    by (elim mt_addr_okE) (simp add: read_addr_wire)
next
  fix s a n
  assume "read_addr (Some s) = Inr (a, n)"
  then show "mt_addr_ok a \<and> (\<exists>rest. s = mt_addr_enc a @ rest) \<and> n = length (mt_addr_enc a)"
    by (elim read_addr_inv) (simp add: mt_addr_ok_of)
next
  fix a
  show "mt_addr_enc a \<noteq> []" by (simp add: mt_addr_enc_def addr_wire_def)
qed

text \<open>
  Incremental parsing of an address. The parser asks for more bytes on exactly the
  byte strings that are too short: those of fewer than four bytes, and those whose first two
  bytes announce a valid type and length while the announced bytes are not all there. On
  every other string it either accepts or rejects for good.
\<close>

theorem read_addr_again_iff:
  "read_addr (Some s) = Inl ERR_AGAIN \<longleftrightarrow>
     length s < 4 \<or>
     (valid_addr (s ! 0) (unat (s ! 1)) \<and> length s < addr_header_size (s ! 0) (unat (s ! 1)))"
  by (auto simp: read_addr_def Let_def split: if_splits)

end
