(* ===== verification/Mt_Frames.thy ===== *)
theory Mt_Frames
  imports Mt_Address
begin

text \<open>
  The Mtrojan frames without a shared key (ngx_stream_mtrojan_protocol.c): the TCP bootstrap,
  the UDP init and data datagrams, and the length-prefixed UDP frame of a stream. An encoder
  takes the output region and returns the status with the region as it leaves it; a decoder
  returns the record it fills and the number of bytes it consumed. A \<open>payload\<close> field holds
  the \<open>payload_len\<close> bytes the pointer of the C record addresses.
\<close>

subsection \<open>Packet classes, flow identifiers, nonces\<close>

definition PACKET_DATA :: nat where [wire_defs]: "PACKET_DATA = 0x00"
definition PACKET_INIT :: nat where [wire_defs]: "PACKET_INIT = 0x80"
definition PACKET_RESERVED2 :: nat where [wire_defs]: "PACKET_RESERVED2 = 0xc0"

definition TCP_BASE_LEN :: nat where [wire_defs]: "TCP_BASE_LEN = 6"
definition UDP_INIT_BASE_LEN :: nat where [wire_defs]: "UDP_INIT_BASE_LEN = 1 + FLOW_ID_LEN + 4"
definition UDP_DATA_BASE_LEN :: nat where [wire_defs]: "UDP_DATA_BASE_LEN = FLOW_ID_LEN"
definition UDP_STREAM_LEN_PREFIX :: nat where [wire_defs]: "UDP_STREAM_LEN_PREFIX = 2"

definition udp_packet_class :: "cptr \<Rightarrow> nat" where
  "udp_packet_class src =
     (case src of
        None \<Rightarrow> PACKET_RESERVED2
      | Some s \<Rightarrow> if length s = 0 then PACKET_RESERVED2 else unat ((s ! 0) AND 0xc0))"

definition flow_id_prepare :: "cptr \<Rightarrow> cptr" where
  "flow_id_prepare flow_id = map_option (\<lambda>f. poke f 0 [(f ! 0) AND 0x3f]) flow_id"

definition flow_id_valid :: "cptr \<Rightarrow> bool" where
  "flow_id_valid flow_id =
     (case flow_id of None \<Rightarrow> False | Some f \<Rightarrow> unat ((f ! 0) AND 0xc0) = PACKET_DATA)"

definition key_udp_nonce_prepare :: "cptr \<Rightarrow> cptr" where
  "key_udp_nonce_prepare nonce =
     map_option (\<lambda>n. poke n 0 [((n ! 0) AND 0x3f) OR to_byte PACKET_INIT]) nonce"

definition key_udp_nonce_valid :: "cptr \<Rightarrow> bool" where
  "key_udp_nonce_valid nonce =
     (case nonce of None \<Rightarrow> False | Some n \<Rightarrow> unat ((n ! 0) AND 0xc0) = PACKET_INIT)"

subsection \<open>TCP bootstrap\<close>

record tcp_bootstrap_t =
  tb_cmd :: nat
  tb_flow_protection :: nat
  tb_addr :: addr_t
  tb_payload :: bytes

definition tcp_bootstrap_header_size :: "byte \<Rightarrow> nat \<Rightarrow> nat" where
  "tcp_bootstrap_header_size type addr_len =
     (if \<not> valid_addr type addr_len then 0 else 2 + addr_header_size type addr_len)"

definition tcp_bootstrap_size :: "byte \<Rightarrow> nat \<Rightarrow> nat \<Rightarrow> nat" where
  "tcp_bootstrap_size type addr_len payload_len =
     (let header = tcp_bootstrap_header_size type addr_len in
      if header = 0 \<or> payload_len > BOOTSTRAP_PAYLOAD_MAX then 0 else header + payload_len)"

definition encode_tcp_bootstrap_impl ::
  "cptr \<Rightarrow> nat \<Rightarrow> nat \<Rightarrow> byte \<Rightarrow> cptr \<Rightarrow> nat \<Rightarrow> u16 \<Rightarrow> cptr \<Rightarrow> nat \<Rightarrow> bool
    \<Rightarrow> (merr + nat) \<times> cptr" where
  "encode_tcp_bootstrap_impl dst cmd flow_protection type addr addr_len port
       payload payload_len key_mode =
     (case dst of
        None \<Rightarrow> (Inl ERR_INVALID, dst)
      | Some d \<Rightarrow>
          if \<not> valid_cmd cmd
             \<or> \<not> (if key_mode then valid_flow_protection flow_protection
                   else valid_no_key_flow_protection flow_protection)
             \<or> \<not> payload_valid payload payload_len
          then (Inl ERR_INVALID, dst)
          else let need = tcp_bootstrap_size type addr_len payload_len in
            if need = 0 then (Inl ERR_INVALID, dst)
            else if length d < need then (Inl ERR_NO_SPACE, dst)
            else
              let d = poke d 0 [to_byte cmd];
                  d = poke d 1 [to_byte flow_protection]
              in case write_addr (Some (drop 2 d)) type addr addr_len port of
                   (Inl rc, r) \<Rightarrow> (Inl rc, Some (put_back d 2 r))
                 | (Inr addr_written, r) \<Rightarrow>
                     let d = put_back d 2 r;
                         d = (if payload_len \<noteq> 0
                              then poke d (2 + addr_written) (mem payload payload_len) else d)
                     in (Inr need, Some d))"

definition encode_tcp_bootstrap ::
  "cptr \<Rightarrow> nat \<Rightarrow> nat \<Rightarrow> byte \<Rightarrow> cptr \<Rightarrow> nat \<Rightarrow> u16 \<Rightarrow> cptr \<Rightarrow> nat
    \<Rightarrow> (merr + nat) \<times> cptr" where
  "encode_tcp_bootstrap dst cmd flow_protection type addr addr_len port payload payload_len =
     encode_tcp_bootstrap_impl dst cmd flow_protection type addr addr_len port
       payload payload_len False"

definition decode_tcp_bootstrap_impl :: "cptr \<Rightarrow> bool \<Rightarrow> merr + tcp_bootstrap_t \<times> nat" where
  "decode_tcp_bootstrap_impl src key_mode =
     (case src of
        None \<Rightarrow> Inl ERR_INVALID
      | Some s \<Rightarrow>
          if length s < TCP_BASE_LEN then Inl ERR_AGAIN
          else let cmd = unat (s ! 0) in
            if \<not> valid_cmd cmd then Inl ERR_INVALID
            else let flow_protection = unat (s ! 1) in
              if \<not> (if key_mode then valid_flow_protection flow_protection
                     else valid_no_key_flow_protection flow_protection)
              then Inl ERR_INVALID
              else case read_addr (Some (drop 2 s)) of
                  Inl rc \<Rightarrow> Inl rc
                | Inr (addr, addr_consumed) \<Rightarrow>
                    Inr (\<lparr>tb_cmd = cmd, tb_flow_protection = flow_protection, tb_addr = addr,
                          tb_payload = drop (2 + addr_consumed) s\<rparr>, 2 + addr_consumed))"

definition decode_tcp_bootstrap :: "cptr \<Rightarrow> merr + tcp_bootstrap_t \<times> nat" where
  "decode_tcp_bootstrap src = decode_tcp_bootstrap_impl src False"

subsection \<open>UDP init datagram\<close>

record udp_init_t =
  ui_flow_protection :: nat
  ui_flow_id :: bytes
  ui_addr :: addr_t
  ui_payload :: bytes

definition udp_init_size :: "byte \<Rightarrow> nat \<Rightarrow> nat \<Rightarrow> nat" where
  "udp_init_size type addr_len payload_len =
     (let addr_header = addr_header_size type addr_len in
      if addr_header = 0 \<or> payload_len > BOOTSTRAP_PAYLOAD_MAX then 0
      else 1 + FLOW_ID_LEN + addr_header + payload_len)"

definition encode_udp_init ::
  "cptr \<Rightarrow> nat \<Rightarrow> cptr \<Rightarrow> byte \<Rightarrow> cptr \<Rightarrow> nat \<Rightarrow> u16 \<Rightarrow> cptr \<Rightarrow> nat
    \<Rightarrow> (merr + nat) \<times> cptr" where
  "encode_udp_init dst flow_protection flow_id type addr addr_len port payload payload_len =
     (case dst of
        None \<Rightarrow> (Inl ERR_INVALID, dst)
      | Some d \<Rightarrow>
          if \<not> valid_no_key_flow_protection flow_protection \<or> \<not> flow_id_valid flow_id
             \<or> \<not> payload_valid payload payload_len
          then (Inl ERR_INVALID, dst)
          else let need = udp_init_size type addr_len payload_len in
            if need = 0 then (Inl ERR_INVALID, dst)
            else if length d < need then (Inl ERR_NO_SPACE, dst)
            else
              let d = poke d 0 [to_byte PACKET_INIT OR (to_byte flow_protection AND 0x3f)];
                  d = poke d 1 (mem flow_id FLOW_ID_LEN)
              in case write_addr (Some (drop (1 + FLOW_ID_LEN) d)) type addr addr_len port of
                   (Inl rc, r) \<Rightarrow> (Inl rc, Some (put_back d (1 + FLOW_ID_LEN) r))
                 | (Inr addr_written, r) \<Rightarrow>
                     let d = put_back d (1 + FLOW_ID_LEN) r;
                         d = (if payload_len \<noteq> 0
                              then poke d (1 + FLOW_ID_LEN + addr_written)
                                     (mem payload payload_len) else d)
                     in (Inr need, Some d))"

definition decode_udp_init :: "cptr \<Rightarrow> merr + udp_init_t \<times> nat" where
  "decode_udp_init src =
     (case src of
        None \<Rightarrow> Inl ERR_INVALID
      | Some s \<Rightarrow>
          if length s < UDP_INIT_BASE_LEN then Inl ERR_AGAIN
          else if udp_packet_class (Some s) \<noteq> PACKET_INIT then Inl ERR_INVALID
          else let flow_protection = unat ((s ! 0) AND 0x3f) in
            if \<not> valid_no_key_flow_protection flow_protection \<or> \<not> flow_id_valid (Some (drop 1 s))
            then Inl ERR_INVALID
            else case read_addr (Some (drop (1 + FLOW_ID_LEN) s)) of
                Inl rc \<Rightarrow> Inl rc
              | Inr (addr, addr_consumed) \<Rightarrow>
                  Inr (\<lparr>ui_flow_protection = flow_protection,
                        ui_flow_id = take FLOW_ID_LEN (drop 1 s), ui_addr = addr,
                        ui_payload = drop (1 + FLOW_ID_LEN + addr_consumed) s\<rparr>,
                       1 + FLOW_ID_LEN + addr_consumed))"

subsection \<open>UDP data datagram\<close>

record udp_data_t =
  ud_flow_id :: bytes
  ud_payload :: bytes

definition udp_data_size :: "nat \<Rightarrow> nat" where
  "udp_data_size payload_len = sz_add FLOW_ID_LEN payload_len"

definition encode_udp_data :: "cptr \<Rightarrow> cptr \<Rightarrow> cptr \<Rightarrow> nat \<Rightarrow> (merr + nat) \<times> cptr" where
  "encode_udp_data dst flow_id payload payload_len =
     (case dst of
        None \<Rightarrow> (Inl ERR_INVALID, dst)
      | Some d \<Rightarrow>
          if \<not> flow_id_valid flow_id \<or> \<not> payload_valid payload payload_len
          then (Inl ERR_INVALID, dst)
          else let need = udp_data_size payload_len in
            if length d < need then (Inl ERR_NO_SPACE, dst)
            else let d = poke d 0 (mem flow_id FLOW_ID_LEN);
                     d = (if payload_len \<noteq> 0
                          then poke d FLOW_ID_LEN (mem payload payload_len) else d)
                 in (Inr need, Some d))"

definition decode_udp_data :: "cptr \<Rightarrow> merr + udp_data_t \<times> nat" where
  "decode_udp_data src =
     (case src of
        None \<Rightarrow> Inl ERR_INVALID
      | Some s \<Rightarrow>
          if length s < UDP_DATA_BASE_LEN then Inl ERR_AGAIN
          else if udp_packet_class (Some s) \<noteq> PACKET_DATA then Inl ERR_INVALID
          else Inr (\<lparr>ud_flow_id = take FLOW_ID_LEN s, ud_payload = drop FLOW_ID_LEN s\<rparr>, length s))"

subsection \<open>UDP frame of a stream\<close>

record udp_stream_frame_t =
  us_addr :: addr_t
  us_payload :: bytes

definition udp_stream_frame_size :: "byte \<Rightarrow> nat \<Rightarrow> nat \<Rightarrow> nat" where
  "udp_stream_frame_size type addr_len payload_len =
     (let addr_header = addr_header_size type addr_len in
      if addr_header = 0 then 0
      else let frame_len = sz_add addr_header payload_len in
        if frame_len > 65535 then 0 else UDP_STREAM_LEN_PREFIX + frame_len)"

definition encode_udp_stream_frame ::
  "cptr \<Rightarrow> byte \<Rightarrow> cptr \<Rightarrow> nat \<Rightarrow> u16 \<Rightarrow> cptr \<Rightarrow> nat \<Rightarrow> (merr + nat) \<times> cptr" where
  "encode_udp_stream_frame dst type addr addr_len port payload payload_len =
     (case dst of
        None \<Rightarrow> (Inl ERR_INVALID, dst)
      | Some d \<Rightarrow>
          if \<not> payload_valid payload payload_len then (Inl ERR_INVALID, dst)
          else let need = udp_stream_frame_size type addr_len payload_len in
            if need = 0 then (Inl ERR_INVALID, dst)
            else if length d < need then (Inl ERR_NO_SPACE, dst)
            else
              let frame_len = need - UDP_STREAM_LEN_PREFIX;
                  d = write_u16 d 0 (word_of_nat frame_len)
              in case write_addr (Some (drop UDP_STREAM_LEN_PREFIX d)) type addr addr_len port of
                   (Inl rc, r) \<Rightarrow> (Inl rc, Some (put_back d UDP_STREAM_LEN_PREFIX r))
                 | (Inr addr_written, r) \<Rightarrow>
                     let d = put_back d UDP_STREAM_LEN_PREFIX r;
                         d = (if payload_len \<noteq> 0
                              then poke d (UDP_STREAM_LEN_PREFIX + addr_written)
                                     (mem payload payload_len) else d)
                     in (Inr need, Some d))"

definition decode_udp_stream_frame :: "cptr \<Rightarrow> merr + udp_stream_frame_t \<times> nat" where
  "decode_udp_stream_frame src =
     (case src of
        None \<Rightarrow> Inl ERR_INVALID
      | Some s \<Rightarrow>
          if length s < UDP_STREAM_LEN_PREFIX then Inl ERR_AGAIN
          else let frame_len = unat (read_u16 s); need = UDP_STREAM_LEN_PREFIX + frame_len in
            if length s < need then Inl ERR_AGAIN
            else case read_addr (Some (take frame_len (drop UDP_STREAM_LEN_PREFIX s))) of
                Inl rc \<Rightarrow> Inl rc
              | Inr (addr, addr_consumed) \<Rightarrow>
                  Inr (\<lparr>us_addr = addr,
                        us_payload = take (frame_len - addr_consumed)
                          (drop (UDP_STREAM_LEN_PREFIX + addr_consumed) s)\<rparr>, need))"

subsection \<open>The wire formats\<close>

definition tcp_wire :: "nat \<Rightarrow> nat \<Rightarrow> byte \<Rightarrow> bytes \<Rightarrow> u16 \<Rightarrow> bytes \<Rightarrow> bytes" where
  "tcp_wire cmd fp t h port pl = [to_byte cmd, to_byte fp] @ addr_wire t h port @ pl"

definition udp_init_wire :: "bytes \<Rightarrow> byte \<Rightarrow> bytes \<Rightarrow> u16 \<Rightarrow> bytes \<Rightarrow> bytes" where
  "udp_init_wire fid t h port pl = 0x80 # fid @ addr_wire t h port @ pl"

definition stream_wire :: "byte \<Rightarrow> bytes \<Rightarrow> u16 \<Rightarrow> bytes \<Rightarrow> bytes" where
  "stream_wire t h port pl =
     u16_bytes (word_of_nat (4 + (length h + length pl))) @ addr_wire t h port @ pl"

lemma length_wires [simp]:
  "length (tcp_wire cmd fp t h port pl) = 6 + length h + length pl"
  "length (udp_init_wire fid t h port pl) = 5 + length fid + length h + length pl"
  "length (stream_wire t h port pl) = 6 + length h + length pl"
  by (simp_all add: tcp_wire_def udp_init_wire_def stream_wire_def)

lemma tcp_bootstrap_size_valid:
  "valid_addr t n \<Longrightarrow> m \<le> BOOTSTRAP_PAYLOAD_MAX \<Longrightarrow> tcp_bootstrap_size t n m = 6 + n + m"
  by (simp add: tcp_bootstrap_size_def tcp_bootstrap_header_size_def)

lemma udp_init_size_valid:
  "valid_addr t n \<Longrightarrow> m \<le> BOOTSTRAP_PAYLOAD_MAX \<Longrightarrow> udp_init_size t n m = 13 + n + m"
  by (simp add: udp_init_size_def FLOW_ID_LEN_def)

lemma udp_stream_frame_size_valid:
  "valid_addr t n \<Longrightarrow> 4 + n + m \<le> 65535 \<Longrightarrow> udp_stream_frame_size t n m = 6 + n + m"
  by (simp add: udp_stream_frame_size_def sz_add_small UDP_STREAM_LEN_PREFIX_def)

text \<open>
  The tail every address-carrying encoder shares: \<open>write_addr\<close> at \<open>&d[k]\<close>, then the payload
  behind it.
\<close>

lemma addr_payload_tail:
  assumes "valid_addr t (length h)" "length d = k + length d2" "4 + length h + length pl \<le> length d2"
    and "take k d = d1" "drop k d = d2"
  shows "\<exists>r. write_addr (Some (drop k d)) t (Some h) (length h) port = (Inr (4 + length h), r) \<and>
     poke (put_back d k r) (k + (4 + length h)) pl =
     d1 @ addr_wire t h port @ pl @ drop (4 + length h + length pl) d2"
proof -
  have w: "write_addr (Some (drop k d)) t (Some h) (length h) port =
      (Inr (4 + length h), Some (addr_wire t h port @ drop (4 + length h) d2))"
    using assms write_addr_Inr [of t "length h" h d2 port] by simp
  have k: "length d1 = k" using assms(2,4) by auto
  have "put_back d k (Some (addr_wire t h port @ drop (4 + length h) d2)) =
      (d1 @ addr_wire t h port) @ drop (4 + length h) d2"
    using assms(4) by simp
  moreover have "poke ((d1 @ addr_wire t h port) @ drop (4 + length h) d2) (k + (4 + length h)) pl =
      (d1 @ addr_wire t h port) @ pl @ drop (length pl) (drop (4 + length h) d2)"
    by (rule poke_append) (simp add: k)
  ultimately show ?thesis using w by (auto simp: add.commute)
qed

subsection \<open>TCP bootstrap: encoder, decoder, round trip\<close>

lemma encode_tcp_bootstrap_impl_ok:
  assumes "valid_cmd cmd" "if km then valid_flow_protection fp else valid_no_key_flow_protection fp"
    and "valid_addr t (length h)" "length pl \<le> BOOTSTRAP_PAYLOAD_MAX"
    and d: "6 + length h + length pl \<le> length d"
  shows "encode_tcp_bootstrap_impl (Some d) cmd fp t (Some h) (length h) port
           (Some pl) (length pl) km =
         (Inr (6 + length h + length pl),
          Some (tcp_wire cmd fp t h port pl @ drop (6 + length h + length pl) d))"
proof -
  obtain d0 d1 d2 where d2: "d = d0 # d1 # d2" "4 + length h + length pl \<le> length d2"
    using d by (cases d; cases "tl d") auto
  define e where "e = to_byte cmd # to_byte fp # d2"
  have e: "poke (poke d 0 [to_byte cmd]) 1 [to_byte fp] = e"
    using d2 by (simp add: e_def)
  obtain r where r: "write_addr (Some (drop 2 e)) t (Some h) (length h) port = (Inr (4 + length h), r)"
    "poke (put_back e 2 r) (2 + (4 + length h)) pl =
     [to_byte cmd, to_byte fp] @ addr_wire t h port @ pl @ drop (4 + length h + length pl) d2"
    using addr_payload_tail [OF assms(3), of e 2 d2 pl "[to_byte cmd, to_byte fp]" port] d2
    by (auto simp: e_def)
  have "drop (6 + length h + length pl) d = drop (4 + length h + length pl) d2"
    using d2 by simp
  with r e assms d show ?thesis
    by (simp add: encode_tcp_bootstrap_impl_def payload_valid_def tcp_bootstrap_size_valid
        tcp_wire_def Let_def del: poke_0)
qed

lemma valid_cmd_byte: "valid_cmd cmd \<Longrightarrow> unat (to_byte cmd) = cmd"
  by (auto simp: wire_defs)

lemma valid_fp_byte: "valid_flow_protection fp \<Longrightarrow> unat (to_byte fp) = fp"
  by (auto simp: wire_defs)

lemma valid_no_key_fp: "valid_no_key_flow_protection fp \<Longrightarrow> valid_flow_protection fp"
  by (simp add: wire_defs)

lemma decode_tcp_bootstrap_impl_wire:
  assumes "valid_cmd cmd" "if km then valid_flow_protection fp else valid_no_key_flow_protection fp"
    and "valid_addr t (length h)"
  shows "decode_tcp_bootstrap_impl (Some (tcp_wire cmd fp t h port pl)) km =
         Inr (\<lparr>tb_cmd = cmd, tb_flow_protection = fp, tb_addr = addr_of t h port (4 + length h),
               tb_payload = pl\<rparr>, 6 + length h)"
proof -
  have fp: "unat (to_byte fp) = fp"
    using assms(2) by (auto intro: valid_fp_byte valid_no_key_fp split: if_splits)
  have "drop (4 + length h) (addr_wire t h port @ pl) = pl"
    by (rule drop_append_exact) simp
  with assms fp valid_cmd_byte [OF assms(1)] valid_addr_bounds [OF assms(3)]
  show ?thesis
    by (simp add: decode_tcp_bootstrap_impl_def tcp_wire_def read_addr_wire TCP_BASE_LEN_def Let_def)
qed

lemma decode_tcp_bootstrap_impl_inv:
  assumes "decode_tcp_bootstrap_impl (Some s) km = Inr (b, n)"
  obtains cmd fp t h port pl where "s = tcp_wire cmd fp t h port pl" "valid_cmd cmd"
    "if km then valid_flow_protection fp else valid_no_key_flow_protection fp"
    "valid_addr t (length h)" "n = 6 + length h"
    "b = \<lparr>tb_cmd = cmd, tb_flow_protection = fp, tb_addr = addr_of t h port (4 + length h),
          tb_payload = pl\<rparr>"
proof -
  from assms obtain a m where am: "read_addr (Some (drop 2 s)) = Inr (a, m)"
    and v: "valid_cmd (unat (s ! 0))" "6 \<le> length s"
      "if km then valid_flow_protection (unat (s ! 1))
       else valid_no_key_flow_protection (unat (s ! 1))"
    and b: "b = \<lparr>tb_cmd = unat (s ! 0), tb_flow_protection = unat (s ! 1), tb_addr = a,
                 tb_payload = drop (2 + m) s\<rparr>" "n = 2 + m"
    by (auto simp: decode_tcp_bootstrap_impl_def TCP_BASE_LEN_def Let_def split: if_splits sum.splits)
  from am obtain t h p rest where w: "drop 2 s = addr_wire t h p @ rest" "valid_addr t (length h)"
      "a = addr_of t h p (4 + length h)" "m = 4 + length h"
    by (rule read_addr_inv)
  obtain x y z where s: "s = x # y # z"
    using v(2) by (cases s; cases "tl s") auto
  from w s have "drop (2 + m) s = rest" by simp
  with s w v b show thesis
    by (intro that [of "unat x" "unat y" t h p rest]) (auto simp: tcp_wire_def)
qed

text \<open>
  C33: TCP bootstrap round trip. For a valid command, address and payload of at most 16384
  bytes, and an output region that is large enough, encoding succeeds, reports the number of
  bytes written, leaves every byte behind them as it was and keeps the region's length (it
  writes inside the region only); decoding exactly the bytes written returns the command, the
  protection, the address and the payload that went in, and the header length as consumed.
\<close>

theorem tcp_bootstrap_roundtrip:
  assumes "valid_cmd cmd" "valid_addr t (length h)" "length pl \<le> BOOTSTRAP_PAYLOAD_MAX"
    and "tcp_bootstrap_size t (length h) (length pl) \<le> length d"
  shows "\<exists>n d'. encode_tcp_bootstrap (Some d) cmd PROTECT_BOOTSTRAP t (Some h) (length h) port
                (Some pl) (length pl) = (Inr n, Some d') \<and>
              n = tcp_bootstrap_size t (length h) (length pl) \<and>
              length d' = length d \<and> drop n d' = drop n d \<and>
              decode_tcp_bootstrap (Some (take n d')) =
                Inr (\<lparr>tb_cmd = cmd, tb_flow_protection = PROTECT_BOOTSTRAP,
                      tb_addr = addr_of t h port (4 + length h), tb_payload = pl\<rparr>,
                     tcp_bootstrap_header_size t (length h))"
proof -
  have fp: "valid_no_key_flow_protection PROTECT_BOOTSTRAP" by (simp add: wire_defs)
  let ?w = "tcp_wire cmd PROTECT_BOOTSTRAP t h port pl"
  have sz: "tcp_bootstrap_size t (length h) (length pl) = length ?w"
    using assms by (simp add: tcp_bootstrap_size_valid)
  have "encode_tcp_bootstrap (Some d) cmd PROTECT_BOOTSTRAP t (Some h) (length h) port
          (Some pl) (length pl) = (Inr (length ?w), Some (?w @ drop (length ?w) d))"
    using assms fp sz encode_tcp_bootstrap_impl_ok [of cmd False PROTECT_BOOTSTRAP t h pl d port]
    by (simp add: encode_tcp_bootstrap_def)
  moreover have "decode_tcp_bootstrap (Some ?w) =
      Inr (\<lparr>tb_cmd = cmd, tb_flow_protection = PROTECT_BOOTSTRAP,
            tb_addr = addr_of t h port (4 + length h), tb_payload = pl\<rparr>, 6 + length h)"
    using assms fp by (simp add: decode_tcp_bootstrap_def decode_tcp_bootstrap_impl_wire)
  moreover have "tcp_bootstrap_header_size t (length h) = 6 + length h"
    using assms by (simp add: tcp_bootstrap_header_size_def)
  ultimately show ?thesis using sz assms(4) by auto
qed

theorem tcp_bootstrap_roundtrip_witness:
  "\<exists>n d'. encode_tcp_bootstrap (Some (replicate 20 0)) 1 PROTECT_BOOTSTRAP ADDR_IPV4
       (Some [127, 0, 0, 1]) (length [127 :: byte, 0, 0, 1]) 443 (Some [7]) (length [7 :: byte]) =
       (Inr n, Some d') \<and>
     n = tcp_bootstrap_size ADDR_IPV4 (length [127 :: byte, 0, 0, 1]) (length [7 :: byte]) \<and>
     length d' = length (replicate 20 (0 :: byte)) \<and> drop n d' = drop n (replicate 20 0) \<and>
     decode_tcp_bootstrap (Some (take n d')) =
       Inr (\<lparr>tb_cmd = 1, tb_flow_protection = PROTECT_BOOTSTRAP,
             tb_addr = addr_of ADDR_IPV4 [127, 0, 0, 1] 443 (4 + length [127 :: byte, 0, 0, 1]),
             tb_payload = [7]\<rparr>,
            tcp_bootstrap_header_size ADDR_IPV4 (length [127 :: byte, 0, 0, 1]))"
  by (rule tcp_bootstrap_roundtrip)
    (simp_all add: wire_defs valid_addr_def tcp_bootstrap_size_def tcp_bootstrap_header_size_def
      addr_header_size_def)

subsection \<open>UDP datagrams: round trips and packet classes\<close>

lemma mask_c0_3f [simp]: "((x AND 0x3f) AND 0xc0 :: byte) = 0"
  by (simp add: and.assoc)

lemma mask_c0_init [simp]: "((0x80 OR (x AND 0x3f)) AND 0xc0 :: byte) = 0x80"
  by (simp add: word_ao_dist and.assoc)

lemma encode_udp_init_ok:
  assumes "valid_no_key_flow_protection fp" "flow_id_valid (Some fid)" "length fid = FLOW_ID_LEN"
    and "valid_addr t (length h)" "length pl \<le> BOOTSTRAP_PAYLOAD_MAX"
    and d: "13 + length h + length pl \<le> length d"
  shows "encode_udp_init (Some d) fp (Some fid) t (Some h) (length h) port (Some pl) (length pl) =
         (Inr (13 + length h + length pl),
          Some (udp_init_wire fid t h port pl @ drop (13 + length h + length pl) d))"
proof -
  have len: "length fid = 8" using assms(3) by (simp add: FLOW_ID_LEN_def)
  obtain d0 d1 where d1: "d = d0 # d1" "12 + length h + length pl \<le> length d1"
    using d by (cases d) auto
  define e where "e = (0x80 :: byte) # fid @ drop 8 d1"
  have fp: "to_byte PACKET_INIT OR (to_byte fp AND 0x3f) = (0x80 :: byte)"
    using assms(1) by (simp add: wire_defs)
  have e: "poke (poke d 0 [0x80]) 1 (mem (Some fid) FLOW_ID_LEN) = e"
    using d1 len by (simp add: e_def FLOW_ID_LEN_def poke_append)
  have "\<exists>r. write_addr (Some (drop 9 e)) t (Some h) (length h) port = (Inr (4 + length h), r) \<and>
    poke (put_back e 9 r) (9 + (4 + length h)) pl =
     (0x80 # fid) @ addr_wire t h port @ pl @ drop (4 + length h + length pl) (drop 8 d1)"
    using d1 len by (intro addr_payload_tail [OF assms(4)]) (auto simp: e_def)
  then obtain r where r:
    "write_addr (Some (drop 9 e)) t (Some h) (length h) port = (Inr (4 + length h), r)"
    "poke (put_back e 9 r) (9 + (4 + length h)) pl =
     (0x80 # fid) @ addr_wire t h port @ pl @ drop (4 + length h + length pl) (drop 8 d1)"
    by blast
  have "drop (13 + length h + length pl) d = drop (4 + length h + length pl) (drop 8 d1)"
    using d1 by (simp add: add.assoc)
  with r e fp assms d show ?thesis
    by (simp add: encode_udp_init_def payload_valid_def udp_init_size_valid udp_init_wire_def
        FLOW_ID_LEN_def Let_def del: poke_0 poke_Cons poke_Cons_numeral)
qed

lemma decode_udp_init_wire:
  assumes "flow_id_valid (Some fid)" "length fid = FLOW_ID_LEN" "valid_addr t (length h)"
  shows "decode_udp_init (Some (udp_init_wire fid t h port pl)) =
         Inr (\<lparr>ui_flow_protection = PROTECT_BOOTSTRAP, ui_flow_id = fid,
               ui_addr = addr_of t h port (4 + length h), ui_payload = pl\<rparr>, 13 + length h)"
proof -
  have len: "length fid = 8" using assms(2) by (simp add: FLOW_ID_LEN_def)
  then have "fid \<noteq> []" by auto
  then have fv: "flow_id_valid (Some (fid @ x)) = flow_id_valid (Some fid)" for x
    by (simp add: flow_id_valid_def nth_append)
  have "drop (4 + length h) (addr_wire t h port @ pl) = pl"
    by (rule drop_append_exact) simp
  then have "drop (13 + length h) (udp_init_wire fid t h port pl) = pl"
    using len by (simp add: udp_init_wire_def drop_append)
  with assms len fv valid_addr_bounds [OF assms(3)] show ?thesis
    by (simp add: decode_udp_init_def udp_init_wire_def read_addr_wire wire_defs
        udp_packet_class_def Let_def)
qed

lemma encode_udp_data_ok:
  assumes "flow_id_valid (Some fid)" "length fid = FLOW_ID_LEN" "length pl < 2 ^ 64 - 8"
    and d: "8 + length pl \<le> length d"
  shows "encode_udp_data (Some d) (Some fid) (Some pl) (length pl) =
         (Inr (8 + length pl), Some (fid @ pl @ drop (8 + length pl) d))"
proof -
  have len: "length fid = 8" using assms(2) by (simp add: FLOW_ID_LEN_def)
  have "udp_data_size (length pl) = 8 + length pl"
    using assms(3) by (simp add: udp_data_size_def FLOW_ID_LEN_def sz_add_small)
  moreover have "poke (poke d 0 fid) 8 pl = fid @ pl @ drop (8 + length pl) d"
    using len by (simp add: poke_append add.commute)
  ultimately show ?thesis
    using assms len
    by (auto simp: encode_udp_data_def payload_valid_def FLOW_ID_LEN_def Let_def)
qed

text \<open>
  UDP init round trip. A datagram encoded with a valid flow identifier (two top
  bits clear) and a valid address fits the region it was given, announces the INIT class and
  decodes to the same flow identifier, address and payload; the data decoder refuses it.
\<close>

theorem udp_init_roundtrip:
  assumes "flow_id_valid (Some fid)" "length fid = FLOW_ID_LEN" "valid_addr t (length h)"
    and "length pl \<le> BOOTSTRAP_PAYLOAD_MAX" "udp_init_size t (length h) (length pl) \<le> length d"
  shows "\<exists>n d'. encode_udp_init (Some d) PROTECT_BOOTSTRAP (Some fid) t (Some h) (length h) port
                (Some pl) (length pl) = (Inr n, Some d') \<and>
              length d' = length d \<and> drop n d' = drop n d \<and>
              udp_packet_class (Some (take n d')) = PACKET_INIT \<and>
              decode_udp_init (Some (take n d')) =
                Inr (\<lparr>ui_flow_protection = PROTECT_BOOTSTRAP, ui_flow_id = fid,
                      ui_addr = addr_of t h port (4 + length h), ui_payload = pl\<rparr>,
                     n - length pl) \<and>
              decode_udp_data (Some (take n d')) = Inl ERR_INVALID"
proof -
  let ?w = "udp_init_wire fid t h port pl"
  have fp: "valid_no_key_flow_protection PROTECT_BOOTSTRAP" by (simp add: wire_defs)
  have len: "length fid = 8" using assms(2) by (simp add: FLOW_ID_LEN_def)
  have sz: "udp_init_size t (length h) (length pl) = length ?w"
    using assms len by (simp add: udp_init_size_valid)
  have e: "encode_udp_init (Some d) PROTECT_BOOTSTRAP (Some fid) t (Some h) (length h) port
          (Some pl) (length pl) = (Inr (length ?w), Some (?w @ drop (length ?w) d))"
    using encode_udp_init_ok [OF fp assms(1-4), of d port] assms(5) len sz by simp
  have c: "udp_packet_class (Some ?w) = PACKET_INIT"
    by (simp add: udp_packet_class_def udp_init_wire_def wire_defs)
  then have "decode_udp_data (Some ?w) = Inl ERR_INVALID"
    using len by (simp add: decode_udp_data_def wire_defs)
  with e c decode_udp_init_wire [OF assms(1-3), of port pl] sz assms(5) len show ?thesis
    by (intro exI [of _ "length ?w"] exI [of _ "?w @ drop (length ?w) d"]) simp
qed

theorem udp_init_roundtrip_witness:
  "\<exists>n d'. encode_udp_init (Some (replicate 24 0)) PROTECT_BOOTSTRAP (Some [1, 2, 3, 4, 5, 6, 7, 8])
       ADDR_DOMAIN (Some [97, 98]) (length [97 :: byte, 98]) 53 (Some [9]) (length [9 :: byte]) =
       (Inr n, Some d') \<and>
     length d' = length (replicate 24 (0 :: byte)) \<and> drop n d' = drop n (replicate 24 0) \<and>
     udp_packet_class (Some (take n d')) = PACKET_INIT \<and>
     decode_udp_init (Some (take n d')) =
       Inr (\<lparr>ui_flow_protection = PROTECT_BOOTSTRAP, ui_flow_id = [1, 2, 3, 4, 5, 6, 7, 8],
             ui_addr = addr_of ADDR_DOMAIN [97, 98] 53 (4 + length [97 :: byte, 98]),
             ui_payload = [9]\<rparr>, n - length [9 :: byte]) \<and>
     decode_udp_data (Some (take n d')) = Inl ERR_INVALID"
  by (rule udp_init_roundtrip)
    (simp_all add: wire_defs valid_addr_def udp_init_size_def addr_header_size_def
      flow_id_valid_def)

text \<open>
  UDP data round trip, and the classes are disjoint. For every identifier the code
  has prepared (its two top bits cleared) and every payload that fits in memory the data
  datagram decodes to the identifier and the payload, consuming all of it, and the init
  decoder refuses it whenever it looks at it.
\<close>

theorem udp_data_roundtrip:
  assumes "length fid = FLOW_ID_LEN" "length pl < 2 ^ 64 - 8" "8 + length pl \<le> length d"
    and "flow_id_prepare (Some fid) = Some fid'"
  shows "\<exists>n d'. encode_udp_data (Some d) (Some fid') (Some pl) (length pl) = (Inr n, Some d') \<and>
              length d' = length d \<and> drop n d' = drop n d \<and>
              udp_packet_class (Some (take n d')) = PACKET_DATA \<and>
              decode_udp_data (Some (take n d')) =
                Inr (\<lparr>ud_flow_id = fid', ud_payload = pl\<rparr>, n) \<and>
              (\<exists>e. decode_udp_init (Some (take n d')) = Inl e)"
proof -
  have len: "length fid = 8" using assms(1) by (simp add: FLOW_ID_LEN_def)
  then obtain f fs where f: "fid = f # fs" "fid' = (f AND 0x3f) # fs" "length fs = 7"
    using assms(4) by (cases fid) (auto simp: flow_id_prepare_def)
  then have v: "flow_id_valid (Some fid')" "length fid' = FLOW_ID_LEN" "length fid' = 8"
    by (simp_all add: flow_id_valid_def wire_defs)
  let ?w = "fid' @ pl"
  have e: "encode_udp_data (Some d) (Some fid') (Some pl) (length pl) =
      (Inr (length ?w), Some (?w @ drop (length ?w) d))"
    using encode_udp_data_ok [OF v(1,2) assms(2,3)] v(3) by simp
  have c: "udp_packet_class (Some ?w) = PACKET_DATA"
    using f by (simp add: udp_packet_class_def wire_defs)
  moreover have "decode_udp_data (Some ?w) = Inr (\<lparr>ud_flow_id = fid', ud_payload = pl\<rparr>, length ?w)"
    using c v(3) by (simp add: decode_udp_data_def wire_defs)
  moreover have "\<exists>e. decode_udp_init (Some ?w) = Inl e"
    using c by (auto simp: decode_udp_init_def PACKET_DATA_def PACKET_INIT_def)
  ultimately show ?thesis using e assms(3) v(3)
    by (intro exI [of _ "length ?w"] exI [of _ "?w @ drop (length ?w) d"]) simp
qed

theorem udp_data_roundtrip_witness:
  "\<exists>n d'. encode_udp_data (Some (replicate 12 0)) (Some [63, 2, 3, 4, 5, 6, 7, 8]) (Some [9])
       (length [9 :: byte]) = (Inr n, Some d') \<and>
     length d' = length (replicate 12 (0 :: byte)) \<and> drop n d' = drop n (replicate 12 0) \<and>
     udp_packet_class (Some (take n d')) = PACKET_DATA \<and>
     decode_udp_data (Some (take n d')) =
       Inr (\<lparr>ud_flow_id = [63, 2, 3, 4, 5, 6, 7, 8], ud_payload = [9]\<rparr>, n) \<and>
     (\<exists>e. decode_udp_init (Some (take n d')) = Inl e)"
  by (rule udp_data_roundtrip [of "[255, 2, 3, 4, 5, 6, 7, 8]"])
    (simp_all add: wire_defs flow_id_prepare_def)

subsection \<open>Stream frames\<close>

lemma encode_udp_stream_frame_ok:
  assumes "valid_addr t (length h)" "4 + length h + length pl \<le> 65535"
    and d: "6 + length h + length pl \<le> length d"
  shows "encode_udp_stream_frame (Some d) t (Some h) (length h) port (Some pl) (length pl) =
         (Inr (6 + length h + length pl),
          Some (stream_wire t h port pl @ drop (6 + length h + length pl) d))"
proof -
  obtain d0 d1 d2 where d2: "d = d0 # d1 # d2" "4 + length h + length pl \<le> length d2"
    using d by (cases d; cases "tl d") auto
  define l where "l = u16_bytes (word_of_nat (4 + (length h + length pl)))"
  define e where "e = l @ d2"
  have e: "write_u16 d 0 (word_of_nat (4 + (length h + length pl))) = e"
    using d2 by (simp add: write_u16_def e_def l_def)
  have l: "length l = 2" by (simp add: l_def)
  have "\<exists>r. write_addr (Some (drop 2 e)) t (Some h) (length h) port = (Inr (4 + length h), r) \<and>
    poke (put_back e 2 r) (2 + (4 + length h)) pl = l @ addr_wire t h port @ pl @ drop (4 + length h + length pl) d2"
    using d2 l by (intro addr_payload_tail [OF assms(1)]) (auto simp: e_def)
  then obtain r where r:
    "write_addr (Some (drop 2 e)) t (Some h) (length h) port = (Inr (4 + length h), r)"
    "poke (put_back e 2 r) (2 + (4 + length h)) pl = l @ addr_wire t h port @ pl @ drop (4 + length h + length pl) d2"
    by blast
  have "drop (6 + length h + length pl) d = drop (4 + length h + length pl) d2"
    using d2 by simp
  with r e assms d show ?thesis
    by (simp add: encode_udp_stream_frame_def payload_valid_def udp_stream_frame_size_valid
        stream_wire_def l_def UDP_STREAM_LEN_PREFIX_def add.assoc Let_def del: of_nat_add)
qed

lemma unat_u16_of_nat: "n \<le> 65535 \<Longrightarrow> unat (word_of_nat n :: u16) = n"
  by (simp add: unat_of_nat)

lemma read_u16_bytes [simp]: "read_u16 (u16_bytes v @ r) = v"
  by (simp add: read_u16_def u16_bytes_def)

lemma decode_udp_stream_frame_wire:
  assumes "valid_addr t (length h)" "4 + length h + length pl \<le> 65535"
  shows "decode_udp_stream_frame (Some (stream_wire t h port pl @ rest)) =
         Inr (\<lparr>us_addr = addr_of t h port (4 + length h), us_payload = pl\<rparr>,
              6 + length h + length pl)"
proof -
  have t: "take (4 + length h + length pl) (addr_wire t h port @ pl @ rest) = addr_wire t h port @ pl"
    by (simp add: take_add)
  have "drop (4 + length h) (addr_wire t h port @ pl @ rest) = pl @ rest"
    by (rule drop_append_exact) simp
  then have "drop (2 + (4 + length h)) (u16_bytes l @ addr_wire t h port @ pl @ rest) = pl @ rest"
    for l by (simp only: drop_drop [symmetric] add.commute [of 2])
      (simp add: drop_append_exact)
  with assms t show ?thesis
    by (simp add: decode_udp_stream_frame_def stream_wire_def read_addr_wire unat_u16_of_nat
        UDP_STREAM_LEN_PREFIX_def add.assoc Let_def del: of_nat_add)
qed

lemma decode_udp_stream_frame_inv:
  assumes "decode_udp_stream_frame (Some s) = Inr (f, n)"
  obtains t h port pl rest where "s = stream_wire t h port pl @ rest" "valid_addr t (length h)"
    "4 + length h + length pl \<le> 65535" "n = 6 + length h + length pl"
    "f = \<lparr>us_addr = addr_of t h port (4 + length h), us_payload = pl\<rparr>"
proof -
  define l where "l = unat (read_u16 s)"
  from assms obtain a m where am: "read_addr (Some (take l (drop 2 s))) = Inr (a, m)"
    and len: "2 + l \<le> length s" and n: "n = 2 + l"
    and f: "f = \<lparr>us_addr = a, us_payload = take (l - m) (drop (2 + m) s)\<rparr>"
    by (auto simp: decode_udp_stream_frame_def UDP_STREAM_LEN_PREFIX_def l_def Let_def
        split: if_splits sum.splits)
  from am obtain t h p rest where w: "take l (drop 2 s) = addr_wire t h p @ rest"
      "valid_addr t (length h)" "a = addr_of t h p (4 + length h)" "m = 4 + length h"
    by (rule read_addr_inv)
  obtain x y z where s: "s = x # y # z"
    using len by (cases s; cases "tl s") auto
  have tz: "take l z = addr_wire t h p @ rest" using w s by simp
  have ll: "l = 4 + length h + length rest"
    using arg_cong [OF tz, of length] len s by simp
  have z: "z = addr_wire t h p @ rest @ drop l z"
    using tz append_take_drop_id [of l z] by simp
  have hd: "[x, y] = u16_bytes (word_of_nat l)"
    using s by (simp add: l_def read_u16_def u16_bytes_inverse)
  have "drop m z = rest @ drop l z"
    unfolding w(4) by (subst z, rule drop_append_exact) simp
  then have "take (l - m) (drop (2 + m) s) = rest"
    using s w(4) ll by simp
  moreover have "s = stream_wire t h p rest @ drop l z"
    using s z hd ll by (simp add: stream_wire_def add.assoc del: of_nat_add)
  moreover have "l \<le> 65535" by (simp add: l_def)
  ultimately show thesis
    using w f n ll by (intro that [of t h p rest "drop l z"]) auto
qed

definition stream_ok :: "udp_stream_frame_t \<Rightarrow> bool" where
  "stream_ok f \<longleftrightarrow> mt_addr_ok (us_addr f) \<and> addr_wire_len (us_addr f) + length (us_payload f) \<le> 65535"

definition stream_enc :: "udp_stream_frame_t \<Rightarrow> bytes" where
  "stream_enc f = stream_wire (addr_type (us_addr f)) (host_bytes (us_addr f)) (addr_port (us_addr f))
                    (us_payload f)"

interpretation stream_codec: framing stream_enc "\<lambda>s. decode_udp_stream_frame (Some s)" stream_ok
proof unfold_locales
  fix f rest
  assume "stream_ok f"
  then show "decode_udp_stream_frame (Some (stream_enc f @ rest)) = Inr (f, length (stream_enc f))"
    by (cases f) (auto simp: stream_ok_def stream_enc_def decode_udp_stream_frame_wire
        elim!: mt_addr_okE)
next
  fix s f n
  assume "decode_udp_stream_frame (Some s) = Inr (f, n)"
  then show "stream_ok f \<and> (\<exists>rest. s = stream_enc f @ rest) \<and> n = length (stream_enc f)"
    by (elim decode_udp_stream_frame_inv) (simp add: stream_ok_def stream_enc_def mt_addr_ok_of)
next
  fix f
  show "stream_enc f \<noteq> []" by (simp add: stream_enc_def stream_wire_def u16_bytes_def)
qed



text \<open>
  C35: A complete stream frame whose address part is cut short is reported as "need more
  bytes", whatever follows it. The announced length may cover fewer than four bytes, or less
  than the address it starts with; the frame is then all there and can never become valid, yet
  the decoder answers ERR_AGAIN for every continuation of the stream, so a reader that waits for
  more bytes waits for ever.
\<close>

theorem short_stream_frame_never_rejected:
  assumes "read_addr (Some body) = Inl ERR_AGAIN" and "length body \<le> 65535"
  shows "decode_udp_stream_frame (Some (u16_bytes (word_of_nat (length body)) @ body @ rest)) =
         Inl ERR_AGAIN"
  using assms
  by (simp add: decode_udp_stream_frame_def unat_u16_of_nat UDP_STREAM_LEN_PREFIX_def Let_def)

theorem short_stream_frame_never_rejected_witness:
  "decode_udp_stream_frame
     (Some (u16_bytes (word_of_nat (length [1 :: byte, 4, 127])) @ [1, 4, 127] @ [5, 5, 5, 5])) =
   Inl ERR_AGAIN"
  by (rule short_stream_frame_never_rejected) (simp_all add: read_addr_def)

end
