(* ===== verification/Mt_Keyed.thy ===== *)
theory Mt_Keyed
  imports Mt_Frames
begin

text \<open>
  The keyed Mtrojan frames (ngx_stream_mtrojan_protocol.c): sealing and opening a plaintext
  under a nonce, and the keyed TCP bootstrap and UDP init frames built on it.

  The AEAD is a pair of callbacks supplied by the caller. A callback that is not set is
  \<open>None\<close>. \<open>seal nonce plain\<close> says whether it succeeded and what it left in the ciphertext and
  tag regions; \<open>open nonce ciphertext tag\<close> whether it succeeded and what it left in the
  plaintext region. Nothing is assumed of what a failing callback leaves there.

  \<open>malloc n\<close> is \<open>NULL\<close> or a block of \<open>n\<close> bytes of any content. The encoders return, beside
  the status and the output region, the block as it is when it is handed to \<open>free\<close>.
\<close>

definition KEY_EPOCH_LEN :: nat where [wire_defs]: "KEY_EPOCH_LEN = 4"

record key_crypto_t =
  kc_seal :: "(bytes \<Rightarrow> bytes \<Rightarrow> bool \<times> bytes \<times> bytes) option"
  kc_open :: "(bytes \<Rightarrow> bytes \<Rightarrow> bytes \<Rightarrow> bool \<times> bytes) option"

subsection \<open>Sealing and opening\<close>

definition cleanse :: "bytes \<Rightarrow> nat \<Rightarrow> nat \<Rightarrow> bytes" where
  "cleanse d off len = poke d off (replicate len 0)"

definition key_crypto_valid :: "key_crypto_t option \<Rightarrow> bool" where
  "key_crypto_valid crypto =
     (case crypto of None \<Rightarrow> False | Some c \<Rightarrow> kc_seal c \<noteq> None \<and> kc_open c \<noteq> None)"

definition key_wire_size :: "nat \<Rightarrow> nat" where
  "key_wire_size plain_len =
     (if plain_len > KEY_PLAIN_MAX then 0 else KEY_NONCE_LEN + plain_len + KEY_TAG_LEN)"

text \<open>What the callback \<open>crypto->seal\<close> does to the output region at \<open>&dst[off]\<close>.\<close>

definition run_seal ::
  "key_crypto_t option \<Rightarrow> bytes \<Rightarrow> bytes \<Rightarrow> nat \<Rightarrow> bytes \<Rightarrow> bool \<times> bytes" where
  "run_seal crypto nonce plain off d =
     (let (ok, ciphertext, tag) = the (kc_seal (the crypto)) nonce plain;
          d = poke d off ciphertext;
          d = poke d (off + length plain) tag
      in (ok, d))"

definition key_protect ::
  "cptr \<Rightarrow> key_crypto_t option \<Rightarrow> cptr \<Rightarrow> cptr \<Rightarrow> nat \<Rightarrow> (merr + nat) \<times> cptr" where
  "key_protect dst crypto nonce plain plain_len =
     (case (dst, nonce) of
        (Some d, Some nc) \<Rightarrow>
          if \<not> key_crypto_valid crypto \<or> \<not> payload_valid plain plain_len
          then (Inl ERR_INVALID, dst)
          else let need = key_wire_size plain_len in
            if need = 0 then (Inl ERR_INVALID, dst)
            else if length d < need then (Inl ERR_NO_SPACE, dst)
            else
              let d = poke d 0 (take KEY_NONCE_LEN nc);
                  (ok, d) = run_seal crypto (take KEY_NONCE_LEN nc) (mem plain plain_len)
                              KEY_NONCE_LEN d
              in if \<not> ok
                 then (Inl ERR_INVALID, Some (cleanse d KEY_NONCE_LEN (plain_len + KEY_TAG_LEN)))
                 else (Inr need, Some d)
      | _ \<Rightarrow> (Inl ERR_INVALID, dst))"

definition run_open ::
  "key_crypto_t option \<Rightarrow> bytes \<Rightarrow> bytes \<Rightarrow> bytes \<Rightarrow> bytes \<Rightarrow> bool \<times> bytes" where
  "run_open crypto nonce ciphertext tag plain =
     (let (ok, out) = the (kc_open (the crypto)) nonce ciphertext tag in (ok, poke plain 0 out))"

text \<open>The results of the two opening routines: the nonce, and the lengths they store.\<close>

definition key_unprotect ::
  "cptr \<Rightarrow> key_crypto_t option \<Rightarrow> cptr \<Rightarrow> (merr + bytes \<times> nat) \<times> cptr" where
  "key_unprotect src crypto plain =
     (case (src, plain) of
        (Some s, Some p) \<Rightarrow>
          if \<not> key_crypto_valid crypto then (Inl ERR_INVALID, plain)
          else if length s < KEY_NONCE_LEN + KEY_TAG_LEN then (Inl ERR_AGAIN, plain)
          else let ciphertext_len = length s - KEY_NONCE_LEN - KEY_TAG_LEN in
            if ciphertext_len > KEY_PLAIN_MAX then (Inl ERR_INVALID, plain)
            else if ciphertext_len > length p then (Inl ERR_NO_SPACE, plain)
            else
              let nonce = take KEY_NONCE_LEN s;
                  ciphertext = take ciphertext_len (drop KEY_NONCE_LEN s);
                  tag = take KEY_TAG_LEN (drop (KEY_NONCE_LEN + ciphertext_len) s);
                  (ok, p) = run_open crypto nonce ciphertext tag p
              in if \<not> ok then (Inl ERR_INVALID, Some (cleanse p 0 ciphertext_len))
                 else (Inr (nonce, ciphertext_len), Some p)
      | _ \<Rightarrow> (Inl ERR_INVALID, plain))"

definition key_tcp_wire_size :: "nat \<Rightarrow> nat" where
  "key_tcp_wire_size plain_len =
     (if plain_len > KEY_PLAIN_MAX \<or> plain_len > 65535 then 0
      else KEY_NONCE_LEN + KEY_TCP_LEN_LEN + plain_len + KEY_TAG_LEN)"

definition key_tcp_protect ::
  "cptr \<Rightarrow> key_crypto_t option \<Rightarrow> cptr \<Rightarrow> cptr \<Rightarrow> nat \<Rightarrow> (merr + nat) \<times> cptr" where
  "key_tcp_protect dst crypto nonce plain plain_len =
     (case (dst, nonce) of
        (Some d, Some nc) \<Rightarrow>
          if \<not> key_crypto_valid crypto \<or> \<not> payload_valid plain plain_len
          then (Inl ERR_INVALID, dst)
          else let need = key_tcp_wire_size plain_len in
            if need = 0 then (Inl ERR_INVALID, dst)
            else if length d < need then (Inl ERR_NO_SPACE, dst)
            else
              let d = poke d 0 (take KEY_NONCE_LEN nc);
                  d = write_u16 d KEY_NONCE_LEN (word_of_nat plain_len);
                  (ok, d) = run_seal crypto (take KEY_NONCE_LEN nc) (mem plain plain_len)
                              (KEY_NONCE_LEN + KEY_TCP_LEN_LEN) d
              in if \<not> ok
                 then (Inl ERR_INVALID, Some (cleanse d (KEY_NONCE_LEN + KEY_TCP_LEN_LEN)
                                                (plain_len + KEY_TAG_LEN)))
                 else (Inr need, Some d)
      | _ \<Rightarrow> (Inl ERR_INVALID, dst))"

definition key_tcp_unprotect ::
  "cptr \<Rightarrow> key_crypto_t option \<Rightarrow> cptr \<Rightarrow> (merr + bytes \<times> nat \<times> nat) \<times> cptr" where
  "key_tcp_unprotect src crypto plain =
     (case (src, plain) of
        (Some s, Some p) \<Rightarrow>
          if \<not> key_crypto_valid crypto then (Inl ERR_INVALID, plain)
          else if length s < KEY_NONCE_LEN + KEY_TCP_LEN_LEN then (Inl ERR_AGAIN, plain)
          else let ciphertext_len = unat (read_u16 (drop KEY_NONCE_LEN s)) in
            if ciphertext_len > KEY_PLAIN_MAX then (Inl ERR_INVALID, plain)
            else let need = KEY_NONCE_LEN + KEY_TCP_LEN_LEN + ciphertext_len + KEY_TAG_LEN in
              if length s < need then (Inl ERR_AGAIN, plain)
              else if ciphertext_len > length p then (Inl ERR_NO_SPACE, plain)
              else
                let nonce = take KEY_NONCE_LEN s;
                    at = KEY_NONCE_LEN + KEY_TCP_LEN_LEN;
                    ciphertext = take ciphertext_len (drop at s);
                    tag = take KEY_TAG_LEN (drop (at + ciphertext_len) s);
                    (ok, p) = run_open crypto nonce ciphertext tag p
                in if \<not> ok then (Inl ERR_INVALID, Some (cleanse p 0 ciphertext_len))
                   else (Inr (nonce, ciphertext_len, need), Some p)
      | _ \<Rightarrow> (Inl ERR_INVALID, plain))"

subsection \<open>Keyed TCP bootstrap\<close>

record key_tcp_bootstrap_t =
  kt_epoch :: u32
  kt_nonce :: bytes
  kt_cmd :: nat
  kt_flow_protection :: nat
  kt_addr :: addr_t
  kt_payload :: bytes

definition key_tcp_plain_size :: "byte \<Rightarrow> nat \<Rightarrow> nat \<Rightarrow> nat" where
  "key_tcp_plain_size type addr_len payload_len =
     (let tcp_size = tcp_bootstrap_size type addr_len payload_len in
      if tcp_size = 0 then 0 else KEY_EPOCH_LEN + tcp_size)"

definition key_tcp_bootstrap_size :: "byte \<Rightarrow> nat \<Rightarrow> nat \<Rightarrow> nat" where
  "key_tcp_bootstrap_size type addr_len payload_len =
     (let plain_len = key_tcp_plain_size type addr_len payload_len in
      if plain_len = 0 then 0 else key_tcp_wire_size plain_len)"

definition encode_key_tcp_bootstrap ::
  "(nat \<Rightarrow> cptr) \<Rightarrow> cptr \<Rightarrow> key_crypto_t option \<Rightarrow> cptr \<Rightarrow> u32 \<Rightarrow> nat \<Rightarrow> nat \<Rightarrow> byte
    \<Rightarrow> cptr \<Rightarrow> nat \<Rightarrow> u16 \<Rightarrow> cptr \<Rightarrow> nat \<Rightarrow> (merr + nat) \<times> cptr \<times> cptr" where
  "encode_key_tcp_bootstrap malloc dst crypto nonce epoch cmd flow_protection type
       addr addr_len port payload payload_len =
     (if \<not> valid_cmd cmd then (Inl ERR_INVALID, dst, None)
      else let plain_len = key_tcp_plain_size type addr_len payload_len in
        if plain_len = 0 then (Inl ERR_INVALID, dst, None)
        else case malloc plain_len of
            None \<Rightarrow> (Inl ERR_INVALID, dst, None)
          | Some plain \<Rightarrow>
              let plain = write_u32 plain 0 epoch;
                  (rc, r) = encode_tcp_bootstrap_impl (Some (drop KEY_EPOCH_LEN plain))
                    cmd flow_protection type addr addr_len port payload payload_len True;
                  plain = put_back plain KEY_EPOCH_LEN r;
                  (rc, dst) = (case rc of
                      Inl e \<Rightarrow> (Inl e, dst)
                    | Inr tcp_written \<Rightarrow>
                        key_tcp_protect dst crypto nonce (Some plain)
                          (KEY_EPOCH_LEN + tcp_written))
              in (rc, dst, Some (cleanse plain 0 plain_len)))"

definition decode_key_tcp_bootstrap ::
  "cptr \<Rightarrow> key_crypto_t option \<Rightarrow> cptr \<Rightarrow> (merr + key_tcp_bootstrap_t \<times> nat) \<times> cptr" where
  "decode_key_tcp_bootstrap src crypto plain =
     (case key_tcp_unprotect src crypto plain of
        (Inl rc, plain) \<Rightarrow> (Inl rc, plain)
      | (Inr (nonce, plain_written, wire_consumed), plain) \<Rightarrow>
          if plain_written < KEY_EPOCH_LEN + TCP_BASE_LEN then (Inl ERR_INVALID, plain)
          else case decode_tcp_bootstrap_impl
                      (Some (drop KEY_EPOCH_LEN (take plain_written (the plain)))) True of
              Inl rc \<Rightarrow> (Inl rc, plain)
            | Inr (tcp, tcp_consumed) \<Rightarrow>
                (Inr (\<lparr>kt_epoch = read_u32 (the plain), kt_nonce = nonce, kt_cmd = tb_cmd tcp,
                       kt_flow_protection = tb_flow_protection tcp, kt_addr = tb_addr tcp,
                       kt_payload = tb_payload tcp\<rparr>, wire_consumed), plain))"

subsection \<open>Keyed UDP init\<close>

record key_udp_init_t =
  ku_epoch :: u32
  ku_nonce :: bytes
  ku_flow_protection :: nat
  ku_flow_id :: bytes
  ku_addr :: addr_t
  ku_payload :: bytes

definition key_udp_init_plain_size :: "byte \<Rightarrow> nat \<Rightarrow> nat \<Rightarrow> nat" where
  "key_udp_init_plain_size type addr_len payload_len =
     (let addr_header = addr_header_size type addr_len in
      if addr_header = 0 then 0
      else sz_add (KEY_EPOCH_LEN + 1 + FLOW_ID_LEN + addr_header) payload_len)"

definition key_udp_init_size :: "byte \<Rightarrow> nat \<Rightarrow> nat \<Rightarrow> nat" where
  "key_udp_init_size type addr_len payload_len =
     (let plain_len = key_udp_init_plain_size type addr_len payload_len in
      if plain_len = 0 then 0 else key_wire_size plain_len)"

definition encode_key_udp_init ::
  "(nat \<Rightarrow> cptr) \<Rightarrow> cptr \<Rightarrow> key_crypto_t option \<Rightarrow> cptr \<Rightarrow> u32 \<Rightarrow> nat \<Rightarrow> cptr \<Rightarrow> byte
    \<Rightarrow> cptr \<Rightarrow> nat \<Rightarrow> u16 \<Rightarrow> cptr \<Rightarrow> nat \<Rightarrow> (merr + nat) \<times> cptr \<times> cptr" where
  "encode_key_udp_init malloc dst crypto nonce epoch flow_protection flow_id type
       addr addr_len port payload payload_len =
     (if nonce = None \<or> \<not> valid_flow_protection flow_protection \<or> \<not> flow_id_valid flow_id
         \<or> \<not> payload_valid payload payload_len
      then (Inl ERR_INVALID, dst, None)
      else let plain_len = key_udp_init_plain_size type addr_len payload_len in
        if plain_len = 0 then (Inl ERR_INVALID, dst, None)
        else case malloc plain_len of
            None \<Rightarrow> (Inl ERR_INVALID, dst, None)
          | Some plain \<Rightarrow>
              let off = 0;
                  plain = write_u32 plain off epoch;
                  off = off + KEY_EPOCH_LEN;
                  plain = poke plain off [to_byte flow_protection];
                  off = off + 1;
                  plain = poke plain off (mem flow_id FLOW_ID_LEN);
                  off = off + FLOW_ID_LEN;
                  (rc, r) = write_addr (Some (drop off plain)) type addr addr_len port;
                  plain = put_back plain off r
              in case rc of
                  Inl e \<Rightarrow> (Inl e, dst, Some (cleanse plain 0 plain_len))
                | Inr addr_written \<Rightarrow>
                    let off = off + addr_written;
                        plain = (if payload_len \<noteq> 0
                                 then poke plain off (mem payload payload_len) else plain);
                        wire_nonce = Some (mem nonce KEY_NONCE_LEN);
                        wire_nonce = key_udp_nonce_prepare wire_nonce;
                        (rc, dst) = key_protect dst crypto wire_nonce (Some plain) plain_len
                    in (rc, dst, Some (cleanse plain 0 plain_len)))"

definition decode_key_udp_init ::
  "cptr \<Rightarrow> key_crypto_t option \<Rightarrow> cptr \<Rightarrow> (merr + key_udp_init_t \<times> nat) \<times> cptr" where
  "decode_key_udp_init src crypto plain =
     (case src of
        None \<Rightarrow> (Inl ERR_INVALID, plain)
      | Some s \<Rightarrow>
          if length s < KEY_NONCE_LEN + KEY_TAG_LEN then (Inl ERR_AGAIN, plain)
          else if \<not> key_udp_nonce_valid src then (Inl ERR_INVALID, plain)
          else case key_unprotect src crypto plain of
              (Inl rc, plain) \<Rightarrow> (Inl rc, plain)
            | (Inr (nonce, plain_written), plain) \<Rightarrow>
                if plain_written < KEY_EPOCH_LEN + 1 + FLOW_ID_LEN + 4 then (Inl ERR_INVALID, plain)
                else
                  let p = take plain_written (the plain);
                      off = KEY_EPOCH_LEN;
                      flow_protection = unat (p ! off);
                      off = off + 1
                  in if \<not> valid_flow_protection flow_protection \<or> \<not> flow_id_valid (Some (drop off p))
                     then (Inl ERR_INVALID, plain)
                     else
                       let flow_id = take FLOW_ID_LEN (drop off p);
                           off = off + FLOW_ID_LEN
                       in case read_addr (Some (drop off p)) of
                           Inl rc \<Rightarrow> (Inl rc, plain)
                         | Inr (addr, addr_consumed) \<Rightarrow>
                             (Inr (\<lparr>ku_epoch = read_u32 p, ku_nonce = nonce,
                                    ku_flow_protection = flow_protection, ku_flow_id = flow_id,
                                    ku_addr = addr, ku_payload = drop (off + addr_consumed) p\<rparr>,
                                   length s), plain))"

subsection \<open>What a correct AEAD does, and what the two directions make of it\<close>

text \<open>
  The hypothesis on the callbacks: sealing any plaintext the module accepts succeeds, keeps
  the length and makes a 16-byte tag, and opening what was sealed gives the plaintext back.
\<close>

definition aead_correct :: "key_crypto_t \<Rightarrow> bool" where
  "aead_correct c \<longleftrightarrow> kc_seal c \<noteq> None \<and> kc_open c \<noteq> None \<and>
     (\<forall>nonce plain. length nonce = 12 \<and> length plain \<le> 32768 \<longrightarrow>
        (\<exists>ct tag. the (kc_seal c) nonce plain = (True, ct, tag) \<and> length ct = length plain \<and>
                  length tag = 16 \<and> the (kc_open c) nonce ct tag = (True, plain)))"

text \<open>An opening callback that refuses everything, leaving what it likes in the region.\<close>

definition open_refuses :: "key_crypto_t \<Rightarrow> bool" where
  "open_refuses c \<longleftrightarrow>
     (\<forall>nonce ct tag. \<exists>out. the (kc_open c) nonce ct tag = (False, out) \<and> length out = length ct)"

definition sealed_as :: "key_crypto_t \<Rightarrow> bytes \<Rightarrow> bytes \<Rightarrow> bytes \<Rightarrow> bytes \<Rightarrow> bool" where
  "sealed_as c nonce plain ct tag \<longleftrightarrow>
     length ct = length plain \<and> length tag = 16 \<and> the (kc_open c) nonce ct tag = (True, plain)"

lemma aead_valid: "aead_correct c \<Longrightarrow> key_crypto_valid (Some c)"
  by (simp add: aead_correct_def key_crypto_valid_def)

lemma key_protect_ok:
  assumes "aead_correct c" "length nc = 12" "length pl \<le> 32768" "28 + length pl \<le> length d"
  shows "\<exists>ct tag. key_protect (Some d) (Some c) (Some nc) (Some pl) (length pl) =
           (Inr (28 + length pl), Some (nc @ ct @ tag @ drop (28 + length pl) d)) \<and>
         sealed_as c nc pl ct tag"
proof -
  from assms(1-3) obtain ct tag where ct: "the (kc_seal c) nc pl = (True, ct, tag)"
      "length ct = length pl" "length tag = 16" "the (kc_open c) nc ct tag = (True, pl)"
    unfolding aead_correct_def by metis
  have "poke (nc @ drop 12 d) 12 ct = (nc @ ct) @ drop (12 + length ct) d"
    using assms(2) by (simp add: poke_append add.commute)
  moreover have "poke ((nc @ ct) @ drop (12 + length ct) d) (12 + length pl) tag =
      (nc @ ct) @ tag @ drop 16 (drop (12 + length ct) d)"
    using assms(2) ct by (subst poke_append) simp_all
  ultimately have "key_protect (Some d) (Some c) (Some nc) (Some pl) (length pl) =
           (Inr (28 + length pl), Some (nc @ ct @ tag @ drop (28 + length pl) d))"
    using assms(2-4) ct aead_valid [OF assms(1)]
    by (simp add: key_protect_def run_seal_def key_wire_size_def payload_valid_def wire_defs
        add.commute Let_def)
  with ct show ?thesis by (auto simp: sealed_as_def)
qed

lemma key_unprotect_sealed:
  assumes "key_crypto_valid (Some c)" "sealed_as c nc pl ct tag" "length nc = 12"
    and "length pl \<le> 32768" "length pl \<le> length p"
  shows "key_unprotect (Some (nc @ ct @ tag)) (Some c) (Some p) =
         (Inr (nc, length pl), Some (pl @ drop (length pl) p))"
  using assms by (simp add: key_unprotect_def run_open_def wire_defs sealed_as_def Let_def)

lemma key_tcp_protect_ok:
  assumes "aead_correct c" "length nc = 12" "length pl \<le> 32768" "30 + length pl \<le> length d"
  shows "\<exists>ct tag. key_tcp_protect (Some d) (Some c) (Some nc) (Some pl) (length pl) =
           (Inr (30 + length pl),
            Some (nc @ u16_bytes (word_of_nat (length pl)) @ ct @ tag @ drop (30 + length pl) d)) \<and>
         sealed_as c nc pl ct tag"
proof -
  from assms(1-3) obtain ct tag where ct: "the (kc_seal c) nc pl = (True, ct, tag)"
      "length ct = length pl" "length tag = 16" "the (kc_open c) nc ct tag = (True, pl)"
    unfolding aead_correct_def by metis
  define l where "l = u16_bytes (word_of_nat (length pl))"
  have l: "length l = 2" by (simp add: l_def)
  have "poke (nc @ drop 12 d) 12 l = (nc @ l) @ drop 14 d"
    using assms(2) l by (simp add: poke_append add.commute)
  moreover have "poke ((nc @ l) @ drop 14 d) 14 ct = (nc @ l @ ct) @ drop (14 + length ct) d"
    using assms(2) l by (subst poke_append) (simp_all add: add.commute)
  moreover have "poke ((nc @ l @ ct) @ drop (14 + length ct) d) (14 + length pl) tag =
      (nc @ l @ ct) @ tag @ drop 16 (drop (14 + length ct) d)"
    using assms(2) ct l by (subst poke_append) simp_all
  ultimately have "key_tcp_protect (Some d) (Some c) (Some nc) (Some pl) (length pl) =
           (Inr (30 + length pl), Some (nc @ l @ ct @ tag @ drop (30 + length pl) d))"
    using assms(2-4) ct aead_valid [OF assms(1)] l
    by (simp add: key_tcp_protect_def run_seal_def key_tcp_wire_size_def payload_valid_def wire_defs
        l_def [symmetric] add.commute Let_def)
  with ct show ?thesis by (auto simp: sealed_as_def l_def)
qed

lemma key_tcp_unprotect_sealed:
  assumes "key_crypto_valid (Some c)" "sealed_as c nc pl ct tag" "length nc = 12"
    and "length pl \<le> 32768" "length pl \<le> length p"
  shows "key_tcp_unprotect (Some (nc @ u16_bytes (word_of_nat (length pl)) @ ct @ tag @ rest))
           (Some c) (Some p) =
         (Inr (nc, length pl, 30 + length pl), Some (pl @ drop (length pl) p))"
  using assms
  by (simp add: key_tcp_unprotect_def run_open_def wire_defs sealed_as_def unat_u16_of_nat
      Let_def)

text \<open>Blocks of \<open>malloc\<close>, when it returns one.\<close>

definition malloc_ok :: "(nat \<Rightarrow> cptr) \<Rightarrow> nat \<Rightarrow> bool" where
  "malloc_ok malloc n \<longleftrightarrow> (\<exists>b. malloc n = Some b \<and> length b = n)"

subsection \<open>Round trips\<close>

lemma encode_key_tcp_bootstrap_ok:
  fixes epoch :: u32 and port :: u16
  assumes "aead_correct c" "length nc = 12" "valid_cmd cmd" "valid_flow_protection fp"
    and "valid_addr t (length h)" "length pl \<le> BOOTSTRAP_PAYLOAD_MAX"
    and m: "malloc_ok malloc (10 + length h + length pl)" and d: "40 + length h + length pl \<le> length d"
  defines "pt \<equiv> u32_bytes epoch @ tcp_wire cmd fp t h port pl"
  shows "\<exists>ct tag. encode_key_tcp_bootstrap malloc (Some d) (Some c) (Some nc) epoch cmd fp t (Some h)
           (length h) port (Some pl) (length pl) =
         (Inr (40 + length h + length pl),
          Some (nc @ u16_bytes (word_of_nat (length pt)) @ ct @ tag @ drop (40 + length h + length pl) d),
          Some (replicate (10 + length h + length pl) 0)) \<and> sealed_as c nc pt ct tag"
proof -
  from m obtain b where b: "malloc (10 + length h + length pl) = Some b"
      "length b = 10 + length h + length pl"
    by (auto simp: malloc_ok_def)
  have e: "encode_tcp_bootstrap_impl (Some (drop 4 b)) cmd fp t (Some h) (length h) port
      (Some pl) (length pl) True = (Inr (6 + length h + length pl), Some (tcp_wire cmd fp t h port pl))"
    using assms b by (subst encode_tcp_bootstrap_impl_ok) simp_all
  have pt: "length pt = 10 + length h + length pl" by (simp add: pt_def)
  have "\<exists>ct tag. key_tcp_protect (Some d) (Some c) (Some nc) (Some pt) (length pt) =
          (Inr (30 + length pt),
           Some (nc @ u16_bytes (word_of_nat (length pt)) @ ct @ tag @ drop (30 + length pt) d)) \<and>
         sealed_as c nc pt ct tag"
    using assms valid_addr_bounds [OF assms(5)] pt
    by (intro key_tcp_protect_ok) (simp_all add: BOOTSTRAP_PAYLOAD_MAX_def)
  then obtain ct tag where ct: "key_tcp_protect (Some d) (Some c) (Some nc) (Some pt) (length pt) =
      (Inr (30 + length pt),
       Some (nc @ u16_bytes (word_of_nat (length pt)) @ ct @ tag @ drop (30 + length pt) d))"
    "sealed_as c nc pt ct tag" by blast
  have put: "put_back (write_u32 b 0 epoch) 4 (Some (tcp_wire cmd fp t h port pl)) = pt"
    by (simp add: write_u32_def pt_def)
  have w: "drop 4 (write_u32 b 0 epoch) = drop 4 b" by (simp add: write_u32_def)
  have sz: "key_tcp_plain_size t (length h) (length pl) = length pt"
    using assms pt by (simp add: key_tcp_plain_size_def tcp_bootstrap_size_valid KEY_EPOCH_LEN_def)
  have "encode_key_tcp_bootstrap malloc (Some d) (Some c) (Some nc) epoch cmd fp t (Some h)
      (length h) port (Some pl) (length pl) =
    (Inr (30 + length pt),
     Some (nc @ u16_bytes (word_of_nat (length pt)) @ ct @ tag @ drop (30 + length pt) d),
     Some (replicate (length pt) 0))"
    using assms(3) b sz e put w ct(1) pt
    by (simp add: encode_key_tcp_bootstrap_def KEY_EPOCH_LEN_def Let_def cleanse_def add.assoc
        del: put_back_Some of_nat_add)
  with ct pt show ?thesis by (auto simp add: add.assoc simp del: of_nat_add)
qed

lemma decode_key_tcp_bootstrap_sealed:
  assumes "key_crypto_valid (Some c)" "length nc = 12" "valid_cmd cmd" "valid_flow_protection fp"
    and "valid_addr t (length h)" "length pl \<le> BOOTSTRAP_PAYLOAD_MAX"
    and "sealed_as c nc pt ct tag" "length pt \<le> length p"
    and pt: "pt = u32_bytes epoch @ tcp_wire cmd fp t h port pl"
  shows "decode_key_tcp_bootstrap
           (Some (nc @ u16_bytes (word_of_nat (length pt)) @ ct @ tag @ rest)) (Some c) (Some p) =
         (Inr (\<lparr>kt_epoch = epoch, kt_nonce = nc, kt_cmd = cmd, kt_flow_protection = fp,
                kt_addr = addr_of t h port (4 + length h), kt_payload = pl\<rparr>, 30 + length pt),
          Some (pt @ drop (length pt) p))"
proof -
  have len: "length pt = 10 + length h + length pl" by (simp add: pt)
  have "key_tcp_unprotect (Some (nc @ u16_bytes (word_of_nat (length pt)) @ ct @ tag @ rest))
           (Some c) (Some p) =
         (Inr (nc, length pt, 30 + length pt), Some (pt @ drop (length pt) p))"
    using assms len valid_addr_bounds [OF assms(5)]
    by (intro key_tcp_unprotect_sealed) (simp_all add: BOOTSTRAP_PAYLOAD_MAX_def)
  moreover have "drop 4 pt = tcp_wire cmd fp t h port pl" by (simp add: pt)
  moreover have "decode_tcp_bootstrap_impl (Some (tcp_wire cmd fp t h port pl)) True =
       Inr (\<lparr>tb_cmd = cmd, tb_flow_protection = fp, tb_addr = addr_of t h port (4 + length h),
             tb_payload = pl\<rparr>, 6 + length h)"
    using assms by (intro decode_tcp_bootstrap_impl_wire) simp_all
  moreover have "read_u32 (pt @ drop (length pt) p) = epoch" by (simp add: pt)
  moreover have "\<not> length pt < KEY_EPOCH_LEN + TCP_BASE_LEN" by (simp add: len wire_defs)
  ultimately show ?thesis
    by (simp add: decode_key_tcp_bootstrap_def KEY_EPOCH_LEN_def del: of_nat_add)
qed

text \<open>
  C26: Keyed TCP bootstrap round trip. With a correct AEAD and a memory allocation
  that succeeds (whatever the block holds), encoding a valid request fills exactly the first
  \<open>key_tcp_bootstrap_size\<close> bytes of the output region, hands a zeroed scratch block to
  \<open>free\<close>, and the receiver, given those bytes followed by any others and a plaintext buffer
  that is large enough, recovers epoch, nonce, command, protection, address and payload and
  consumes exactly the frame.
\<close>

theorem key_tcp_bootstrap_roundtrip:
  assumes "aead_correct c" "length nc = KEY_NONCE_LEN" "valid_cmd cmd" "valid_flow_protection fp"
    and "valid_addr t (length h)" "length pl \<le> BOOTSTRAP_PAYLOAD_MAX"
    and "malloc_ok malloc (key_tcp_plain_size t (length h) (length pl))"
    and "key_tcp_bootstrap_size t (length h) (length pl) \<le> length d"
    and "key_tcp_plain_size t (length h) (length pl) \<le> length p"
  shows "\<exists>n d' p'. encode_key_tcp_bootstrap malloc (Some d) (Some c) (Some nc) epoch cmd fp t
             (Some h) (length h) port (Some pl) (length pl) =
           (Inr n, Some d', Some (replicate (key_tcp_plain_size t (length h) (length pl)) 0)) \<and>
         n = key_tcp_bootstrap_size t (length h) (length pl) \<and>
         length d' = length d \<and> drop n d' = drop n d \<and>
         (\<forall>rest. decode_key_tcp_bootstrap (Some (take n d' @ rest)) (Some c) (Some p) =
            (Inr (\<lparr>kt_epoch = epoch, kt_nonce = nc, kt_cmd = cmd, kt_flow_protection = fp,
                   kt_addr = addr_of t h port (4 + length h), kt_payload = pl\<rparr>, n), Some p'))"
proof -
  define pt where "pt = u32_bytes epoch @ tcp_wire cmd fp t h port pl"
  have len: "length pt = 10 + length h + length pl" by (simp add: pt_def)
  have sz: "key_tcp_plain_size t (length h) (length pl) = 10 + length h + length pl"
    using assms by (simp add: key_tcp_plain_size_def tcp_bootstrap_size_valid KEY_EPOCH_LEN_def)
  have need: "key_tcp_bootstrap_size t (length h) (length pl) = 40 + length h + length pl"
    using sz assms(6) valid_addr_bounds [OF assms(5)]
    by (simp add: key_tcp_bootstrap_size_def key_tcp_wire_size_def wire_defs)
  have nc: "length nc = 12" using assms(2) by (simp add: KEY_NONCE_LEN_def)
  from encode_key_tcp_bootstrap_ok [OF assms(1) nc assms(3-6), of malloc d epoch port]
    assms(7,8) sz need
  obtain ct tag where ct: "encode_key_tcp_bootstrap malloc (Some d) (Some c) (Some nc) epoch cmd fp t
      (Some h) (length h) port (Some pl) (length pl) =
     (Inr (40 + length h + length pl),
      Some (nc @ u16_bytes (word_of_nat (length pt)) @ ct @ tag @ drop (40 + length h + length pl) d),
      Some (replicate (10 + length h + length pl) 0))" "sealed_as c nc pt ct tag"
    by (auto simp: pt_def simp del: of_nat_add)
  define w where "w = nc @ u16_bytes (word_of_nat (length pt)) @ ct @ tag"
  have w: "length w = 40 + length h + length pl"
    using ct(2) nc by (simp add: w_def sealed_as_def len)
  have dec: "decode_key_tcp_bootstrap (Some (w @ rest)) (Some c) (Some p) =
      (Inr (\<lparr>kt_epoch = epoch, kt_nonce = nc, kt_cmd = cmd, kt_flow_protection = fp,
             kt_addr = addr_of t h port (4 + length h), kt_payload = pl\<rparr>, length w),
       Some (pt @ drop (length pt) p))" for rest
    using decode_key_tcp_bootstrap_sealed [OF aead_valid [OF assms(1)] nc assms(3-6) ct(2) _ pt_def,
        of p rest] assms(9) sz w len
    by (simp add: w_def add.assoc del: of_nat_add)
  have e: "encode_key_tcp_bootstrap malloc (Some d) (Some c) (Some nc) epoch cmd fp t
      (Some h) (length h) port (Some pl) (length pl) =
     (Inr (length w), Some (w @ drop (length w) d),
      Some (replicate (key_tcp_plain_size t (length h) (length pl)) 0))"
    using ct(1) w sz by (simp add: w_def add.assoc del: of_nat_add)
  show ?thesis
    using e dec w need assms(8)
    by (intro exI [of _ "length w"] exI [of _ "w @ drop (length w) d"]
        exI [of _ "pt @ drop (length pt) p"]) simp
qed

text \<open>A concrete (and worthless) cipher, for the witnesses.\<close>

definition null_crypto :: key_crypto_t where
  "null_crypto = \<lparr>kc_seal = Some (\<lambda>nonce plain. (True, plain, replicate 16 0)),
                  kc_open = Some (\<lambda>nonce ct tag. (tag = replicate 16 0, ct))\<rparr>"

lemma null_crypto_correct: "aead_correct null_crypto"
  by (simp add: aead_correct_def null_crypto_def)

definition zero_malloc :: "nat \<Rightarrow> cptr" where
  "zero_malloc n = Some (replicate n 0)"

lemma zero_malloc_ok: "malloc_ok zero_malloc n"
  by (simp add: malloc_ok_def zero_malloc_def)

theorem key_tcp_bootstrap_roundtrip_witness:
  "\<exists>n d' p'. encode_key_tcp_bootstrap zero_malloc (Some (replicate 60 0)) (Some null_crypto)
       (Some (replicate 12 7)) 5 CMD_CONNECT PROTECT_FULL ADDR_IPV4
       (Some [127, 0, 0, 1]) (length [127 :: byte, 0, 0, 1]) 443 (Some [9]) (length [9 :: byte]) =
       (Inr n, Some d', Some (replicate (key_tcp_plain_size ADDR_IPV4 (length [127 :: byte, 0, 0, 1])
                                           (length [9 :: byte])) 0)) \<and>
     n = key_tcp_bootstrap_size ADDR_IPV4 (length [127 :: byte, 0, 0, 1]) (length [9 :: byte]) \<and>
     length d' = length (replicate 60 (0 :: byte)) \<and> drop n d' = drop n (replicate 60 0) \<and>
     (\<forall>rest. decode_key_tcp_bootstrap (Some (take n d' @ rest)) (Some null_crypto)
         (Some (replicate 20 0)) =
       (Inr (\<lparr>kt_epoch = 5, kt_nonce = replicate 12 7, kt_cmd = CMD_CONNECT,
              kt_flow_protection = PROTECT_FULL,
              kt_addr = addr_of ADDR_IPV4 [127, 0, 0, 1] 443 (4 + length [127 :: byte, 0, 0, 1]),
              kt_payload = [9]\<rparr>, n), Some p'))"
  by (rule key_tcp_bootstrap_roundtrip [OF null_crypto_correct _ _ _ _ _ zero_malloc_ok])
    (simp_all add: wire_defs valid_addr_def key_tcp_bootstrap_size_def key_tcp_plain_size_def
      key_tcp_wire_size_def tcp_bootstrap_size_def tcp_bootstrap_header_size_def
      addr_header_size_def)

lemma encode_key_udp_init_ok:
  fixes epoch :: u32 and port :: u16
  assumes "aead_correct c" "12 \<le> length nc" "valid_flow_protection fp"
    and fid: "flow_id_valid (Some fid)" "length fid = FLOW_ID_LEN" and a: "valid_addr t (length h)"
    and m: "malloc_ok malloc (17 + length h + length pl)" and pl: "17 + length h + length pl \<le> 32768"
    and d: "45 + length h + length pl \<le> length d"
  defines "pt \<equiv> u32_bytes epoch @ [to_byte fp] @ fid @ addr_wire t h port @ pl"
    and "nc' \<equiv> the (key_udp_nonce_prepare (Some (take 12 nc)))"
  shows "\<exists>ct tag. encode_key_udp_init malloc (Some d) (Some c) (Some nc) epoch fp (Some fid) t (Some h)
           (length h) port (Some pl) (length pl) =
         (Inr (45 + length h + length pl),
          Some (nc' @ ct @ tag @ drop (45 + length h + length pl) d),
          Some (replicate (17 + length h + length pl) 0)) \<and> sealed_as c nc' pt ct tag"
proof -
  from m obtain b where b: "malloc (17 + length h + length pl) = Some b"
      "length b = 17 + length h + length pl"
    by (auto simp: malloc_ok_def)
  have f: "length fid = 8" using fid by (simp add: FLOW_ID_LEN_def)
  have nc': "length nc' = 12" "key_udp_nonce_prepare (Some (take 12 nc)) = Some nc'"
    using assms(2) by (auto simp: nc'_def key_udp_nonce_prepare_def length_poke)
  have pt: "length pt = 17 + length h + length pl" using f by (simp add: pt_def)
  define pre where "pre = u32_bytes epoch @ [to_byte fp] @ fid"
  have pre: "length pre = 13" using f by (simp add: pre_def)
  have e: "poke (poke (write_u32 b 0 epoch) 4 [to_byte fp]) 5 fid = pre @ drop 13 b"
  proof -
    have "poke (u32_bytes epoch @ drop 4 b) 4 [to_byte fp] =
        (u32_bytes epoch @ [to_byte fp]) @ drop 5 b"
      by (simp add: poke_append)
    moreover have "poke ((u32_bytes epoch @ [to_byte fp]) @ drop 5 b) 5 fid = pre @ drop 13 b"
      using f by (subst poke_append) (simp_all add: pre_def)
    ultimately show ?thesis by (simp add: write_u32_def)
  qed
  have "\<exists>r. write_addr (Some (drop 13 (pre @ drop 13 b))) t (Some h) (length h) port =
        (Inr (4 + length h), r) \<and>
      poke (put_back (pre @ drop 13 b) 13 r) (13 + (4 + length h)) pl =
      pre @ addr_wire t h port @ pl @ drop (4 + length h + length pl) (drop 13 b)"
    using a b pre by (intro addr_payload_tail) simp_all
  then obtain r where r: "write_addr (Some (drop 13 (pre @ drop 13 b))) t (Some h) (length h) port =
        (Inr (4 + length h), r)"
      "poke (put_back (pre @ drop 13 b) 13 r) (17 + length h) pl = pt"
    using b by (auto simp: pt_def pre_def)
  obtain ct tag where ct: "key_protect (Some d) (Some c) (Some nc') (Some pt) (length pt) =
      (Inr (28 + length pt), Some (nc' @ ct @ tag @ drop (28 + length pt) d))"
    "sealed_as c nc' pt ct tag"
    using key_protect_ok [OF assms(1) nc'(1), of pt d] pl d pt by auto
  have sz: "key_udp_init_plain_size t (length h) (length pl) = length pt"
    using a pl pt by (simp add: key_udp_init_plain_size_def sz_add_small wire_defs KEY_EPOCH_LEN_def)
  have "encode_key_udp_init malloc (Some d) (Some c) (Some nc) epoch fp (Some fid) t (Some h)
      (length h) port (Some pl) (length pl) =
    (Inr (28 + length pt), Some (nc' @ ct @ tag @ drop (28 + length pt) d),
     Some (replicate (length pt) 0))"
  proof -
    have w: "(if pl \<noteq> [] then poke (put_back (pre @ drop 13 b) 13 r) (17 + length h)
        (mem (Some pl) (length pl)) else put_back (pre @ drop 13 b) 13 r) = pt"
      using r(2) by simp
    have cl: "cleanse pt 0 (length pt) = replicate (length pt) 0"
      by (simp add: cleanse_def)
    show ?thesis
      using assms(3) fid a b(1) sz e r(1) ct(1) pt nc'(2) w cl
      by (simp add: encode_key_udp_init_def KEY_EPOCH_LEN_def FLOW_ID_LEN_def KEY_NONCE_LEN_def
          payload_valid_def Let_def del: poke_0 poke_Cons poke_Cons_numeral poke_if_Nil)
  qed
  with ct pt show ?thesis by (auto simp add: add.assoc)
qed

lemma nonce_prepare_valid:
  assumes "length nc = 12"
  shows "\<exists>x xs. key_udp_nonce_prepare (Some nc) = Some (x # xs) \<and> length xs = 11 \<and> xs = tl nc \<and>
           (x AND 0xc0) = 0x80"
  using assms by (cases nc) (auto simp: key_udp_nonce_prepare_def wire_defs word_ao_dist and.assoc)

lemma decode_key_udp_init_sealed:
  assumes "key_crypto_valid (Some c)" "length nc = 12" "key_udp_nonce_valid (Some nc)"
    and "valid_flow_protection fp" "flow_id_valid (Some fid)" "length fid = FLOW_ID_LEN"
    and "valid_addr t (length h)" "length pt \<le> 32768"
    and "sealed_as c nc pt ct tag" "length pt \<le> length p"
    and pt: "pt = u32_bytes epoch @ [to_byte fp] @ fid @ addr_wire t h port @ pl"
  shows "decode_key_udp_init (Some (nc @ ct @ tag)) (Some c) (Some p) =
         (Inr (\<lparr>ku_epoch = epoch, ku_nonce = nc, ku_flow_protection = fp, ku_flow_id = fid,
                ku_addr = addr_of t h port (4 + length h), ku_payload = pl\<rparr>, 28 + length pt),
          Some (pt @ drop (length pt) p))"
proof -
  have f: "length fid = 8" using assms(6) by (simp add: FLOW_ID_LEN_def)
  have len: "length pt = 17 + length h + length pl" using f by (simp add: pt)
  have s: "length ct = length pt" "length tag = 16" using assms(9) by (simp_all add: sealed_as_def)
  have "nc \<noteq> []" "fid \<noteq> []" using assms(2) f by auto
  then have nv: "key_udp_nonce_valid (Some (nc @ ct @ tag))"
    and fv: "flow_id_valid (Some (fid @ x))" for x
    using assms(3,5) by (simp_all add: key_udp_nonce_valid_def flow_id_valid_def nth_append)
  have open': "key_unprotect (Some (nc @ ct @ tag)) (Some c) (Some p) =
      (Inr (nc, length pt), Some (pt @ drop (length pt) p))"
    using assms by (intro key_unprotect_sealed) simp_all
  have fp: "unat (to_byte fp) = fp" using assms(4) by (rule valid_fp_byte)
  have d5: "drop 5 pt = fid @ addr_wire t h port @ pl" and n4: "pt ! 4 = to_byte fp"
    and n4': "(pt @ x) ! 4 = to_byte fp" for x
    by (simp_all add: pt nth_append)
  have d13: "drop 13 pt = addr_wire t h port @ pl"
    using f by (simp add: pt)
  have "drop (4 + length h) (addr_wire t h port @ pl) = pl"
    by (rule drop_append_exact) simp
  then have dp: "drop (17 + length h) pt = pl"
    by (metis d13 drop_drop add.commute add.left_commute numeral_plus_numeral add_num_simps add.assoc)
  have e: "read_u32 pt = epoch" by (simp add: pt)
  have "key_unprotect (Some (nc @ ct @ tag)) (Some c) (Some p) =
      (Inr (nc, length pt), Some (pt @ drop (length pt) p))" by (rule open')
  then show ?thesis
    using assms(2,4,5,6) nv s fv f fp d5 n4 n4' d13 dp e len
    by (simp add: decode_key_udp_init_def KEY_EPOCH_LEN_def FLOW_ID_LEN_def wire_defs
        read_addr_wire [OF assms(7)] Let_def)
qed

text \<open>
  C29: Keyed UDP init round trip. As for the TCP bootstrap, for every plaintext of at
  most 32768 bytes; the datagram on the wire belongs to the INIT class and carries the nonce
  as \<open>key_udp_nonce_prepare\<close> leaves it, and that prepared nonce is what the receiver gets.
\<close>

theorem key_udp_init_roundtrip:
  assumes "aead_correct c" "length nc = KEY_NONCE_LEN" "valid_flow_protection fp"
    and "flow_id_valid (Some fid)" "length fid = FLOW_ID_LEN" "valid_addr t (length h)"
    and "length pl < 2 ^ 63" and "key_udp_init_size t (length h) (length pl) \<noteq> 0"
    and "malloc_ok malloc (key_udp_init_plain_size t (length h) (length pl))"
    and "key_udp_init_size t (length h) (length pl) \<le> length d"
    and "key_udp_init_plain_size t (length h) (length pl) \<le> length p"
  shows "\<exists>n d' p'. encode_key_udp_init malloc (Some d) (Some c) (Some nc) epoch fp (Some fid) t
             (Some h) (length h) port (Some pl) (length pl) =
           (Inr n, Some d', Some (replicate (key_udp_init_plain_size t (length h) (length pl)) 0)) \<and>
         n = key_udp_init_size t (length h) (length pl) \<and>
         length d' = length d \<and> drop n d' = drop n d \<and>
         udp_packet_class (Some (take n d')) = PACKET_INIT \<and>
         decode_key_udp_init (Some (take n d')) (Some c) (Some p) =
            (Inr (\<lparr>ku_epoch = epoch, ku_nonce = the (key_udp_nonce_prepare (Some nc)),
                   ku_flow_protection = fp, ku_flow_id = fid,
                   ku_addr = addr_of t h port (4 + length h), ku_payload = pl\<rparr>, n), Some p')"
proof -
  define pt where "pt = u32_bytes epoch @ [to_byte fp] @ fid @ addr_wire t h port @ pl"
  have f: "length fid = 8" using assms(5) by (simp add: FLOW_ID_LEN_def)
  have nc: "length nc = 12" using assms(2) by (simp add: KEY_NONCE_LEN_def)
  have len: "length pt = 17 + length h + length pl" using f by (simp add: pt_def)
  have sz: "key_udp_init_plain_size t (length h) (length pl) = 17 + length h + length pl"
    using assms(6,7) valid_addr_bounds [OF assms(6)]
    by (simp add: key_udp_init_plain_size_def sz_add_small wire_defs KEY_EPOCH_LEN_def)
  have need: "key_udp_init_size t (length h) (length pl) = 45 + length h + length pl"
    and small: "17 + length h + length pl \<le> 32768"
    using assms(8) sz
    by (auto simp: key_udp_init_size_def key_wire_size_def wire_defs split: if_splits)
  obtain x xs where x: "key_udp_nonce_prepare (Some nc) = Some (x # xs)" "length xs = 11"
      "(x AND 0xc0) = 0x80"
    using nonce_prepare_valid [OF nc] by blast
  have nv: "key_udp_nonce_valid (Some (x # xs))"
    using x by (simp add: key_udp_nonce_valid_def PACKET_INIT_def)
  from encode_key_udp_init_ok [OF assms(1) _ assms(3-6), of nc malloc pl d epoch port]
    assms(9,10) sz need small nc x
  obtain ct tag where ct: "encode_key_udp_init malloc (Some d) (Some c) (Some nc) epoch fp (Some fid) t
      (Some h) (length h) port (Some pl) (length pl) =
     (Inr (45 + length h + length pl),
      Some ((x # xs) @ ct @ tag @ drop (45 + length h + length pl) d),
      Some (replicate (17 + length h + length pl) 0))" "sealed_as c (x # xs) pt ct tag"
    by (auto simp: pt_def)
  define w where "w = (x # xs) @ ct @ tag"
  have w: "length w = 45 + length h + length pl"
    using ct(2) x(2) by (simp add: w_def sealed_as_def len)
  have dec: "decode_key_udp_init (Some w) (Some c) (Some p) =
      (Inr (\<lparr>ku_epoch = epoch, ku_nonce = x # xs, ku_flow_protection = fp, ku_flow_id = fid,
             ku_addr = addr_of t h port (4 + length h), ku_payload = pl\<rparr>, length w),
       Some (pt @ drop (length pt) p))"
    using decode_key_udp_init_sealed [OF aead_valid [OF assms(1)] _ nv assms(3-6) _ ct(2) _ pt_def]
      assms(11) sz w len small x(2)
    by (simp add: w_def add.assoc)
  have e: "encode_key_udp_init malloc (Some d) (Some c) (Some nc) epoch fp (Some fid) t
      (Some h) (length h) port (Some pl) (length pl) =
     (Inr (length w), Some (w @ drop (length w) d),
      Some (replicate (key_udp_init_plain_size t (length h) (length pl)) 0))"
    using ct(1) w sz by (simp add: w_def add.assoc)
  have "udp_packet_class (Some w) = PACKET_INIT"
    using x(3) by (simp add: w_def udp_packet_class_def PACKET_INIT_def)
  with e dec w need assms(10) x(1) show ?thesis
    by (intro exI [of _ "length w"] exI [of _ "w @ drop (length w) d"]
        exI [of _ "pt @ drop (length pt) p"]) simp
qed

theorem key_udp_init_roundtrip_witness:
  "\<exists>n d' p'. encode_key_udp_init zero_malloc (Some (replicate 60 0)) (Some null_crypto)
       (Some (replicate 12 255)) 5 PROTECT_FULL (Some (replicate 8 1)) ADDR_IPV4
       (Some [127, 0, 0, 1]) (length [127 :: byte, 0, 0, 1]) 53 (Some [9]) (length [9 :: byte]) =
       (Inr n, Some d', Some (replicate (key_udp_init_plain_size ADDR_IPV4
                                (length [127 :: byte, 0, 0, 1]) (length [9 :: byte])) 0)) \<and>
     n = key_udp_init_size ADDR_IPV4 (length [127 :: byte, 0, 0, 1]) (length [9 :: byte]) \<and>
     length d' = length (replicate 60 (0 :: byte)) \<and> drop n d' = drop n (replicate 60 0) \<and>
     udp_packet_class (Some (take n d')) = PACKET_INIT \<and>
     decode_key_udp_init (Some (take n d')) (Some null_crypto) (Some (replicate 30 0)) =
       (Inr (\<lparr>ku_epoch = 5, ku_nonce = the (key_udp_nonce_prepare (Some (replicate 12 255))),
              ku_flow_protection = PROTECT_FULL, ku_flow_id = replicate 8 1,
              ku_addr = addr_of ADDR_IPV4 [127, 0, 0, 1] 53 (4 + length [127 :: byte, 0, 0, 1]),
              ku_payload = [9]\<rparr>, n), Some p')"
  by (rule key_udp_init_roundtrip [OF null_crypto_correct _ _ _ _ _ _ _ zero_malloc_ok])
    (simp_all add: wire_defs valid_addr_def key_udp_init_size_def key_udp_init_plain_size_def
      key_wire_size_def addr_header_size_def sz_add_def KEY_EPOCH_LEN_def flow_id_valid_def)

subsection \<open>Failures of the callbacks\<close>

lemma cleanse_poke: "length out = n \<Longrightarrow> n \<le> length p \<Longrightarrow>
    cleanse (poke p 0 out) 0 n = replicate n 0 @ drop n p"
  by (simp add: cleanse_def)

lemma run_open_refused:
  assumes "open_refuses c" "length ct \<le> length p"
  shows "\<exists>p'. run_open (Some c) nonce ct tag p = (False, p') \<and>
           cleanse p' 0 (length ct) = replicate (length ct) 0 @ drop (length ct) p"
proof -
  from assms(1) obtain out where "the (kc_open c) nonce ct tag = (False, out)" "length out = length ct"
    unfolding open_refuses_def by blast
  with assms(2) show ?thesis by (simp add: run_open_def cleanse_poke del: poke_0)
qed

lemma run_open_never: "open_refuses c \<Longrightarrow> run_open (Some c) nonce ct tag p \<noteq> (True, q)"
  by (auto simp: run_open_def open_refuses_def split: prod.splits) (metis Pair_inject)

lemma key_unprotect_refused:
  assumes "open_refuses c" "key_unprotect src (Some c) (Some p) = (r, p')"
  shows "(\<exists>e. r = Inl e) \<and> (\<exists>k. p' = Some (replicate k 0 @ drop k p))"
proof (cases "p' = Some p")
  case True
  have "p = replicate 0 0 @ drop 0 p" by simp
  moreover have "\<exists>e. r = Inl e"
    using assms run_open_never [OF assms(1)]
    by (cases src) (auto simp: key_unprotect_def Let_def split: if_splits prod.splits)
  ultimately show ?thesis using True by blast
next
  case False
  from assms(2) False obtain s where s: "src = Some s" "\<not> length s < 28" "key_crypto_valid (Some c)"
      "length s - 28 \<le> length p" "length s - 28 \<le> 32768"
    by (cases src) (auto simp: key_unprotect_def Let_def wire_defs split: if_splits)
  define n where "n = length s - 28"
  obtain q where q: "run_open (Some c) (take 12 s) (take n (drop 12 s)) (take 16 (drop (12 + n) s)) p =
      (False, q)" "cleanse q 0 n = replicate n 0 @ drop n p"
    using run_open_refused [OF assms(1), of "take n (drop 12 s)" p] s by (auto simp: n_def)
  show ?thesis
    using assms(2) s q
    by (auto simp: key_unprotect_def Let_def wire_defs n_def [symmetric] simp del: drop_drop)
qed

lemma key_tcp_unprotect_refused:
  assumes "open_refuses c" "key_tcp_unprotect src (Some c) (Some p) = (r, p')"
  shows "(\<exists>e. r = Inl e) \<and> (\<exists>k. p' = Some (replicate k 0 @ drop k p))"
proof (cases "p' = Some p")
  case True
  have "p = replicate 0 0 @ drop 0 p" by simp
  moreover have "\<exists>e. r = Inl e"
    using assms run_open_never [OF assms(1)]
    by (cases src) (auto simp: key_tcp_unprotect_def Let_def split: if_splits prod.splits)
  ultimately show ?thesis using True by blast
next
  case False
  define n where "n s = unat (read_u16 (drop 12 s))" for s
  from assms(2) False obtain s where s: "src = Some s" "key_crypto_valid (Some c)"
      "30 + n s \<le> length s" "n s \<le> length p" "n s \<le> 32768"
    by (cases src) (auto simp: key_tcp_unprotect_def Let_def wire_defs n_def split: if_splits)
  obtain q where q: "run_open (Some c) (take 12 s) (take (n s) (drop 14 s))
        (take 16 (drop (14 + n s) s)) p = (False, q)"
      "cleanse q 0 (n s) = replicate (n s) 0 @ drop (n s) p"
    using run_open_refused [OF assms(1), of "take (n s) (drop 14 s)" p] s by auto
  show ?thesis
    using assms(2) s q
    by (auto simp: key_tcp_unprotect_def Let_def wire_defs n_def [symmetric] simp del: drop_drop)
qed

text \<open>Frames that do not authenticate are refused and leave no plaintext behind. When
  the opening callback refuses, both keyed decoders fail on every input, and the caller's
  plaintext buffer is as it was except for a zeroed beginning: nothing of what the callback
  wrote there survives.
\<close>

theorem forged_frames_leave_no_plaintext:
  assumes "open_refuses c"
    and "decode_key_tcp_bootstrap src (Some c) (Some p) = (r1, p1)"
    and "decode_key_udp_init src (Some c) (Some p) = (r2, p2)"
  shows "(\<exists>e. r1 = Inl e) \<and> (\<exists>k. p1 = Some (replicate k 0 @ drop k p)) \<and>
         (\<exists>e. r2 = Inl e) \<and> (\<exists>k. p2 = Some (replicate k 0 @ drop k p))"
proof -
  have triv: "\<exists>k. p = replicate k 0 @ drop k p" by (rule exI [of _ 0]) simp
  obtain r q where r: "key_unprotect src (Some c) (Some p) = (r, q)" by fastforce
  obtain r' q' where r': "key_tcp_unprotect src (Some c) (Some p) = (r', q')" by fastforce
  from key_unprotect_refused [OF assms(1) r] key_tcp_unprotect_refused [OF assms(1) r']
    assms(2,3) r r' triv
  show ?thesis
    by (auto simp: decode_key_tcp_bootstrap_def decode_key_udp_init_def split: option.splits if_splits)
qed

theorem forged_frames_leave_no_plaintext_witness:
  "(\<exists>e. fst (decode_key_tcp_bootstrap (Some (replicate 12 0 @ [0, 3] @ replicate 19 0))
          (Some \<lparr>kc_seal = Some (\<lambda>_ _. (False, [], [])), kc_open = Some (\<lambda>_ ct _. (False, ct))\<rparr>)
          (Some (replicate 5 1))) = Inl e)"
  by (rule conjunct1 [OF forged_frames_leave_no_plaintext])
    (auto simp: open_refuses_def intro: prod.collapse [symmetric])

end
