(* ===== verification/Mt_Sha224.thy ===== *)
theory Mt_Sha224
  imports Mt_Prelude
begin

text \<open>
  The Trojan password hash (ngx_stream_mtrojan_trojan.c): the module's own SHA-224, the hex
  key made from it and the comparison of two keys. The state of a computation is the C
  context: eight words, the 64-byte block being filled with its fill level, and the bit count.
  The C loops over an index are folds over the same index range.
\<close>

subsection \<open>Words\<close>

definition rotr32 :: "u32 \<Rightarrow> nat \<Rightarrow> u32" where
  "rotr32 v n = drop_bit n v OR push_bit (32 - n) v"

definition load_be32 :: "bytes \<Rightarrow> u32" where
  "load_be32 p = bytes_u32 (p ! 0) (p ! 1) (p ! 2) (p ! 3)"

definition store_be32 :: "bytes \<Rightarrow> nat \<Rightarrow> u32 \<Rightarrow> bytes" where
  "store_be32 p off v =
     poke p off [ucast (drop_bit 24 v), ucast (drop_bit 16 v), ucast (drop_bit 8 v), ucast v]"

definition sha256_k :: "u32 list" where
  "sha256_k = [
    0x428a2f98, 0x71374491, 0xb5c0fbcf, 0xe9b5dba5,
    0x3956c25b, 0x59f111f1, 0x923f82a4, 0xab1c5ed5,
    0xd807aa98, 0x12835b01, 0x243185be, 0x550c7dc3,
    0x72be5d74, 0x80deb1fe, 0x9bdc06a7, 0xc19bf174,
    0xe49b69c1, 0xefbe4786, 0x0fc19dc6, 0x240ca1cc,
    0x2de92c6f, 0x4a7484aa, 0x5cb0a9dc, 0x76f988da,
    0x983e5152, 0xa831c66d, 0xb00327c8, 0xbf597fc7,
    0xc6e00bf3, 0xd5a79147, 0x06ca6351, 0x14292967,
    0x27b70a85, 0x2e1b2138, 0x4d2c6dfc, 0x53380d13,
    0x650a7354, 0x766a0abb, 0x81c2c92e, 0x92722c85,
    0xa2bfe8a1, 0xa81a664b, 0xc24b8b70, 0xc76c51a3,
    0xd192e819, 0xd6990624, 0xf40e3585, 0x106aa070,
    0x19a4c116, 0x1e376c08, 0x2748774c, 0x34b0bcb5,
    0x391c0cb3, 0x4ed8aa4a, 0x5b9cca4f, 0x682e6ff3,
    0x748f82ee, 0x78a5636f, 0x84c87814, 0x8cc70208,
    0x90befffa, 0xa4506ceb, 0xbef9a3f7, 0xc67178f2]"

subsection \<open>The context and its operations\<close>

record sha224_ctx_t =
  sha_h :: "u32 list"
  sha_block :: bytes
  sha_len :: u64
  sha_block_len :: nat

text \<open>\<open>init\<close> leaves the block bytes as they are: \<open>block\<close> is what the stack held.\<close>

definition sha224_init :: "bytes \<Rightarrow> sha224_ctx_t" where
  "sha224_init block =
     \<lparr>sha_h = [0xc1059ed8, 0x367cd507, 0x3070dd17, 0xf70e5939,
               0xffc00b31, 0x68581511, 0x64f98fa7, 0xbefa4fa4],
      sha_block = block, sha_len = 0, sha_block_len = 0\<rparr>"

text \<open>\<open>w[i]\<close> for \<open>i\<close> from 16 to 63, from the words before it.\<close>

definition sched_step :: "nat \<Rightarrow> u32 list \<Rightarrow> u32 list" where
  "sched_step i w =
     (let s0 = rotr32 (w ! (i - 15)) 7 XOR rotr32 (w ! (i - 15)) 18 XOR drop_bit 3 (w ! (i - 15));
          s1 = rotr32 (w ! (i - 2)) 17 XOR rotr32 (w ! (i - 2)) 19 XOR drop_bit 10 (w ! (i - 2))
      in w @ [w ! (i - 16) + s0 + w ! (i - 7) + s1])"

type_synonym regs = "u32 \<times> u32 \<times> u32 \<times> u32 \<times> u32 \<times> u32 \<times> u32 \<times> u32"

definition round_step :: "u32 list \<Rightarrow> nat \<Rightarrow> regs \<Rightarrow> regs" where
  "round_step w i r =
     (let (a, b, c, d, e, f, g, h) = r;
          s1 = rotr32 e 6 XOR rotr32 e 11 XOR rotr32 e 25;
          ch = (e AND f) XOR (NOT e AND g);
          s0 = rotr32 a 2 XOR rotr32 a 13 XOR rotr32 a 22;
          maj = (a AND b) XOR (a AND c) XOR (b AND c);
          t1 = h + s1 + ch + sha256_k ! i + w ! i;
          t2 = s0 + maj;
          h = g; g = f; f = e; e = d + t1; d = c; c = b; b = a; a = t1 + t2
      in (a, b, c, d, e, f, g, h))"

definition sha256_compress :: "u32 list \<Rightarrow> bytes \<Rightarrow> u32 list" where
  "sha256_compress hs block =
     (let w = map (\<lambda>i. load_be32 (drop (i * 4) block)) [0 ..< 16];
          w = fold sched_step [16 ..< 64] w;
          (a, b, c, d, e, f, g, h) =
            fold (round_step w) [0 ..< 64]
              (hs ! 0, hs ! 1, hs ! 2, hs ! 3, hs ! 4, hs ! 5, hs ! 6, hs ! 7)
      in [hs ! 0 + a, hs ! 1 + b, hs ! 2 + c, hs ! 3 + d,
          hs ! 4 + e, hs ! 5 + f, hs ! 6 + g, hs ! 7 + h])"

definition sha256_transform :: "sha224_ctx_t \<Rightarrow> bytes \<Rightarrow> sha224_ctx_t" where
  "sha256_transform ctx block = ctx\<lparr>sha_h := sha256_compress (sha_h ctx) block\<rparr>"

text \<open>
  The \<open>while (len > 0)\<close> loop of \<open>update\<close>. Every round takes at least one byte as long as the
  block is not full, so the length of the data is enough fuel.
\<close>

fun sha224_update_loop :: "nat \<Rightarrow> sha224_ctx_t \<Rightarrow> bytes \<Rightarrow> sha224_ctx_t" where
  "sha224_update_loop 0 ctx data = ctx"
| "sha224_update_loop (Suc fuel) ctx data =
     (if length data > 0 then
        let n = 64 - sha_block_len ctx;
            n = (if n > length data then length data else n);
            ctx = ctx\<lparr>sha_block := poke (sha_block ctx) (sha_block_len ctx) (take n data)\<rparr>;
            ctx = ctx\<lparr>sha_block_len := sha_block_len ctx + n\<rparr>;
            data = drop n data;
            ctx = (if sha_block_len ctx = 64
                   then (sha256_transform ctx (sha_block ctx))\<lparr>sha_block_len := 0\<rparr> else ctx)
        in sha224_update_loop fuel ctx data
      else ctx)"

definition sha224_update :: "sha224_ctx_t \<Rightarrow> bytes \<Rightarrow> sha224_ctx_t" where
  "sha224_update ctx data =
     (let ctx = ctx\<lparr>sha_len := sha_len ctx + word_of_nat (length data) * 8\<rparr>
      in sha224_update_loop (length data) ctx data)"

text \<open>The two byte loops of \<open>final\<close>: \<open>len_buf\<close> and \<open>out\<close>.\<close>

definition u64_bytes :: "u64 \<Rightarrow> bytes" where
  "u64_bytes v = map (\<lambda>j. ucast (drop_bit ((7 - j) * 8) v)) [0 ..< 8]"

definition store_digest :: "u32 list \<Rightarrow> bytes" where
  "store_digest h = fold (\<lambda>i out. store_be32 out (i * 4) (h ! i)) [0 ..< 7] (replicate 28 0)"

text \<open>\<open>memset\<close> or \<open>memcpy\<close> to \<open>ctx->block + off\<close>.\<close>

definition sha_fill :: "sha224_ctx_t \<Rightarrow> nat \<Rightarrow> bytes \<Rightarrow> sha224_ctx_t" where
  "sha_fill ctx off bs = ctx\<lparr>sha_block := poke (sha_block ctx) off bs\<rparr>"

definition sha224_final :: "sha224_ctx_t \<Rightarrow> bytes" where
  "sha224_final ctx =
     (let len_buf = u64_bytes (sha_len ctx);
          ctx = (sha_fill ctx (sha_block_len ctx) [0x80])\<lparr>sha_block_len := sha_block_len ctx + 1\<rparr>;
          ctx = (if sha_block_len ctx > 56 then
                   let ctx = sha_fill ctx (sha_block_len ctx) (replicate (64 - sha_block_len ctx) 0)
                   in (sha256_transform ctx (sha_block ctx))\<lparr>sha_block_len := 0\<rparr>
                 else ctx);
          ctx = sha_fill ctx (sha_block_len ctx) (replicate (56 - sha_block_len ctx) 0);
          ctx = sha_fill ctx 56 len_buf;
          ctx = sha256_transform ctx (sha_block ctx)
      in store_digest (sha_h ctx))"

definition sha224 :: "bytes \<Rightarrow> bytes \<Rightarrow> bytes" where
  "sha224 stack data = sha224_final (sha224_update (sha224_init stack) data)"

subsection \<open>Keys\<close>

definition KEY_LEN :: nat where "KEY_LEN = 56"

definition hex :: bytes where
  "hex = ascii ''0123456789abcdef''"

text \<open>\<open>Some out\<close> for a return of 0, \<open>None\<close> for -1; \<open>stack\<close> is the uninitialised block.\<close>

definition make_key_len :: "bytes \<Rightarrow> cptr \<Rightarrow> bytes option" where
  "make_key_len stack password =
     (case password of
        None \<Rightarrow> None
      | Some pw \<Rightarrow>
          let digest = sha224 stack pw in
          Some (fold (\<lambda>i out.
                  let out = poke out (i * 2) [hex ! unat (drop_bit 4 (digest ! i))]
                  in poke out (i * 2 + 1) [hex ! unat (digest ! i AND 0x0f)])
                [0 ..< 28] (replicate 56 0)))"

text \<open>\<open>password\<close> is a C string: \<open>strlen\<close> stops at the first NUL.\<close>

definition make_key :: "bytes \<Rightarrow> cptr \<Rightarrow> bytes option" where
  "make_key stack password =
     (case password of
        None \<Rightarrow> None
      | Some pw \<Rightarrow> make_key_len stack (Some (cstr pw)))"

definition key_equal :: "cptr \<Rightarrow> cptr \<Rightarrow> bool" where
  "key_equal a b =
     (case (a, b) of
        (Some a, Some b) \<Rightarrow>
          fold (\<lambda>i diff. diff OR (a ! i XOR b ! i)) [0 ..< KEY_LEN] 0 = 0
      | _ \<Rightarrow> False)"

subsection \<open>The padding of FIPS 180-4\<close>

text \<open>
  The hash as the standard describes it, for a compression function: the message, a byte 0x80,
  as many zero bytes as bring the length to 56 modulo 64, the length in bits on eight bytes;
  the 64-byte blocks are then compressed in order.
\<close>

function compress_blocks :: "u32 list \<Rightarrow> bytes \<Rightarrow> u32 list \<times> bytes" where
  "compress_blocks hs m =
     (if length m < 64 then (hs, m)
      else compress_blocks (sha256_compress hs (take 64 m)) (drop 64 m))"
  by pat_completeness auto
termination by (relation "measure (\<lambda>(hs, m). length m)") auto

declare compress_blocks.simps [simp del]

definition fips_pad :: "bytes \<Rightarrow> bytes" where
  "fips_pad m = m @ [0x80] @ replicate ((119 - length m mod 64) mod 64) 0 @
                u64_bytes (word_of_nat (length m) * 8)"

definition fips_sha224 :: "bytes \<Rightarrow> bytes" where
  "fips_sha224 m =
     concat (map u32_bytes (take 7 (fst (compress_blocks (sha_h (sha224_init [])) (fips_pad m)))))"

lemma length_compress [simp]: "length (sha256_compress hs b) = 8"
  by (simp add: sha256_compress_def Let_def split: prod.split)

lemma compress_blocks_small [simp]: "length m < 64 \<Longrightarrow> compress_blocks hs m = (hs, m)"
  by (subst compress_blocks.simps) simp

lemma compress_blocks_block [simp]:
  "length b = 64 \<Longrightarrow> compress_blocks hs (b @ m) = compress_blocks (sha256_compress hs b) m"
  by (subst compress_blocks.simps) simp

lemma compress_blocks_append:
  "compress_blocks hs (a @ b) =
     (case compress_blocks hs a of (hs', r) \<Rightarrow> compress_blocks hs' (r @ b))"
proof (induction hs a rule: compress_blocks.induct)
  case (1 hs m)
  show ?case
  proof (cases "length m < 64")
    case False
    then have "compress_blocks hs (m @ b) = compress_blocks (sha256_compress hs (take 64 m)) (drop 64 m @ b)"
      by (subst compress_blocks.simps) simp
    also have "\<dots> = (case compress_blocks (sha256_compress hs (take 64 m)) (drop 64 m) of
        (hs', r) \<Rightarrow> compress_blocks hs' (r @ b))"
      using 1 False by simp
    also have "compress_blocks (sha256_compress hs (take 64 m)) (drop 64 m) = compress_blocks hs m"
      using False by (subst (2) compress_blocks.simps) simp
    finally show ?thesis .
  qed simp
qed

lemma compress_blocks_rest: "length (snd (compress_blocks hs m)) = length m mod 64"
proof (induction hs m rule: compress_blocks.induct)
  case (1 hs m)
  then show ?case
    by (subst compress_blocks.simps) (auto simp: mod_if [of "length m"])
qed

subsection \<open>The context as a running hash\<close>

definition sha_inv :: "sha224_ctx_t \<Rightarrow> bool" where
  "sha_inv ctx \<longleftrightarrow> length (sha_block ctx) = 64 \<and> sha_block_len ctx < 64"

definition sha_abs :: "sha224_ctx_t \<Rightarrow> u32 list \<times> bytes" where
  "sha_abs ctx = (sha_h ctx, take (sha_block_len ctx) (sha_block ctx))"

lemma update_loop_abs:
  "sha_inv ctx \<Longrightarrow> length data \<le> fuel \<Longrightarrow>
   sha_inv (sha224_update_loop fuel ctx data) \<and>
   sha_abs (sha224_update_loop fuel ctx data) =
     compress_blocks (fst (sha_abs ctx)) (snd (sha_abs ctx) @ data) \<and>
   sha_len (sha224_update_loop fuel ctx data) = sha_len ctx"
proof (induction fuel arbitrary: ctx data)
  case 0
  then show ?case by (simp add: sha_abs_def sha_inv_def)
next
  case (Suc fuel)
  show ?case
  proof (cases "data = []")
    case True
    with Suc.prems show ?thesis by (simp add: sha_abs_def sha_inv_def)
  next
    case False
    define p where "p = take (sha_block_len ctx) (sha_block ctx)"
    define n where "n = min (64 - sha_block_len ctx) (length data)"
    have len: "length (sha_block ctx) = 64" "sha_block_len ctx < 64" "length p = sha_block_len ctx"
      using Suc.prems by (simp_all add: sha_inv_def p_def)
    have n: "0 < n" "n \<le> length data" "sha_block_len ctx + n \<le> 64"
      using False len by (auto simp: n_def)
    have blk: "poke (sha_block ctx) (sha_block_len ctx) (take n data) =
        (p @ take n data) @ drop (sha_block_len ctx + n) (sha_block ctx)"
      using n by (simp add: poke_def p_def)
    have step: "sha224_update_loop (Suc fuel) ctx data =
        sha224_update_loop fuel
          (let c = ctx\<lparr>sha_block := poke (sha_block ctx) (sha_block_len ctx) (take n data),
                      sha_block_len := sha_block_len ctx + n\<rparr>
           in if sha_block_len ctx + n = 64
              then c\<lparr>sha_h := sha256_compress (sha_h ctx) (sha_block c), sha_block_len := 0\<rparr>
              else c) (drop n data)"
      using False
      by (simp add: sha256_transform_def Let_def n_def min_def not_less cong: if_cong)
    have split: "p @ data = (p @ take n data) @ drop n data" by simp
    show ?thesis
    proof (cases "sha_block_len ctx + n = 64")
      case True
      let ?c = "ctx\<lparr>sha_block := p @ take n data,
                 sha_h := sha256_compress (sha_h ctx) (p @ take n data), sha_block_len := 0\<rparr>"
      have "sha224_update_loop (Suc fuel) ctx data = sha224_update_loop fuel ?c (drop n data)"
        using step True blk len by simp
      moreover have "sha_inv ?c" using n len True by (simp add: sha_inv_def)
      moreover have "length (drop n data) \<le> fuel" using Suc.prems(2) n by simp
      moreover have "compress_blocks (sha_h ctx) (p @ data) =
          compress_blocks (sha256_compress (sha_h ctx) (p @ take n data)) (drop n data)"
        using n len True unfolding split by (intro compress_blocks_block) simp
      ultimately show ?thesis
        using Suc.IH [of ?c "drop n data"] by (simp add: sha_abs_def p_def)
    next
      case False
      let ?c = "ctx\<lparr>sha_block := poke (sha_block ctx) (sha_block_len ctx) (take n data),
                    sha_block_len := sha_block_len ctx + n\<rparr>"
      have "sha224_update_loop (Suc fuel) ctx data = sha224_update_loop fuel ?c (drop n data)"
        using step False by simp
      moreover have "sha_inv ?c" using n len False blk by (auto simp: sha_inv_def)
      moreover have "length (drop n data) \<le> fuel" using Suc.prems(2) n by simp
      moreover have "take (sha_block_len ctx + n) (poke (sha_block ctx) (sha_block_len ctx) (take n data)) =
          p @ take n data"
        unfolding blk using n len by simp
      ultimately show ?thesis
        using Suc.IH [of ?c "drop n data"] by (simp add: sha_abs_def p_def)
    qed
  qed
qed

lemma store_be32_append:
  assumes "length xs = off" "4 \<le> length ys"
  shows "store_be32 (xs @ ys) off v = (xs @ u32_bytes v) @ drop 4 ys"
  using assms by (simp add: store_be32_def u32_bytes_def poke_append numeral_eq_Suc)

lemma length_words [simp]: "length (concat (map u32_bytes hs)) = 4 * length hs"
  by (induction hs) simp_all

lemma store_words_upto:
  "k \<le> 7 \<Longrightarrow> 7 \<le> length hs \<Longrightarrow>
   fold (\<lambda>i out. store_be32 out (i * 4) (hs ! i)) [0 ..< k] (replicate 28 0) =
   concat (map u32_bytes (take k hs)) @ replicate (28 - 4 * k) 0"
proof (induction k)
  case (Suc k)
  then show ?case
    by (simp add: store_be32_append take_Suc_conv_app_nth)
qed simp

lemma store_words:
  "length hs = 8 \<Longrightarrow>
   store_digest hs = concat (map u32_bytes (take 7 hs))"
  unfolding store_digest_def using store_words_upto [of 7 hs] by (simp del: upt_Suc)

text \<open>Two blocks or one, as the fill level decides.\<close>

lemma sha_fill_simps [simp]:
  "sha_h (sha_fill c off bs) = sha_h c" "sha_block_len (sha_fill c off bs) = sha_block_len c"
  "sha_block (sha_fill c off bs) = poke (sha_block c) off bs"
  "sha_len (sha_fill c off bs) = sha_len c"
  by (simp_all add: sha_fill_def)

lemma transform_simps [simp]:
  "sha_h (sha256_transform c b) = sha256_compress (sha_h c) b"
  "sha_block (sha256_transform c b) = sha_block c"
  "sha_block_len (sha256_transform c b) = sha_block_len c"
  by (simp_all add: sha256_transform_def)

lemma sha224_final_abs:
  assumes "sha_inv ctx" "length (sha_h ctx) = 8"
  shows "sha224_final ctx =
    concat (map u32_bytes (take 7 (fst (compress_blocks (fst (sha_abs ctx))
      (snd (sha_abs ctx) @ [0x80] @ replicate ((119 - sha_block_len ctx) mod 64) 0 @
       u64_bytes (sha_len ctx))))))"
proof -
  define n where "n = sha_block_len ctx"
  define p where "p = take n (sha_block ctx)"
  define l where "l = u64_bytes (sha_len ctx)"
  have n: "n < 64" "length p = n" "length (sha_block ctx) = 64"
    using assms(1) by (simp_all add: sha_inv_def n_def p_def)
  have l: "length l = 8" by (simp add: l_def u64_bytes_def)
  have b1: "poke (sha_block ctx) n [0x80] = (p @ [0x80]) @ drop (Suc n) (sha_block ctx)"
    by (simp add: poke_def p_def)
  show ?thesis
  proof (cases "n + 1 > 56")
    case True
    have f1: "poke (poke (sha_block ctx) n [0x80]) (n + 1) (replicate (64 - (n + 1)) 0) =
        p @ [0x80] @ replicate (63 - n) 0"
      unfolding b1 using n by (subst poke_append) simp_all
    have f2: "poke (poke (p @ [0x80] @ replicate (63 - n) 0) 0 (replicate 56 0)) 56 l =
        replicate 56 0 @ l"
      using n l by (simp add: poke_append)
    have k: "(119 - n) mod 64 = (63 - n) + 56" using True n(1) by simp
    have "compress_blocks (sha_h ctx) (p @ [0x80] @ replicate ((119 - n) mod 64) 0 @ l) =
        compress_blocks (sha_h ctx) ((p @ [0x80] @ replicate (63 - n) 0) @ (replicate 56 0 @ l) @ [])"
      by (simp add: k replicate_add)
    also have "\<dots> = (sha256_compress (sha256_compress (sha_h ctx) (p @ [0x80] @ replicate (63 - n) 0))
        (replicate 56 0 @ l), [])"
      using n l by (subst compress_blocks_block, simp, subst compress_blocks_block) simp_all
    moreover have "sha224_final ctx = store_digest (sha256_compress
        (sha256_compress (sha_h ctx) (p @ [0x80] @ replicate (63 - n) 0)) (replicate 56 0 @ l))"
      using True f1 f2 by (simp add: sha224_final_def Let_def l_def n_def [symmetric] del: poke_0)
    ultimately show ?thesis
      by (simp add: sha_abs_def l_def n_def [symmetric] p_def [symmetric] store_words)
  next
    case False
    have f2: "poke (poke ((p @ [0x80]) @ drop (Suc n) (sha_block ctx)) (n + 1) (replicate (56 - (n + 1)) 0)) 56 l =
        p @ [0x80] @ replicate (55 - n) 0 @ l"
    proof -
      have "poke ((p @ [0x80]) @ drop (Suc n) (sha_block ctx)) (n + 1) (replicate (56 - (n + 1)) 0) =
          (p @ [0x80] @ replicate (55 - n) 0) @ drop 56 (sha_block ctx)"
        using n False by (subst poke_append) simp_all
      moreover have "poke ((p @ [0x80] @ replicate (55 - n) 0) @ drop 56 (sha_block ctx)) 56 l =
          (p @ [0x80] @ replicate (55 - n) 0) @ l"
        using n False l by (subst poke_append) simp_all
      ultimately show ?thesis by simp
    qed
    have "119 - n = (55 - n) + 64" using False by simp
    then have k: "(119 - n) mod 64 = 55 - n" by (simp only: mod_add_self2) simp
    have "compress_blocks (sha_h ctx) ((p @ [0x80] @ replicate (55 - n) 0 @ l) @ []) =
        (sha256_compress (sha_h ctx) (p @ [0x80] @ replicate (55 - n) 0 @ l), [])"
      using n l False by (subst compress_blocks_block) simp_all
    moreover have "sha224_final ctx =
        store_digest (sha256_compress (sha_h ctx) (p @ [0x80] @ replicate (55 - n) 0 @ l))"
      using False f2 b1 by (simp add: sha224_final_def Let_def l_def n_def [symmetric])
    ultimately show ?thesis
      by (simp add: sha_abs_def l_def n_def [symmetric] p_def [symmetric] store_words k)
  qed
qed

lemma sha224_padding':
  assumes "length stack = 64"
  shows "sha224 stack data = fips_sha224 data"
proof -
  let ?c = "(sha224_init stack)\<lparr>sha_len := word_of_nat (length data) * 8\<rparr>"
  have c: "sha_inv ?c" "sha_abs ?c = (sha_h (sha224_init []), [])"
    using assms by (simp_all add: sha_inv_def sha_abs_def sha224_init_def)
  define u where "u = sha224_update_loop (length data) ?c data"
  have u: "sha_inv u" "sha_abs u = compress_blocks (sha_h (sha224_init [])) data"
      "sha_len u = word_of_nat (length data) * 8"
    using update_loop_abs [OF c(1), of data "length data"] c(2)
    by (simp_all add: u_def)
  have len: "sha_block_len u = length data mod 64"
    using u(1,2) compress_blocks_rest [of "sha_h (sha224_init [])" data]
    by (auto simp: sha_abs_def sha_inv_def dest: arg_cong [where f = "length \<circ> snd"])
  have h: "length (sha_h u) = 8"
  proof -
    have "length (fst (compress_blocks hs m)) = 8" if "length hs = 8" for hs m
      using that
    proof (induction hs m rule: compress_blocks.induct)
      case (1 hs m)
      then show ?case by (subst compress_blocks.simps) simp
    qed
    then have "length (fst (sha_abs u)) = 8" by (simp add: u(2) sha224_init_def)
    then show ?thesis by (simp add: sha_abs_def)
  qed
  have "sha224 stack data = sha224_final u"
    by (simp add: sha224_def sha224_update_def u_def sha224_init_def Let_def)
  also have "\<dots> = fips_sha224 data"
    unfolding sha224_final_abs [OF u(1) h] fips_sha224_def fips_pad_def
    by (simp only: compress_blocks_append [of _ data] u len) (simp split: prod.split)
  finally show ?thesis .
qed

text \<open>
  C17: The module's SHA-224 processes exactly the padded message of FIPS 180-4. For every
  input, and whatever the uninitialised block of the context held, buffering the data, the
  one- or two-block ending and the bit count compress the blocks of the padded message in
  order, and the digest is the first seven words of the result.
\<close>

theorem sha224_padding:
  assumes "length stack = 64"
  shows "sha224 stack data = fips_sha224 data"
  using assms by (rule sha224_padding')

theorem sha224_padding_witness: "sha224 (replicate 64 7) [97, 98] = fips_sha224 [97, 98]"
  by (rule sha224_padding) simp

subsection \<open>Keys as digests\<close>

definition hex_pair :: "byte \<Rightarrow> bytes" where
  "hex_pair b = [hex ! unat (drop_bit 4 b), hex ! unat (b AND 0x0f)]"

lemma length_hex_pairs [simp]: "length (concat (map hex_pair bs)) = 2 * length bs"
  by (induction bs) (simp_all add: hex_pair_def)

lemma hex_loop_upto:
  "k \<le> n \<Longrightarrow> n \<le> length digest \<Longrightarrow>
   fold (\<lambda>i out.
     let out = poke out (i * 2) [hex ! unat (drop_bit 4 (digest ! i))]
     in poke out (i * 2 + 1) [hex ! unat (digest ! i AND 0x0f)])
     [0 ..< k] (replicate (2 * n) 0) =
   concat (map hex_pair (take k digest)) @ replicate (2 * n - 2 * k) 0"
proof (induction k)
  case (Suc k)
  have "2 * n - 2 * k = Suc (Suc (2 * n - 2 * Suc k))" using Suc.prems by simp
  then have r: "replicate (2 * n - 2 * k) (0 :: byte) = 0 # 0 # replicate (2 * n - 2 * Suc k) 0"
    by simp
  let ?p = "concat (map hex_pair (take k digest))"
  have l: "length ?p = k * 2" using Suc.prems by simp
  have "poke (poke (?p @ 0 # 0 # replicate (2 * n - 2 * Suc k) 0) (k * 2) [x]) (k * 2 + 1) [y] =
      ?p @ x # y # replicate (2 * n - 2 * Suc k) 0" for x y
  proof -
    have "poke (?p @ 0 # 0 # replicate (2 * n - 2 * Suc k) 0) (k * 2) [x] =
        (?p @ [x]) @ 0 # replicate (2 * n - 2 * Suc k) 0"
      using l by (simp add: poke_append)
    moreover have "poke ((?p @ [x]) @ 0 # replicate (2 * n - 2 * Suc k) 0) (k * 2 + 1) [y] =
        (?p @ [x]) @ [y] @ replicate (2 * n - 2 * Suc k) 0"
      using l by (subst poke_append) simp_all
    ultimately show ?thesis by simp
  qed
  moreover have "hex_pair (digest ! k) =
      [hex ! unat (drop_bit 4 (digest ! k)), hex ! unat (digest ! k AND 0x0f)]"
    by (simp add: hex_pair_def)
  ultimately show ?case using Suc r by (simp add: take_Suc_conv_app_nth Let_def)
qed simp

lemma length_fips_sha224 [simp]: "length (fips_sha224 m) = 28"
proof -
  have "length (fst (compress_blocks hs m)) = 8" if "length hs = 8" for hs m
    using that
  proof (induction hs m rule: compress_blocks.induct)
    case (1 hs m)
    then show ?case by (subst compress_blocks.simps) simp
  qed
  then show ?thesis by (simp add: fips_sha224_def sha224_init_def)
qed

lemma make_key_len_hex:
  assumes "length stack = 64"
  shows "make_key_len stack (Some pw) = Some (concat (map hex_pair (fips_sha224 pw)))"
  using hex_loop_upto [of 28 28 "fips_sha224 pw"] sha224_padding' [OF assms]
  by (simp add: make_key_len_def Let_def del: upt_Suc)

lemma distinct_hex: "distinct hex" and length_hex: "length hex = 16"
  by (simp_all add: hex_def)

lemma nibbles: "unat (drop_bit 4 (b :: byte)) = unat b div 16" "unat (b AND 0x0f) = unat b mod 16"
proof -
  show "unat (drop_bit 4 b) = unat b div 16" by (simp add: drop_bit_eq_div unat_div)
  have "b AND 0x0f = take_bit 4 b" by (simp add: take_bit_eq_mask mask_numeral)
  then show "unat (b AND 0x0f) = unat b mod 16"
    by (simp add: unat_mod take_bit_eq_mod)
qed

lemma nibble_lt: "unat (b :: byte) div 16 < 16" "unat b mod 16 < 16"
  using unat_byte_lt [of b] by linarith simp

lemma hex_pair_inj: "hex_pair a = hex_pair b \<Longrightarrow> a = b"
proof -
  assume "hex_pair a = hex_pair b"
  then have "unat a div 16 = unat b div 16" "unat a mod 16 = unat b mod 16"
    using nibble_lt [of a] nibble_lt [of b]
    by (simp_all add: hex_pair_def nibbles nth_eq_iff_index_eq [OF distinct_hex] length_hex)
  then have "unat a = unat b" by (metis div_mult_mod_eq)
  then show "a = b" by (simp add: word_unat_eq_iff)
qed

lemma hex_pairs_inj:
  "length a = length b \<Longrightarrow> concat (map hex_pair a) = concat (map hex_pair b) \<Longrightarrow> a = b"
proof (induction a b rule: list_induct2)
  case (Cons x xs y ys)
  then have "hex_pair x = hex_pair y" "concat (map hex_pair xs) = concat (map hex_pair ys)"
    by (simp_all add: hex_pair_def)
  with Cons show ?case by (auto dest: hex_pair_inj)
qed simp

lemma xor_zero_iff: "(a XOR b :: byte) = 0 \<longleftrightarrow> a = b"
  by (metis xor.assoc xor_self_eq xor.right_neutral xor.left_neutral)

lemma diff_loop:
  "fold (\<lambda>i diff. diff OR (a ! i XOR b ! i)) [0 ..< n] d = (0 :: byte) \<longleftrightarrow>
   d = 0 \<and> (\<forall>i < n. a ! i = b ! i)"
proof (induction n)
  case (Suc n)
  then show ?case
    by (auto simp: less_Suc_eq or_eq_0_iff xor_zero_iff)
qed simp

lemma key_equal_iff:
  assumes "length a \<ge> 56" "length b \<ge> 56"
  shows "key_equal (Some a) (Some b) \<longleftrightarrow> take 56 a = take 56 b"
proof -
  have "key_equal (Some a) (Some b) \<longleftrightarrow> (\<forall>i < 56. a ! i = b ! i)"
    by (simp add: key_equal_def KEY_LEN_def diff_loop del: upt_Suc)
  also have "\<dots> \<longleftrightarrow> take 56 a = take 56 b"
    using assms by (auto simp: list_eq_iff_nth_eq)
  finally show ?thesis .
qed

text \<open>
  C27: The password check compares digests. A key made from a password has 56 characters,
  all lower-case hex digits, and does not depend on the uninitialised memory it was computed in;
  the accumulating comparison accepts two keys exactly when the SHA-224 digests of the two
  passwords are equal, so the hex encoding loses nothing.
\<close>

theorem trojan_key_equal_iff:
  assumes "length stack = 64" "length stack' = 64"
    and "make_key_len stack (Some a) = Some ka" "make_key_len stack' (Some b) = Some kb"
  shows "length ka = KEY_LEN \<and> set ka \<subseteq> set hex \<and>
         (key_equal (Some ka) (Some kb) \<longleftrightarrow> fips_sha224 a = fips_sha224 b)"
proof -
  have k: "ka = concat (map hex_pair (fips_sha224 a))" "kb = concat (map hex_pair (fips_sha224 b))"
    using assms by (simp_all add: make_key_len_hex)
  have "set (hex_pair x) \<subseteq> set hex" for x
    using nibble_lt [of x] length_hex by (auto simp: hex_pair_def nibbles)
  then have "set ka \<subseteq> set hex" by (auto simp: k)
  moreover have "key_equal (Some ka) (Some kb) \<longleftrightarrow> fips_sha224 a = fips_sha224 b"
    using hex_pairs_inj [of "fips_sha224 a" "fips_sha224 b"] by (auto simp: k key_equal_iff)
  ultimately show ?thesis by (simp add: k KEY_LEN_def)
qed

theorem trojan_key_equal_iff_witness:
  "length (concat (map hex_pair (fips_sha224 [1]))) = KEY_LEN \<and>
   set (concat (map hex_pair (fips_sha224 [1]))) \<subseteq> set hex \<and>
   (key_equal (Some (concat (map hex_pair (fips_sha224 [1]))))
      (Some (concat (map hex_pair (fips_sha224 [2])))) \<longleftrightarrow> fips_sha224 [1] = fips_sha224 [2])"
  by (rule trojan_key_equal_iff [of "replicate 64 0" "replicate 64 1"])
    (simp_all add: make_key_len_hex)

end
