(* ===== verification/Mt_Literal.thy ===== *)
theory Mt_Literal
  imports Mt_Address
begin

text \<open>
  What is done with a target address once it is parsed: recognising a domain that spells an
  IP address, printing an address, the resolver choice (ngx_stream_mtrojan_protocol.c) and
  the choice among resolved addresses (ngx_stream_mtrojan_ip_prefer.h).

  \<open>inet_pton\<close> is not part of the program: the two address families are the parameters
  \<open>pton4\<close> and \<open>pton6\<close>, from the characters of a C string to the address bytes, \<open>None\<close> where
  \<open>inet_pton\<close> does not return 1.
\<close>

subsection \<open>IP literals\<close>

definition INET6_ADDRSTRLEN :: nat where "INET6_ADDRSTRLEN = 46"

definition tail_has_colon :: "bytes \<Rightarrow> bool" where
  "tail_has_colon data =
     (let start = (if length data > 5 then length data - 5 else 0) in
      (\<exists>i \<in> set [start ..< length data]. data ! i = 0x3a))"

definition normalize_ip_literal ::
  "(bytes \<Rightarrow> bytes option) \<Rightarrow> (bytes \<Rightarrow> bytes option) \<Rightarrow> addr_t option \<Rightarrow> bool \<times> addr_t option" where
  "normalize_ip_literal pton4 pton6 addr =
     (case addr of
        None \<Rightarrow> (False, addr)
      | Some a \<Rightarrow>
          if addr_type a \<noteq> ADDR_DOMAIN \<or> addr_host_len a = 0
             \<or> addr_host_len a \<ge> INET6_ADDRSTRLEN
          then (False, addr)
          else let last = addr_host a ! (addr_host_len a - 1) in
            if (last < 0x30 \<or> last > 0x39) \<and> \<not> tail_has_colon (take (addr_host_len a) (addr_host a))
            then (False, addr)
            else let text = cstr (take (addr_host_len a) (addr_host a) @ [0]) in
              case pton4 text of
                Some ip \<Rightarrow>
                  let a = a\<lparr>addr_type := ADDR_IPV4\<rparr>;
                      a = a\<lparr>addr_host := poke (addr_host a) 0 ip\<rparr>;
                      a = a\<lparr>addr_host_len := 4\<rparr>;
                      a = a\<lparr>addr_wire_len := 1 + addr_host_len a + 2\<rparr>
                  in (True, Some a)
              | None \<Rightarrow>
                  case pton6 text of
                    Some ip \<Rightarrow>
                      let a = a\<lparr>addr_type := ADDR_IPV6\<rparr>;
                          a = a\<lparr>addr_host := poke (addr_host a) 0 ip\<rparr>;
                          a = a\<lparr>addr_host_len := 16\<rparr>;
                          a = a\<lparr>addr_wire_len := 1 + addr_host_len a + 2\<rparr>
                      in (True, Some a)
                  | None \<Rightarrow> (False, addr))"

subsection \<open>Printing\<close>

fun dec :: "nat \<Rightarrow> bytes" where
  "dec n = (if n < 10 then [to_byte (48 + n)] else dec (n div 10) @ [to_byte (48 + n mod 10)])"

declare dec.simps [simp del]

definition hex_digit :: "nat \<Rightarrow> byte" where
  "hex_digit n = to_byte (if n < 10 then 48 + n else 87 + n)"

definition hex2 :: "byte \<Rightarrow> bytes" where
  "hex2 b = [hex_digit (unat b div 16), hex_digit (unat b mod 16)]"

text \<open>\<open>Some text\<close> for a return of 0 with \<open>text\<close> and its NUL in \<open>out\<close>, \<open>None\<close> for -1.\<close>

definition addr_to_text :: "addr_t option \<Rightarrow> nat \<Rightarrow> bytes option" where
  "addr_to_text addr out_len =
     (case addr of
        None \<Rightarrow> None
      | Some a \<Rightarrow>
          if out_len = 0 then None
          else
            let h = addr_host a; port = dec (unat (addr_port a));
                text =
                  (if addr_type a = ADDR_IPV4 then
                     (if addr_host_len a \<noteq> 4 then None
                      else Some (dec (unat (h ! 0)) @ [0x2e] @ dec (unat (h ! 1)) @ [0x2e] @
                                 dec (unat (h ! 2)) @ [0x2e] @ dec (unat (h ! 3)) @ [0x3a] @ port))
                   else if addr_type a = ADDR_DOMAIN then
                     Some (cstr (take (addr_host_len a) h) @ [0x3a] @ port)
                   else if addr_type a = ADDR_IPV6 then
                     (if addr_host_len a \<noteq> 16 then None
                      else Some ([0x5b] @ hex2 (h ! 0) @ hex2 (h ! 1) @ [0x3a] @
                                 hex2 (h ! 2) @ hex2 (h ! 3) @ [0x3a] @
                                 hex2 (h ! 4) @ hex2 (h ! 5) @ [0x3a] @
                                 hex2 (h ! 6) @ hex2 (h ! 7) @ [0x3a] @
                                 hex2 (h ! 8) @ hex2 (h ! 9) @ [0x3a] @
                                 hex2 (h ! 10) @ hex2 (h ! 11) @ [0x3a] @
                                 hex2 (h ! 12) @ hex2 (h ! 13) @ [0x3a] @
                                 hex2 (h ! 14) @ hex2 (h ! 15) @ [0x5d, 0x3a] @ port))
                   else None)
            in case text of
                 None \<Rightarrow> None
               | Some t \<Rightarrow> if length t \<ge> out_len then None else Some t)"

subsection \<open>Resolver and family choice\<close>

definition use_nginx_resolver :: "byte \<Rightarrow> bool \<Rightarrow> bool" where
  "use_nginx_resolver type resolver_configured \<longleftrightarrow>
     type = ADDR_DOMAIN \<and> resolver_configured"

definition IP_PREFER_AUTO :: nat where "IP_PREFER_AUTO = 0"
definition IP_PREFER_IPV4 :: nat where "IP_PREFER_IPV4 = 1"
definition IP_PREFER_IPV6 :: nat where "IP_PREFER_IPV6 = 2"

text \<open>The \<open>for\<close> loop that returns the first index from \<open>i\<close> on that holds \<open>fam\<close>.\<close>

fun first_family :: "int list \<Rightarrow> int \<Rightarrow> nat \<Rightarrow> nat option" where
  "first_family [] fam i = None"
| "first_family (f # fs) fam i = (if f = fam then Some i else first_family fs fam (i + 1))"

definition ip_prefer_select :: "int list option \<Rightarrow> nat \<Rightarrow> nat \<Rightarrow> int \<Rightarrow> int \<Rightarrow> nat" where
  "ip_prefer_select families n prefer ipv4_family ipv6_family =
     (case families of
        None \<Rightarrow> n
      | Some fs \<Rightarrow>
          if n = 0 then n
          else case (if prefer = IP_PREFER_IPV4 then first_family (take n fs) ipv4_family 0 else None) of
              Some i \<Rightarrow> i
            | None \<Rightarrow>
                case (if prefer = IP_PREFER_IPV6 then first_family (take n fs) ipv6_family 0 else None) of
                  Some i \<Rightarrow> i
                | None \<Rightarrow> 0)"

subsection \<open>The early exit of the literal test\<close>

text \<open>
  The spelling of an address, as far as the test looks at it (RFC 4291, and the dotted form of
  inet_pton(3)): an IPv4 literal ends in a digit, an IPv6 literal ends in a digit or has a
  colon among its last five characters (its last group has at most four).
\<close>

definition pton4_grammar :: "(bytes \<Rightarrow> bytes option) \<Rightarrow> bool" where
  "pton4_grammar pton4 \<longleftrightarrow>
     (\<forall>s ip. pton4 s = Some ip \<longrightarrow> s \<noteq> [] \<and> 0x30 \<le> last s \<and> last s \<le> 0x39 \<and> length ip = 4)"

definition pton6_grammar :: "(bytes \<Rightarrow> bytes option) \<Rightarrow> bool" where
  "pton6_grammar pton6 \<longleftrightarrow>
     (\<forall>s ip. pton6 s = Some ip \<longrightarrow> s \<noteq> [] \<and> length ip = 16 \<and>
        (0x30 \<le> last s \<and> last s \<le> 0x39 \<or> 0x3a \<in> set (drop (length s - 5) s)))"

lemma tail_has_colon_iff: "tail_has_colon s \<longleftrightarrow> 0x3a \<in> set (drop (length s - 5) s)"
proof -
  have "drop (length s - 5) s = map ((!) s) [length s - 5 ..< length s]"
    by (rule nth_equalityI) auto
  then have "set (drop (length s - 5) s) = (!) s ` {length s - 5 ..< length s}"
    by (metis set_map set_upt)
  then show ?thesis
    by (auto simp: tail_has_colon_def Let_def)
qed

text \<open>The same routine without the early exit.\<close>

definition literal_of ::
  "(bytes \<Rightarrow> bytes option) \<Rightarrow> (bytes \<Rightarrow> bytes option) \<Rightarrow> addr_t \<Rightarrow> (byte \<times> bytes) option" where
  "literal_of pton4 pton6 a =
     (if addr_type a \<noteq> ADDR_DOMAIN \<or> addr_host_len a = 0 \<or> addr_host_len a \<ge> 46 then None
      else case pton4 (host_bytes a) of
          Some ip \<Rightarrow> Some (ADDR_IPV4, ip)
        | None \<Rightarrow> map_option (Pair ADDR_IPV6) (pton6 (host_bytes a)))"

lemma last_take_nth: "0 < n \<Longrightarrow> n \<le> length s \<Longrightarrow> last (take n s) = s ! (n - Suc 0)"
  by (subst last_conv_nth) auto

lemma last_host_bytes:
  "0 < addr_host_len a \<Longrightarrow> addr_host_len a \<le> length (addr_host a) \<Longrightarrow>
   last (host_bytes a) = addr_host a ! (addr_host_len a - 1) \<and> host_bytes a \<noteq> []"
  by (auto simp: host_bytes_def last_conv_nth min_def intro: last_take_nth)


definition toy_pton4 :: "bytes \<Rightarrow> bytes option" where
  "toy_pton4 s = (if s = ascii ''1.2.3.4'' then Some [1, 2, 3, 4] else None)"

definition toy_pton6 :: "bytes \<Rightarrow> bytes option" where
  "toy_pton6 s = (if s = ascii ''::1'' then Some (replicate 15 0 @ [1]) else None)"

lemma toy_grammar: "pton4_grammar toy_pton4" "pton6_grammar toy_pton6"
  by (auto simp: pton4_grammar_def pton6_grammar_def toy_pton4_def toy_pton6_def split: if_splits)


subsection \<open>Lengths of the printed form\<close>

lemma length_dec_byte: "n < 1000 \<Longrightarrow> length (dec n) \<le> 3"
  by (subst dec.simps; subst dec.simps; subst dec.simps) auto

lemma length_dec_port: "n < 100000 \<Longrightarrow> length (dec n) \<le> 5"
  by (subst dec.simps; subst dec.simps; subst dec.simps; subst dec.simps; subst dec.simps) auto

lemma length_hex2 [simp]: "length (hex2 b) = 2"
  by (simp add: hex2_def)

lemma length_dec_octet: "length (dec (unat (b :: byte))) \<le> 3"
  using unat_byte_lt [of b] by (intro length_dec_byte) linarith

text \<open>Printing never fails when the buffer has 262 bytes: 255 of host, colon, port, NUL.\<close>

lemma addr_to_text_bound:
  assumes "valid_addr (addr_type a) (addr_host_len a)" "262 \<le> out_len"
  shows "\<exists>t. addr_to_text (Some a) out_len = Some t \<and> length t \<le> 261"
proof -
  have p: "length (dec (unat (addr_port a))) \<le> 5"
    using unat_u16_lt [of "addr_port a"] by (intro length_dec_port) linarith
  have "length (cstr (take (addr_host_len a) (addr_host a))) \<le> addr_host_len a"
    unfolding cstr_def
    by (rule order_trans [OF length_takeWhile_le]) simp
  moreover note length_dec_octet [of "addr_host a ! 0"] length_dec_octet [of "addr_host a ! 1"]
    length_dec_octet [of "addr_host a ! 2"] length_dec_octet [of "addr_host a ! 3"]
  ultimately show ?thesis
    using assms p
    by (auto simp: addr_to_text_def valid_addr_cases wire_defs Let_def)
qed

subsection \<open>Family preference\<close>

lemma first_family_None: "first_family fs fam i = None \<longleftrightarrow> fam \<notin> set fs"
  by (induction fs arbitrary: i) auto

lemma first_family_Some:
  "first_family fs fam i = Some j \<Longrightarrow>
   i \<le> j \<and> j < i + length fs \<and> fs ! (j - i) = fam \<and> (\<forall>k < j - i. fs ! k \<noteq> fam)"
proof (induction fs arbitrary: i)
  case (Cons f fs)
  show ?case
  proof (cases "f = fam")
    case False
    with Cons.prems have "first_family fs fam (i + 1) = Some j" by simp
    from Cons.IH [OF this] False show ?thesis
      by (auto simp: nth_Cons split: nat.split) (metis Suc_diff_Suc Suc_le_eq nat.inject)
  qed (use Cons in auto)
qed simp

text \<open>
  Choosing among resolved addresses. With at least one address the index returned is
  one of the array; it is the first address of the preferred family when there is one, and
  index 0 otherwise (no preference, or no address of that family).
\<close>

theorem ip_prefer_select_first:
  assumes "fs \<noteq> []" "prefer = IP_PREFER_IPV4 \<and> fam = v4 \<or> prefer = IP_PREFER_IPV6 \<and> fam = v6"
  shows "ip_prefer_select (Some fs) (length fs) IP_PREFER_AUTO v4 v6 = 0 \<and>
    (let i = ip_prefer_select (Some fs) (length fs) prefer v4 v6 in
       i < length fs \<and>
       (if fam \<in> set fs then fs ! i = fam \<and> (\<forall>k < i. fs ! k \<noteq> fam) else i = 0))"
proof -
  have auto0: "ip_prefer_select (Some fs) (length fs) IP_PREFER_AUTO v4 v6 = 0"
    by (simp add: ip_prefer_select_def IP_PREFER_AUTO_def IP_PREFER_IPV4_def IP_PREFER_IPV6_def)
  have sel: "ip_prefer_select (Some fs) (length fs) prefer v4 v6 =
      (case first_family fs fam 0 of None \<Rightarrow> 0 | Some i \<Rightarrow> i)"
    using assms
    by (auto simp: ip_prefer_select_def IP_PREFER_IPV4_def IP_PREFER_IPV6_def split: option.split)
  show ?thesis
  proof (cases "first_family fs fam 0")
    case None
    with auto0 sel assms(1) show ?thesis by (simp add: first_family_None)
  next
    case (Some i)
    from first_family_Some [OF Some] have "i < length fs" "fs ! i = fam" "\<forall>k < i. fs ! k \<noteq> fam"
      by simp_all
    with auto0 sel Some show ?thesis by auto
  qed
qed

theorem ip_prefer_select_first_witness:
  "ip_prefer_select (Some [10, 2, 10]) (length [10 :: int, 2, 10]) IP_PREFER_AUTO 2 10 = 0"
  by (rule conjunct1 [OF ip_prefer_select_first
        [where ?prefer = IP_PREFER_IPV4 and fam = 2 and fs = "[10, 2, 10]"]])
    simp_all

end
