(* ===== verification/Mt_Trojan.thy ===== *)
theory Mt_Trojan
  imports Mt_Literal
begin

text \<open>
  The Trojan address and UDP frame formats (ngx_stream_mtrojan_trojan.c). A frame is
  address, payload length, CR LF, payload; unlike the Mtrojan address, an IP address carries
  no length byte, and \<open>wire_len\<close> counts accordingly. A return of -1 is \<open>None\<close>: the parsers do
  not tell a frame that is not complete yet from a malformed one.
\<close>

subsection \<open>Parsing and packing\<close>

record udp_frame_t =
  uf_addr :: addr_t
  uf_payload_len :: u16
  uf_payload :: bytes
  uf_wire_len :: nat

text \<open>The two bytes of a port or length: \<open>(uint16_t) ((buf[pos] << 8) | buf[pos + 1])\<close>.\<close>

definition be16_at :: "bytes \<Rightarrow> nat \<Rightarrow> u16" where
  "be16_at buf pos = bytes_u16 (buf ! pos) (buf ! (pos + 1))"

definition trojan_parse_addr :: "cptr \<Rightarrow> addr_t option" where
  "trojan_parse_addr buf =
     (case buf of
        None \<Rightarrow> None
      | Some b \<Rightarrow>
          if length b < 1 then None
          else
            let addr = addr_zero\<lparr>addr_type := b ! 0\<rparr> in
            if addr_type addr = ADDR_IPV4 then
              (let host_len = 4; wire_len = 1 + host_len + 2 in
               if length b < wire_len then None
               else Some (addr\<lparr>addr_host := poke (addr_host addr) 0 (take host_len (drop 1 b)),
                               addr_host_len := host_len, addr_port := be16_at b (1 + host_len),
                               addr_wire_len := wire_len\<rparr>))
            else if addr_type addr = ADDR_DOMAIN then
              (if length b < 2 then None
               else let host_len = unat (b ! 1); wire_len = 1 + 1 + host_len + 2 in
                 if host_len = 0 \<or> length b < wire_len then None
                 else Some (addr\<lparr>addr_host := poke (addr_host addr) 0 (take host_len (drop 2 b)),
                                 addr_host_len := host_len, addr_port := be16_at b (2 + host_len),
                                 addr_wire_len := wire_len\<rparr>))
            else if addr_type addr = ADDR_IPV6 then
              (let host_len = 16; wire_len = 1 + host_len + 2 in
               if length b < wire_len then None
               else Some (addr\<lparr>addr_host := poke (addr_host addr) 0 (take host_len (drop 1 b)),
                               addr_host_len := host_len, addr_port := be16_at b (1 + host_len),
                               addr_wire_len := wire_len\<rparr>))
            else None)"

definition trojan_parse_udp_frame :: "cptr \<Rightarrow> udp_frame_t option" where
  "trojan_parse_udp_frame buf =
     (case buf of
        None \<Rightarrow> None
      | Some b \<Rightarrow>
          (case trojan_parse_addr (Some b) of
             None \<Rightarrow> None
           | Some addr \<Rightarrow>
               let pos = addr_wire_len addr in
               if length b < pos + 4 then None
               else
                 let payload_len = be16_at b pos in
                 if b ! (pos + 2) \<noteq> 0x0d \<or> b ! (pos + 3) \<noteq> 0x0a then None
                 else
                   let wire_len = pos + 4 + unat payload_len in
                   if length b < wire_len then None
                   else Some \<lparr>uf_addr = addr, uf_payload_len = payload_len,
                              uf_payload = take (unat payload_len) (drop (pos + 4) b),
                              uf_wire_len = wire_len\<rparr>))"

text \<open>The \<open>switch\<close> of the packer: the host at \<open>&out[pos]\<close>, and \<open>pos\<close> behind it.\<close>

definition trojan_pack_host :: "addr_t \<Rightarrow> bytes \<Rightarrow> nat \<Rightarrow> (bytes \<times> nat) option" where
  "trojan_pack_host a d pos =
     (if addr_type a = ADDR_IPV4 \<or> addr_type a = ADDR_IPV6 then
        Some (poke d pos (host_bytes a), pos + addr_host_len a)
      else if addr_type a = ADDR_DOMAIN then
        let d = poke d pos [to_byte (addr_host_len a)]; pos = pos + 1
        in Some (poke d pos (host_bytes a), pos + addr_host_len a)
      else None)"

text \<open>The result: what is stored in \<open>written\<close>, and the output region.\<close>

definition trojan_pack_udp_frame ::
  "addr_t option \<Rightarrow> cptr \<Rightarrow> u16 \<Rightarrow> cptr \<Rightarrow> nat option \<times> cptr" where
  "trojan_pack_udp_frame addr payload payload_len out =
     (case (addr, out) of
        (Some a, Some d) \<Rightarrow>
          if payload_len > 0 \<and> payload = None then (None, out)
          else if length d < addr_wire_len a + 4 + unat payload_len then (None, out)
          else
            let pos = 0;
                d = poke d pos [addr_type a]; pos = pos + 1
            in case trojan_pack_host a d pos of
                 None \<Rightarrow> (None, Some d)
               | Some (d, pos) \<Rightarrow>
                   let d = poke d pos (u16_bytes (addr_port a)); pos = pos + 2;
                       d = poke d pos (u16_bytes payload_len); pos = pos + 2;
                       d = poke d pos [0x0d, 0x0a]; pos = pos + 2
                   in if payload_len > 0
                      then (Some (pos + unat payload_len),
                            Some (poke d pos (mem payload (unat payload_len))))
                      else (Some pos, Some d)
      | _ \<Rightarrow> (None, out))"

definition CRLF :: bytes where "CRLF = [0x0d, 0x0a]"

definition default_fallback_response :: bytes where
  "default_fallback_response =
     ascii ''HTTP/1.1 503 Service Unavailable'' @ CRLF @
     ascii ''Content-Type: text/plain'' @ CRLF @
     ascii ''Content-Length: 19'' @ CRLF @
     ascii ''Connection: close'' @ CRLF @ CRLF @
     ascii ''Service Unavailable''"

subsection \<open>The wire format\<close>

definition trojan_addr_wire :: "byte \<Rightarrow> bytes \<Rightarrow> u16 \<Rightarrow> bytes" where
  "trojan_addr_wire t h p =
     (if t = ADDR_DOMAIN then [t, to_byte (length h)] else [t]) @ h @ u16_bytes p"

definition trojan_addr_len :: "byte \<Rightarrow> nat \<Rightarrow> nat" where
  "trojan_addr_len t n = (if t = ADDR_DOMAIN then 4 + n else 3 + n)"

definition trojan_wire :: "byte \<Rightarrow> bytes \<Rightarrow> u16 \<Rightarrow> bytes \<Rightarrow> bytes" where
  "trojan_wire t h p pl = trojan_addr_wire t h p @ u16_bytes (word_of_nat (length pl)) @ CRLF @ pl"

lemma length_trojan_addr_wire [simp]:
  "length (trojan_addr_wire t h p) = trojan_addr_len t (length h)"
  by (simp add: trojan_addr_wire_def trojan_addr_len_def)

lemma length_trojan_wire [simp]:
  "length (trojan_wire t h p pl) = trojan_addr_len t (length h) + 4 + length pl"
  by (simp add: trojan_wire_def CRLF_def)

lemma be16_at_append [simp]: "pos = length xs \<Longrightarrow> be16_at (xs @ u16_bytes v @ ys) pos = v"
  by (simp add: be16_at_def u16_bytes_def nth_append)

lemma be16_at_Cons: "0 < n \<Longrightarrow> be16_at (x # xs) n = be16_at xs (n - 1)"
  by (cases n) (simp_all add: be16_at_def)

lemma trojan_parse_addr_wire:
  assumes "valid_addr t (length h)"
  shows "trojan_parse_addr (Some (trojan_addr_wire t h p @ rest)) =
         Some (addr_of t h p (trojan_addr_len t (length h)))"
proof -
  from assms consider "t = ADDR_IPV4" "length h = 4" | "t = ADDR_IPV6" "length h = 16"
    | "t = ADDR_DOMAIN" "0 < length h" "length h \<le> 255"
    by (auto simp: valid_addr_cases)
  then show ?thesis
  proof cases
    case 3
    then have "unat (to_byte (length h)) = length h" by (simp add: unat_to_byte)
    with 3 show ?thesis
      by (simp add: trojan_parse_addr_def trojan_addr_wire_def trojan_addr_len_def addr_zero_def
          addr_of_def be16_at_Cons wire_defs Let_def)
  qed (simp_all add: trojan_parse_addr_def trojan_addr_wire_def trojan_addr_len_def addr_zero_def
        addr_of_def be16_at_Cons wire_defs Let_def)
qed

lemma split_at_u16:
  assumes "n + 2 \<le> length s"
  shows "s = take n s @ u16_bytes (be16_at s n) @ drop (n + 2) s"
proof -
  have "drop n s = s ! n # s ! (n + 1) # drop (n + 2) s"
    using assms by (metis Cons_nth_drop_Suc Suc_1 add_Suc_right add_lessD1 less_add_Suc1
        Suc_eq_plus1 Suc_le_eq add.right_neutral add_2_eq_Suc')
  then have "s = take n s @ s ! n # s ! (n + 1) # drop (n + 2) s"
    by (metis append_take_drop_id)
  then show ?thesis by (simp add: be16_at_def u16_bytes_inverse)
qed

lemma trojan_parse_addr_inv:
  assumes "trojan_parse_addr (Some s) = Some a"
  obtains t h p rest where "s = trojan_addr_wire t h p @ rest" "valid_addr t (length h)"
    "a = addr_of t h p (trojan_addr_len t (length h))"
proof -
  define t where "t = s ! 0"
  define k where "k = (if t = ADDR_DOMAIN then 2 else 1 :: nat)"
  define n where "n = (if t = ADDR_DOMAIN then unat (s ! 1) else if t = ADDR_IPV4 then 4 else 16)"
  from assms have v: "valid_addr t n" and len: "k + n + 2 \<le> length s"
    by (auto simp: trojan_parse_addr_def t_def k_def n_def valid_addr_cases Let_def wire_defs addr_zero_def
        split: if_splits)
  define h where "h = take n (drop k s)"
  have h: "length h = n" using len by (simp add: h_def)
  have "s \<noteq> []" using len by auto
  then have pre: "take k s = (if t = ADDR_DOMAIN then [t, to_byte n] else [t])"
    using len by (cases s; cases "tl s") (auto simp: k_def t_def n_def)
  have "take (k + n) s = take k s @ h" by (simp add: h_def take_add)
  then have s: "s = trojan_addr_wire t h (be16_at s (k + n)) @ drop (k + n + 2) s"
    unfolding trojan_addr_wire_def h pre [symmetric]
    using split_at_u16 [of "k + n" s] len by simp
  have "trojan_parse_addr (Some s) =
      Some (addr_of t h (be16_at s (k + n)) (trojan_addr_len t (length h)))"
    using trojan_parse_addr_wire [of t h "be16_at s (k + n)" "drop (k + n + 2) s"] v h s by simp
  with assms s v h show thesis by (intro that [of t h "be16_at s (k + n)" "drop (k + n + 2) s"]) auto
qed

lemma trojan_parse_udp_frame_wire:
  assumes "valid_addr t (length h)" "length pl \<le> 65535"
  shows "trojan_parse_udp_frame (Some (trojan_wire t h p pl @ rest)) =
         Some \<lparr>uf_addr = addr_of t h p (trojan_addr_len t (length h)),
               uf_payload_len = word_of_nat (length pl), uf_payload = pl,
               uf_wire_len = trojan_addr_len t (length h) + 4 + length pl\<rparr>"
proof -
  define a where "a = trojan_addr_wire t h p"
  define n where "n = trojan_addr_len t (length h)"
  have a: "length a = n" by (simp add: a_def n_def)
  have l: "unat (word_of_nat (length pl) :: u16) = length pl"
    using assms(2) by (simp add: unat_of_nat)
  have s: "trojan_wire t h p pl @ rest = a @ u16_bytes (word_of_nat (length pl)) @ CRLF @ pl @ rest"
    by (simp add: trojan_wire_def a_def)
  let ?s = "a @ u16_bytes (word_of_nat (length pl)) @ CRLF @ pl @ rest"
  have pa: "trojan_parse_addr (Some ?s) = Some (addr_of t h p n)"
    unfolding a_def n_def using assms(1) by (rule trojan_parse_addr_wire)
  have cr: "?s ! (n + 2) = 0x0d" "?s ! (n + 3) = 0x0a"
    using a by (simp_all add: nth_append CRLF_def)
  have "drop (n + 4) ?s = pl @ rest"
    using drop_append_exact [of "n + 4" "a @ u16_bytes (word_of_nat (length pl)) @ CRLF" "pl @ rest"] a
    by (simp add: CRLF_def)
  then show ?thesis
    using pa cr a l unfolding s
    by (simp add: trojan_parse_udp_frame_def n_def [symmetric] Let_def CRLF_def)
qed

lemma trojan_parse_udp_frame_inv:
  assumes "trojan_parse_udp_frame (Some s) = Some f"
  obtains t h p pl rest where "s = trojan_wire t h p pl @ rest" "valid_addr t (length h)"
    "length pl \<le> 65535"
    "f = \<lparr>uf_addr = addr_of t h p (trojan_addr_len t (length h)),
          uf_payload_len = word_of_nat (length pl), uf_payload = pl,
          uf_wire_len = trojan_addr_len t (length h) + 4 + length pl\<rparr>"
proof -
  from assms obtain a where pa: "trojan_parse_addr (Some s) = Some a"
    by (auto simp: trojan_parse_udp_frame_def split: option.splits)
  from pa obtain t h p r where s: "s = trojan_addr_wire t h p @ r" and v: "valid_addr t (length h)"
    and a: "a = addr_of t h p (trojan_addr_len t (length h))"
    by (rule trojan_parse_addr_inv)
  define n where "n = trojan_addr_len t (length h)"
  define m where "m = unat (be16_at s n)"
  from assms pa a have len: "n + 4 + m \<le> length s" and cr: "s ! (n + 2) = 0x0d" "s ! (n + 3) = 0x0a"
    by (auto simp: trojan_parse_udp_frame_def n_def m_def Let_def split: if_splits)
  have rl: "4 + m \<le> length r" using len s by (simp add: n_def)
  then obtain x y u v' q where r: "r = x # y # u # v' # q" "m \<le> length q"
    by (cases r; cases "tl r"; cases "tl (tl r)"; cases "tl (tl (tl r))") auto
  have "u = 0x0d" "v' = 0x0a"
    using cr s r by (simp_all add: n_def nth_append)
  moreover have m: "m = unat (bytes_u16 x y)"
    using s r by (simp add: m_def n_def be16_at_def nth_append)
  moreover have "[x, y] = u16_bytes (word_of_nat m)"
    using m by (simp add: u16_bytes_inverse)
  ultimately have "s = trojan_wire t h p (take m q) @ drop m q"
    using s r by (simp add: trojan_wire_def CRLF_def min_def)
  moreover have "length (take m q) = m" using r by simp
  moreover have "m \<le> 65535" by (simp add: m)
  ultimately show thesis
    using v assms trojan_parse_udp_frame_wire [of t h "take m q" p "drop m q"]
    by (intro that [of t h p "take m q" "drop m q"]) auto
qed

subsection \<open>Streams of frames\<close>

definition trojan_frame_ok :: "udp_frame_t \<Rightarrow> bool" where
  "trojan_frame_ok f \<longleftrightarrow>
     (\<exists>t h p pl. valid_addr t (length h) \<and> length pl \<le> 65535 \<and>
        f = \<lparr>uf_addr = addr_of t h p (trojan_addr_len t (length h)),
             uf_payload_len = word_of_nat (length pl), uf_payload = pl,
             uf_wire_len = trojan_addr_len t (length h) + 4 + length pl\<rparr>)"

definition trojan_frame_enc :: "udp_frame_t \<Rightarrow> bytes" where
  "trojan_frame_enc f =
     trojan_wire (addr_type (uf_addr f)) (host_bytes (uf_addr f)) (addr_port (uf_addr f)) (uf_payload f)"

text \<open>What the reader of a Trojan stream does with the result of the parser.\<close>

definition trojan_frame_dec :: "bytes \<Rightarrow> unit + udp_frame_t \<times> nat" where
  "trojan_frame_dec s =
     (case trojan_parse_udp_frame (Some s) of None \<Rightarrow> Inl () | Some f \<Rightarrow> Inr (f, uf_wire_len f))"

interpretation trojan_codec: framing trojan_frame_enc trojan_frame_dec trojan_frame_ok
proof unfold_locales
  fix f rest
  assume "trojan_frame_ok f"
  then show "trojan_frame_dec (trojan_frame_enc f @ rest) = Inr (f, length (trojan_frame_enc f))"
    by (auto simp: trojan_frame_ok_def trojan_frame_enc_def trojan_frame_dec_def
        trojan_parse_udp_frame_wire)
next
  fix s f n
  assume "trojan_frame_dec s = Inr (f, n)"
  then have "trojan_parse_udp_frame (Some s) = Some f" "n = uf_wire_len f"
    by (auto simp: trojan_frame_dec_def split: option.splits)
  from this(1) show "trojan_frame_ok f \<and> (\<exists>rest. s = trojan_frame_enc f @ rest) \<and>
      n = length (trojan_frame_enc f)"
    by (rule trojan_parse_udp_frame_inv)
      (use \<open>n = uf_wire_len f\<close> in \<open>auto simp: trojan_frame_ok_def trojan_frame_enc_def\<close>)
next
  fix f
  have "length (trojan_frame_enc f) \<noteq> 0" by (simp add: trojan_frame_enc_def)
  then show "trojan_frame_enc f \<noteq> []" by auto
qed



lemma trojan_frame_len_max: "trojan_frame_ok f \<Longrightarrow> length (trojan_frame_enc f) \<le> 65798"
  by (auto simp: trojan_frame_ok_def trojan_frame_enc_def trojan_addr_len_def valid_addr_cases wire_defs)

text \<open>
  When a full buffer does not start with a frame, no frame is on its way. Every frame
  fits in 65798 bytes (the longest address, four bytes of length and CR LF, the longest
  payload), so when that many bytes are in the buffer and the parser still refuses, it
  refuses every continuation, and closing the session cannot lose a valid frame.
\<close>

theorem trojan_full_buffer_final:
  assumes "MAX_ADDR_LEN + 4 + MAX_UDP_PAYLOAD \<le> length s" "trojan_parse_udp_frame (Some s) = None"
  shows "trojan_parse_udp_frame (Some (s @ t)) = None"
proof (rule ccontr)
  assume "trojan_parse_udp_frame (Some (s @ t)) \<noteq> None"
  then obtain f where "trojan_frame_dec (s @ t) = Inr (f, uf_wire_len f)"
    by (auto simp: trojan_frame_dec_def)
  then obtain rest where f: "trojan_frame_ok f" "s @ t = trojan_frame_enc f @ rest"
    using trojan_codec.dec_inv by blast
  from trojan_frame_len_max [OF f(1)] assms(1) have "length (trojan_frame_enc f) \<le> length s"
    by (simp add: wire_defs)
  then have "take (length (trojan_frame_enc f)) s = trojan_frame_enc f"
    using arg_cong [OF f(2), of "take (length (trojan_frame_enc f))"] by simp
  then obtain u where "s = trojan_frame_enc f @ u" by (metis append_take_drop_id)
  then have "trojan_frame_dec s = Inr (f, length (trojan_frame_enc f))"
    using trojan_codec.dec_enc f(1) by simp
  with assms(2) show False by (simp add: trojan_frame_dec_def)
qed

theorem trojan_full_buffer_final_witness:
  "trojan_parse_udp_frame (Some (replicate 65798 2 @ [3])) = None"
  by (rule trojan_full_buffer_final)
    (simp_all add: wire_defs trojan_parse_udp_frame_def trojan_parse_addr_def addr_zero_def)

subsection \<open>Packing\<close>

lemma trojan_pack_udp_frame_ok:
  assumes "valid_addr (addr_type a) (addr_host_len a)" "length (host_bytes a) = addr_host_len a"
    and "addr_wire_len a = trojan_addr_len (addr_type a) (addr_host_len a)"
    and "length pl \<le> 65535" "addr_wire_len a + 4 + length pl \<le> length d"
  shows "trojan_pack_udp_frame (Some a) (Some pl) (word_of_nat (length pl)) (Some d) =
         (let w = trojan_wire (addr_type a) (host_bytes a) (addr_port a) pl
          in (Some (length w), Some (w @ drop (length w) d)))"
proof -
  let ?t = "addr_type a" and ?h = "host_bytes a" and ?p = "addr_port a"
  define l :: u16 where "l = word_of_nat (length pl)"
  have l: "unat l = length pl" using assms(4) by (simp add: l_def unat_of_nat)
  define pre where "pre = (if ?t = ADDR_DOMAIN then [?t, to_byte (addr_host_len a)] else [?t])"
  define k where "k = length pre"
  define n where "n = addr_host_len a"
  have need: "addr_wire_len a = k + n + 2" "k + n + 6 + length pl \<le> length d"
    using assms(3,5) by (auto simp: trojan_addr_len_def pre_def k_def n_def)
  have hd: "poke d 0 pre = pre @ drop k d" by (simp add: k_def)
  have s1: "poke (pre @ drop k d) k ?h = (pre @ ?h) @ drop (k + n) d"
    using assms(2) by (simp add: poke_append k_def n_def add.commute)
  have s2: "poke ((pre @ ?h) @ drop (k + n) d) (k + n) (u16_bytes ?p) =
      (pre @ ?h @ u16_bytes ?p) @ drop (k + n + 2) d"
    using assms(2) by (subst poke_append) (simp_all add: k_def n_def numeral_eq_Suc)
  have s3: "poke ((pre @ ?h @ u16_bytes ?p) @ drop (k + n + 2) d) (k + n + 2) (u16_bytes l) =
      (pre @ ?h @ u16_bytes ?p @ u16_bytes l) @ drop (k + n + 4) d"
    using assms(2) by (subst poke_append) (simp_all add: k_def n_def numeral_eq_Suc)
  have s4: "poke ((pre @ ?h @ u16_bytes ?p @ u16_bytes l) @ drop (k + n + 4) d) (k + n + 2 + 2) [0x0d, 0x0a] =
      (pre @ ?h @ u16_bytes ?p @ u16_bytes l @ CRLF) @ drop (k + n + 6) d"
    using assms(2) by (subst poke_append) (simp_all add: k_def n_def CRLF_def numeral_eq_Suc)
  have s5: "poke ((pre @ ?h @ u16_bytes ?p @ u16_bytes l @ CRLF) @ drop (k + n + 6) d) (k + n + 6) pl =
      (pre @ ?h @ u16_bytes ?p @ u16_bytes l @ CRLF @ pl) @ drop (k + n + 6 + length pl) d"
    using assms(2) by (subst poke_append) (simp_all add: k_def n_def CRLF_def numeral_eq_Suc add.commute add.left_commute)
  have w: "trojan_wire ?t ?h ?p pl = pre @ ?h @ u16_bytes ?p @ u16_bytes l @ CRLF @ pl"
    using assms(2) by (simp add: trojan_wire_def trojan_addr_wire_def pre_def l_def)
  have wl: "length (trojan_wire ?t ?h ?p pl) = k + n + 6 + length pl"
    using assms(2) by (simp add: w CRLF_def k_def n_def)
  have pos: "(if l > 0 then poke ((pre @ ?h @ u16_bytes ?p @ u16_bytes l @ CRLF) @ drop (k + n + 6) d)
        (k + n + 6) (mem (Some pl) (unat l)) else (pre @ ?h @ u16_bytes ?p @ u16_bytes l @ CRLF) @ drop (k + n + 6) d)
      = (pre @ ?h @ u16_bytes ?p @ u16_bytes l @ CRLF @ pl) @ drop (k + n + 6 + length pl) d"
    using s5 l by (auto simp: word_greater_zero_iff word_unat_eq_iff)
  have n0: "\<not> l > 0 \<Longrightarrow> length pl = 0"
    using l by (auto simp: word_greater_zero_iff)
  have ty: "?t = ADDR_DOMAIN \<or> ?t = ADDR_IPV4 \<or> ?t = ADDR_IPV6" "ADDR_DOMAIN \<noteq> ADDR_IPV4"
      "ADDR_DOMAIN \<noteq> ADDR_IPV6"
    using assms(1) by (auto simp: valid_addr_cases wire_defs)
  have hdr: "trojan_pack_host a (poke d 0 [?t]) (0 + 1) = Some ((pre @ ?h) @ drop (k + n) d, k + n)"
  proof (cases "?t = ADDR_DOMAIN")
    case True
    obtain d0 d1 d2 where "d = d0 # d1 # d2"
      using need True by (cases d; cases "tl d") (auto simp: pre_def k_def)
    then show ?thesis using True ty s1 hd by (simp add: trojan_pack_host_def pre_def k_def n_def Let_def)
  next
    case False
    with ty s1 hd show ?thesis by (auto simp: trojan_pack_host_def pre_def k_def n_def)
  qed
  have sp: "\<not> (l > 0 \<and> Some pl = None)" "\<not> length d < addr_wire_len a + 4 + unat l"
    using need l by simp_all
  have f: "trojan_pack_udp_frame (Some a) (Some pl) l (Some d) =
      (let d4 = (pre @ ?h @ u16_bytes ?p @ u16_bytes l @ CRLF) @ drop (k + n + 6) d; q = k + n + 2 + 2 + 2
       in if l > 0 then (Some (q + unat l), Some (poke d4 q (mem (Some pl) (unat l))))
          else (Some q, Some d4))"
    unfolding trojan_pack_udp_frame_def Let_def
    by (simp only: option.case prod.case hdr s2 s3 s4 sp if_False)
  have q: "k + n + 2 + 2 + 2 = k + n + 6" by simp
  show ?thesis
    using f pos n0 l unfolding Let_def q l_def [symmetric] wl unfolding w
    by (cases "l > 0") simp_all
qed

text \<open>
  C28: Packing, also of a normalised address. For an address record whose type, length and
  wire length belong together (as the parsers and the literal normalisation leave it; the
  bytes of the host array behind the length may be anything) and an output region of the size
  the code asks for, packing writes exactly the frame, inside the region, and the Trojan
  parser reads it back: same type, host, port and payload.
\<close>

theorem trojan_pack_roundtrip:
  assumes "valid_addr (addr_type a) (addr_host_len a)" "length (addr_host a) = 255"
    and "addr_wire_len a = trojan_addr_len (addr_type a) (addr_host_len a)"
    and "length pl \<le> 65535" "addr_wire_len a + 4 + length pl \<le> length d"
  shows "\<exists>d'. trojan_pack_udp_frame (Some a) (Some pl) (word_of_nat (length pl)) (Some d) =
            (Some (addr_wire_len a + 4 + length pl), Some d') \<and>
          length d' = length d \<and>
          trojan_parse_udp_frame (Some d') =
            Some \<lparr>uf_addr = addr_of (addr_type a) (host_bytes a) (addr_port a) (addr_wire_len a),
                  uf_payload_len = word_of_nat (length pl), uf_payload = pl,
                  uf_wire_len = addr_wire_len a + 4 + length pl\<rparr>"
proof -
  have h: "length (host_bytes a) = addr_host_len a"
    using assms(2) valid_addr_bounds [OF assms(1)] by (simp add: host_bytes_def)
  let ?w = "trojan_wire (addr_type a) (host_bytes a) (addr_port a) pl"
  have "trojan_parse_udp_frame (Some (?w @ drop (length ?w) d)) =
      Some \<lparr>uf_addr = addr_of (addr_type a) (host_bytes a) (addr_port a) (addr_wire_len a),
            uf_payload_len = word_of_nat (length pl), uf_payload = pl,
            uf_wire_len = addr_wire_len a + 4 + length pl\<rparr>"
    using assms h by (subst trojan_parse_udp_frame_wire) simp_all
  moreover have "length ?w = addr_wire_len a + 4 + length pl" using assms(3) h by simp
  ultimately show ?thesis
    using trojan_pack_udp_frame_ok [OF assms(1) h assms(3-5)] assms(5) by (simp add: Let_def)
qed

theorem trojan_pack_roundtrip_witness:
  "\<exists>d'. trojan_pack_udp_frame (Some ((addr_of ADDR_IPV4 [1, 2, 3, 4] 53 7)\<lparr>addr_host := replicate 255 9\<rparr>))
       (Some [7]) (word_of_nat (length [7 :: byte])) (Some (replicate 20 0)) =
       (Some (addr_wire_len ((addr_of ADDR_IPV4 [1, 2, 3, 4] 53 7)\<lparr>addr_host := replicate 255 9\<rparr>) + 4 +
              length [7 :: byte]), Some d') \<and>
     length d' = length (replicate 20 (0 :: byte)) \<and>
     trojan_parse_udp_frame (Some d') =
       Some \<lparr>uf_addr = addr_of (addr_type ((addr_of ADDR_IPV4 [1, 2, 3, 4] 53 7)\<lparr>addr_host := replicate 255 9\<rparr>))
               (host_bytes ((addr_of ADDR_IPV4 [1, 2, 3, 4] 53 7)\<lparr>addr_host := replicate 255 9\<rparr>))
               (addr_port ((addr_of ADDR_IPV4 [1, 2, 3, 4] 53 7)\<lparr>addr_host := replicate 255 9\<rparr>))
               (addr_wire_len ((addr_of ADDR_IPV4 [1, 2, 3, 4] 53 7)\<lparr>addr_host := replicate 255 9\<rparr>)),
             uf_payload_len = word_of_nat (length [7 :: byte]), uf_payload = [7],
             uf_wire_len = addr_wire_len ((addr_of ADDR_IPV4 [1, 2, 3, 4] 53 7)\<lparr>addr_host := replicate 255 9\<rparr>) +
               4 + length [7 :: byte]\<rparr>"
  by (rule trojan_pack_roundtrip)
    (simp_all add: valid_addr_cases trojan_addr_len_def wire_defs)

end
