(* ===== verification/Mt_Incremental.thy ===== *)
theory Mt_Incremental
  imports Mt_Prelude
begin

text \<open>
  The interface of the length functions a session calls while a handshake message arrives
  (SOCKS5 greeting, request and response, upstream method and auth responses). They look at
  what has been read so far and say that the message is complete and how long it is, that at
  least so many bytes are needed in all, or that it can never become valid.

  \<open>read_exact\<close> is the loop of the session code around them: it asks the socket for the
  missing bytes only, so bytes behind the message stay in the socket.
\<close>

datatype need = Complete nat | Need nat | Malformed

text \<open>
  \<open>rcv\<close> says how many bytes a single \<open>recv\<close> delivers when \<open>n\<close> are asked for and some are there
  (any number from 1 to what is asked for and available). The fuel bounds the number of calls.
\<close>

primrec read_exact ::
  "nat \<Rightarrow> (nat \<Rightarrow> nat) \<Rightarrow> (bytes \<Rightarrow> need) \<Rightarrow> bytes \<Rightarrow> bytes \<Rightarrow> need \<times> bytes \<times> bytes" where
  "read_exact 0 rcv len buf inp = (len buf, buf, inp)"
| "read_exact (Suc fuel) rcv len buf inp =
     (case len buf of
        Need n \<Rightarrow>
          if inp = [] then (Need n, buf, inp)
          else let m = min (max 1 (rcv (n - length buf))) (min (n - length buf) (length inp))
               in read_exact fuel rcv len (buf @ take m inp) (drop m inp)
      | r \<Rightarrow> (r, buf, inp))"

locale incremental =
  fixes len :: "bytes \<Rightarrow> need"
  assumes complete_le: "len s = Complete n \<Longrightarrow> n \<le> length s"
    and complete_take: "len s = Complete n \<Longrightarrow> len (take n s @ t) = Complete n"
    and need_gt: "len s = Need n \<Longrightarrow> length s < n"
    and need_le: "len s = Need n \<Longrightarrow> len (s @ t) = Complete m \<Longrightarrow> n \<le> m"
    and malformed_mono: "len s = Malformed \<Longrightarrow> len (s @ t) = Malformed"
begin

lemma complete_extend: "len s = Complete n \<Longrightarrow> len (s @ t) = Complete n"
  using complete_take [of s n "drop n s @ t"] by (simp flip: append_assoc)

lemma complete_unique:
  assumes "len (s @ t) = Complete n" "len s = Complete m"
  shows "m = n"
  using complete_extend [OF assms(2), of t] assms(1) by simp

lemma proper_prefix_needs:
  assumes "len (s @ t) = Complete n" "length s < n"
  shows "\<exists>m. len s = Need m \<and> length s < m \<and> m \<le> n"
proof (cases "len s")
  case (Complete m)
  then show ?thesis
    using complete_unique [OF assms(1) Complete] complete_le [OF Complete] assms(2) by simp
next
  case (Need m)
  then show ?thesis using need_gt [OF Need] need_le [OF Need assms(1)] by simp
next
  case Malformed
  then show ?thesis using malformed_mono [OF Malformed, of t] assms(1) by simp
qed

lemma read_exact_complete:
  assumes "len (buf @ inp) = Complete n" "length buf \<le> n" "n - length buf \<le> fuel"
  shows "read_exact fuel rcv len buf inp = (Complete n, take n (buf @ inp), drop n (buf @ inp))"
  using assms
proof (induction fuel arbitrary: buf inp)
  case 0
  then have "length buf = n" by simp
  then have "take n (buf @ inp) = buf" "drop n (buf @ inp) = inp" by simp_all
  moreover have "len buf = Complete n"
    using complete_take [OF 0(1), of "[]"] \<open>take n (buf @ inp) = buf\<close> by simp
  ultimately show ?case by simp
next
  case (Suc fuel)
  show ?case
  proof (cases "length buf = n")
    case True
    then have "take n (buf @ inp) = buf" "drop n (buf @ inp) = inp" by simp_all
    moreover have "len buf = Complete n"
      using complete_take [OF Suc.prems(1), of "[]"] \<open>take n (buf @ inp) = buf\<close> by simp
    ultimately show ?thesis by simp
  next
    case False
    with Suc.prems(2) have "length buf < n" by simp
    from proper_prefix_needs [OF Suc.prems(1) this] obtain m where
      m: "len buf = Need m" "length buf < m" "m \<le> n" by blast
    have "n \<le> length (buf @ inp)" by (rule complete_le [OF Suc.prems(1)])
    with m(2,3) have inp: "inp \<noteq> []" by auto
    define k where "k = min (max 1 (rcv (m - length buf))) (min (m - length buf) (length inp))"
    have k: "0 < k" "k \<le> length inp" "length buf + k \<le> n"
      using m inp unfolding k_def by auto
    have "read_exact (Suc fuel) rcv len buf inp =
        read_exact fuel rcv len (buf @ take k inp) (drop k inp)"
      using m inp by (simp add: k_def Let_def)
    also have "\<dots> = (Complete n, take n (buf @ inp), drop n (buf @ inp))"
      using Suc.IH [of "buf @ take k inp" "drop k inp"] Suc.prems k by simp
    finally show ?thesis .
  qed
qed

end

end
