(* ===== verification/Mt_Socks5.thy ===== *)
theory Mt_Socks5
  imports Mt_Trojan Mt_Incremental
begin

text \<open>
  The SOCKS5 messages (ngx_stream_mtrojan_socks5_protocol.c), for both ends: what the module
  sends to a SOCKS5 upstream and what it reads from a SOCKS5 client. Addresses have the Trojan
  format. A builder returns the number of bytes written (\<open>None\<close> for -1) and the output region;
  a length function returns a \<open>need\<close> (0 with the length, 1 with the length needed, -1).
\<close>

definition SOCKS5_VERSION :: byte where [wire_defs]: "SOCKS5_VERSION = 0x05"
definition SOCKS5_AUTH_VERSION :: byte where [wire_defs]: "SOCKS5_AUTH_VERSION = 0x01"
definition METHOD_NO_AUTH :: byte where [wire_defs]: "METHOD_NO_AUTH = 0x00"
definition METHOD_USERPASS :: byte where [wire_defs]: "METHOD_USERPASS = 0x02"
definition METHOD_NONE :: byte where [wire_defs]: "METHOD_NONE = 0xff"
definition SOCKS5_CMD_CONNECT :: byte where [wire_defs]: "SOCKS5_CMD_CONNECT = 0x01"
definition SOCKS5_CMD_UDP_ASSOCIATE :: byte where [wire_defs]: "SOCKS5_CMD_UDP_ASSOCIATE = 0x03"
definition STATUS_OK :: byte where [wire_defs]: "STATUS_OK = 0x00"
definition STATUS_GENERAL_FAILURE :: byte where [wire_defs]: "STATUS_GENERAL_FAILURE = 0x01"
definition SOCKS5_MAX_PACKET :: nat where
  [wire_defs]: "SOCKS5_MAX_PACKET = 3 + MAX_ADDR_LEN + MAX_UDP_PAYLOAD"

subsection \<open>Length of an address\<close>

definition socks5_addr_len :: "bytes \<Rightarrow> need" where
  "socks5_addr_len buf =
     (if length buf < 1 then Need 0
      else if buf ! 0 = ADDR_IPV4 then
        (let addr_len = 1 + 4 + 2 in if length buf \<ge> addr_len then Complete addr_len else Need addr_len)
      else if buf ! 0 = ADDR_IPV6 then
        (let addr_len = 1 + 16 + 2 in if length buf \<ge> addr_len then Complete addr_len else Need addr_len)
      else if buf ! 0 = ADDR_DOMAIN then
        (if length buf < 2 then Need 2
         else let addr_len = 1 + 1 + unat (buf ! 1) + 2 in
           if length buf \<ge> addr_len then Complete addr_len else Need addr_len)
      else Malformed)"

subsection \<open>Greeting and authentication\<close>

definition socks5_build_greeting :: "cptr \<Rightarrow> bool \<Rightarrow> nat option \<times> cptr" where
  "socks5_build_greeting out userpass =
     (case out of
        None \<Rightarrow> (None, out)
      | Some d \<Rightarrow>
          if userpass then
            (if length d < 4 then (None, out)
             else (Some 4, Some (poke d 0 [SOCKS5_VERSION, 2, METHOD_NO_AUTH, METHOD_USERPASS])))
          else if length d < 3 then (None, out)
          else (Some 3, Some (poke d 0 [SOCKS5_VERSION, 1, METHOD_NO_AUTH])))"

text \<open>\<open>Some False\<close> for a return of 0 (no authentication), \<open>Some True\<close> for 1.\<close>

definition socks5_parse_method_response :: "cptr \<Rightarrow> bool \<Rightarrow> bool option" where
  "socks5_parse_method_response buf userpass =
     (case buf of
        None \<Rightarrow> None
      | Some b \<Rightarrow>
          if length b < 2 \<or> b ! 0 \<noteq> SOCKS5_VERSION then None
          else if b ! 1 = METHOD_NO_AUTH then Some False
          else if userpass \<and> b ! 1 = METHOD_USERPASS then Some True
          else None)"

definition socks5_build_auth ::
  "cptr \<Rightarrow> nat \<Rightarrow> cptr \<Rightarrow> nat \<Rightarrow> cptr \<Rightarrow> nat option \<times> cptr" where
  "socks5_build_auth username username_len password password_len out =
     (case out of
        None \<Rightarrow> (None, out)
      | Some d \<Rightarrow>
          if username = None \<or> password = None \<or> username_len = 0 \<or> username_len > 255
             \<or> password_len > 255 \<or> length d < 3 + username_len + password_len
          then (None, out)
          else
            let d = poke d 0 [SOCKS5_AUTH_VERSION];
                d = poke d 1 [to_byte username_len];
                d = poke d 2 (mem username username_len);
                d = poke d (2 + username_len) [to_byte password_len];
                d = poke d (3 + username_len) (mem password password_len)
            in (Some (3 + username_len + password_len), Some d))"

definition socks5_parse_auth_response :: "cptr \<Rightarrow> bool" where
  "socks5_parse_auth_response buf =
     (case buf of
        None \<Rightarrow> False
      | Some b \<Rightarrow> \<not> (length b < 2 \<or> b ! 0 \<noteq> SOCKS5_AUTH_VERSION) \<and> b ! 1 = 0)"

definition socks5_greeting_len :: "cptr \<Rightarrow> need" where
  "socks5_greeting_len buf =
     (case buf of
        None \<Rightarrow> Malformed
      | Some b \<Rightarrow>
          if length b < 2 then Need 2
          else if b ! 0 \<noteq> SOCKS5_VERSION then Malformed
          else let needed = 2 + unat (b ! 1) in
            if length b \<ge> needed then Complete needed else Need needed)"

definition socks5_select_method :: "cptr \<Rightarrow> byte option" where
  "socks5_select_method buf =
     (case socks5_greeting_len buf of
        Complete needed \<Rightarrow>
          let b = the buf in
          if length b < needed then None
          else if \<exists>i \<in> set [0 ..< unat (b ! 1)]. b ! (2 + i) = METHOD_NO_AUTH
               then Some METHOD_NO_AUTH
               else Some METHOD_NONE
      | _ \<Rightarrow> None)"

definition socks5_build_method_response :: "byte \<Rightarrow> cptr \<Rightarrow> bool \<times> cptr" where
  "socks5_build_method_response method out =
     (case out of
        None \<Rightarrow> (False, out)
      | Some d \<Rightarrow>
          if length d < 2 then (False, out)
          else (True, Some (poke (poke d 0 [SOCKS5_VERSION]) 1 [method])))"

subsection \<open>Requests and responses\<close>

text \<open>
  The three \<open>memcpy\<close>s of the builders' \<open>switch\<close>: host and port at \<open>&out[4]\<close>, and the length of
  the message up to the port.
\<close>

definition socks5_put_addr :: "addr_t \<Rightarrow> bytes \<Rightarrow> (bytes \<times> nat) option" where
  "socks5_put_addr addr d =
     (if addr_type addr = ADDR_IPV4 then
        (if addr_host_len addr \<noteq> 4 then None
         else let d = poke d 4 (take 4 (addr_host addr)) in
           Some (poke d 8 (u16_bytes (addr_port addr)), 10))
      else if addr_type addr = ADDR_IPV6 then
        (if addr_host_len addr \<noteq> 16 then None
         else let d = poke d 4 (take 16 (addr_host addr)) in
           Some (poke d 20 (u16_bytes (addr_port addr)), 22))
      else if addr_type addr = ADDR_DOMAIN then
        (if addr_host_len addr = 0 \<or> addr_host_len addr > 255 then None
         else let d = poke d 4 [to_byte (addr_host_len addr)];
                  d = poke d 5 (take (addr_host_len addr) (addr_host addr)) in
           Some (poke d (5 + addr_host_len addr) (u16_bytes (addr_port addr)),
                 7 + addr_host_len addr))
      else None)"

text \<open>The checks on \<open>wire_len\<close> that only the request builder makes.\<close>

definition socks5_wire_len_ok :: "addr_t \<Rightarrow> bool" where
  "socks5_wire_len_ok addr \<longleftrightarrow>
     (if addr_type addr = ADDR_IPV4 then addr_wire_len addr = 1 + 4 + 2
      else if addr_type addr = ADDR_IPV6 then addr_wire_len addr = 1 + 16 + 2
      else if addr_type addr = ADDR_DOMAIN then addr_wire_len addr = 1 + 1 + addr_host_len addr + 2
      else False)"

definition socks5_build_request :: "byte \<Rightarrow> addr_t option \<Rightarrow> cptr \<Rightarrow> nat option \<times> cptr" where
  "socks5_build_request command addr out =
     (case (addr, out) of
        (Some a, Some d) \<Rightarrow>
          if command \<noteq> SOCKS5_CMD_CONNECT \<and> command \<noteq> SOCKS5_CMD_UDP_ASSOCIATE then (None, out)
          else if length d < 3 + addr_wire_len a then (None, out)
          else
            let d = poke d 0 [SOCKS5_VERSION, command, 0, addr_type a] in
            if \<not> socks5_wire_len_ok a then (None, Some d)
            else case socks5_put_addr a d of
                None \<Rightarrow> (None, Some d)
              | Some (d, written) \<Rightarrow> (Some written, Some d)
      | _ \<Rightarrow> (None, out))"

definition socks5_request_len :: "cptr \<Rightarrow> need" where
  "socks5_request_len buf =
     (case buf of
        None \<Rightarrow> Malformed
      | Some b \<Rightarrow>
          if length b < 4 then Need 4
          else if b ! 0 \<noteq> SOCKS5_VERSION \<or> b ! 2 \<noteq> 0 then Malformed
          else if b ! 1 \<noteq> SOCKS5_CMD_CONNECT \<and> b ! 1 \<noteq> SOCKS5_CMD_UDP_ASSOCIATE then Malformed
          else case socks5_addr_len (drop 3 b) of
              Need addr_len \<Rightarrow> Need (3 + addr_len)
            | Malformed \<Rightarrow> Malformed
            | Complete addr_len \<Rightarrow> Complete (3 + addr_len))"

definition socks5_parse_request :: "cptr \<Rightarrow> (byte \<times> addr_t) option" where
  "socks5_parse_request buf =
     (case socks5_request_len buf of
        Complete needed \<Rightarrow>
          let b = the buf in
          if length b < needed then None
          else map_option (Pair (b ! 1)) (trojan_parse_addr (Some (take (needed - 3) (drop 3 b))))
      | _ \<Rightarrow> None)"

definition socks5_build_response :: "byte \<Rightarrow> addr_t option \<Rightarrow> cptr \<Rightarrow> nat option \<times> cptr" where
  "socks5_build_response status addr out =
     (case (addr, out) of
        (Some a, Some d) \<Rightarrow>
          if length d < 3 + addr_wire_len a then (None, out)
          else
            let d = poke d 0 [SOCKS5_VERSION, status, 0, addr_type a] in
            (case socks5_put_addr a d of
               None \<Rightarrow> (None, Some d)
             | Some (d, req_len) \<Rightarrow> (Some req_len, Some d))
      | _ \<Rightarrow> (None, out))"

definition socks5_response_len :: "cptr \<Rightarrow> need" where
  "socks5_response_len buf =
     (case buf of
        None \<Rightarrow> Malformed
      | Some b \<Rightarrow>
          if length b < 4 then Need 4
          else if b ! 0 \<noteq> SOCKS5_VERSION \<or> b ! 2 \<noteq> 0 then Malformed
          else case socks5_addr_len (drop 3 b) of
              Need addr_len \<Rightarrow> Need (3 + addr_len)
            | Malformed \<Rightarrow> Malformed
            | Complete addr_len \<Rightarrow> Complete (3 + addr_len))"

definition socks5_parse_response :: "cptr \<Rightarrow> addr_t option" where
  "socks5_parse_response buf =
     (case socks5_response_len buf of
        Complete needed \<Rightarrow>
          let b = the buf in
          if length b < needed \<or> b ! 1 \<noteq> STATUS_OK then None
          else trojan_parse_addr (Some (take (needed - 3) (drop 3 b)))
      | _ \<Rightarrow> None)"

subsection \<open>UDP packets\<close>

definition socks5_build_udp_packet ::
  "addr_t option \<Rightarrow> cptr \<Rightarrow> u16 \<Rightarrow> cptr \<Rightarrow> nat option \<times> cptr" where
  "socks5_build_udp_packet addr payload payload_len out =
     (case (addr, out) of
        (Some a, Some d) \<Rightarrow>
          if payload_len \<noteq> 0 \<and> payload = None
             \<or> length d < 3 + addr_wire_len a + unat payload_len
          then (None, out)
          else
            let d = poke d 0 [0, 0, 0];
                d = poke d 3 [addr_type a]
            in case socks5_put_addr a d of
                 None \<Rightarrow> (None, Some d)
               | Some (d, req_len) \<Rightarrow>
                   (Some (req_len + unat payload_len),
                    Some (if payload_len \<noteq> 0 then poke d req_len (mem payload (unat payload_len))
                          else d))
      | _ \<Rightarrow> (None, out))"

definition socks5_parse_udp_packet :: "cptr \<Rightarrow> udp_frame_t option" where
  "socks5_parse_udp_packet buf =
     (case buf of
        None \<Rightarrow> None
      | Some b \<Rightarrow>
          if length b < 4 \<or> b ! 0 \<noteq> 0 \<or> b ! 1 \<noteq> 0 \<or> b ! 2 \<noteq> 0 then None
          else case trojan_parse_addr (Some (drop 3 b)) of
              None \<Rightarrow> None
            | Some addr \<Rightarrow>
                if length b - 3 - addr_wire_len addr > 65535 then None
                else Some \<lparr>uf_addr = addr,
                           uf_payload_len = word_of_nat (length b - 3 - addr_wire_len addr),
                           uf_payload = drop (3 + addr_wire_len addr) b,
                           uf_wire_len = length b\<rparr>)"

subsection \<open>The length functions as an incremental interface\<close>

lemma addr_len_complete:
  assumes "socks5_addr_len s = Complete n"
  shows "n \<le> length s \<and> 4 \<le> n \<and> (\<forall>t. socks5_addr_len (take n s @ t) = Complete n)"
  using assms
  by (cases s; cases "tl s")
    (auto simp: socks5_addr_len_def Let_def wire_defs min_def split: if_splits)

lemma addr_len_need:
  "socks5_addr_len s = Need n \<Longrightarrow> s \<noteq> [] \<Longrightarrow> length s < n"
  by (auto simp: socks5_addr_len_def Let_def split: if_splits)

lemma addr_len_need_le:
  "socks5_addr_len s = Need n \<Longrightarrow> socks5_addr_len (s @ t) = Complete m \<Longrightarrow> n \<le> m"
  by (cases s; cases "tl s") (auto simp: socks5_addr_len_def Let_def split: if_splits)

lemma addr_len_malformed:
  "socks5_addr_len s = Malformed \<Longrightarrow> socks5_addr_len (s @ t) = Malformed"
  by (cases s) (auto simp: socks5_addr_len_def Let_def split: if_splits)

lemma four_cases:
  obtains "length s < 4" | a b c d r where "s = a # b # c # d # r"
  by (cases s; cases "tl s"; cases "tl (tl s)"; cases "tl (tl (tl s))") auto

lemma addr_len_nonempty: "socks5_addr_len (d # r) = Need n \<Longrightarrow> Suc (length r) < n"
  using addr_len_need [of "d # r" n] by simp

lemma addr_len_Cons_complete:
  "socks5_addr_len (d # r) = Complete n \<Longrightarrow> n \<le> Suc (length r) \<and> 4 \<le> n"
  using addr_len_complete [of "d # r" n] by simp

lemma addr_len_take:
  "socks5_addr_len s = Complete n \<Longrightarrow> socks5_addr_len (take n s @ t) = Complete n"
  using addr_len_complete [of s n] by simp

lemma addr_len_append_need:
  "socks5_addr_len (d # r) = Need n \<Longrightarrow> socks5_addr_len (d # r @ t) = Complete m \<Longrightarrow> n \<le> m"
  using addr_len_need_le [of "d # r" n t m] by simp

lemma addr_len_append_malformed:
  "socks5_addr_len (d # r) = Malformed \<Longrightarrow> socks5_addr_len (d # r @ t) = Malformed"
  using addr_len_malformed [of "d # r" t] by simp

lemma addr_len_pos: "socks5_addr_len s = Complete n \<Longrightarrow> Suc 0 \<le> n"
  using addr_len_complete [of s n] by simp

lemmas addr_len_facts = addr_len_pos addr_len_nonempty addr_len_Cons_complete addr_len_take
  addr_len_append_need addr_len_append_malformed

interpretation request_len: incremental "\<lambda>s. socks5_request_len (Some s)"
proof unfold_locales
  fix s t n m
  note [simp] = socks5_request_len_def Let_def
  note [split] = if_splits need.splits
  show "socks5_request_len (Some s) = Complete n \<Longrightarrow> n \<le> length s"
    by (rule four_cases [of s]) (auto dest: addr_len_facts)
  show "socks5_request_len (Some s) = Complete n \<Longrightarrow>
      socks5_request_len (Some (take n s @ t)) = Complete n"
    by (rule four_cases [of s]) (auto dest: addr_len_facts simp: addr_len_take numeral_eq_Suc)
  show "socks5_request_len (Some s) = Need n \<Longrightarrow> length s < n"
    by (rule four_cases [of s]) (auto dest: addr_len_facts)
  show "socks5_request_len (Some s) = Need n \<Longrightarrow> socks5_request_len (Some (s @ t)) = Complete m \<Longrightarrow> n \<le> m"
    by (rule four_cases [of s]) (auto dest: addr_len_facts)
  show "socks5_request_len (Some s) = Malformed \<Longrightarrow> socks5_request_len (Some (s @ t)) = Malformed"
    by (rule four_cases [of s]) (auto simp: addr_len_append_malformed)
qed

interpretation response_len: incremental "\<lambda>s. socks5_response_len (Some s)"
proof unfold_locales
  fix s t n m
  note [simp] = socks5_response_len_def Let_def
  note [split] = if_splits need.splits
  show "socks5_response_len (Some s) = Complete n \<Longrightarrow> n \<le> length s"
    by (rule four_cases [of s]) (auto dest: addr_len_facts)
  show "socks5_response_len (Some s) = Complete n \<Longrightarrow>
      socks5_response_len (Some (take n s @ t)) = Complete n"
    by (rule four_cases [of s]) (auto dest: addr_len_facts simp: addr_len_take numeral_eq_Suc)
  show "socks5_response_len (Some s) = Need n \<Longrightarrow> length s < n"
    by (rule four_cases [of s]) (auto dest: addr_len_facts)
  show "socks5_response_len (Some s) = Need n \<Longrightarrow> socks5_response_len (Some (s @ t)) = Complete m \<Longrightarrow> n \<le> m"
    by (rule four_cases [of s]) (auto dest: addr_len_facts)
  show "socks5_response_len (Some s) = Malformed \<Longrightarrow> socks5_response_len (Some (s @ t)) = Malformed"
    by (rule four_cases [of s]) (auto simp: addr_len_append_malformed)
qed

interpretation greeting_len: incremental "\<lambda>s. socks5_greeting_len (Some s)"
proof unfold_locales
  fix s t :: bytes and n m
  note [simp] = socks5_greeting_len_def Let_def
  note [split] = if_splits
  have two: "length s < 2 \<or> (\<exists>a b r. s = a # b # r)"
    by (cases s; cases "tl s") auto
  show "socks5_greeting_len (Some s) = Complete n \<Longrightarrow> n \<le> length s" by auto
  show "socks5_greeting_len (Some s) = Complete n \<Longrightarrow>
      socks5_greeting_len (Some (take n s @ t)) = Complete n"
    using two by (auto simp: min_def)
  show "socks5_greeting_len (Some s) = Need n \<Longrightarrow> length s < n" by auto
  show "socks5_greeting_len (Some s) = Need n \<Longrightarrow> socks5_greeting_len (Some (s @ t)) = Complete m \<Longrightarrow> n \<le> m"
    using two by auto
  show "socks5_greeting_len (Some s) = Malformed \<Longrightarrow> socks5_greeting_len (Some (s @ t)) = Malformed"
    using two by auto
qed

lemma addr_len_wire:
  assumes "valid_addr t (length h)"
  shows "socks5_addr_len (trojan_addr_wire t h p @ rest) = Complete (trojan_addr_len t (length h))"
  using assms
  by (auto simp: valid_addr_cases socks5_addr_len_def trojan_addr_wire_def trojan_addr_len_def
      wire_defs unat_to_byte Let_def)

text \<open>The SOCKS5 request is read to its last byte and no further. When the bytes a
  client sends begin with a complete request of \<open>n\<close> bytes, the loop that keeps asking the
  socket for what \<open>socks5_request_len\<close> says is missing ends with exactly those \<open>n\<close> bytes in the
  buffer, however \<open>recv\<close> splits them; the payload behind the request is untouched, and \<open>n\<close> is
  at most 262.
\<close>

theorem socks5_request_read_exact:
  assumes "socks5_request_len (Some stream) = Complete n"
  shows "read_exact n rcv (\<lambda>s. socks5_request_len (Some s)) [] stream =
           (Complete n, take n stream, drop n stream) \<and>
         n \<le> 3 + MAX_ADDR_LEN"
proof -
  have "read_exact n rcv (\<lambda>s. socks5_request_len (Some s)) [] stream =
      (Complete n, take n ([] @ stream), drop n ([] @ stream))"
    using assms by (intro request_len.read_exact_complete) simp_all
  moreover have "n \<le> 3 + MAX_ADDR_LEN"
  proof -
    have "socks5_addr_len s = Complete m \<Longrightarrow> m \<le> 259" for s m
      using unat_byte_le [of "s ! 1"]
      by (auto simp: socks5_addr_len_def Let_def split: if_splits)
    then show ?thesis
      using assms
      by (fastforce simp: socks5_request_len_def wire_defs split: if_splits need.splits)
  qed
  ultimately show ?thesis by simp
qed

theorem socks5_request_read_exact_witness:
  "read_exact 10 (\<lambda>n. 1) (\<lambda>s. socks5_request_len (Some s)) [] [5, 1, 0, 1, 127, 0, 0, 1, 0, 80, 71, 69] =
     (Complete 10, take 10 [5, 1, 0, 1, 127, 0, 0, 1, 0, 80, 71, 69],
      drop 10 [5, 1, 0, 1, 127, 0, 0, 1, 0, 80, 71, 69]) \<and> 10 \<le> 3 + MAX_ADDR_LEN"
  by (rule socks5_request_read_exact)
    (simp add: socks5_request_len_def socks5_addr_len_def wire_defs Let_def)

subsection \<open>Round trips\<close>

definition socks5_wire :: "bytes \<Rightarrow> byte \<Rightarrow> bytes \<Rightarrow> u16 \<Rightarrow> bytes \<Rightarrow> bytes" where
  "socks5_wire hdr t h p pl = hdr @ trojan_addr_wire t h p @ pl"

text \<open>Addresses whose type, length and wire length belong together, as all parsers make them.\<close>

definition trojan_addr_ok :: "addr_t \<Rightarrow> bool" where
  "trojan_addr_ok a \<longleftrightarrow> valid_addr (addr_type a) (addr_host_len a) \<and> length (addr_host a) = 255 \<and>
     addr_wire_len a = trojan_addr_len (addr_type a) (addr_host_len a)"

lemma trojan_addr_ok_of:
  "valid_addr t (length h) \<Longrightarrow> trojan_addr_ok (addr_of t h p (trojan_addr_len t (length h)))"
  using valid_addr_bounds [of t "length h"] by (simp add: trojan_addr_ok_def)

lemma host_bytes_len: "trojan_addr_ok a \<Longrightarrow> length (host_bytes a) = addr_host_len a"
  using valid_addr_bounds [of "addr_type a" "addr_host_len a"]
  by (simp add: trojan_addr_ok_def host_bytes_def)

lemma drop_Suc4 [simp]: "drop (Suc (Suc (Suc (Suc 0)))) d = drop 4 d"
  by (simp add: numeral_eq_Suc)

text \<open>The common tail of the builders: after the four header bytes the address is complete.\<close>

lemma socks5_put_addr_ok:
  assumes "trojan_addr_ok a" "length hdr = 3" "3 + addr_wire_len a \<le> length d"
  shows "socks5_put_addr a (hdr @ [addr_type a] @ drop 4 d) =
         Some (hdr @ trojan_addr_wire (addr_type a) (host_bytes a) (addr_port a) @
                 drop (3 + addr_wire_len a) d, 3 + addr_wire_len a)"
proof -
  let ?h = "host_bytes a" and ?p = "addr_port a"
  have h: "length ?h = addr_host_len a" using assms(1) by (rule host_bytes_len)
  have ht: "take (addr_host_len a) (addr_host a) = ?h" by (simp add: host_bytes_def)
  note ok = assms(1) [unfolded trojan_addr_ok_def]
  from ok consider "addr_type a = ADDR_IPV4" "addr_host_len a = 4" "addr_wire_len a = 7"
    | "addr_type a = ADDR_IPV6" "addr_host_len a = 16" "addr_wire_len a = 19"
    | "addr_type a = ADDR_DOMAIN" "0 < addr_host_len a" "addr_host_len a \<le> 255"
      "addr_wire_len a = 4 + addr_host_len a"
    by (auto simp: valid_addr_cases trojan_addr_len_def wire_defs)
  then show ?thesis
  proof cases
    case 1
    have "poke (hdr @ [ADDR_IPV4] @ drop 4 d) 4 ?h = (hdr @ [ADDR_IPV4] @ ?h) @ drop 8 d"
      using poke_append [of 4 "hdr @ [ADDR_IPV4]" "drop 4 d" ?h] h assms(2) 1 by simp
    moreover have "poke ((hdr @ [ADDR_IPV4] @ ?h) @ drop 8 d) 8 (u16_bytes ?p) =
        (hdr @ [ADDR_IPV4] @ ?h) @ u16_bytes ?p @ drop 10 d"
      using h assms(2) 1 by (subst poke_append) simp_all
    ultimately show ?thesis
      using 1 h ht by (simp add: socks5_put_addr_def trojan_addr_wire_def Let_def ADDR_DOMAIN_def ADDR_IPV4_def)
  next
    case 2
    have "poke (hdr @ [ADDR_IPV6] @ drop 4 d) 4 ?h = (hdr @ [ADDR_IPV6] @ ?h) @ drop 20 d"
      using poke_append [of 4 "hdr @ [ADDR_IPV6]" "drop 4 d" ?h] h assms(2) 2 by simp
    moreover have "poke ((hdr @ [ADDR_IPV6] @ ?h) @ drop 20 d) 20 (u16_bytes ?p) =
        (hdr @ [ADDR_IPV6] @ ?h) @ u16_bytes ?p @ drop 22 d"
      using h assms(2) 2 by (subst poke_append) simp_all
    ultimately show ?thesis
      using 2 h ht
      by (simp add: socks5_put_addr_def trojan_addr_wire_def Let_def ADDR_DOMAIN_def ADDR_IPV4_def
          ADDR_IPV6_def)
  next
    case 3
    define n where "n = addr_host_len a"
    have s1: "poke (hdr @ [ADDR_DOMAIN] @ drop 4 d) 4 [to_byte n] =
        (hdr @ [ADDR_DOMAIN, to_byte n]) @ drop 5 d"
      using poke_append [of 4 "hdr @ [ADDR_DOMAIN]" "drop 4 d" "[to_byte n]"] assms(2) by simp
    have s2: "poke ((hdr @ [ADDR_DOMAIN, to_byte n]) @ drop 5 d) 5 ?h =
        (hdr @ [ADDR_DOMAIN, to_byte n] @ ?h) @ drop (5 + n) d"
      using assms(2) h n_def by (subst poke_append) (simp_all add: add.commute)
    have s3: "poke ((hdr @ [ADDR_DOMAIN, to_byte n] @ ?h) @ drop (5 + n) d) (5 + n) (u16_bytes ?p) =
        (hdr @ [ADDR_DOMAIN, to_byte n] @ ?h) @ u16_bytes ?p @ drop (7 + n) d"
      using assms(2) h n_def by (subst poke_append) (simp_all add: numeral_eq_Suc)
    show ?thesis
      using 3 h ht s1 s2 s3
      by (simp add: socks5_put_addr_def trojan_addr_wire_def Let_def ADDR_DOMAIN_def ADDR_IPV4_def
          ADDR_IPV6_def n_def)
  qed
qed

lemma socks5_build_request_ok:
  assumes "trojan_addr_ok a" "command = SOCKS5_CMD_CONNECT \<or> command = SOCKS5_CMD_UDP_ASSOCIATE"
    and "3 + addr_wire_len a \<le> length d"
  shows "socks5_build_request command (Some a) (Some d) =
         (Some (3 + addr_wire_len a),
          Some ([SOCKS5_VERSION, command, 0] @
                trojan_addr_wire (addr_type a) (host_bytes a) (addr_port a) @
                drop (3 + addr_wire_len a) d))"
proof -
  have "socks5_wire_len_ok a"
    using assms(1)
    by (auto simp: trojan_addr_ok_def socks5_wire_len_ok_def valid_addr_cases trojan_addr_len_def wire_defs)
  moreover have "\<not> (command \<noteq> SOCKS5_CMD_CONNECT \<and> command \<noteq> SOCKS5_CMD_UDP_ASSOCIATE)"
    using assms(2) by simp
  ultimately show ?thesis
    using assms(3) socks5_put_addr_ok [OF assms(1), of "[SOCKS5_VERSION, command, 0]" d]
    by (simp add: socks5_build_request_def Let_def)
qed

lemma socks5_parse_request_wire:
  assumes "valid_addr t (length h)" "command = SOCKS5_CMD_CONNECT \<or> command = SOCKS5_CMD_UDP_ASSOCIATE"
  shows "socks5_request_len (Some ([SOCKS5_VERSION, command, 0] @ trojan_addr_wire t h p @ rest)) =
           Complete (3 + trojan_addr_len t (length h)) \<and>
         socks5_parse_request (Some ([SOCKS5_VERSION, command, 0] @ trojan_addr_wire t h p @ rest)) =
           Some (command, addr_of t h p (trojan_addr_len t (length h)))"
proof -
  let ?w = "[SOCKS5_VERSION, command, 0] @ trojan_addr_wire t h p @ rest"
  have len: "4 \<le> length ?w" "\<not> Suc (Suc (Suc (trojan_addr_len t (length h) + length rest))) < 4"
    using valid_addr_bounds [OF assms(1)] by (simp_all add: trojan_addr_len_def)
  have rl: "socks5_request_len (Some ?w) = Complete (3 + trojan_addr_len t (length h))"
    using len assms(2) addr_len_wire [OF assms(1), of p rest]
    by (simp add: socks5_request_len_def SOCKS5_VERSION_def)
  moreover have "take (trojan_addr_len t (length h)) (trojan_addr_wire t h p @ rest) =
      trojan_addr_wire t h p @ []" by simp
  ultimately show ?thesis
    using trojan_parse_addr_wire [OF assms(1), of p "[]"]
    by (simp add: socks5_parse_request_def)
qed

text \<open>
  C37: SOCKS5 request round trip. A request built for an address whose fields belong
  together writes \<open>3 + wire_len\<close> bytes inside the output region; with anything behind it the
  length function says it is complete with that length, and the parser returns command and
  address.
\<close>

theorem socks5_request_roundtrip:
  assumes "trojan_addr_ok a" "command = SOCKS5_CMD_CONNECT \<or> command = SOCKS5_CMD_UDP_ASSOCIATE"
    and "3 + addr_wire_len a \<le> length d"
  shows "\<exists>n d'. socks5_build_request command (Some a) (Some d) = (Some n, Some d') \<and>
           n = 3 + addr_wire_len a \<and> length d' = length d \<and> drop n d' = drop n d \<and>
           socks5_request_len (Some (take n d' @ rest)) = Complete n \<and>
           socks5_parse_request (Some (take n d' @ rest)) =
             Some (command, addr_of (addr_type a) (host_bytes a) (addr_port a) (addr_wire_len a))"
proof -
  have h: "length (host_bytes a) = addr_host_len a" using assms(1) by (rule host_bytes_len)
  have v: "valid_addr (addr_type a) (length (host_bytes a))"
    "addr_wire_len a = trojan_addr_len (addr_type a) (length (host_bytes a))"
    using assms(1) h by (simp_all add: trojan_addr_ok_def)
  define w where "w = [SOCKS5_VERSION, command, 0] @
    trojan_addr_wire (addr_type a) (host_bytes a) (addr_port a)"
  have "length w = 3 + addr_wire_len a" by (simp add: w_def v(2))
  moreover have "socks5_build_request command (Some a) (Some d) =
      (Some (3 + addr_wire_len a), Some (w @ drop (3 + addr_wire_len a) d))"
    using socks5_build_request_ok [OF assms] by (simp add: w_def)
  moreover have "socks5_request_len (Some (w @ rest)) = Complete (3 + addr_wire_len a) \<and>
      socks5_parse_request (Some (w @ rest)) =
        Some (command, addr_of (addr_type a) (host_bytes a) (addr_port a) (addr_wire_len a))"
    using socks5_parse_request_wire [OF v(1) assms(2), of "addr_port a" rest] by (simp add: w_def v(2))
  ultimately show ?thesis using assms(3) by simp
qed

theorem socks5_request_roundtrip_witness:
  "\<exists>n d'. socks5_build_request 1 (Some (addr_of ADDR_DOMAIN [97, 98] 443 6)) (Some (replicate 30 0)) =
       (Some n, Some d') \<and>
     n = 3 + addr_wire_len (addr_of ADDR_DOMAIN [97, 98] 443 6) \<and>
     length d' = length (replicate 30 (0 :: byte)) \<and> drop n d' = drop n (replicate 30 0) \<and>
     socks5_request_len (Some (take n d' @ [22, 3, 1])) = Complete n \<and>
     socks5_parse_request (Some (take n d' @ [22, 3, 1])) =
       Some (1, addr_of (addr_type (addr_of ADDR_DOMAIN [97, 98] 443 6))
                  (host_bytes (addr_of ADDR_DOMAIN [97, 98] 443 6))
                  (addr_port (addr_of ADDR_DOMAIN [97, 98] 443 6))
                  (addr_wire_len (addr_of ADDR_DOMAIN [97, 98] 443 6)))"
  by (rule socks5_request_roundtrip)
    (simp_all add: trojan_addr_ok_def valid_addr_cases trojan_addr_len_def wire_defs)

lemma socks5_build_response_ok:
  assumes "trojan_addr_ok a" "3 + addr_wire_len a \<le> length d"
  shows "socks5_build_response status (Some a) (Some d) =
         (Some (3 + addr_wire_len a),
          Some ([SOCKS5_VERSION, status, 0] @
                trojan_addr_wire (addr_type a) (host_bytes a) (addr_port a) @
                drop (3 + addr_wire_len a) d))"
  using assms(2) socks5_put_addr_ok [OF assms(1), of "[SOCKS5_VERSION, status, 0]" d]
  by (simp add: socks5_build_response_def Let_def)

lemma socks5_response_wire:
  assumes "valid_addr t (length h)"
  shows "socks5_response_len (Some ([SOCKS5_VERSION, status, 0] @ trojan_addr_wire t h p @ rest)) =
           Complete (3 + trojan_addr_len t (length h)) \<and>
         socks5_parse_response (Some ([SOCKS5_VERSION, status, 0] @ trojan_addr_wire t h p @ rest)) =
           (if status = STATUS_OK then Some (addr_of t h p (trojan_addr_len t (length h))) else None)"
proof -
  let ?w = "[SOCKS5_VERSION, status, 0] @ trojan_addr_wire t h p @ rest"
  have len: "\<not> Suc (Suc (Suc (trojan_addr_len t (length h) + length rest))) < 4"
    using valid_addr_bounds [OF assms(1)] by (simp add: trojan_addr_len_def)
  have rl: "socks5_response_len (Some ?w) = Complete (3 + trojan_addr_len t (length h))"
    using len addr_len_wire [OF assms(1), of p rest]
    by (simp add: socks5_response_len_def SOCKS5_VERSION_def)
  moreover have "take (trojan_addr_len t (length h)) (trojan_addr_wire t h p @ rest) =
      trojan_addr_wire t h p @ []" by simp
  ultimately show ?thesis
    using trojan_parse_addr_wire [OF assms(1), of p "[]"]
    by (simp add: socks5_parse_response_def)
qed

text \<open>
  SOCKS5 response, whole exchange. A response is as long as the length function
  says, with anything behind it; a client accepts it exactly when the status is OK, and then
  sees the address that was put in.
\<close>

theorem socks5_response_roundtrip:
  assumes "trojan_addr_ok a" "3 + addr_wire_len a \<le> length d"
  shows "\<exists>n d'. socks5_build_response status (Some a) (Some d) = (Some n, Some d') \<and>
           length d' = length d \<and> drop n d' = drop n d \<and>
           socks5_response_len (Some (take n d' @ rest)) = Complete n \<and>
           socks5_parse_response (Some (take n d' @ rest)) =
             (if status = STATUS_OK
              then Some (addr_of (addr_type a) (host_bytes a) (addr_port a) (addr_wire_len a))
              else None)"
proof -
  have h: "length (host_bytes a) = addr_host_len a" using assms(1) by (rule host_bytes_len)
  have v: "valid_addr (addr_type a) (length (host_bytes a))"
    "addr_wire_len a = trojan_addr_len (addr_type a) (length (host_bytes a))"
    using assms(1) h by (simp_all add: trojan_addr_ok_def)
  define w where "w = [SOCKS5_VERSION, status, 0] @
    trojan_addr_wire (addr_type a) (host_bytes a) (addr_port a)"
  have "length w = 3 + addr_wire_len a" by (simp add: w_def v(2))
  moreover have "socks5_build_response status (Some a) (Some d) =
      (Some (3 + addr_wire_len a), Some (w @ drop (3 + addr_wire_len a) d))"
    using socks5_build_response_ok [OF assms] by (simp add: w_def)
  moreover have "socks5_response_len (Some (w @ rest)) = Complete (3 + addr_wire_len a) \<and>
      socks5_parse_response (Some (w @ rest)) = (if status = STATUS_OK
        then Some (addr_of (addr_type a) (host_bytes a) (addr_port a) (addr_wire_len a)) else None)"
    using socks5_response_wire [OF v(1), of status "addr_port a" rest] by (simp add: w_def v(2))
  ultimately show ?thesis using assms(2) by simp
qed

theorem socks5_response_roundtrip_witness:
  "\<exists>n d'. socks5_build_response STATUS_OK (Some (addr_of ADDR_IPV4 [0, 0, 0, 0] 0 7))
       (Some (replicate 10 0)) = (Some n, Some d') \<and>
     length d' = length (replicate 10 (0 :: byte)) \<and> drop n d' = drop n (replicate 10 0) \<and>
     socks5_response_len (Some (take n d' @ [1])) = Complete n \<and>
     socks5_parse_response (Some (take n d' @ [1])) =
       (if STATUS_OK = STATUS_OK
        then Some (addr_of (addr_type (addr_of ADDR_IPV4 [0, 0, 0, 0] 0 7))
                     (host_bytes (addr_of ADDR_IPV4 [0, 0, 0, 0] 0 7))
                     (addr_port (addr_of ADDR_IPV4 [0, 0, 0, 0] 0 7))
                     (addr_wire_len (addr_of ADDR_IPV4 [0, 0, 0, 0] 0 7)))
        else None)"
  by (rule socks5_response_roundtrip)
    (simp_all add: trojan_addr_ok_def valid_addr_cases trojan_addr_len_def wire_defs)

lemma socks5_udp_packet:
  assumes "trojan_addr_ok a" "length pl \<le> 65535" "3 + addr_wire_len a + length pl \<le> length d"
  shows "\<exists>n d'. socks5_build_udp_packet (Some a) (Some pl) (word_of_nat (length pl)) (Some d) =
             (Some n, Some d') \<and>
           n \<le> SOCKS5_MAX_PACKET \<and> length d' = length d \<and> drop n d' = drop n d \<and>
           socks5_parse_udp_packet (Some (take n d')) =
             Some \<lparr>uf_addr = addr_of (addr_type a) (host_bytes a) (addr_port a) (addr_wire_len a),
                   uf_payload_len = word_of_nat (length pl), uf_payload = pl, uf_wire_len = n\<rparr>"
proof -
  have h: "length (host_bytes a) = addr_host_len a" using assms(1) by (rule host_bytes_len)
  have v: "valid_addr (addr_type a) (length (host_bytes a))"
    "addr_wire_len a = trojan_addr_len (addr_type a) (length (host_bytes a))"
    using assms(1) h by (simp_all add: trojan_addr_ok_def)
  define l :: u16 where "l = word_of_nat (length pl)"
  have l: "unat l = length pl" using assms(2) by (simp add: l_def unat_of_nat)
  define aw where "aw = trojan_addr_wire (addr_type a) (host_bytes a) (addr_port a)"
  have aw: "length aw = addr_wire_len a" by (simp add: aw_def v(2))
  define w where "w = [0, 0, 0] @ aw @ pl"
  have wl: "length w = 3 + addr_wire_len a + length pl" by (simp add: w_def aw)
  obtain d0 d1 d2 d3 r where d: "d = d0 # d1 # d2 # d3 # r"
    using assms(3) valid_addr_bounds [OF v(1)] v(2)
    by (cases d; cases "tl d"; cases "tl (tl d)"; cases "tl (tl (tl d))")
      (auto simp: trojan_addr_len_def split: if_splits)
  have put: "socks5_put_addr a ([0, 0, 0] @ [addr_type a] @ drop 4 d) =
      Some ([0, 0, 0] @ aw @ drop (3 + addr_wire_len a) d, 3 + addr_wire_len a)"
    using assms(3) socks5_put_addr_ok [OF assms(1), of "[0, 0, 0]" d] by (simp add: aw_def)
  have pk: "poke ([0, 0, 0] @ aw @ drop (3 + addr_wire_len a) d) (3 + addr_wire_len a) pl =
      w @ drop (length w) d"
    using poke_append [of "3 + addr_wire_len a" "[0, 0, 0] @ aw" "drop (3 + addr_wire_len a) d" pl] aw wl
    by (simp add: w_def numeral_eq_Suc add.commute add.left_commute)
  have nz: "(if l \<noteq> 0 then poke x k (mem (Some pl) (unat l)) else x) = poke x k pl" for x k
    using l by (cases "pl = []") (auto simp: unsigned_eq_0_iff)
  have "socks5_build_udp_packet (Some a) (Some pl) l (Some d) =
      (Some (3 + addr_wire_len a + unat l), Some (poke ([0, 0, 0] @ aw @ drop (3 + addr_wire_len a) d) (3 + addr_wire_len a) pl))"
    using assms(3) put l d unfolding socks5_build_udp_packet_def Let_def nz by simp
  then have b: "socks5_build_udp_packet (Some a) (Some pl) l (Some d) =
      (Some (length w), Some (w @ drop (length w) d))"
    using pk wl l by simp
  have "4 \<le> addr_wire_len a" using v(2) valid_addr_bounds [OF v(1)]
    by (cases "host_bytes a") (simp_all add: trojan_addr_len_def)
  then have wn: "\<not> length w < 4" "length w - 3 - addr_wire_len a = length pl"
    "w ! 0 = 0" "w ! 1 = 0" "w ! 2 = 0"
    using wl by (simp_all add: w_def)
  have w3: "drop 3 w = aw @ pl" by (simp add: w_def)
  have w4: "drop (3 + addr_wire_len a) w = pl"
    using drop_append_exact [of "3 + addr_wire_len a" "[0, 0, 0] @ aw" pl] aw by (simp add: w_def)
  have "trojan_parse_addr (Some (aw @ pl)) =
      Some (addr_of (addr_type a) (host_bytes a) (addr_port a) (addr_wire_len a))"
    unfolding aw_def v(2) by (rule trojan_parse_addr_wire [OF v(1)])
  then have "socks5_parse_udp_packet (Some w) =
      Some \<lparr>uf_addr = addr_of (addr_type a) (host_bytes a) (addr_port a) (addr_wire_len a),
            uf_payload_len = word_of_nat (length pl), uf_payload = pl, uf_wire_len = length w\<rparr>"
    using assms(2) wn w3 w4 by (simp add: socks5_parse_udp_packet_def)
  moreover have "length w \<le> SOCKS5_MAX_PACKET"
    using wl assms(2) valid_addr_bounds [OF v(1)] v(2)
    by (auto simp: wire_defs trojan_addr_len_def valid_addr_cases)
  ultimately show ?thesis using b assms(3) wl by (simp add: l_def)
qed

text \<open>
  C38: SOCKS5 UDP packet round trip. Header, address and payload are written inside the
  region; the packet never exceeds \<open>SOCKS5_MAX_PACKET\<close>, and parsing it gives the address and
  exactly the payload.
\<close>

theorem socks5_udp_roundtrip:
  assumes "trojan_addr_ok a" "length pl \<le> 65535" "3 + addr_wire_len a + length pl \<le> length d"
  shows "\<exists>n d'. socks5_build_udp_packet (Some a) (Some pl) (word_of_nat (length pl)) (Some d) =
             (Some n, Some d') \<and>
           n \<le> SOCKS5_MAX_PACKET \<and> length d' = length d \<and> drop n d' = drop n d \<and>
           socks5_parse_udp_packet (Some (take n d')) =
             Some \<lparr>uf_addr = addr_of (addr_type a) (host_bytes a) (addr_port a) (addr_wire_len a),
                   uf_payload_len = word_of_nat (length pl), uf_payload = pl, uf_wire_len = n\<rparr>"
  using assms by (rule socks5_udp_packet)

theorem socks5_udp_roundtrip_witness:
  "\<exists>n d'. socks5_build_udp_packet (Some (addr_of ADDR_IPV4 [1, 2, 3, 4] 53 7)) (Some [9])
       (word_of_nat (length [9 :: byte])) (Some (replicate 12 0)) = (Some n, Some d') \<and>
     n \<le> SOCKS5_MAX_PACKET \<and> length d' = length (replicate 12 (0 :: byte)) \<and>
     drop n d' = drop n (replicate 12 0) \<and>
     socks5_parse_udp_packet (Some (take n d')) =
       Some \<lparr>uf_addr = addr_of (addr_type (addr_of ADDR_IPV4 [1, 2, 3, 4] 53 7))
               (host_bytes (addr_of ADDR_IPV4 [1, 2, 3, 4] 53 7))
               (addr_port (addr_of ADDR_IPV4 [1, 2, 3, 4] 53 7))
               (addr_wire_len (addr_of ADDR_IPV4 [1, 2, 3, 4] 53 7)),
             uf_payload_len = word_of_nat (length [9 :: byte]), uf_payload = [9], uf_wire_len = n\<rparr>"
  by (rule socks5_udp_roundtrip)
    (simp_all add: trojan_addr_ok_def valid_addr_cases trojan_addr_len_def wire_defs)

text \<open>
  Method selection. On a complete greeting the server chooses "no authentication"
  exactly when the client offers it among its announced methods, and otherwise refuses with
  0xff; and the module's own client greeting, with or without credentials, is such a greeting.
\<close>

theorem socks5_select_method_spec:
  assumes "length ms \<le> 255"
  shows "socks5_select_method (Some ([SOCKS5_VERSION, to_byte (length ms)] @ ms @ rest)) =
           Some (if METHOD_NO_AUTH \<in> set ms then METHOD_NO_AUTH else METHOD_NONE) \<and>
         (\<exists>n d'. socks5_build_greeting (Some (replicate 4 0)) userpass = (Some n, Some d') \<and>
            socks5_select_method (Some (take n d')) = Some METHOD_NO_AUTH)"
proof -
  have m: "unat (to_byte (length ms)) = length ms" using assms by (simp add: unat_to_byte)
  have "(\<exists>i < length ms. (ms @ rest) ! i = METHOD_NO_AUTH) \<longleftrightarrow> METHOD_NO_AUTH \<in> set ms"
    by (auto simp: in_set_conv_nth nth_append)
  with m have "socks5_select_method (Some ([SOCKS5_VERSION, to_byte (length ms)] @ ms @ rest)) =
      Some (if METHOD_NO_AUTH \<in> set ms then METHOD_NO_AUTH else METHOD_NONE)"
    by (auto simp: socks5_select_method_def socks5_greeting_len_def Let_def)
  moreover have "\<exists>n d'. socks5_build_greeting (Some (replicate 4 0)) userpass = (Some n, Some d') \<and>
            socks5_select_method (Some (take n d')) = Some METHOD_NO_AUTH"
  proof -
    have "replicate 4 (0 :: byte) = [0, 0, 0, 0]" by (simp add: numeral_eq_Suc)
    then show ?thesis
      by (cases userpass)
        (simp_all add: socks5_build_greeting_def socks5_select_method_def socks5_greeting_len_def
          Let_def wire_defs upt_rec)
  qed
  ultimately show ?thesis by blast
qed

theorem socks5_select_method_spec_witness:
  "socks5_select_method (Some ([SOCKS5_VERSION, to_byte (length [2 :: byte, 1])] @ [2, 1] @ [0])) =
     Some (if METHOD_NO_AUTH \<in> set [2, 1] then METHOD_NO_AUTH else METHOD_NONE) \<and>
   (\<exists>n d'. socks5_build_greeting (Some (replicate 4 0)) True = (Some n, Some d') \<and>
      socks5_select_method (Some (take n d')) = Some METHOD_NO_AUTH)"
  by (rule socks5_select_method_spec) simp

end
