(* ===== verification/Mt_Http.thy ===== *)
theory Mt_Http
  imports Mt_Socks5
begin

text \<open>
  The HTTP CONNECT front end (ngx_stream_mtrojan_http_proxy_protocol.c) and the relay and
  classification helpers around it (ngx_stream_mtrojan_relay.h, ngx_stream_mtrojan_inbound.c).
  Pointers into the request are indices from its start; a pointer pair is the list of bytes
  between the two.
\<close>

subsection \<open>Scanning\<close>

text \<open>The loop over \<open>i\<close> from the index given; the result is the offset behind the empty line.\<close>

fun header_end_scan :: "bytes \<Rightarrow> nat \<Rightarrow> nat option" where
  "header_end_scan (a # b # c # d # r) i =
     (if a = 0x0d \<and> b = 0x0a \<and> c = 0x0d \<and> d = 0x0a then Some (i + 4)
      else header_end_scan (b # c # d # r) (i + 1))"
| "header_end_scan _ i = None"

definition http_find_header_end :: "bytes \<Rightarrow> nat option" where
  "http_find_header_end buf = (if length buf < 4 then None else header_end_scan buf 0)"

definition http_has_prefix :: "bytes \<Rightarrow> bytes \<Rightarrow> bool" where
  "http_has_prefix buf prefix =
     (if length buf > length prefix then take (length prefix) buf = prefix
      else buf = take (length buf) prefix)"

definition looks_like_http :: "cptr \<Rightarrow> bool" where
  "looks_like_http buf =
     (case buf of
        None \<Rightarrow> False
      | Some b \<Rightarrow>
          if length b = 0 then False
          else http_has_prefix b (ascii ''CONNECT '') \<or> http_has_prefix b (ascii ''GET '')
             \<or> http_has_prefix b (ascii ''POST '') \<or> http_has_prefix b (ascii ''HEAD '')
             \<or> http_has_prefix b (ascii ''PUT '') \<or> http_has_prefix b (ascii ''DELETE '')
             \<or> http_has_prefix b (ascii ''OPTIONS '') \<or> http_has_prefix b (ascii ''PATCH '')
             \<or> http_has_prefix b (ascii ''TRACE ''))"

text \<open>The index of the first byte \<open>c\<close>, for the forward pointer loops.\<close>

fun find_byte :: "byte \<Rightarrow> bytes \<Rightarrow> nat option" where
  "find_byte c [] = None"
| "find_byte c (x # xs) = (if x = c then Some 0 else map_option Suc (find_byte c xs))"

definition http_find_space :: "bytes \<Rightarrow> nat option" where
  "http_find_space p = find_byte 0x20 p"

text \<open>The \<open>line_end\<close> loop over the bytes up to \<open>header_end\<close>.\<close>

fun line_end_scan :: "bytes \<Rightarrow> nat \<Rightarrow> nat" where
  "line_end_scan (a # b # r) i =
     (if a = 0x0d \<and> b = 0x0a then i else line_end_scan (b # r) (i + 1))"
| "line_end_scan _ i = i"

text \<open>The backward loop: the number of bytes up to and including the last \<open>c\<close>, or 0.\<close>

definition rfind_byte :: "byte \<Rightarrow> bytes \<Rightarrow> nat" where
  "rfind_byte c s = (case find_byte c (rev s) of None \<Rightarrow> 0 | Some i \<Rightarrow> length s - i)"

subsection \<open>The request\<close>

fun http_port_loop :: "bytes \<Rightarrow> nat \<Rightarrow> nat option" where
  "http_port_loop [] value = Some value"
| "http_port_loop (c # p) value =
     (if c < 0x30 \<or> c > 0x39 then None
      else let value = value * 10 + (unat c - 0x30) in
        if value = 0 \<or> value > 65535 then None else http_port_loop p value)"

definition http_parse_port :: "bytes \<Rightarrow> u16 option" where
  "http_parse_port p = (if p = [] then None else map_option word_of_nat (http_port_loop p 0))"

definition INET_ADDRSTRLEN :: nat where "INET_ADDRSTRLEN = 16"

definition http_fill_host ::
  "(bytes \<Rightarrow> bytes option) \<Rightarrow> (bytes \<Rightarrow> bytes option) \<Rightarrow> bytes \<Rightarrow> u16 \<Rightarrow> addr_t \<Rightarrow> addr_t option" where
  "http_fill_host pton4 pton6 host port addr =
     (if length host = 0 \<or> length host > 255 then None
      else let text = cstr (host @ [0]) in
        case (if length host \<le> INET_ADDRSTRLEN then pton4 text else None) of
          Some ip \<Rightarrow>
            Some (addr\<lparr>addr_host := poke (addr_host addr) 0 ip, addr_type := ADDR_IPV4,
                       addr_host_len := 4, addr_port := port, addr_wire_len := 1 + 4 + 2\<rparr>)
        | None \<Rightarrow>
            case (if length host \<le> INET6_ADDRSTRLEN then pton6 text else None) of
              Some ip \<Rightarrow>
                Some (addr\<lparr>addr_host := poke (addr_host addr) 0 ip, addr_type := ADDR_IPV6,
                           addr_host_len := 16, addr_port := port, addr_wire_len := 1 + 16 + 2\<rparr>)
            | None \<Rightarrow>
                Some (addr\<lparr>addr_type := ADDR_DOMAIN, addr_host := poke (addr_host addr) 0 host,
                           addr_host_len := length host, addr_port := port,
                           addr_wire_len := 1 + 1 + length host + 2\<rparr>))"

text \<open>The two branches that split \<open>target .. target_end\<close> into host and port.\<close>

definition http_split_target :: "bytes \<Rightarrow> (bytes \<times> bytes) option" where
  "http_split_target target =
     (if target ! 0 = 0x5b then
        let host = drop 1 target in
        case find_byte 0x5d host of
          None \<Rightarrow> None
        | Some host_end \<Rightarrow>
            if host_end + 1 \<ge> length host \<or> host ! (host_end + 1) \<noteq> 0x3a then None
            else Some (take host_end host, drop (host_end + 2) host)
      else
        let host_end = rfind_byte 0x3a target in
        if host_end = 0 \<or> host_end = length target then None
        else Some (take (host_end - 1) target, drop host_end target))"

datatype http_result =
    HTTP_NEED_MORE nat
  | HTTP_OK nat addr_t
  | HTTP_ERROR
  | HTTP_METHOD_NOT_ALLOWED

definition http_parse_connect ::
  "(bytes \<Rightarrow> bytes option) \<Rightarrow> (bytes \<Rightarrow> bytes option) \<Rightarrow> cptr \<Rightarrow> addr_t \<Rightarrow> http_result" where
  "http_parse_connect pton4 pton6 buf addr =
     (case buf of
        None \<Rightarrow> HTTP_ERROR
      | Some b \<Rightarrow>
          case http_find_header_end b of
            None \<Rightarrow> HTTP_NEED_MORE (length b + 1)
          | Some needed \<Rightarrow>
              let line = take (line_end_scan (take needed b) 0) b in
              if length line < 17 then HTTP_ERROR
              else if take 8 b \<noteq> ascii ''CONNECT '' then
                (if looks_like_http (Some b) then HTTP_METHOD_NOT_ALLOWED else HTTP_ERROR)
              else
                let rest = drop 8 line in
                case http_find_space rest of
                  None \<Rightarrow> HTTP_ERROR
                | Some target_end \<Rightarrow>
                    if target_end = 0 then HTTP_ERROR
                    else
                      let target = take target_end rest; version = drop (target_end + 1) rest in
                      if length version < 8 \<or> take 7 version \<noteq> ascii ''HTTP/1.'' then HTTP_ERROR
                      else case http_split_target target of
                          None \<Rightarrow> HTTP_ERROR
                        | Some (host, port_text) \<Rightarrow>
                            case http_parse_port port_text of
                              None \<Rightarrow> HTTP_ERROR
                            | Some port \<Rightarrow>
                                if length host = 0 \<or> length host > 255 then HTTP_ERROR
                                else case http_fill_host pton4 pton6 host port addr of
                                    None \<Rightarrow> HTTP_ERROR
                                  | Some a \<Rightarrow> HTTP_OK needed a)"

text \<open>The result: the number of bytes written, \<open>None\<close> for -1, and the output region.\<close>

definition http_response :: "nat \<Rightarrow> bytes" where
  "http_response status =
     (let no_body = CRLF @ ascii ''Content-Length: 0'' @ CRLF @ CRLF in
      if status = 200 then ascii ''HTTP/1.1 200 Connection Established'' @ CRLF @ CRLF
      else if status = 403 then ascii ''HTTP/1.1 403 Forbidden'' @ no_body
      else if status = 405 then ascii ''HTTP/1.1 405 Method Not Allowed'' @ no_body
      else if status = 502 then ascii ''HTTP/1.1 502 Bad Gateway'' @ no_body
      else ascii ''HTTP/1.1 400 Bad Request'' @ no_body)"

definition http_build_response :: "nat \<Rightarrow> cptr \<Rightarrow> nat option \<times> cptr" where
  "http_build_response status out =
     (case out of
        None \<Rightarrow> (None, out)
      | Some d \<Rightarrow>
          let response = http_response status in
          if length d < length response then (None, out)
          else (Some (length response), Some (poke d 0 response)))"

subsection \<open>Classification of an inbound connection\<close>

datatype inbound_e =
  inbound_mtrojan | inbound_tls | inbound_socks5 | inbound_http | inbound_close

definition looks_like_tls :: "cptr \<Rightarrow> bool" where
  "looks_like_tls buf =
     (case buf of
        None \<Rightarrow> False
      | Some b \<Rightarrow> \<not> length b < 3 \<and> b ! 0 = 0x16 \<and> b ! 1 = 0x03 \<and> b ! 2 \<le> 0x04)"

definition classify_inbound :: "cptr \<Rightarrow> bool \<Rightarrow> bool \<Rightarrow> bool \<Rightarrow> inbound_e" where
  "classify_inbound buf socks5_enabled http_enabled mtrojan_enabled =
     (case buf of
        None \<Rightarrow> inbound_close
      | Some b \<Rightarrow>
          if length b = 0 then inbound_close
          else if b ! 0 = SOCKS5_VERSION then
            (if socks5_enabled then inbound_socks5 else inbound_close)
          else if http_enabled \<and> looks_like_http (Some b) then inbound_http
          else if looks_like_tls (Some b) then inbound_tls
          else inbound_close)"

subsection \<open>Relay limits\<close>

definition RELAY_MAX_LOOPS :: nat where [wire_defs]: "RELAY_MAX_LOOPS = 16"
definition RELAY_MIN_BYTES :: nat where [wire_defs]: "RELAY_MIN_BYTES = 1024 * 1024"
definition RELAY_MAX_BYTES :: nat where [wire_defs]: "RELAY_MAX_BYTES = 4 * 1024 * 1024"

definition relay_should_continue :: "nat \<Rightarrow> nat \<Rightarrow> nat \<Rightarrow> bool" where
  "relay_should_continue loops bytes limit \<longleftrightarrow> loops < RELAY_MAX_LOOPS \<and> bytes < limit"

definition relay_limit :: "nat \<Rightarrow> nat" where
  "relay_limit buffer_size =
     (let limit = sz_mul buffer_size 32 in
      if limit < RELAY_MIN_BYTES then RELAY_MIN_BYTES
      else if limit > RELAY_MAX_BYTES then RELAY_MAX_BYTES
      else limit)"

definition relay_read_size :: "nat \<Rightarrow> nat \<Rightarrow> nat \<Rightarrow> nat" where
  "relay_read_size available bytes limit =
     (if bytes \<ge> limit then 0
      else let remaining = limit - bytes in
        if available < remaining then available else remaining)"

subsection \<open>The header is read to its end and no further\<close>

definition http_header_len :: "bytes \<Rightarrow> need" where
  "http_header_len s =
     (case http_find_header_end s of None \<Rightarrow> Need (length s + 1) | Some n \<Rightarrow> Complete n)"

lemma header_end_scan_le: "header_end_scan s i = Some n \<Longrightarrow> i + 4 \<le> n \<and> n \<le> i + length s"
  by (induction s i rule: header_end_scan.induct) (auto split: if_splits)

lemma header_end_scan_take:
  "header_end_scan s i = Some n \<Longrightarrow> header_end_scan (take (n - i) s @ t) i = Some n"
proof (induction s i rule: header_end_scan.induct)
  case (1 a b c d r i)
  show ?case
  proof (cases "a = 0x0d \<and> b = 0x0a \<and> c = 0x0d \<and> d = 0x0a")
    case True
    with 1 have "n = i + 4" by simp
    with True show ?thesis by (simp add: numeral_eq_Suc)
  next
    case False
    with 1 have n: "header_end_scan (b # c # d # r) (i + 1) = Some n" by auto
    from header_end_scan_le [OF n] obtain k where k: "n = i + 1 + (4 + k)"
      by (metis add.assoc le_Suc_ex)
    have "header_end_scan (take (n - (i + 1)) (b # c # d # r) @ t) (i + 1) = Some n"
      using 1(1) [OF False n] by simp
    moreover have "take (n - (i + 1)) (b # c # d # r) = b # c # d # take (k + 1) r"
      using k by (simp add: numeral_eq_Suc)
    moreover have "take (n - i) (a # b # c # d # r) = a # b # c # d # take (k + 1) r"
      using k by (simp add: numeral_eq_Suc)
    ultimately show ?thesis using False by auto
  qed
qed simp_all

interpretation http_header: incremental http_header_len
proof unfold_locales
  fix s t :: bytes and n m
  show "http_header_len s = Complete n \<Longrightarrow> n \<le> length s"
    using header_end_scan_le [of s 0 n]
    by (auto simp: http_header_len_def http_find_header_end_def split: option.splits if_splits)
  show "http_header_len s = Complete n \<Longrightarrow> http_header_len (take n s @ t) = Complete n"
    using header_end_scan_take [of s 0 n t] header_end_scan_le [of s 0 n]
    by (auto simp: http_header_len_def http_find_header_end_def split: option.splits if_splits)
  show "http_header_len s = Need n \<Longrightarrow> length s < n"
    by (auto simp: http_header_len_def split: option.splits)
  show "http_header_len s = Need n \<Longrightarrow> http_header_len (s @ t) = Complete m \<Longrightarrow> n \<le> m"
  proof -
    assume n: "http_header_len s = Need n" and m: "http_header_len (s @ t) = Complete m"
    have none: "http_find_header_end s = None" "n = length s + 1"
      using n by (auto simp: http_header_len_def split: option.splits)
    show "n \<le> m"
    proof (rule ccontr)
      assume "\<not> n \<le> m"
      with none have "m \<le> length s" by simp
      then have "take m (s @ t) = take m s" by simp
      from m have "header_end_scan (s @ t) 0 = Some m"
        by (auto simp: http_header_len_def http_find_header_end_def split: option.splits if_splits)
      from header_end_scan_take [OF this, of "drop m s"] \<open>m \<le> length s\<close>
      have "header_end_scan s 0 = Some m" by simp
      with none header_end_scan_le [OF this] show False
        by (auto simp: http_find_header_end_def split: if_splits)
    qed
  qed
  show "http_header_len s = Malformed \<Longrightarrow> http_header_len (s @ t) = Malformed"
    by (auto simp: http_header_len_def split: option.splits)
qed

lemma line_end_scan_le: "line_end_scan s i \<le> i + length s"
  by (induction s i rule: line_end_scan.induct) auto

lemma http_connect_chunks':
  assumes "http_parse_connect pton4 pton6 (Some b) a0 = HTTP_OK n a"
  shows "n \<le> length b \<and>
         (\<forall>t. http_parse_connect pton4 pton6 (Some (b @ t)) a0 = HTTP_OK n a) \<and>
         (\<forall>k < n. http_parse_connect pton4 pton6 (Some (take k b)) a0 = HTTP_NEED_MORE (k + 1))"
proof -
  from assms have n: "http_find_header_end b = Some n"
    and long: "17 \<le> line_end_scan (take n b) 0" and m: "take 8 b = ascii ''CONNECT ''"
    by (auto simp: http_parse_connect_def Let_def split: option.splits if_splits)
  then have c: "http_header_len b = Complete n" by (simp add: http_header_len_def)
  then have le: "n \<le> length b" by (rule http_header.complete_le)
  have "http_parse_connect pton4 pton6 (Some (b @ t)) a0 = HTTP_OK n a" for t
  proof -
    have n': "http_find_header_end (b @ t) = Some n"
      using http_header.complete_extend [OF c, of t]
      by (auto simp: http_header_len_def split: option.splits)
    have tn: "take n (b @ t) = take n b" using le by simp
    have l: "line_end_scan (take n b) 0 \<le> length b"
      using line_end_scan_le [of "take n b" 0] le by simp
    then have tl: "take (line_end_scan (take n b) 0) (b @ t) = take (line_end_scan (take n b) 0) b"
      by simp
    have t8: "take 8 (b @ t) = take 8 b" using long l by simp
    have "http_parse_connect pton4 pton6 (Some (b @ t)) a0 = http_parse_connect pton4 pton6 (Some b) a0"
      unfolding http_parse_connect_def option.case n n' Let_def tn tl t8
      using m by simp
    with assms show ?thesis by simp
  qed
  moreover have "http_parse_connect pton4 pton6 (Some (take k b)) a0 = HTTP_NEED_MORE (k + 1)"
    if "k < n" for k
  proof -
    have "length (take k b) < n" using that le by simp
    then obtain m where "http_header_len (take k b) = Need m"
      using http_header.proper_prefix_needs [of "take k b" "drop k b" n] c by auto
    then have "http_find_header_end (take k b) = None"
      by (auto simp: http_header_len_def split: option.splits)
    then show ?thesis using that le by (simp add: http_parse_connect_def)
  qed
  ultimately show ?thesis using le by blast
qed


subsection \<open>Ports\<close>

lemma dec_small: "n < 10 \<Longrightarrow> dec n = [to_byte (48 + n)]"
  by (subst dec.simps) simp

lemma dec_snoc: "0 < v \<Longrightarrow> d < 10 \<Longrightarrow> dec (v * 10 + d) = dec v @ [to_byte (48 + d)]"
  by (subst dec.simps) simp

lemma digit_byte:
  assumes "0x30 \<le> c" "c \<le> (0x39 :: byte)"
  obtains d where "d < 10" "c = to_byte (48 + d)" "unat c - 0x30 = d"
proof -
  have "48 \<le> unat c" "unat c \<le> 57" using assms by (simp_all add: word_le_nat_alt)
  then show thesis by (intro that [of "unat c - 48"]) simp_all
qed

lemma to_byte_digit:
  "d < 10 \<Longrightarrow> \<not> to_byte (48 + d) < 0x30 \<and> \<not> to_byte (48 + d) > 0x39 \<and> unat (to_byte (48 + d)) - 0x30 = d"
  using unat_to_byte [of "48 + d"] by (simp add: word_less_nat_alt del: of_nat_add)

lemma http_port_loop_sound:
  "http_port_loop p v = Some r \<Longrightarrow> 0 < v \<Longrightarrow> v \<le> 65535 \<Longrightarrow> r \<le> 65535 \<and> 0 < r \<and> dec r = dec v @ p"
proof (induction p arbitrary: v)
  case (Cons c p)
  from Cons.prems have "0x30 \<le> c" "c \<le> 0x39" by (auto split: if_splits)
  then obtain d where d: "d < 10" "c = to_byte (48 + d)" "unat c - 0x30 = d" by (rule digit_byte)
  with Cons.prems have "http_port_loop p (v * 10 + d) = Some r" "v * 10 + d \<le> 65535"
    by (auto simp: Let_def split: if_splits)
  with Cons.IH [of "v * 10 + d"] Cons.prems(2) dec_snoc [OF Cons.prems(2) d(1)] d show ?case by simp
qed simp

lemma http_port_loop_dec:
  "0 < r \<Longrightarrow> r \<le> 65535 \<Longrightarrow> http_port_loop (dec r @ t) 0 = http_port_loop t r"
proof (induction r arbitrary: t rule: less_induct)
  case (less r)
  show ?case
  proof (cases "r < 10")
    case True
    with less.prems to_byte_digit [OF True] show ?thesis by (simp add: dec_small)
  next
    case False
    have m: "r mod 10 < 10" by simp
    have e: "dec r = dec (r div 10) @ [to_byte (48 + r mod 10)]"
      using False by (subst dec.simps) simp
    have "http_port_loop (dec (r div 10) @ ([to_byte (48 + r mod 10)] @ t)) 0 =
        http_port_loop ([to_byte (48 + r mod 10)] @ t) (r div 10)"
      using less.prems False by (intro less.IH) auto
    also have "\<dots> = http_port_loop t r"
      using less.prems to_byte_digit [OF m] by (simp add: Let_def del: of_nat_add)
    finally show ?thesis by (simp add: e)
  qed
qed

lemma http_parse_port_iff':
  "http_parse_port s = Some p \<longleftrightarrow> p \<noteq> 0 \<and> s = dec (unat p)"
proof
  assume "http_parse_port s = Some p"
  then obtain r where r: "s \<noteq> []" "http_port_loop s 0 = Some r" "p = word_of_nat r"
    by (auto simp: http_parse_port_def split: if_splits)
  then obtain c q where c: "s = c # q" by (cases s) auto
  with r have "0x30 \<le> c" "c \<le> 0x39" by (auto split: if_splits)
  then obtain d where d: "d < 10" "c = to_byte (48 + d)" "unat c - 0x30 = d" by (rule digit_byte)
  with r c have "http_port_loop q d = Some r" "0 < d"
    by (auto simp: Let_def split: if_splits)
  with http_port_loop_sound [of q d r] d have "r \<le> 65535" "0 < r" "dec r = c # q"
    by (simp_all add: dec_small)
  with r c show "p \<noteq> 0 \<and> s = dec (unat p)"
    by (auto simp: unat_of_nat word_unat_eq_iff)
next
  assume "p \<noteq> 0 \<and> s = dec (unat p)"
  then have p: "0 < unat p" "s = dec (unat p)" by (simp_all add: unat_gt_0)
  have "dec n \<noteq> []" for n by (subst dec.simps) simp
  with p http_port_loop_dec [OF p(1), of "[]"] show "http_parse_port s = Some p"
    by (simp add: http_parse_port_def)
qed

text \<open>
  The port of a CONNECT target. The parser accepts exactly the shortest decimal
  spelling of the numbers 1 to 65535: no empty port, no sign, no leading zero, no overflow.
\<close>

theorem http_parse_port_iff:
  "http_parse_port s = Some p \<longleftrightarrow> p \<noteq> 0 \<and> s = dec (unat p)"
  by (rule http_parse_port_iff')

subsection \<open>CONNECT requests\<close>

lemma http_fill_host_ok:
  assumes "http_fill_host pton4 pton6 host port a0 = Some a" "pton4_grammar pton4" "pton6_grammar pton6"
    and "length (addr_host a0) = 255"
  shows "trojan_addr_ok a \<and> addr_port a = port"
proof -
  have "pton4 s = Some ip \<Longrightarrow> length ip = 4" "pton6 s = Some ip \<Longrightarrow> length ip = 16" for s ip
    using assms(2,3) by (auto simp: pton4_grammar_def pton6_grammar_def)
  with assms(1,4) show ?thesis
    by (auto simp: http_fill_host_def trojan_addr_ok_def valid_addr_cases trojan_addr_len_def Let_def
        wire_defs split: if_splits option.splits)
qed

text \<open>What an accepted CONNECT request yields. When the parser accepts, the request
  starts with the method, its header ends where the length function says, inside the bytes
  read, and the target is an address whose type, length and wire length belong together, so
  that every packer of the module can send it on, with a port that is not 0.
\<close>

theorem http_connect_accepted:
  assumes "http_parse_connect pton4 pton6 (Some b) a0 = HTTP_OK n a"
    and "pton4_grammar pton4" "pton6_grammar pton6" "length (addr_host a0) = 255"
  shows "trojan_addr_ok a \<and> addr_port a \<noteq> 0 \<and> take 8 b = ascii ''CONNECT '' \<and>
         http_header_len b = Complete n \<and> n \<le> length b"
proof -
  from assms(1) obtain host ptext port where n: "http_find_header_end b = Some n"
      and m: "take 8 b = ascii ''CONNECT ''" and port: "http_parse_port ptext = Some port"
      and a: "http_fill_host pton4 pton6 host port a0 = Some a"
    by (auto simp: http_parse_connect_def Let_def split: option.splits if_splits)
  have "http_header_len b = Complete n" using n by (simp add: http_header_len_def)
  moreover from this have "n \<le> length b" by (rule http_header.complete_le)
  moreover have "port \<noteq> 0" using port by (simp add: http_parse_port_iff')
  ultimately show ?thesis using http_fill_host_ok [OF a assms(2-4)] m by simp
qed

theorem http_connect_accepted_witness:
  "trojan_addr_ok (the (http_fill_host toy_pton4 toy_pton6 (ascii ''h'') 80 addr_zero)) \<and>
   addr_port (the (http_fill_host toy_pton4 toy_pton6 (ascii ''h'') 80 addr_zero)) \<noteq> 0 \<and>
   take 8 (ascii ''CONNECT h:80 HTTP/1.1'' @ CRLF @ CRLF) = ascii ''CONNECT '' \<and>
   http_header_len (ascii ''CONNECT h:80 HTTP/1.1'' @ CRLF @ CRLF) = Complete 25 \<and>
   25 \<le> length (ascii ''CONNECT h:80 HTTP/1.1'' @ CRLF @ CRLF)"
  by (rule http_connect_accepted [OF _ toy_grammar, where ?a0.0 = addr_zero])
    (simp_all add: http_parse_connect_def http_find_header_end_def CRLF_def http_find_space_def
      http_split_target_def rfind_byte_def http_parse_port_def addr_zero_def
      http_fill_host_def toy_pton4_def toy_pton6_def cstr_def INET_ADDRSTRLEN_def
      INET6_ADDRSTRLEN_def Let_def)

lemma header_end_scan_skip:
  "0x0d \<notin> set l \<Longrightarrow> header_end_scan (l @ s) i = header_end_scan s (i + length l)"
proof (induction l arbitrary: i)
  case (Cons a l)
  have short: "header_end_scan u j = None" if "length u < 4" for u j
    using that by (induction u j rule: header_end_scan.induct) auto
  show ?case
  proof (cases "length ((a # l) @ s) < 4")
    case True
    then show ?thesis using short [of "(a # l) @ s"] short [of s] by simp
  next
    case False
    then obtain b c d r where "l @ s = b # c # d # r"
      by (cases "l @ s"; cases "tl (l @ s)"; cases "tl (tl (l @ s))") auto
    with Cons show ?thesis by simp
  qed
qed simp

lemma line_end_scan_eol: "0x0d \<notin> set l \<Longrightarrow> line_end_scan (l @ 0x0d # 0x0a # r) i = i + length l"
proof (induction l arbitrary: i)
  case (Cons a l)
  then show ?case by (cases l) auto
qed simp

lemma find_byte_append: "c \<notin> set xs \<Longrightarrow> find_byte c (xs @ c # ys) = Some (length xs)"
  by (induction xs) auto

lemma rfind_byte_append:
  "c \<notin> set ys \<Longrightarrow> rfind_byte c (xs @ c # ys) = length xs + 1"
  using find_byte_append [of c "rev ys" "rev xs"] by (simp add: rfind_byte_def)

lemma dec_digits: "c \<in> set (dec n) \<Longrightarrow> 0x30 \<le> c \<and> c \<le> 0x39"
proof (induction n rule: less_induct)
  case (less n)
  have digit: "0x30 \<le> to_byte (48 + d) \<and> to_byte (48 + d) \<le> (0x39 :: byte)" if "d < 10" for d
    using to_byte_digit [OF that] by (simp add: not_less del: of_nat_add)
  show ?case
  proof (cases "n < 10")
    case True
    with less.prems digit [OF True] show ?thesis by (simp add: dec_small del: of_nat_add)
  next
    case False
    then have "dec n = dec (n div 10) @ [to_byte (48 + n mod 10)]" by (subst dec.simps) simp
    with less.prems less.IH [of "n div 10"] False digit [of "n mod 10"] show ?thesis
      by (auto simp del: of_nat_add)
  qed
qed

text \<open>The two ways a target is spelt.\<close>

definition connect_target :: "bool \<Rightarrow> bytes \<Rightarrow> u16 \<Rightarrow> bytes" where
  "connect_target bracket host port =
     (if bracket then [0x5b] @ host @ [0x5d, 0x3a] else host @ [0x3a]) @ dec (unat port)"

lemma dec_not_special:
  "0x3a \<notin> set (dec n)" "0x20 \<notin> set (dec n)" "0x0d \<notin> set (dec n)" "dec n \<noteq> []"
  using dec_digits [of "0x3a" n] dec_digits [of "0x20" n] dec_digits [of "0x0d" n]
  by (auto, subst (asm) dec.simps, simp split: if_splits)

lemma http_split_target_ok:
  assumes "host \<noteq> []" "if bracket then 0x5d \<notin> set host else hd host \<noteq> 0x5b"
  shows "http_split_target (connect_target bracket host port) = Some (host, dec (unat port))"
proof (cases bracket)
  case True
  then show ?thesis
    using assms find_byte_append [of "0x5d" host "0x3a # dec (unat port)"] dec_not_special(4) [of "unat port"]
    by (simp add: http_split_target_def connect_target_def nth_append Let_def)
next
  case False
  have "(host @ 0x3a # dec (unat port)) ! 0 = hd host"
    using assms(1) by (cases host) simp_all
  with False assms show ?thesis
    using rfind_byte_append [OF dec_not_special(1), of host "unat port"] dec_not_special(4) [of "unat port"]
    by (simp add: http_split_target_def connect_target_def Let_def)
qed

lemma http_connect_complete':
  assumes "host \<noteq> []" "length host \<le> 255" "0x20 \<notin> set host" "0x0d \<notin> set host"
    and "if bracket then 0x5d \<notin> set host else hd host \<noteq> 0x5b"
    and "port \<noteq> 0" "minor \<noteq> 0x0d"
    and b: "b = ascii ''CONNECT '' @ connect_target bracket host port @ [0x20] @
                ascii ''HTTP/1.'' @ [minor] @ CRLF @ tail"
    and n: "http_find_header_end b = Some n"
    and a: "http_fill_host pton4 pton6 host port a0 = Some a"
  shows "http_parse_connect pton4 pton6 (Some b) a0 = HTTP_OK n a"
proof -
  let ?t = "connect_target bracket host port"
  define line where "line = ascii ''CONNECT '' @ ?t @ [0x20] @ ascii ''HTTP/1.'' @ [minor]"
  have t: "0x20 \<notin> set ?t" "0x0d \<notin> set ?t" "?t \<noteq> []"
    using assms(3,4) dec_not_special [of "unat port"] by (auto simp: connect_target_def)
  then have line: "0x0d \<notin> set line" using assms(7) by (simp add: line_def)
  have bl: "b = line @ 0x0d # 0x0a # tail" by (simp add: b line_def CRLF_def)
  have "header_end_scan b 0 = Some n" using n by (auto simp: http_find_header_end_def split: if_splits)
  then have "header_end_scan (0x0d # 0x0a # tail) (length line) = Some n"
    using header_end_scan_skip [OF line, of "0x0d # 0x0a # tail" 0] bl by simp
  then have nl: "length line + 4 \<le> n" using header_end_scan_le by blast
  then have "n - length line = Suc (Suc (n - length line - 2))" by simp
  then have "take n b = line @ 0x0d # 0x0a # take (n - length line - 2) tail"
    using nl by (simp add: bl)
  then have le: "line_end_scan (take n b) 0 = length line"
    using line_end_scan_eol [OF line, of _ 0] by simp
  have tl: "take (length line) b = line" by (simp add: bl)
  have d8: "drop 8 line = ?t @ 0x20 # ascii ''HTTP/1.'' @ [minor]" "take 8 b = ascii ''CONNECT ''"
    by (simp_all add: line_def b)
  have ll: "\<not> length line < 17" using t(3) by (cases ?t) (simp_all add: line_def)
  have sp: "http_find_space (drop 8 line) = Some (length ?t)"
    using find_byte_append [OF t(1)] d8 by (simp add: http_find_space_def)
  have tt: "take (length ?t) (drop 8 line) = ?t"
    "drop (length ?t + 1) (drop 8 line) = ascii ''HTTP/1.'' @ [minor]"
    by (simp_all add: d8)
  have pp: "http_parse_port (dec (unat port)) = Some port"
    using assms(6) by (simp add: http_parse_port_iff')
  show ?thesis
    unfolding http_parse_connect_def Let_def option.case n le tl
    using ll d8(2) sp tt t(3) http_split_target_ok [OF assms(1,5)] pp a assms(1,2)
    by simp
qed




subsection \<open>Classification and relay limits\<close>

lemma has_prefix_iff: "http_has_prefix s p \<longleftrightarrow> take (length p) s = take (length s) p"
  by (auto simp: http_has_prefix_def)

lemma has_prefix_anti:
  assumes "http_has_prefix (s @ t) p"
  shows "http_has_prefix s p"
proof -
  from assms have "take (length s) (take (length p) (s @ t)) = take (length s) (take (length (s @ t)) p)"
    by (simp add: has_prefix_iff)
  then show ?thesis by (simp add: has_prefix_iff min_def take_append split: if_splits)
qed

text \<open>Classification may be decided on the first bytes. Once the handler has looked
  at one byte (three when the first is the TLS record type), more bytes never turn a connection
  it closes, or takes for SOCKS5, into something else; an HTTP method spelt out in full is HTTP
  from its first byte on.
\<close>

theorem classify_inbound_early:
  assumes "s \<noteq> []" and "s ! 0 = 0x16 \<longrightarrow> 3 \<le> length s"
  shows "(classify_inbound (Some s) s5 http mt = inbound_close \<longrightarrow>
            classify_inbound (Some (s @ t)) s5 http mt = inbound_close) \<and>
         (classify_inbound (Some s) s5 http mt = inbound_socks5 \<longrightarrow>
            classify_inbound (Some (s @ t)) s5 http mt = inbound_socks5) \<and>
         (classify_inbound (Some (s @ t)) s5 http mt = inbound_http \<longrightarrow>
            classify_inbound (Some s) s5 http mt = inbound_http)"
proof -
  have h: "looks_like_http (Some (s @ t)) \<Longrightarrow> looks_like_http (Some s)"
    using assms(1) by (auto simp: looks_like_http_def dest: has_prefix_anti)
  have tls: "looks_like_tls (Some (s @ t)) = looks_like_tls (Some s)"
  proof (cases "s ! 0 = 0x16")
    case True
    with assms(2) have "3 \<le> length s" by simp
    then show ?thesis by (auto simp: looks_like_tls_def nth_append)
  next
    case False
    with assms(1) show ?thesis by (auto simp: looks_like_tls_def nth_append)
  qed
  have "(s @ t) ! 0 = s ! 0" using assms(1) by (simp add: nth_append)
  with assms(1) h tls show ?thesis by (auto simp: classify_inbound_def)
qed

theorem classify_inbound_early_witness:
  "classify_inbound (Some ([5] @ [1, 0])) True True False = inbound_socks5"
  by (rule mp [OF conjunct1 [OF conjunct2 [OF classify_inbound_early]]])
    (simp_all add: classify_inbound_def SOCKS5_VERSION_def)

end
