(* ===== verification/Mt_Order.thy ===== *)
theory Mt_Order
  imports Mt_Prelude "HOL-Library.Multiset"
begin

text \<open>
  Comparison functions in the C style (negative, zero, positive), the sorting and searching
  built on them, and the interface the rule compiler relies on: a three-way comparison that is
  a linear order on keys. \<open>ngx_qsort\<close> is libc's \<open>qsort\<close>, \<open>ngx_memcmp\<close> its \<open>memcmp\<close>.
\<close>

subsection \<open>memcmp and qsort\<close>

fun memcmp :: "bytes \<Rightarrow> bytes \<Rightarrow> nat \<Rightarrow> int" where
  "memcmp a b 0 = 0"
| "memcmp (x # a) (y # b) (Suc n) = (if x = y then memcmp a b n else if x < y then -1 else 1)"
| "memcmp _ _ _ = 0"

lemma memcmp_take:
  "n \<le> length a \<Longrightarrow> n \<le> length b \<Longrightarrow> memcmp a b n = 0 \<longleftrightarrow> take n a = take n b"
proof (induction n arbitrary: a b)
  case (Suc n)
  then show ?case by (cases a; cases b) auto
qed simp

text \<open>One of the orders \<open>qsort\<close> may produce: insertion sort.\<close>

fun insert_by :: "('a \<Rightarrow> 'a \<Rightarrow> int) \<Rightarrow> 'a \<Rightarrow> 'a list \<Rightarrow> 'a list" where
  "insert_by cmp x [] = [x]"
| "insert_by cmp x (y # ys) = (if cmp x y \<le> 0 then x # y # ys else y # insert_by cmp x ys)"

definition ngx_qsort :: "('a \<Rightarrow> 'a \<Rightarrow> int) \<Rightarrow> 'a list \<Rightarrow> 'a list" where
  "ngx_qsort cmp xs = foldr (insert_by cmp) xs []"

lemma mset_insert_by [simp]: "mset (insert_by cmp x ys) = add_mset x (mset ys)"
  by (induction ys) auto

lemma mset_qsort [simp]: "mset (ngx_qsort cmp xs) = mset xs"
  by (induction xs) (simp_all add: ngx_qsort_def)

lemma set_qsort [simp]: "set (ngx_qsort cmp xs) = set xs"
  using mset_qsort [of cmp xs] by (metis set_mset_mset)

lemma length_qsort [simp]: "length (ngx_qsort cmp xs) = length xs"
  using mset_qsort [of cmp xs] by (metis size_mset)

subsection \<open>Binary search\<close>

text \<open>The loop of both \<open>find\<close> routines: \<open>cmp\<close> compares an element with the key looked for.\<close>

function bin_search :: "('a \<Rightarrow> 'k \<Rightarrow> int) \<Rightarrow> 'a list \<Rightarrow> 'k \<Rightarrow> nat \<Rightarrow> nat \<Rightarrow> bool" where
  "bin_search cmp elts key left right =
     (if left < right then
        let mid = (left + right) div 2; rc = cmp (elts ! mid) key in
        if rc = 0 then True
        else if rc < 0 then bin_search cmp elts key (mid + 1) right
        else bin_search cmp elts key left mid
      else False)"
  by pat_completeness auto
termination
  by (relation "measure (\<lambda>(cmp, elts, key, left, right). right - left)") auto

declare bin_search.simps [simp del]

text \<open>The loop that keeps the first of a run of equal neighbours.\<close>

definition dedup_step :: "'a list \<Rightarrow> 'a \<Rightarrow> 'a list" where
  "dedup_step kept x = (if kept = [] \<or> last kept \<noteq> x then kept @ [x] else kept)"

definition dedup :: "'a list \<Rightarrow> 'a list" where
  "dedup xs = foldl dedup_step [] xs"

lemma set_dedup [simp]: "set (dedup xs) = set xs"
proof -
  have "set (foldl dedup_step acc xs) = set acc \<union> set xs" for acc
  proof (induction xs arbitrary: acc)
    case (Cons x xs)
    have "set (dedup_step acc x) = insert x (set acc)"
      by (auto simp: dedup_step_def)
    with Cons show ?case by simp
  qed simp
  then show ?thesis by (simp add: dedup_def)
qed

lemma ex_upper_half:
  fixes mid :: nat
  assumes "\<And>i. i \<le> mid \<Longrightarrow> \<not> P i" "left \<le> mid"
  shows "(\<exists>i. left \<le> i \<and> i < right \<and> P i) \<longleftrightarrow> (\<exists>i. mid + 1 \<le> i \<and> i < right \<and> P i)"
proof -
  have "mid + 1 \<le> i" if "P i" for i using assms(1) [of i] that by (cases "i \<le> mid") auto
  moreover have "left \<le> i" if "mid + 1 \<le> i" for i using assms(2) that by simp
  ultimately show ?thesis by blast
qed

lemma ex_lower_half:
  fixes mid :: nat
  assumes "\<And>i. mid \<le> i \<Longrightarrow> i < right \<Longrightarrow> \<not> P i" "mid < right"
  shows "(\<exists>i. left \<le> i \<and> i < right \<and> P i) \<longleftrightarrow> (\<exists>i. left \<le> i \<and> i < mid \<and> P i)"
proof -
  have "i < mid" if "P i" "i < right" for i using assms(1) [of i] that by (cases "mid \<le> i") auto
  moreover have "i < right" if "i < mid" for i using assms(2) that by simp
  ultimately show ?thesis by blast
qed

lemma set_slice:
  assumes "r \<le> length elts"
  shows "set (take (r - l) (drop l elts)) = (!) elts ` {l ..< r}"
proof -
  have "take (r - l) (drop l elts) = map ((!) elts) [l ..< r]"
    using assms by (intro nth_equalityI) auto
  then have "set (take (r - l) (drop l elts)) = set (map ((!) elts) [l ..< r])" by (rule arg_cong)
  then show ?thesis by (simp only: set_map set_upt)
qed

subsection \<open>The interface\<close>

text \<open>
  \<open>ok\<close> is the set of keys the comparison is meant for (byte strings of one length, for
  instance).
\<close>

locale comparator =
  fixes cmp :: "'k \<Rightarrow> 'k \<Rightarrow> int" and ok :: "'k \<Rightarrow> bool"
  assumes cmp_0: "ok a \<Longrightarrow> ok b \<Longrightarrow> cmp a b = 0 \<longleftrightarrow> a = b"
    and cmp_sym: "ok a \<Longrightarrow> ok b \<Longrightarrow> cmp a b > 0 \<longleftrightarrow> cmp b a < 0"
    and cmp_trans: "ok a \<Longrightarrow> ok b \<Longrightarrow> ok c \<Longrightarrow> cmp a b < 0 \<Longrightarrow> cmp b c < 0 \<Longrightarrow> cmp a c < 0"
begin

definition le :: "'k \<Rightarrow> 'k \<Rightarrow> bool" where
  "le a b \<longleftrightarrow> cmp a b \<le> 0"

lemma le_refl: "ok a \<Longrightarrow> le a a"
  using cmp_0 [of a a] by (simp add: le_def)

lemma le_trans: "ok a \<Longrightarrow> ok b \<Longrightarrow> ok c \<Longrightarrow> le a b \<Longrightarrow> le b c \<Longrightarrow> le a c"
  using cmp_trans [of a b c] cmp_0 [of a b] cmp_0 [of b c]
  by (auto simp: le_def le_less)

lemma le_total: "ok a \<Longrightarrow> ok b \<Longrightarrow> \<not> le a b \<Longrightarrow> le b a"
  using cmp_sym [of a b] by (simp add: le_def)

lemma le_antisym: "ok a \<Longrightarrow> ok b \<Longrightarrow> le a b \<Longrightarrow> le b a \<Longrightarrow> a = b"
  using cmp_sym [of a b] cmp_sym [of b a] cmp_0 [of a b] by (auto simp: le_def)

lemma sorted_insert:
  assumes "ok (f x)" "\<forall>y \<in> set ys. ok (f y)" "sorted_wrt (\<lambda>a b. le (f a) (f b)) ys"
  shows "sorted_wrt (\<lambda>a b. le (f a) (f b)) (insert_by (\<lambda>a b. cmp (f a) (f b)) x ys)"
  using assms
proof (induction ys)
  case (Cons y ys)
  show ?case
  proof (cases "cmp (f x) (f y) \<le> 0")
    case True
    then have "le (f x) (f y)" by (simp add: le_def)
    with Cons.prems True show ?thesis by (auto intro: le_trans [of "f x" "f y"])
  next
    case False
    then have "le (f y) (f x)" using Cons.prems le_total [of "f x" "f y"] by (simp add: le_def)
    moreover have "set (insert_by (\<lambda>a b. cmp (f a) (f b)) x ys) = insert x (set ys)"
      by (metis mset_insert_by set_mset_add_mset_insert set_mset_mset)
    ultimately show ?thesis using Cons False by auto
  qed
qed simp

lemma sorted_qsort:
  "\<forall>x \<in> set xs. ok (f x) \<Longrightarrow>
   sorted_wrt (\<lambda>a b. le (f a) (f b)) (ngx_qsort (\<lambda>a b. cmp (f a) (f b)) xs)"
proof (induction xs)
  case (Cons x xs)
  have "set (foldr (insert_by (\<lambda>a b. cmp (f a) (f b))) xs []) = set xs"
    using set_qsort [of "\<lambda>a b. cmp (f a) (f b)" xs] by (simp add: ngx_qsort_def)
  with Cons show ?case by (auto simp: ngx_qsort_def intro!: sorted_insert)
qed (simp add: ngx_qsort_def)

lemma sorted_dedup:
  assumes "sorted_wrt le xs" "\<forall>x \<in> set xs. ok x"
  shows "sorted_wrt (\<lambda>a b. cmp a b < 0) (dedup xs)"
proof -
  have "sorted_wrt (\<lambda>a b. cmp a b < 0) (foldl dedup_step acc xs)"
    if "sorted_wrt (\<lambda>a b. cmp a b < 0) acc" "\<forall>x \<in> set acc. ok x"
      "acc \<noteq> [] \<longrightarrow> (\<forall>x \<in> set xs. le (last acc) x)" for acc
    using assms that
  proof (induction xs arbitrary: acc)
    case (Cons x xs)
    have s: "sorted_wrt (\<lambda>a b. cmp a b < 0) (dedup_step acc x)"
    proof (cases "acc = [] \<or> last acc = x")
      case False
      then have l: "le (last acc) x" "last acc \<noteq> x" "ok (last acc)" "ok x"
        using Cons.prems by auto
      then have lt: "cmp (last acc) x < 0"
        using cmp_0 [of "last acc" x] by (simp add: le_def le_less)
      have "cmp a x < 0" if a: "a \<in> set acc" for a
      proof (cases "a = last acc")
        case False
        from False a have "acc \<noteq> []" by auto
        then obtain as l where as: "acc = as @ [l]" by (cases acc rule: rev_cases) auto
        with False a have "a \<in> set as" by simp
        with Cons.prems(3) have "cmp a (last acc) < 0"
          by (simp add: as sorted_wrt_append)
        then show ?thesis using cmp_trans [of a "last acc" x] lt l Cons.prems(4) a by blast
      qed (use lt in simp)
      with False Cons.prems show ?thesis by (simp add: dedup_step_def sorted_wrt_append)
    qed (use Cons.prems in \<open>auto simp: dedup_step_def\<close>)
    moreover have "last (dedup_step acc x) = x" "dedup_step acc x \<noteq> []"
      by (auto simp: dedup_step_def)
    moreover have "\<forall>y \<in> set (dedup_step acc x). ok y"
      using Cons.prems by (auto simp: dedup_step_def)
    ultimately show ?case
      using Cons.IH [of "dedup_step acc x"] Cons.prems by simp
  qed simp
  from this [of "[]"] show ?thesis by (simp add: dedup_def)
qed

lemma bin_search_correct:
  assumes "sorted_wrt (\<lambda>a b. cmp a b < 0) elts" "\<forall>x \<in> set elts. ok x" "ok key"
    and "right \<le> length elts"
  shows "bin_search cmp elts key left right \<longleftrightarrow> key \<in> set (take (right - left) (drop left elts))"
  using assms(4)
proof (induction "right - left" arbitrary: left right rule: less_induct)
  case less
  have mem: "key \<in> set (take (r - l) (drop l elts)) \<longleftrightarrow> (\<exists>i. l \<le> i \<and> i < r \<and> elts ! i = key)"
    if "r \<le> length elts" for l r
    using set_slice [OF that] by auto
  have lt: "cmp (elts ! i) (elts ! j) < 0" if "i < j" "j < length elts" for i j
    using sorted_wrt_nth_less [OF assms(1) that] .
  show ?case
  proof (cases "left < right")
    case False
    then show ?thesis by (subst bin_search.simps) simp
  next
    case True
    define mid where "mid = (left + right) div 2"
    have mid: "left \<le> mid" "mid < right" using True by (auto simp: mid_def)
    have okm: "ok (elts ! i)" if "i < right" for i using that less.prems assms(2) by auto
    have step: "bin_search cmp elts key left right =
        (if cmp (elts ! mid) key = 0 then True
         else if cmp (elts ! mid) key < 0 then bin_search cmp elts key (mid + 1) right
         else bin_search cmp elts key left mid)"
      using True by (subst bin_search.simps) (simp add: mid_def Let_def)
    consider "cmp (elts ! mid) key = 0" | "cmp (elts ! mid) key < 0" | "cmp (elts ! mid) key > 0"
      by linarith
    then show ?thesis
    proof cases
      case 1
      then have "elts ! mid = key" using cmp_0 okm mid assms(3) by blast
      with 1 step mid mem [OF less.prems] show ?thesis by auto
    next
      case 2
      have "elts ! i \<noteq> key" if "i \<le> mid" for i
      proof
        assume "elts ! i = key"
        show False
        proof (cases "i = mid")
          case True
          then show False using 2 \<open>elts ! i = key\<close> cmp_0 [of key key] assms(3) by simp
        next
          case False
          then have "cmp key (elts ! mid) < 0"
            using lt [of i mid] \<open>elts ! i = key\<close> \<open>i \<le> mid\<close> mid less.prems by simp
          then show False using 2 cmp_sym [of "elts ! mid" key] okm mid assms(3) by force
        qed
      qed
      then have "(\<exists>i. left \<le> i \<and> i < right \<and> elts ! i = key) \<longleftrightarrow>
          (\<exists>i. mid + 1 \<le> i \<and> i < right \<and> elts ! i = key)"
        using mid by (intro ex_upper_half) auto
      moreover have "bin_search cmp elts key (mid + 1) right \<longleftrightarrow>
          key \<in> set (take (right - (mid + 1)) (drop (mid + 1) elts))"
        using mid less.prems by (intro less.hyps) auto
      ultimately show ?thesis
        using step 2 mem [OF less.prems, of left] mem [OF less.prems, of "mid + 1"] by simp
    next
      case 3
      have "elts ! i \<noteq> key" if "mid \<le> i" "i < right" for i
      proof
        assume "elts ! i = key"
        show False
        proof (cases "i = mid")
          case True
          then show False using 3 \<open>elts ! i = key\<close> cmp_0 [of key key] assms(3) by simp
        next
          case False
          then have "cmp (elts ! mid) key < 0"
            using lt [of mid i] \<open>elts ! i = key\<close> that less.prems by simp
          then show False using 3 by simp
        qed
      qed
      then have "(\<exists>i. left \<le> i \<and> i < right \<and> elts ! i = key) \<longleftrightarrow>
          (\<exists>i. left \<le> i \<and> i < mid \<and> elts ! i = key)"
        using mid by (intro ex_lower_half) auto
      moreover have "bin_search cmp elts key left mid \<longleftrightarrow>
          key \<in> set (take (mid - left) (drop left elts))"
        using mid less.prems by (intro less.hyps) auto
      moreover have "mid \<le> length elts" using mid less.prems by simp
      ultimately show ?thesis
        using step 3 mem [OF less.prems, of left] mem [of mid left] by simp
    qed
  qed
qed

lemma bin_search_compiled:
  assumes "\<forall>x \<in> set xs. ok x" "ok key"
  shows "bin_search cmp (dedup (ngx_qsort cmp xs)) key 0 (length (dedup (ngx_qsort cmp xs))) \<longleftrightarrow>
         key \<in> set xs"
proof -
  have "sorted_wrt le (ngx_qsort cmp xs)"
    using sorted_qsort [of xs id] assms(1) by (simp add: id_def)
  then have "sorted_wrt (\<lambda>a b. cmp a b < 0) (dedup (ngx_qsort cmp xs))"
    using assms(1) by (intro sorted_dedup) simp_all
  then show ?thesis using assms by (subst bin_search_correct) simp_all
qed

end

end
