(* ===== verification/Mt_Mph.thy ===== *)
theory Mt_Mph
  imports Mt_Order
begin

text \<open>
  The perfect-hash table of the compiled domain rules (\<open>ngx_stream_mtrojan_rules.c\<close>): the
  hash function, the entries, the construction of the table and the lookup. Keys are spread over
  buckets, then, starting with the fullest bucket, a seed is searched that sends the keys of the
  bucket to free places; the place of a key is found again from the seed of its bucket.

  Pool allocations succeed (a failed one makes the code return \<open>NGX_ERROR\<close>). Arrays the code
  leaves uninitialised start as zeros here; every cell is written before it is read.
\<close>

subsection \<open>The hash\<close>

definition hash_step :: "u32 \<Rightarrow> byte \<Rightarrow> u32" where
  "hash_step hash c = (hash XOR ucast c) * 16777619"

definition rules_hash :: "bytes \<Rightarrow> u32 \<Rightarrow> u32" where
  "rules_hash data seed =
     (let hash = foldl hash_step (2166136261 XOR seed) data;
          hash = hash XOR drop_bit 16 hash;
          hash = hash * 0x7feb352d;
          hash = hash XOR drop_bit 15 hash;
          hash = hash * 0x846ca68b;
          hash = hash XOR drop_bit 16 hash
      in hash)"

text \<open>Doubling a 64-bit integer: after 64 rounds \<open>p\<close> would be 0 for ever.\<close>

fun next_power_loop :: "nat \<Rightarrow> nat \<Rightarrow> nat \<Rightarrow> nat" where
  "next_power_loop 0 p n = p"
| "next_power_loop (Suc fuel) p n = (if p < n then next_power_loop fuel (sz_mul p 2) n else p)"

definition next_power :: "nat \<Rightarrow> nat" where
  "next_power n = next_power_loop 64 1 n"

lemma next_power_loop:
  assumes "n \<le> 2 ^ 63" "k + fuel = 64" "fuel \<noteq> 0" "k = 0 \<or> 2 ^ (k - 1) < n"
  shows "\<exists>m. next_power_loop fuel (2 ^ k) n = 2 ^ m \<and> n \<le> 2 ^ m \<and> (m = 0 \<or> 2 ^ (m - 1) < n)"
  using assms(2-)
proof (induction fuel arbitrary: k)
  case (Suc fuel)
  show ?case
  proof (cases "(2::nat) ^ k < n")
    case True
    then have "(2::nat) ^ k < 2 ^ 63" using assms(1) by (rule order.strict_trans2)
    then have k: "k < 63" using nat_power_less_imp_less [of 2 k 63] by simp
    then have "(2::nat) ^ Suc k < 2 ^ 64"
      by (intro power_strict_increasing) simp_all
    then have "2 ^ k * 2 mod 2 ^ 64 = (2::nat) ^ Suc k"
      by (simp only: power_Suc mult.commute [of 2] mod_less)
    then have "sz_mul (2 ^ k) 2 = 2 ^ Suc k"
      by (simp only: sz_mul_def)
    moreover have "fuel \<noteq> 0" using Suc.prems(1) k by (cases fuel) simp_all
    moreover have "Suc k + fuel = 64" "Suc k = 0 \<or> 2 ^ (Suc k - 1) < n"
      using Suc.prems(1) True by simp_all
    ultimately show ?thesis
      using Suc.IH [of "Suc k"] True by (simp only: next_power_loop.simps if_True simp_thms)
  next
    case False
    then show ?thesis using Suc.prems(3) by (intro exI [of _ k]) simp
  qed
qed simp

lemma next_power_spec:
  assumes "n \<le> 2 ^ 63"
  shows "\<exists>m. next_power n = 2 ^ m \<and> n \<le> 2 ^ m \<and> (m = 0 \<or> 2 ^ (m - 1) < n)"
  using next_power_loop [OF assms, of 0 64] by (simp only: next_power_def power_0 add_0) simp

lemma next_power_pos: "n \<le> 2 ^ 63 \<Longrightarrow> 0 < next_power n"
  using next_power_spec [of n] by auto

subsection \<open>Entries\<close>

record build_entry =
  be_key :: bytes
  be_flags :: byte
  be_hash :: u32

definition SUFFIX_INCLUDE_ROOT :: byte where
  "SUFFIX_INCLUDE_ROOT = 1"

definition add_domain_entry :: "build_entry list \<Rightarrow> bytes \<Rightarrow> byte \<Rightarrow> build_entry list option" where
  "add_domain_entry entries data flags =
     (if length data = 0 \<or> length data > 255 then None
      else let key = map ngx_tolower data in
        Some (entries @ [\<lparr>be_key = key, be_flags = flags, be_hash = rules_hash key 0\<rparr>]))"

text \<open>What \<open>add_domain_entry\<close> puts into its array.\<close>

definition entry_ok :: "build_entry \<Rightarrow> bool" where
  "entry_ok e \<longleftrightarrow> be_key e \<noteq> [] \<and> length (be_key e) \<le> 255 \<and> be_hash e = rules_hash (be_key e) 0"

lemma add_domain_entry_ok:
  "add_domain_entry es data flags = Some es' \<Longrightarrow> \<forall>e \<in> set es. entry_ok e \<Longrightarrow>
   \<forall>e \<in> set es'. entry_ok e"
  by (auto simp: add_domain_entry_def entry_ok_def Let_def split: if_splits)

definition cmp_domain_entries :: "build_entry \<Rightarrow> build_entry \<Rightarrow> int" where
  "cmp_domain_entries first second =
     (let len = min (length (be_key first)) (length (be_key second));
          rc = memcmp (be_key first) (be_key second) len in
      if rc \<noteq> 0 then rc
      else if length (be_key first) = length (be_key second) then 0
      else if length (be_key first) < length (be_key second) then -1 else 1)"

text \<open>Neighbours with the same key become one entry with both flags.\<close>

definition unique_step :: "build_entry list \<Rightarrow> build_entry \<Rightarrow> build_entry list" where
  "unique_step unique e =
     (if unique \<noteq> [] \<and> length (be_key (last unique)) = length (be_key e)
        \<and> memcmp (be_key (last unique)) (be_key e) (length (be_key e)) = 0
      then butlast unique @ [(last unique)\<lparr>be_flags := be_flags (last unique) OR be_flags e\<rparr>]
      else unique @ [e])"

definition unique_entries :: "build_entry list \<Rightarrow> build_entry list" where
  "unique_entries entries = foldl unique_step [] (ngx_qsort cmp_domain_entries entries)"

subsection \<open>Buckets\<close>

definition bucket_of :: "nat \<Rightarrow> u32 \<Rightarrow> nat" where
  "bucket_of buckets_n hash = unat hash AND (buckets_n - 1)"

definition bucket_counts :: "nat \<Rightarrow> build_entry list \<Rightarrow> nat list" where
  "bucket_counts buckets_n unique =
     foldl (\<lambda>counts e. let b = bucket_of buckets_n (be_hash e) in counts[b := counts ! b + 1])
       (replicate buckets_n 0) unique"

definition bucket_offsets :: "nat list \<Rightarrow> nat list" where
  "bucket_offsets counts =
     fst (foldl (\<lambda>(offsets, offset) c. (offsets @ [offset], offset + c)) ([], 0) counts)"

definition items_step ::
    "nat \<Rightarrow> nat list \<Rightarrow> build_entry list \<Rightarrow> nat list \<times> nat list \<Rightarrow> nat \<Rightarrow> nat list \<times> nat list" where
  "items_step buckets_n offsets unique st i =
     (let (items, fill) = st; b = bucket_of buckets_n (be_hash (unique ! i)) in
      (items[offsets ! b + fill ! b := i], fill[b := fill ! b + 1]))"

definition bucket_items :: "nat \<Rightarrow> nat list \<Rightarrow> build_entry list \<Rightarrow> nat list" where
  "bucket_items buckets_n offsets unique =
     fst (foldl (items_step buckets_n offsets unique)
       (replicate (length unique) 0, replicate buckets_n 0) [0 ..< length unique])"

definition cmp_mph_buckets :: "nat \<times> nat \<Rightarrow> nat \<times> nat \<Rightarrow> int" where
  "cmp_mph_buckets first second =
     (if snd first = snd second then 0 else if snd first > snd second then -1 else 1)"

definition sorted_buckets :: "nat list \<Rightarrow> (nat \<times> nat) list" where
  "sorted_buckets counts = ngx_qsort cmp_mph_buckets (zip [0 ..< length counts] counts)"

subsection \<open>Placing the keys\<close>

text \<open>One seed for the keys of a bucket: the places, if all are free and distinct.\<close>

fun probe_keys :: "nat \<Rightarrow> bool list \<Rightarrow> u32 \<Rightarrow> bytes list \<Rightarrow> nat list \<Rightarrow> nat list option" where
  "probe_keys sz used seed [] probe = Some probe"
| "probe_keys sz used seed (key # keys) probe =
     (let pos = unat (rules_hash key seed) mod sz in
      if used ! pos then None
      else if pos \<in> set probe then None
      else probe_keys sz used seed keys (probe @ [pos]))"

function seed_search :: "nat \<Rightarrow> bool list \<Rightarrow> bytes list \<Rightarrow> nat \<Rightarrow> nat" where
  "seed_search sz used keys seed =
     (if seed < 65536 then
        if probe_keys sz used (word_of_nat seed) keys [] \<noteq> None then seed
        else seed_search sz used keys (seed + 1)
      else 65536)"
  by pat_completeness auto
termination
  by (relation "measure (\<lambda>(sz, used, keys, seed). 65536 - seed)") auto

declare seed_search.simps [simp del]

record mph_work =
  w_used :: "bool list"
  w_seeds :: "u32 list"
  w_positions :: "nat list"

definition place_item :: "nat \<Rightarrow> build_entry list \<Rightarrow> nat \<Rightarrow> mph_work \<Rightarrow> nat \<Rightarrow> mph_work" where
  "place_item sz unique seed w item =
     (let pos = unat (rules_hash (be_key (unique ! item)) (word_of_nat seed)) mod sz in
      w\<lparr>w_used := (w_used w)[pos := True], w_positions := (w_positions w)[item := pos]\<rparr>)"

fun place_buckets ::
    "nat \<Rightarrow> build_entry list \<Rightarrow> nat list \<Rightarrow> nat list \<Rightarrow> (nat \<times> nat) list \<Rightarrow> mph_work \<Rightarrow>
     mph_work option" where
  "place_buckets sz unique offsets items [] w = Some w"
| "place_buckets sz unique offsets items ((bucket, cnt) # sbs) w =
     (if cnt = 0 then place_buckets sz unique offsets items sbs w
      else
        let mine = take cnt (drop (offsets ! bucket) items);
            seed = seed_search sz (w_used w) (map (\<lambda>i. be_key (unique ! i)) mine) 1 in
        if seed = 65536 then None
        else
          let w = w\<lparr>w_seeds := (w_seeds w)[bucket := word_of_nat seed]\<rparr>;
              w = foldl (place_item sz unique seed) w mine in
          place_buckets sz unique offsets items sbs w)"

definition place_all ::
    "nat \<Rightarrow> build_entry list \<Rightarrow> nat list \<Rightarrow> nat list \<Rightarrow> (nat \<times> nat) list \<Rightarrow> nat \<Rightarrow> mph_work option" where
  "place_all buckets_n unique offsets items sbs sz =
     place_buckets sz unique offsets items sbs
       \<lparr>w_used = replicate sz False, w_seeds = replicate buckets_n 0,
        w_positions = replicate (length unique) 0\<rparr>"

function try_sizes :: "nat \<Rightarrow> nat \<Rightarrow> (nat \<Rightarrow> mph_work option) \<Rightarrow> nat \<Rightarrow> (nat \<times> mph_work) option" where
  "try_sizes n limit place sz =
     (if sz \<le> limit then
        (case place sz of
           Some w \<Rightarrow> Some (sz, w)
         | None \<Rightarrow> try_sizes n limit place (sz + (n div 8 + 1)))
      else None)"
  by pat_completeness auto
termination
  by (relation "measure (\<lambda>(n, limit, place, sz). limit + 1 - sz)") auto

declare try_sizes.simps [simp del]

subsection \<open>The table\<close>

record mph_slot =
  slot_offset :: nat
  slot_len :: nat
  slot_flags :: byte

record domain_mph =
  mph_nelts :: nat
  mph_size :: nat
  mph_buckets_n :: nat
  mph_buckets :: "u32 list"
  mph_slots :: "mph_slot list"
  mph_data :: bytes

definition zero_slot :: mph_slot where
  "zero_slot = \<lparr>slot_offset = 0, slot_len = 0, slot_flags = 0\<rparr>"

definition zero_mph :: domain_mph where
  "zero_mph = \<lparr>mph_nelts = 0, mph_size = 0, mph_buckets_n = 0, mph_buckets = [], mph_slots = [],
     mph_data = []\<rparr>"

text \<open>\<open>slot->offset\<close> is 32 bits wide, \<open>slot->len\<close> 16.\<close>

definition fill_step ::
    "nat list \<Rightarrow> build_entry list \<Rightarrow> mph_slot list \<times> bytes \<times> nat \<Rightarrow> nat \<Rightarrow> mph_slot list \<times> bytes \<times> nat" where
  "fill_step positions unique st i =
     (let (slots, data, offset) = st; key = be_key (unique ! i) in
      (slots[positions ! i := \<lparr>slot_offset = offset mod 2 ^ 32, slot_len = length key mod 2 ^ 16,
         slot_flags = be_flags (unique ! i)\<rparr>],
       poke data offset key, offset + length key))"

definition fill_table ::
    "nat \<Rightarrow> nat list \<Rightarrow> build_entry list \<Rightarrow> mph_slot list \<times> bytes \<times> nat" where
  "fill_table sz positions unique =
     foldl (fill_step positions unique)
       (replicate sz zero_slot, replicate (sum_list (map (\<lambda>e. length (be_key e)) unique)) 0, 0)
       [0 ..< length unique]"

definition build_domain_mph :: "build_entry list \<Rightarrow> domain_mph \<Rightarrow> domain_mph option" where
  "build_domain_mph entries mph =
     (if entries = [] then Some mph
      else
        let unique = unique_entries entries; n = length unique in
        if n = 0 then Some mph
        else
          let buckets_n = next_power (n div 4 + 1);
              counts = bucket_counts buckets_n unique;
              offsets = bucket_offsets counts;
              items = bucket_items buckets_n offsets unique;
              sbs = sorted_buckets counts;
              limit = n * 2 + 1 in
          (case try_sizes n limit (place_all buckets_n unique offsets items sbs) n of
             None \<Rightarrow> None
           | Some (sz, w) \<Rightarrow>
               (case fill_table sz (w_positions w) unique of
                  (slots, data, offset) \<Rightarrow>
                    Some \<lparr>mph_nelts = n, mph_size = sz, mph_buckets_n = buckets_n,
                      mph_buckets = w_seeds w, mph_slots = slots, mph_data = data\<rparr>)))"

definition domain_mph_find :: "domain_mph \<Rightarrow> bytes \<Rightarrow> mph_slot option" where
  "domain_mph_find mph data =
     (if mph_size mph = 0 \<or> length data = 0 \<or> length data > 255 then None
      else
        let bucket = bucket_of (mph_buckets_n mph) (rules_hash data 0);
            pos = unat (rules_hash data (mph_buckets mph ! bucket)) mod mph_size mph;
            slot = mph_slots mph ! pos in
        if slot_len slot \<noteq> length data then None
        else if memcmp (drop (slot_offset slot) (mph_data mph)) data (length data) \<noteq> 0 then None
        else Some slot)"

subsection \<open>The sorted entries without duplicates\<close>

definition cmp_keys :: "bytes \<Rightarrow> bytes \<Rightarrow> int" where
  "cmp_keys a b =
     (let rc = memcmp a b (min (length a) (length b)) in
      if rc \<noteq> 0 then rc else if length a = length b then 0 else if length a < length b then -1 else 1)"

lemma cmp_domain_entries_keys: "cmp_domain_entries = (\<lambda>a b. cmp_keys (be_key a) (be_key b))"
  by (simp add: fun_eq_iff cmp_domain_entries_def cmp_keys_def Let_def)

lemma cmp_keys_simps [simp]:
  "cmp_keys [] [] = 0"
  "cmp_keys [] (y # b) = -1"
  "cmp_keys (x # a) [] = 1"
  "cmp_keys (x # a) (y # b) = (if x = y then cmp_keys a b else if x < y then -1 else 1)"
  by (auto simp: cmp_keys_def Let_def)

lemma cmp_keys_0: "cmp_keys a b = 0 \<longleftrightarrow> a = b"
  by (induction a arbitrary: b; case_tac b) auto

lemma cmp_keys_self [simp]: "cmp_keys a a = 0"
  by (simp add: cmp_keys_0)

lemma cmp_keys_sym: "cmp_keys a b > 0 \<longleftrightarrow> cmp_keys b a < 0"
  by (induction a arbitrary: b; case_tac b) auto

lemma cmp_keys_trans: "cmp_keys a b < 0 \<Longrightarrow> cmp_keys b c < 0 \<Longrightarrow> cmp_keys a c < 0"
proof (induction a arbitrary: b c)
  case Nil
  then show ?case by (cases b; cases c) auto
next
  case (Cons x a)
  then show ?case
    by (cases b; cases c) (auto split: if_splits intro: order.strict_trans dest: order.strict_trans)
qed

interpretation keys: comparator cmp_keys "\<lambda>_. True"
  by unfold_locales (auto simp: cmp_keys_0 cmp_keys_sym intro: cmp_keys_trans)

definition or_flags :: "bytes \<Rightarrow> build_entry list \<Rightarrow> byte" where
  "or_flags key es = foldr (\<lambda>e acc. if be_key e = key then be_flags e OR acc else acc) es 0"

lemma or_flags_simps [simp]:
  "or_flags key [] = 0"
  "or_flags key (e # es) = (if be_key e = key then be_flags e OR or_flags key es else or_flags key es)"
  by (simp_all add: or_flags_def)

lemma or_flags_append [simp]: "or_flags key (es @ fs) = or_flags key es OR or_flags key fs"
  by (induction es) (auto simp: or.assoc)

lemma or_flags_insert: "or_flags key (insert_by cmp x ys) = or_flags key (x # ys)"
  by (induction ys) (auto simp: or.left_commute)

lemma or_flags_qsort: "or_flags key (ngx_qsort cmp es) = or_flags key es"
  by (induction es) (auto simp: ngx_qsort_def or_flags_insert)

lemma or_flags_absent: "key \<notin> be_key ` set es \<Longrightarrow> or_flags key es = 0"
  by (induction es) auto

lemma or_flags_distinct: "distinct (map be_key es) \<Longrightarrow> e \<in> set es \<Longrightarrow> or_flags (be_key e) es = be_flags e"
  by (induction es) (auto simp: or_flags_absent image_iff)

lemma unique_step_keys:
  "unique_step unique e =
     (if unique \<noteq> [] \<and> be_key (last unique) = be_key e
      then butlast unique @ [(last unique)\<lparr>be_flags := be_flags (last unique) OR be_flags e\<rparr>]
      else unique @ [e])"
  using memcmp_take [of "length (be_key e)" "be_key (last unique)" "be_key e"]
  by (auto simp: unique_step_def)

lemma unique_step_facts:
  "be_key ` set (unique_step unique e) = insert (be_key e) (be_key ` set unique)"
  "or_flags key (unique_step unique e) = or_flags key unique OR or_flags key [e]"
  "unique_step unique e \<noteq> []" "be_key (last (unique_step unique e)) = be_key e"
  "\<forall>e \<in> set unique. entry_ok e \<Longrightarrow> entry_ok e \<Longrightarrow> \<forall>x \<in> set (unique_step unique e). entry_ok x"
  "sum_list (map (\<lambda>e. length (be_key e)) (unique_step unique e)) \<le>
     sum_list (map (\<lambda>e. length (be_key e)) unique) + length (be_key e)"
  by (cases unique rule: rev_cases; auto simp: unique_step_keys or.assoc or.left_commute entry_ok_def)+

lemma unique_step_sorted:
  assumes "sorted_wrt (\<lambda>a b. cmp_keys (be_key a) (be_key b) < 0) unique"
    and "unique \<noteq> [] \<longrightarrow> keys.le (be_key (last unique)) (be_key e)"
  shows "sorted_wrt (\<lambda>a b. cmp_keys (be_key a) (be_key b) < 0) (unique_step unique e)"
proof (cases unique rule: rev_cases)
  case (snoc us u)
  show ?thesis
  proof (cases "be_key u = be_key e")
    case False
    then have ue: "cmp_keys (be_key u) (be_key e) < 0"
      using assms(2) cmp_keys_0 [of "be_key u" "be_key e"] by (simp add: keys.le_def snoc le_less)
    with assms(1) False show ?thesis
      by (auto simp: unique_step_keys snoc sorted_wrt_append intro: cmp_keys_trans)
  qed (use assms(1) in \<open>simp add: unique_step_keys snoc sorted_wrt_append\<close>)
qed (simp add: unique_step_keys)

abbreviation key_bytes :: "build_entry list \<Rightarrow> nat" where
  "key_bytes es \<equiv> sum_list (map (\<lambda>e. length (be_key e)) es)"

abbreviation key_less :: "build_entry \<Rightarrow> build_entry \<Rightarrow> bool" where
  "key_less a b \<equiv> cmp_keys (be_key a) (be_key b) < 0"

text \<open>The loop: what holds of the entries kept so far, with the rest still to come.\<close>

definition unique_inv :: "build_entry list \<Rightarrow> build_entry list \<Rightarrow> build_entry list \<Rightarrow> bool" where
  "unique_inv orig acc es \<longleftrightarrow>
     sorted_wrt key_less acc \<and> sorted_wrt (\<lambda>a b. keys.le (be_key a) (be_key b)) es \<and>
     (acc \<noteq> [] \<longrightarrow> (\<forall>e \<in> set es. keys.le (be_key (last acc)) (be_key e))) \<and>
     (\<forall>e \<in> set acc \<union> set es. entry_ok e) \<and>
     be_key ` set acc \<union> be_key ` set es = be_key ` set orig \<and>
     (\<forall>key. or_flags key acc OR or_flags key es = or_flags key orig) \<and>
     key_bytes acc + key_bytes es \<le> key_bytes orig"

lemma unique_inv_step:
  assumes "unique_inv orig acc (e # es)"
  shows "unique_inv orig (unique_step acc e) es"
proof -
  note a = assms [unfolded unique_inv_def]
  have "sorted_wrt key_less (unique_step acc e)"
    using a by (intro unique_step_sorted) simp_all
  moreover have "\<forall>x \<in> set (unique_step acc e) \<union> set es. entry_ok x"
    using a unique_step_facts(5) [of acc e] by auto
  moreover have "be_key ` set (unique_step acc e) \<union> be_key ` set es = be_key ` set orig"
    using a by (auto simp: unique_step_facts(1))
  moreover have "or_flags key (unique_step acc e) OR or_flags key es = or_flags key orig" for key
  proof -
    have "or_flags key acc OR or_flags key (e # es) = or_flags key orig" using a by blast
    then show ?thesis by (simp add: unique_step_facts(2) or.assoc split: if_splits)
  qed
  moreover have "key_bytes (unique_step acc e) + key_bytes es \<le> key_bytes orig"
    using a unique_step_facts(6) [of acc e] by simp
  ultimately show ?thesis
    using a by (simp add: unique_inv_def unique_step_facts(4))
qed

lemma unique_fold: "unique_inv orig acc es \<Longrightarrow> unique_inv orig (foldl unique_step acc es) []"
  by (induction es arbitrary: acc) (simp_all add: unique_inv_step)

lemma sorted_wrt_neq: "sorted_wrt (\<noteq>) xs = distinct xs"
  by (induction xs) auto

lemma unique_entries_facts:
  assumes "\<forall>e \<in> set entries. entry_ok e"
  shows "distinct (map be_key (unique_entries entries))"
    "be_key ` set (unique_entries entries) = be_key ` set entries"
    "or_flags key (unique_entries entries) = or_flags key entries"
    "\<forall>e \<in> set (unique_entries entries). entry_ok e"
    "key_bytes (unique_entries entries) \<le> key_bytes entries"
proof -
  let ?q = "ngx_qsort cmp_domain_entries entries"
  have "sorted_wrt (\<lambda>a b. keys.le (be_key a) (be_key b)) ?q"
    unfolding cmp_domain_entries_keys by (rule keys.sorted_qsort) simp
  moreover have "key_bytes ?q = key_bytes entries"
    using arg_cong [of _ _ "\<lambda>m. sum_mset (image_mset (\<lambda>e. length (be_key e)) m)",
      OF mset_qsort [of cmp_domain_entries entries]]
    by (simp only: mset_map [symmetric] sum_mset_sum_list)
  ultimately have "unique_inv entries [] ?q"
    using assms by (simp add: unique_inv_def or_flags_qsort)
  from unique_fold [OF this] have f: "unique_inv entries (unique_entries entries) []"
    by (simp add: unique_entries_def)
  then show "be_key ` set (unique_entries entries) = be_key ` set entries"
    "or_flags key (unique_entries entries) = or_flags key entries"
    "\<forall>e \<in> set (unique_entries entries). entry_ok e"
    "key_bytes (unique_entries entries) \<le> key_bytes entries"
    by (simp_all add: unique_inv_def)
  from f have "sorted_wrt key_less (unique_entries entries)"
    by (simp add: unique_inv_def)
  then have "sorted_wrt (\<noteq>) (map be_key (unique_entries entries))"
    unfolding sorted_wrt_map by (rule sorted_wrt_mono_rel [rotated]) (auto simp: cmp_keys_0)
  then show "distinct (map be_key (unique_entries entries))"
    by (simp add: sorted_wrt_neq)
qed

subsection \<open>The counting sort into buckets\<close>

definition items_of :: "nat \<Rightarrow> build_entry list \<Rightarrow> nat \<Rightarrow> nat \<Rightarrow> nat list" where
  "items_of buckets_n unique k b =
     filter (\<lambda>i. bucket_of buckets_n (be_hash (unique ! i)) = b) [0 ..< k]"

lemma set_items_of: "set (items_of m u k b) = {i. i < k \<and> bucket_of m (be_hash (u ! i)) = b}"
  by (auto simp: items_of_def)

lemma distinct_items_of [simp]: "distinct (items_of m u k b)"
  by (simp add: items_of_def)

lemma items_of_Suc:
  "items_of m u (Suc k) b =
     items_of m u k b @ (if bucket_of m (be_hash (u ! k)) = b then [k] else [])"
  by (simp add: items_of_def)

lemma items_of_mono: "k \<le> n \<Longrightarrow> length (items_of m u k b) \<le> length (items_of m u n b)"
proof -
  assume "k \<le> n"
  then have "[0 ..< n] = [0 ..< k] @ [k ..< n]" using upt_add_eq_append [of 0 k "n - k"] by simp
  then show ?thesis by (simp add: items_of_def)
qed

lemma bucket_of_less: "0 < m \<Longrightarrow> bucket_of m hash < m"
proof -
  assume "0 < m"
  have "int (unat hash AND (m - 1)) \<le> int (m - 1)"
    unfolding of_nat_and_eq by (rule AND_upper2) simp
  with \<open>0 < m\<close> show ?thesis by (simp add: bucket_of_def)
qed

lemma bucket_counts_fold:
  fixes m :: nat
  assumes "\<forall>e \<in> set es. bucket_of m (be_hash e) < length cs"
  defines "r \<equiv> foldl (\<lambda>counts e. let b = bucket_of m (be_hash e) in counts[b := counts ! b + 1]) cs es"
  shows "length r = length cs"
    "b < length cs \<Longrightarrow> r ! b = cs ! b + length (filter (\<lambda>e. bucket_of m (be_hash e) = b) es)"
    "sum_list r = sum_list cs + length es"
  using assms(1) unfolding r_def
  by (induction es arbitrary: cs) (auto simp: Let_def nth_list_update sum_list_update)

lemma filter_items:
  "length (filter (\<lambda>e. bucket_of m (be_hash e) = b) u) = length (items_of m u (length u) b)"
proof -
  have "filter (\<lambda>e. bucket_of m (be_hash e) = b) u =
      filter (\<lambda>e. bucket_of m (be_hash e) = b) (map ((!) u) [0 ..< length u])"
    by (simp add: map_nth)
  also have "\<dots> = map ((!) u) (items_of m u (length u) b)"
    by (simp add: filter_map items_of_def o_def)
  finally show ?thesis by simp
qed

lemma bucket_counts_spec:
  assumes "0 < m"
  shows "length (bucket_counts m u) = m"
    "b < m \<Longrightarrow> bucket_counts m u ! b = length (items_of m u (length u) b)"
    "sum_list (bucket_counts m u) = length u"
  using bucket_counts_fold [of u m "replicate m 0"] bucket_of_less [OF assms] filter_items [of m b u]
  by (simp_all add: bucket_counts_def)

lemma bucket_offsets_fold:
  "foldl (\<lambda>(offsets, offset) c. (offsets @ [offset], offset + c)) (offs, k) cs =
     (offs @ map (\<lambda>i. k + sum_list (take i cs)) [0 ..< length cs], k + sum_list cs)"
proof (induction cs arbitrary: offs k)
  case (Cons c cs)
  have "map (\<lambda>i. k + sum_list (take i (c # cs))) [0 ..< length (c # cs)] =
      k # map (\<lambda>i. k + c + sum_list (take i cs)) [0 ..< length cs]"
    unfolding length_Cons upt_conv_Cons [OF zero_less_Suc] list.map
    by (simp only: map_Suc_upt [symmetric] map_map) (simp add: add.assoc)
  with Cons.IH [of "offs @ [k]" "k + c"] show ?case by (simp add: add.assoc)
qed simp

lemma bucket_offsets_spec:
  "bucket_offsets cs = map (\<lambda>i. sum_list (take i cs)) [0 ..< length cs]"
  by (simp add: bucket_offsets_def bucket_offsets_fold)

lemma offset_step: "b < length cs \<Longrightarrow> sum_list (take (Suc b) cs) = sum_list (take b cs) + cs ! b"
  for cs :: "nat list"
  by (simp add: take_Suc_conv_app_nth)

lemma offset_mono: "a \<le> b \<Longrightarrow> sum_list (take a cs) \<le> sum_list (take b cs)"
  for cs :: "nat list"
proof -
  assume "a \<le> b"
  then have "take b cs = take a cs @ take (b - a) (drop a cs)"
    by (metis le_add_diff_inverse take_add)
  then show ?thesis by simp
qed

lemma offset_disjoint:
  fixes cs :: "nat list"
  assumes "a < b" "a < length cs"
  shows "sum_list (take a cs) + cs ! a \<le> sum_list (take b cs)"
  using offset_mono [of "Suc a" b cs] offset_step [of a cs] assms by simp

lemma slice_update_other:
  "p < o' \<or> o' + m \<le> p \<Longrightarrow> take m (drop o' (xs[p := x])) = take m (drop o' xs)"
  by (auto simp: drop_update_swap take_update_cancel)

lemma slice_update_end:
  assumes "o' + m < length xs"
  shows "take (Suc m) (drop o' (xs[o' + m := x])) = take m (drop o' xs) @ [x]"
  using assms by (simp add: drop_update_swap take_Suc_conv_app_nth)

definition items_inv :: "nat \<Rightarrow> nat list \<Rightarrow> build_entry list \<Rightarrow> nat \<Rightarrow> nat list \<times> nat list \<Rightarrow> bool" where
  "items_inv m offsets u k st \<longleftrightarrow>
     length (fst st) = length u \<and> length (snd st) = m \<and>
     (\<forall>b < m. snd st ! b = length (items_of m u k b) \<and>
        take (length (items_of m u k b)) (drop (offsets ! b) (fst st)) = items_of m u k b)"

lemma items_inv_step:
  assumes m: "0 < m" and k: "k < length u"
    and inv: "items_inv m (bucket_offsets (bucket_counts m u)) u k st"
  shows "items_inv m (bucket_offsets (bucket_counts m u)) u (Suc k)
    (items_step m (bucket_offsets (bucket_counts m u)) u st k)"
proof -
  define cs where "cs = bucket_counts m u"
  define b0 where "b0 = bucket_of m (be_hash (u ! k))"
  define off where "off b = sum_list (take b cs)" for b
  have lcs: "length cs = m" and csn: "\<And>b. b < m \<Longrightarrow> cs ! b = length (items_of m u (length u) b)"
    and scs: "sum_list cs = length u"
    using bucket_counts_spec [OF m] by (simp_all add: cs_def)
  have b0: "b0 < m" using bucket_of_less [OF m] by (simp add: b0_def)
  have offs: "bucket_offsets cs ! b = off b" if "b < m" for b
    using that lcs by (simp add: bucket_offsets_spec off_def)
  define l where "l b = length (items_of m u k b)" for b
  have l_le: "l b \<le> cs ! b" if "b < m" for b
    using items_of_mono [of k "length u" m u b] k csn [OF that] by (simp add: l_def)
  have l0: "l b0 < cs ! b0"
    using items_of_mono [of "Suc k" "length u" m u b0] k csn [OF b0]
    by (simp add: l_def items_of_Suc b0_def)
  have end0: "off b0 + cs ! b0 \<le> length u"
    using offset_disjoint [of b0 m cs] b0 lcs scs by (simp add: off_def)
  obtain items fill where st: "st = (items, fill)" by (cases st)
  have I: "length items = length u" "length fill = m"
      "\<And>b. b < m \<Longrightarrow> fill ! b = l b"
      "\<And>b. b < m \<Longrightarrow> take (l b) (drop (off b) items) = items_of m u k b"
    using inv offs by (simp_all add: items_inv_def st l_def flip: cs_def)
  have step: "items_step m (bucket_offsets cs) u st k =
      (items[off b0 + l b0 := k], fill[b0 := l b0 + 1])"
    using offs b0 I(3) by (simp add: items_step_def st Let_def flip: b0_def)
  have seg: "take (length (items_of m u (Suc k) b)) (drop (off b) (items[off b0 + l b0 := k])) =
      items_of m u (Suc k) b" if b: "b < m" for b
  proof (cases "b = b0")
    case True
    have "take (Suc (l b0)) (drop (off b0) (items[off b0 + l b0 := k])) =
        take (l b0) (drop (off b0) items) @ [k]"
      using l0 end0 I(1) by (intro slice_update_end) simp
    then show ?thesis
      using I(4) [OF b] True by (simp add: items_of_Suc flip: b0_def l_def)
  next
    case False
    then consider "b < b0" | "b0 < b" by linarith
    then have "off b0 + l b0 < off b \<or> off b + l b \<le> off b0 + l b0"
    proof cases
      case 1
      then show ?thesis
        using offset_disjoint [of b b0 cs] l_le [OF b] lcs b by (simp add: off_def)
    next
      case 2
      then show ?thesis
        using offset_disjoint [of b0 b cs] l0 lcs b0 by (simp add: off_def)
    qed
    then have "take (l b) (drop (off b) (items[off b0 + l b0 := k])) = items_of m u k b"
      using I(4) [OF b] by (simp add: slice_update_other)
    then show ?thesis using False by (simp add: items_of_Suc flip: b0_def l_def)
  qed
  have "(fill[b0 := l b0 + 1]) ! b = length (items_of m u (Suc k) b)" if "b < m" for b
    using that b0 I(2,3) by (simp add: nth_list_update items_of_Suc flip: b0_def) (simp add: l_def)
  with seg show ?thesis
    unfolding cs_def [symmetric] step items_inv_def using I offs by simp
qed

text \<open>The segment of a bucket in \<open>bucket_items\<close> holds the indices of its entries, in order.\<close>

lemma bucket_items_segment:
  fixes u :: "build_entry list"
  assumes m: "0 < m" and b: "b < m"
  defines "offsets \<equiv> bucket_offsets (bucket_counts m u)"
  shows "take (bucket_counts m u ! b) (drop (offsets ! b) (bucket_items m offsets u)) =
    items_of m u (length u) b"
proof -
  have "items_inv m offsets u k
      (foldl (items_step m offsets u) (replicate (length u) 0, replicate m 0) [0 ..< k])"
    if "k \<le> length u" for k
    using that
  proof (induction k)
    case 0
    then show ?case by (simp add: items_inv_def items_of_def)
  next
    case (Suc k)
    then show ?case using items_inv_step [OF m, of k u] by (simp add: offsets_def)
  qed
  from this [of "length u"] show ?thesis
    using b bucket_counts_spec(2) [OF m b] by (simp add: items_inv_def bucket_items_def)
qed

subsection \<open>Places are distinct\<close>

definition place_of :: "nat \<Rightarrow> build_entry list \<Rightarrow> u32 \<Rightarrow> nat \<Rightarrow> nat" where
  "place_of sz u seed i = unat (rules_hash (be_key (u ! i)) seed) mod sz"

lemma probe_keys_Some:
  assumes "probe_keys sz used seed keys probe = Some r"
  defines "pos \<equiv> \<lambda>key. unat (rules_hash key seed) mod sz"
  shows "r = probe @ map pos keys \<and> (\<forall>key \<in> set keys. \<not> used ! pos key) \<and>
    (distinct probe \<longrightarrow> distinct r)"
  using assms(1)
proof (induction keys arbitrary: probe)
  case (Cons key keys)
  then have p: "\<not> used ! pos key" "pos key \<notin> set probe"
      "probe_keys sz used seed keys (probe @ [pos key]) = Some r"
    by (simp_all add: Let_def pos_def split: if_splits)
  note I = Cons.IH [OF p(3)]
  have "distinct probe \<longrightarrow> distinct r"
    using I [THEN conjunct2, THEN conjunct2] p(2) by simp
  moreover have "r = probe @ map pos (key # keys)" using I [THEN conjunct1] by simp
  moreover have "\<forall>k \<in> set (key # keys). \<not> used ! pos k"
    using I [THEN conjunct2, THEN conjunct1] p(1) by simp
  ultimately show ?case by blast
qed simp

lemma seed_search_found:
  "seed_search sz used keys seed \<noteq> 65536 \<Longrightarrow>
   seed \<le> seed_search sz used keys seed \<and> seed_search sz used keys seed < 65536 \<and>
   probe_keys sz used (word_of_nat (seed_search sz used keys seed)) keys [] \<noteq> None"
proof (induction sz used keys seed rule: seed_search.induct)
  case (1 sz used keys seed)
  note unf = seed_search.simps [of sz used keys seed]
  show ?case
  proof (cases "seed < 65536 \<and> probe_keys sz used (word_of_nat seed) keys [] = None")
    case True
    then have "seed_search sz used keys seed = seed_search sz used keys (seed + 1)"
      using unf by simp
    then show ?thesis using 1 True by auto
  next
    case False
    then show ?thesis using unf 1(2) by (auto split: if_splits)
  qed
qed

lemma place_items_fold:
  assumes "\<forall>i \<in> set mine. i < length (w_positions w)"
    and "\<forall>i \<in> set mine. place_of sz u (word_of_nat seed) i < length (w_used w)"
  defines "r \<equiv> foldl (place_item sz u seed) w mine"
  shows "w_seeds r = w_seeds w" "length (w_used r) = length (w_used w)"
    "length (w_positions r) = length (w_positions w)"
    "w_positions r ! i = (if i \<in> set mine then place_of sz u (word_of_nat seed) i else w_positions w ! i)"
    "w_used r ! p = (p \<in> place_of sz u (word_of_nat seed) ` set mine \<or> w_used w ! p)"
  using assms(1,2) unfolding r_def
  by (induction mine arbitrary: w)
    (auto simp: place_item_def Let_def place_of_def nth_list_update)

text \<open>After the buckets in \<open>done\<close>: their keys have distinct places, marked as used.\<close>

definition placed :: "nat \<Rightarrow> nat \<Rightarrow> build_entry list \<Rightarrow> nat set \<Rightarrow> mph_work \<Rightarrow> bool" where
  "placed m sz u dn w \<longleftrightarrow>
     (let is = {i. i < length u \<and> bucket_of m (be_hash (u ! i)) \<in> dn} in
      length (w_used w) = sz \<and> length (w_seeds w) = m \<and> length (w_positions w) = length u \<and>
      (\<forall>i \<in> is. w_positions w ! i =
         place_of sz u (w_seeds w ! bucket_of m (be_hash (u ! i))) i) \<and>
      inj_on ((!) (w_positions w)) is \<and>
      (\<forall>p < sz. w_used w ! p \<longleftrightarrow> p \<in> (!) (w_positions w) ` is))"

lemma placed_bucket:
  assumes pl: "placed m sz u dn w" and b: "b < m" "b \<notin> dn" and sz: "0 < sz"
    and mine: "mine = items_of m u (length u) b"
    and pk: "probe_keys sz (w_used w) (word_of_nat seed) (map (\<lambda>i. be_key (u ! i)) mine) [] \<noteq> None"
  shows "placed m sz u (insert b dn)
    (foldl (place_item sz u seed) (w\<lparr>w_seeds := (w_seeds w)[b := word_of_nat seed]\<rparr>) mine)"
proof -
  define seed' :: u32 where "seed' = word_of_nat seed"
  define r where "r = foldl (place_item sz u seed) (w\<lparr>w_seeds := (w_seeds w)[b := word_of_nat seed]\<rparr>) mine"
  define old where "old = {i. i < length u \<and> bucket_of m (be_hash (u ! i)) \<in> dn}"
  have new: "{i. i < length u \<and> bucket_of m (be_hash (u ! i)) \<in> insert b dn} = old \<union> set mine"
    by (auto simp: old_def mine set_items_of)
  have dis: "old \<inter> set mine = {}" using b by (auto simp: old_def mine set_items_of)
  have L: "length (w_used w) = sz" "length (w_seeds w) = m" "length (w_positions w) = length u"
    and P: "\<And>i. i \<in> old \<Longrightarrow> w_positions w ! i =
        place_of sz u (w_seeds w ! bucket_of m (be_hash (u ! i))) i"
    and I: "inj_on ((!) (w_positions w)) old"
    and U: "\<And>p. p < sz \<Longrightarrow> w_used w ! p \<longleftrightarrow> p \<in> (!) (w_positions w) ` old"
    using pl by (simp_all add: placed_def Let_def flip: old_def)
  have psz: "place_of sz u s i < sz" for s i using sz by (simp add: place_of_def)
  note F = place_items_fold [of mine "w\<lparr>w_seeds := (w_seeds w)[b := word_of_nat seed]\<rparr>" sz u seed,
      folded r_def seed'_def]
  have mlt: "\<forall>i \<in> set mine. i < length u" by (simp add: mine set_items_of)
  have F': "w_seeds r = (w_seeds w)[b := seed']" "length (w_used r) = sz"
      "length (w_positions r) = length u"
      "\<And>i. w_positions r ! i = (if i \<in> set mine then place_of sz u seed' i else w_positions w ! i)"
      "\<And>p. w_used r ! p = (p \<in> place_of sz u seed' ` set mine \<or> w_used w ! p)"
    using F mlt L psz by (simp_all add: seed'_def)
  obtain pr where "probe_keys sz (w_used w) seed' (map (\<lambda>i. be_key (u ! i)) mine) [] = Some pr"
    using pk by (auto simp: seed'_def)
  note Q = probe_keys_Some [OF this]
  from Q have Q1: "pr = map (\<lambda>key. unat (rules_hash key seed') mod sz) (map (\<lambda>i. be_key (u ! i)) mine)"
    by simp
  have Q3: "distinct pr" using Q [THEN conjunct2, THEN conjunct2] by simp
  have map_pos: "map (\<lambda>key. unat (rules_hash key seed') mod sz) (map (\<lambda>i. be_key (u ! i)) mine) =
      map (place_of sz u seed') mine"
    by (simp add: place_of_def)
  have dist: "distinct (map (place_of sz u seed') mine)"
    using Q3 unfolding Q1 map_pos .
  have free: "\<not> w_used w ! place_of sz u seed' i" if "i \<in> set mine" for i
    using Q that by (simp add: place_of_def)
  have agree_old: "w_positions r ! i = w_positions w ! i" if "i \<in> old" for i
    using that dis F'(4) by auto
  have agree_new: "w_positions r ! i = place_of sz u seed' i" if "i \<in> set mine" for i
    using that F'(4) by simp
  have img_old: "(!) (w_positions r) ` old = (!) (w_positions w) ` old"
    by (intro image_cong) (auto simp: agree_old)
  have img_new: "(!) (w_positions r) ` set mine = place_of sz u seed' ` set mine"
    by (intro image_cong) (auto simp: agree_new)
  have "inj_on ((!) (w_positions r)) (old \<union> set mine)"
  proof (rule inj_on_Un [THEN iffD2], intro conjI)
    show "inj_on ((!) (w_positions r)) old"
      using I agree_old inj_on_cong by metis
    show "inj_on ((!) (w_positions r)) (set mine)"
      using dist agree_new inj_on_cong by (metis distinct_map)
    have "x \<notin> (!) (w_positions w) ` old" if "x \<in> place_of sz u seed' ` set mine" for x
      using that free U [of x] psz by auto
    then show "(!) (w_positions r) ` (old - set mine) \<inter> (!) (w_positions r) ` (set mine - old) = {}"
      using dis img_old img_new by (auto simp: Diff_triv Int_commute)
  qed
  moreover have "w_positions r ! i = place_of sz u (w_seeds r ! bucket_of m (be_hash (u ! i))) i"
    if i: "i \<in> old \<union> set mine" for i
  proof (cases "i \<in> old")
    case True
    then have "bucket_of m (be_hash (u ! i)) \<noteq> b" using b by (auto simp: old_def)
    then show ?thesis using True agree_old P F'(1) by simp
  next
    case False
    with i have "i \<in> set mine" by simp
    then have "bucket_of m (be_hash (u ! i)) = b" by (simp add: mine set_items_of)
    then show ?thesis using \<open>i \<in> set mine\<close> agree_new F'(1) L b by simp
  qed
  moreover have "w_used r ! p \<longleftrightarrow> p \<in> (!) (w_positions r) ` (old \<union> set mine)" if "p < sz" for p
    using F'(5) U [OF that] by (auto simp: image_Un img_old img_new)
  ultimately show ?thesis
    unfolding r_def [symmetric] placed_def Let_def new using F'(1-3) L by simp
qed

lemma place_buckets_placed:
  assumes "place_buckets sz u offsets items bs w = Some w'" "placed m sz u dn w" "0 < sz"
    and "\<forall>(b, cnt) \<in> set bs. b < m \<and> b \<notin> dn \<and> cnt = length (items_of m u (length u) b) \<and>
      take cnt (drop (offsets ! b) items) = items_of m u (length u) b"
    and "distinct (map fst bs)"
  shows "placed m sz u (dn \<union> fst ` set bs) w'"
  using assms(1,2,4,5)
proof (induction bs arbitrary: dn w)
  case (Cons p bs)
  obtain b cnt where p: "p = (b, cnt)" by (cases p)
  have bm: "b < m" "b \<notin> dn" "cnt = length (items_of m u (length u) b)"
      "take cnt (drop (offsets ! b) items) = items_of m u (length u) b"
    using Cons.prems(3) by (auto simp: p)
  have rest: "\<forall>(b', cnt) \<in> set bs. b' < m \<and> b' \<notin> insert b dn \<and>
      cnt = length (items_of m u (length u) b') \<and>
      take cnt (drop (offsets ! b') items) = items_of m u (length u) b'"
    using Cons.prems(3,4) by (force simp: p)
  have fin: "placed m sz u (dn \<union> fst ` set (p # bs)) w'"
    if "place_buckets sz u offsets items bs v = Some w'" "placed m sz u (insert b dn) v" for v
    using Cons.IH [OF that rest] Cons.prems(4) by (simp add: p)
  show ?case
  proof (cases "cnt = 0")
    case True
    with bm(3) have "items_of m u (length u) b = []" by simp
    then have "{i. i < length u \<and> bucket_of m (be_hash (u ! i)) \<in> insert b dn} =
        {i. i < length u \<and> bucket_of m (be_hash (u ! i)) \<in> dn}"
      using set_items_of [of m u "length u" b] by auto
    then have "placed m sz u (insert b dn) w"
      using Cons.prems(2) by (simp add: placed_def)
    then show ?thesis using fin Cons.prems(1) True by (simp add: p)
  next
    case False
    define mine where "mine = items_of m u (length u) b"
    define seed where "seed = seed_search sz (w_used w) (map (\<lambda>i. be_key (u ! i)) mine) 1"
    define v where "v = foldl (place_item sz u seed)
        (w\<lparr>w_seeds := (w_seeds w)[b := word_of_nat seed]\<rparr>) mine"
    have s: "seed \<noteq> 65536" "place_buckets sz u offsets items bs v = Some w'"
      using Cons.prems(1) False bm(4)
      by (simp_all add: p seed_def v_def Let_def flip: mine_def split: if_splits)
    have "placed m sz u (insert b dn) v"
      unfolding v_def
      using seed_search_found [of sz "w_used w" _ 1, folded seed_def, OF s(1) [unfolded seed_def]]
      by (intro placed_bucket [OF Cons.prems(2) bm(1,2) assms(3) mine_def]) (simp add: seed_def)
    then show ?thesis using fin s(2) by simp
  qed
qed simp

lemma try_sizes_found:
  "try_sizes n limit place sz = Some (sz', w) \<Longrightarrow> place sz' = Some w \<and> sz \<le> sz' \<and> sz' \<le> limit"
proof (induction n limit place sz rule: try_sizes.induct)
  case (1 n limit place sz)
  from 1(2) show ?case
    using try_sizes.simps [of n limit place sz] 1(1)
    by (fastforce split: if_splits option.splits)
qed

subsection \<open>The table holds the entries\<close>

definition key_offset :: "build_entry list \<Rightarrow> nat \<Rightarrow> nat" where
  "key_offset u i = length (concat (map be_key (take i u)))"

definition slot_of :: "build_entry list \<Rightarrow> nat \<Rightarrow> mph_slot" where
  "slot_of u i = \<lparr>slot_offset = key_offset u i mod 2 ^ 32,
     slot_len = length (be_key (u ! i)) mod 2 ^ 16, slot_flags = be_flags (u ! i)\<rparr>"

lemma key_bytes_concat: "key_bytes u = length (concat (map be_key u))"
  by (induction u) auto

lemma length_le_key_bytes: "\<forall>e \<in> set u. entry_ok e \<Longrightarrow> length u \<le> key_bytes u"
proof (induction u)
  case (Cons e u)
  then have "0 < length (be_key e)" "length u \<le> key_bytes u" by (simp_all add: entry_ok_def)
  then show ?case unfolding list.map sum_list.Cons list.size by linarith
qed simp

lemma fill_table_inv:
  assumes "inj_on ((!) ps) {..< length u}" "\<forall>i < length u. ps ! i < sz" "k \<le> length u"
  defines "r \<equiv> foldl (fill_step ps u) (replicate sz zero_slot, replicate (key_bytes u) 0, 0) [0 ..< k]"
  shows "length (fst r) = sz \<and>
    (\<forall>i < k. fst r ! (ps ! i) = slot_of u i) \<and>
    (\<forall>p < sz. p \<notin> (!) ps ` {..< k} \<longrightarrow> fst r ! p = zero_slot) \<and>
    length (fst (snd r)) = key_bytes u \<and>
    take (key_offset u k) (fst (snd r)) = concat (map be_key (take k u)) \<and>
    snd (snd r) = key_offset u k"
  using assms(3) unfolding r_def
proof (induction k)
  case 0
  then show ?case by (simp add: key_offset_def)
next
  case (Suc k)
  then have k: "k < length u" by simp
  obtain slots data off where
    st: "foldl (fill_step ps u) (replicate sz zero_slot, replicate (key_bytes u) 0, 0) [0 ..< k] =
      (slots, data, off)" by (metis prod_cases3)
  have H: "length slots = sz" "\<And>i. i < k \<Longrightarrow> slots ! (ps ! i) = slot_of u i"
      "\<And>p. p < sz \<Longrightarrow> p \<notin> (!) ps ` {..< k} \<Longrightarrow> slots ! p = zero_slot"
      "length data = key_bytes u" "take (key_offset u k) data = concat (map be_key (take k u))"
      "off = key_offset u k"
    using Suc.IH k by (simp_all add: st)
  have tk: "take (Suc k) u = take k u @ [u ! k]" using k by (rule take_Suc_conv_app_nth)
  have offS: "key_offset u (Suc k) = key_offset u k + length (be_key (u ! k))"
    by (simp add: key_offset_def tk)
  have "concat (map be_key u) = concat (map be_key (take (Suc k) u)) @ concat (map be_key (drop (Suc k) u))"
    by (metis append_take_drop_id concat_append map_append)
  then have fits: "key_offset u (Suc k) \<le> key_bytes u"
    by (simp add: key_bytes_concat key_offset_def)
  have neq: "ps ! i \<noteq> ps ! k" if "i < k" for i
    using assms(1) that k by (auto dest: inj_onD)
  have "take (key_offset u (Suc k)) (poke data off (be_key (u ! k))) =
      concat (map be_key (take (Suc k) u))"
    using fits H(4-6) offS by (simp add: poke_def tk) (simp add: key_offset_def)
  moreover have "length (poke data off (be_key (u ! k))) = key_bytes u"
    using fits H(4,6) offS by (simp add: length_poke)
  moreover have "\<forall>i < Suc k. slots[ps ! k := slot_of u k] ! (ps ! i) = slot_of u i"
    using H(1,2) neq assms(2) k by (auto simp: less_Suc_eq nth_list_update dest: neq)
  moreover have "\<forall>p < sz. p \<notin> (!) ps ` {..< Suc k} \<longrightarrow> slots[ps ! k := slot_of u k] ! p = zero_slot"
    using H(3) by (auto simp: lessThan_Suc)
  moreover have "foldl (fill_step ps u) (replicate sz zero_slot, replicate (key_bytes u) 0, 0) [0 ..< Suc k] =
      (slots[ps ! k := slot_of u k], poke data off (be_key (u ! k)), off + length (be_key (u ! k)))"
    using st H(6) by (simp add: fill_step_def Let_def slot_of_def)
  ultimately show ?case
    using H(1,6) offS by simp
qed

lemma drop_key_offset:
  assumes "i < length u"
  shows "take (length (be_key (u ! i))) (drop (key_offset u i) (concat (map be_key u))) = be_key (u ! i)"
proof -
  have "concat (map be_key u) =
      concat (map be_key (take i u)) @ be_key (u ! i) @ concat (map be_key (drop (Suc i) u))"
    using id_take_nth_drop [OF assms] by (metis concat.simps(2) concat_append list.map(2) map_append)
  then show ?thesis by (simp add: key_offset_def)
qed

lemma zip_index: "zip [0 ..< length cs] cs = map (\<lambda>i. (i, cs ! i)) [0 ..< length cs]"
  by (rule nth_equalityI) simp_all

text \<open>What a built table is, in terms of its entries without duplicates.\<close>

lemma build_facts:
  assumes "build_domain_mph entries mph = Some t" "entries \<noteq> []" "\<forall>e \<in> set entries. entry_ok e"
    and "key_bytes entries < 2 ^ 32"
  defines "u \<equiv> unique_entries entries"
  obtains ps where "mph_size t > 0" "mph_buckets_n t > 0" "inj_on ((!) ps) {..< length u}"
    "\<And>i. i < length u \<Longrightarrow>
       ps ! i = place_of (mph_size t) u (mph_buckets t ! bucket_of (mph_buckets_n t) (be_hash (u ! i))) i"
    "\<And>i. i < length u \<Longrightarrow> mph_slots t ! (ps ! i) = slot_of u i"
    "\<And>p. p < mph_size t \<Longrightarrow> p \<notin> (!) ps ` {..< length u} \<Longrightarrow> mph_slots t ! p = zero_slot"
    "mph_data t = concat (map be_key u)"
proof -
  define n where "n = length u"
  define m where "m = next_power (n div 4 + 1)"
  define cs where "cs = bucket_counts m u"
  define offsets where "offsets = bucket_offsets cs"
  define items where "items = bucket_items m offsets u"
  define bs where "bs = sorted_buckets cs"
  note U = unique_entries_facts [OF assms(3), folded u_def]
  have une: "u \<noteq> []" using U(2) assms(2) by auto
  then have n0: "n \<noteq> 0" by (simp add: n_def)
  have "length u \<le> key_bytes u"
    using U(4) by (rule length_le_key_bytes)
  then have "n < 2 ^ 32" using U(5) assms(4) by (simp add: n_def)
  then have m0: "0 < m" unfolding m_def by (intro next_power_pos) simp
  have eq: "build_domain_mph entries mph =
      (case try_sizes n (n * 2 + 1) (place_all m u offsets items bs) n of
         None \<Rightarrow> None
       | Some (sz, w) \<Rightarrow>
           (case fill_table sz (w_positions w) u of (slots, data, offset) \<Rightarrow>
              Some \<lparr>mph_nelts = n, mph_size = sz, mph_buckets_n = m, mph_buckets = w_seeds w,
                mph_slots = slots, mph_data = data\<rparr>))"
    using assms(2) n0
    unfolding build_domain_mph_def Let_def m_def cs_def offsets_def items_def bs_def n_def u_def
    by simp
  obtain sz w where tr: "try_sizes n (n * 2 + 1) (place_all m u offsets items bs) n = Some (sz, w)"
    and t: "(case fill_table sz (w_positions w) u of (slots, data, offset) \<Rightarrow>
        Some \<lparr>mph_nelts = n, mph_size = sz, mph_buckets_n = m, mph_buckets = w_seeds w,
          mph_slots = slots, mph_data = data\<rparr>) = Some t"
    using assms(1) unfolding eq by (cases "try_sizes n (n * 2 + 1) (place_all m u offsets items bs) n") auto
  from try_sizes_found [OF tr] n0 have pa: "place_all m u offsets items bs sz = Some w" and sz: "0 < sz"
    by auto
  have bs: "set bs = {(b, cs ! b) | b. b < m}" "distinct (map fst bs)"
  proof -
    have lcs: "length cs = m" by (simp add: cs_def bucket_counts_spec m0)
    then show "set bs = {(b, cs ! b) | b. b < m}"
      by (auto simp: bs_def sorted_buckets_def zip_index)
    have "mset (map fst bs) = mset (map fst (zip [0 ..< length cs] cs))"
      by (simp only: bs_def sorted_buckets_def mset_map mset_qsort)
    then have "mset (map fst bs) = mset [0 ..< m]" using lcs by (simp only: map_fst_zip length_upt)
    then show "distinct (map fst bs)" using mset_eq_imp_distinct_iff distinct_upt by blast
  qed
  have "placed m sz u {} \<lparr>w_used = replicate sz False, w_seeds = replicate m 0,
      w_positions = replicate (length u) 0\<rparr>"
    by (simp add: placed_def)
  moreover have "\<forall>(b, cnt) \<in> set bs. b < m \<and> b \<notin> {} \<and> cnt = length (items_of m u (length u) b) \<and>
      take cnt (drop (offsets ! b) items) = items_of m u (length u) b"
    using bucket_items_segment [OF m0] bucket_counts_spec(2) [OF m0]
    by (auto simp: bs(1) items_def offsets_def cs_def)
  ultimately have "placed m sz u ({} \<union> fst ` set bs) w"
    using pa sz bs(2) unfolding place_all_def by (intro place_buckets_placed)
  moreover have "{i. i < length u \<and> bucket_of m (be_hash (u ! i)) \<in> {} \<union> fst ` set bs} = {..< length u}"
    using bucket_of_less [OF m0] by (force simp: bs(1) image_iff)
  ultimately have P: "inj_on ((!) (w_positions w)) {..< length u}"
      "\<And>i. i \<in> {..< length u} \<Longrightarrow> w_positions w ! i =
         place_of sz u (w_seeds w ! bucket_of m (be_hash (u ! i))) i"
    unfolding placed_def Let_def by metis+
  have "\<forall>i < length u. w_positions w ! i < sz" using P(2) sz by (auto simp: place_of_def)
  note F = fill_table_inv [OF P(1) this order_refl, folded fill_table_def]
  obtain slots data off where ft: "fill_table sz (w_positions w) u = (slots, data, off)"
    by (metis prod_cases3)
  have "key_offset u (length u) = key_bytes u" by (simp add: key_offset_def key_bytes_concat)
  then have G: "\<And>i. i < length u \<Longrightarrow> slots ! (w_positions w ! i) = slot_of u i"
      "\<And>p. p < sz \<Longrightarrow> p \<notin> (!) (w_positions w) ` {..< length u} \<Longrightarrow> slots ! p = zero_slot"
      "length data = key_bytes u" "take (key_bytes u) data = concat (map be_key u)"
    using F by (simp_all add: ft)
  then have data: "data = concat (map be_key u)" by simp
  have t': "t = \<lparr>mph_nelts = n, mph_size = sz, mph_buckets_n = m, mph_buckets = w_seeds w,
      mph_slots = slots, mph_data = data\<rparr>"
    using t by (simp add: ft)
  show ?thesis
    by (rule that [of "w_positions w"]) (use G(1,2) P sz m0 data in \<open>simp_all add: t'\<close>)
qed

text \<open>
  The lookup finds exactly the keys of the entries, with the flags of all entries of that key.
\<close>

lemma mph_find_build':
  assumes "build_domain_mph entries zero_mph = Some t" "\<forall>e \<in> set entries. entry_ok e"
    and "key_bytes entries < 2 ^ 32"
  shows "map_option slot_flags (domain_mph_find t data) =
    (if data \<in> be_key ` set entries then Some (or_flags data entries) else None)"
proof (cases "entries = []")
  case True
  with assms(1) show ?thesis by (auto simp: build_domain_mph_def zero_mph_def domain_mph_find_def)
next
  case False
  define u where "u = unique_entries entries"
  note U = unique_entries_facts [OF assms(2), folded u_def]
  from build_facts [OF assms(1) False assms(2,3), folded u_def] obtain ps where
    B: "mph_size t > 0" "mph_buckets_n t > 0" "inj_on ((!) ps) {..< length u}"
    and ps: "\<And>i. i < length u \<Longrightarrow>
       ps ! i = place_of (mph_size t) u (mph_buckets t ! bucket_of (mph_buckets_n t) (be_hash (u ! i))) i"
    and sl: "\<And>i. i < length u \<Longrightarrow> mph_slots t ! (ps ! i) = slot_of u i"
    and ze: "\<And>p. p < mph_size t \<Longrightarrow> p \<notin> (!) ps ` {..< length u} \<Longrightarrow> mph_slots t ! p = zero_slot"
    and da: "mph_data t = concat (map be_key u)"
    by metis
  have ok: "entry_ok (u ! i)" if "i < length u" for i using U(4) that by simp
  have off: "slot_offset (slot_of u i) = key_offset u i"
      "slot_len (slot_of u i) = length (be_key (u ! i))"
      "slot_flags (slot_of u i) = be_flags (u ! i)" if "i < length u" for i
  proof -
    have "concat (map be_key u) = concat (map be_key (take i u)) @ concat (map be_key (drop i u))"
      by (metis append_take_drop_id concat_append map_append)
    then have "key_offset u i \<le> key_bytes u" by (simp add: key_bytes_concat key_offset_def)
    then have "key_offset u i < 2 ^ 32" using U(5) assms(3) by linarith
    then show "slot_offset (slot_of u i) = key_offset u i" by (simp add: slot_of_def)
    show "slot_len (slot_of u i) = length (be_key (u ! i))" "slot_flags (slot_of u i) = be_flags (u ! i)"
      using ok [OF that] by (simp_all add: slot_of_def entry_ok_def)
  qed
  have cmp: "memcmp (drop (key_offset u i) (mph_data t)) data (length data) = 0 \<longleftrightarrow> data = be_key (u ! i)"
    if "i < length u" "length data = length (be_key (u ! i))" for i
  proof -
    have *: "take (length data) (drop (key_offset u i) (mph_data t)) = be_key (u ! i)"
      using drop_key_offset [OF that(1)] that(2) by (simp add: da)
    then have "length data \<le> length (drop (key_offset u i) (mph_data t))"
      using that(2) by (metis length_take min.cobounded1 nat_le_linear take_all)
    then show ?thesis using * by (subst memcmp_take) auto
  qed
  define pos where "pos = unat (rules_hash data (mph_buckets t ! bucket_of (mph_buckets_n t) (rules_hash data 0)))
      mod mph_size t"
  have find: "domain_mph_find t data =
      (if length data = 0 \<or> length data > 255 then None
       else let slot = mph_slots t ! pos in
         if slot_len slot \<noteq> length data then None
         else if memcmp (drop (slot_offset slot) (mph_data t)) data (length data) \<noteq> 0 then None
         else Some slot)"
    using B(1) by (simp add: domain_mph_find_def Let_def pos_def)
  show ?thesis
  proof (cases "data \<in> be_key ` set u")
    case True
    then obtain i where i: "i < length u" "data = be_key (u ! i)" by (auto simp: in_set_conv_nth)
    then have "pos = ps ! i"
      using ps [OF i(1)] ok [OF i(1)] by (simp add: pos_def place_of_def entry_ok_def)
    moreover have "0 < length data" "length data \<le> 255" using ok [OF i(1)] i(2) by (auto simp: entry_ok_def)
    moreover have l: "length data = length (be_key (u ! i))" using i(2) by simp
    moreover have "memcmp (drop (key_offset u i) (mph_data t)) data (length data) = 0"
      using cmp [OF i(1) l] i(2) by simp
    ultimately have "domain_mph_find t data = Some (slot_of u i)"
      by (simp add: find Let_def sl [OF i(1)] off [OF i(1)])
    then show ?thesis
      using True U(1,2,3) i off(3) [OF i(1)] or_flags_distinct [OF U(1), of "u ! i"] by simp
  next
    case False
    have "domain_mph_find t data = None"
    proof (cases "pos \<in> (!) ps ` {..< length u}")
      case True
      then obtain i where i: "i < length u" "pos = ps ! i" by auto
      with False have "data \<noteq> be_key (u ! i)" by auto
      then show ?thesis using sl [OF i(1)] off [OF i(1)] cmp [OF i(1)] i(2) by (auto simp: find Let_def)
    next
      case no: False
      have "pos < mph_size t" using B(1) by (simp add: pos_def)
      then show ?thesis using ze [OF _ no] by (auto simp: find Let_def zero_slot_def)
    qed
    then show ?thesis using False U(2) by simp
  qed
qed

subsection \<open>The properties\<close>

text \<open>C15: the lookup in a table built from any list of entries answers exactly for the keys of the
  list, whatever the seeds and the size the construction settled on, and gives the flags of all
  entries with that key together (the key bytes of all entries stay below \<open>2 ^ 32\<close>, the range of
  a slot's offset).\<close>

theorem mph_find_build:
  assumes "build_domain_mph entries zero_mph = Some t" "\<forall>e \<in> set entries. entry_ok e"
    and "key_bytes entries < 2 ^ 32"
  shows "map_option slot_flags (domain_mph_find t data) =
    (if data \<in> be_key ` set entries then Some (or_flags data entries) else None)"
  using assms by (rule mph_find_build')

definition sample_entries :: "build_entry list" where
  "sample_entries =
     [\<lparr>be_key = [99, 111], be_flags = 0, be_hash = rules_hash [99, 111] 0\<rparr>,
      \<lparr>be_key = [97], be_flags = 0, be_hash = rules_hash [97] 0\<rparr>,
      \<lparr>be_key = [99, 111], be_flags = 1, be_hash = rules_hash [99, 111] 0\<rparr>]"

lemma sample_hashes:
  "rules_hash [97] 0 = 1817065451" "rules_hash [99, 111] 0 = 3687134025"
  "rules_hash [97] 1 = 3698182641" "rules_hash [99, 111] 1 = 3723756016"
  by (simp_all add: rules_hash_def hash_step_def Let_def)

lemma sample_unique:
  "unique_entries sample_entries =
     [\<lparr>be_key = [97], be_flags = 0, be_hash = rules_hash [97] 0\<rparr>,
      \<lparr>be_key = [99, 111], be_flags = 1, be_hash = rules_hash [99, 111] 0\<rparr>]"
  by (simp add: unique_entries_def sample_entries_def ngx_qsort_def unique_step_def
      cmp_domain_entries_def Let_def)

lemma next_power_1: "next_power 1 = 1"
  by (simp add: next_power_def numeral_eq_Suc)

definition sample_u :: "build_entry list" where
  "sample_u =
     [\<lparr>be_key = [97], be_flags = 0, be_hash = 1817065451\<rparr>,
      \<lparr>be_key = [99, 111], be_flags = 1, be_hash = 3687134025\<rparr>]"

lemma sample_buckets:
  "bucket_counts (Suc 0) sample_u = [2]" "bucket_offsets [2] = [0]"
  "bucket_items (Suc 0) [0] sample_u = [0, 1]" "sorted_buckets [2] = [(0, 2)]"
  by (simp_all add: sample_u_def bucket_counts_def bucket_of_def bucket_items_def items_step_def
      bucket_offsets_def sorted_buckets_def ngx_qsort_def)

lemma sample_seed: "seed_search 2 [False, False] [[97], [99, 111]] (Suc 0) = Suc 0"
  by (subst seed_search.simps) (simp add: sample_hashes Let_def)

lemma replicate_2: "replicate 2 x = [x, x]"
  by (simp add: numeral_2_eq_2)

lemma sample_sizes:
  "try_sizes 2 5 (place_all (Suc 0) sample_u [0] [0, 1] [(0, 2)]) 2 =
     Some (2, \<lparr>w_used = [True, True], w_seeds = [1], w_positions = [1, 0]\<rparr>)"
  by (subst try_sizes.simps)
    (simp add: place_all_def place_item_def sample_u_def sample_seed sample_hashes replicate_2 Let_def)

lemma sample_entries_built: "build_domain_mph sample_entries zero_mph \<noteq> None"
proof -
  have "unique_entries sample_entries = sample_u"
    by (simp add: sample_unique sample_u_def sample_hashes)
  moreover have "length sample_u = 2" "sample_entries \<noteq> []"
    by (simp_all add: sample_u_def sample_entries_def)
  ultimately show ?thesis
    using next_power_1 sample_sizes
    by (simp add: build_domain_mph_def sample_buckets split: prod.splits)
qed

theorem mph_find_build_witness:
  "map_option slot_flags (domain_mph_find (the (build_domain_mph sample_entries zero_mph)) [99, 111]) =
     Some 1"
  using mph_find_build [of sample_entries "the (build_domain_mph sample_entries zero_mph)" "[99, 111]"]
    sample_entries_built
  by (force simp: sample_entries_def entry_ok_def)

text \<open>A single key gets a table of size one, with the first seed.\<close>

lemma build_single_key:
  assumes "entry_ok e"
  shows "build_domain_mph [e] mph =
    Some \<lparr>mph_nelts = 1, mph_size = 1, mph_buckets_n = 1, mph_buckets = [1],
      mph_slots = [\<lparr>slot_offset = 0, slot_len = length (be_key e), slot_flags = be_flags e\<rparr>],
      mph_data = be_key e\<rparr>"
proof -
  have u: "unique_entries [e] = [e]"
    by (simp add: unique_entries_def unique_step_def ngx_qsort_def)
  note p = next_power_1
  have b: "bucket_of 1 h = 0" for h by (simp add: bucket_of_def)
  have "seed_search 1 [False] [be_key e] 1 = 1"
    by (subst seed_search.simps) simp
  then have "try_sizes 1 3 (place_all 1 [e] [0] [0] [(0, 1)]) 1 =
      Some (1, \<lparr>w_used = [True], w_seeds = [1], w_positions = [0]\<rparr>)"
    by (subst try_sizes.simps) (simp add: place_all_def place_item_def)
  moreover have "length (be_key e) \<le> 255" using assms by (simp add: entry_ok_def)
  moreover have "bucket_counts 1 [e] = [1]" "bucket_items 1 [0] [e] = [0]"
    using b by (simp_all add: bucket_counts_def bucket_items_def items_step_def)
  moreover have "bucket_offsets [1] = [0]" "sorted_buckets [1] = [(0, 1)]"
    by (simp_all add: bucket_offsets_def sorted_buckets_def ngx_qsort_def)
  ultimately show ?thesis
    using p by (simp add: build_domain_mph_def u Let_def fill_table_def fill_step_def)
qed

end
