(* ===== verification/Mt_Prefix.thy ===== *)
theory Mt_Prefix
  imports Mt_Order
begin

text \<open>
  IP rules (\<open>ngx_stream_mtrojan_rules.c\<close>): the CIDR match over the list of rules, and the compiled
  form, one sorted list of masked addresses per prefix length, searched from the longest prefix.

  An IPv4 address, mask or socket address is the 32-bit value of its four network-order bytes
  (what \<open>ntohl\<close> gives); an IPv6 one is its sixteen bytes. \<open>ngx_ptocidr\<close> is not under \<open>src/\<close>; what
  it documents of its result is \<open>cidr_canonical\<close>.
\<close>

subsection \<open>Rules and the match over the list\<close>

datatype cidr = CIDR4 u32 u32 | CIDR6 bytes bytes

datatype sockaddr = SA4 u32 u16 | SA6 bytes u16 | SA_other

fun rule_ip_match :: "cidr option \<Rightarrow> sockaddr option \<Rightarrow> bool" where
  "rule_ip_match (Some (CIDR4 addr msk)) (Some (SA4 s_addr port)) = (s_addr AND msk = addr)"
| "rule_ip_match (Some (CIDR6 addr msk)) (Some (SA6 s6_addr port)) =
     list_all (\<lambda>n. s6_addr ! n AND msk ! n = addr ! n) [0 ..< 16]"
| "rule_ip_match _ _ = False"

subsection \<open>Prefix lengths and masks\<close>

text \<open>The mask has left the register after 32 shifts.\<close>

fun ipv4_prefix_loop :: "nat \<Rightarrow> nat \<Rightarrow> u32 \<Rightarrow> nat" where
  "ipv4_prefix_loop 0 n msk = n"
| "ipv4_prefix_loop (Suc fuel) n msk =
     (if msk AND 0x80000000 \<noteq> 0 then ipv4_prefix_loop fuel (n + 1) (push_bit 1 msk) else n)"

definition ipv4_prefix :: "u32 \<Rightarrow> nat" where
  "ipv4_prefix msk = ipv4_prefix_loop 33 0 msk"

definition ipv4_mask :: "nat \<Rightarrow> u32" where
  "ipv4_mask prefix = (if prefix = 0 then 0 else push_bit (32 - prefix) 0xffffffff)"

definition mask_bits :: "byte list" where
  "mask_bits = [0x80, 0x40, 0x20, 0x10, 0x08, 0x04, 0x02, 0x01]"

fun ipv6_prefix_loop :: "bytes \<Rightarrow> nat \<Rightarrow> nat" where
  "ipv6_prefix_loop [] n = n"
| "ipv6_prefix_loop (b # msk) n =
     (let ones = length (takeWhile (\<lambda>bit. b AND bit \<noteq> 0) mask_bits) in
      if ones < 8 then n + ones else ipv6_prefix_loop msk (n + 8))"

definition ipv6_prefix :: "bytes \<Rightarrow> nat" where
  "ipv6_prefix msk = ipv6_prefix_loop msk 0"

fun ipv6_mask :: "bytes \<Rightarrow> nat \<Rightarrow> bytes" where
  "ipv6_mask [] prefix = []"
| "ipv6_mask (b # src) prefix =
     (if prefix \<ge> 8 then b # ipv6_mask src (prefix - 8)
      else if prefix = 0 then 0 # ipv6_mask src prefix
      else
        let bits = push_bit (8 - prefix) 0xff :: u32 in
        (b AND ucast bits) # ipv6_mask src 0)"

subsection \<open>Compiling and searching\<close>

definition cmp_ipv4_prefix :: "u32 \<Rightarrow> u32 \<Rightarrow> int" where
  "cmp_ipv4_prefix first second = (if first = second then 0 else if first < second then -1 else 1)"

definition cmp_ipv6_prefix :: "bytes \<Rightarrow> bytes \<Rightarrow> int" where
  "cmp_ipv6_prefix first second = memcmp first second 16"

definition ipv4_find :: "u32 list \<Rightarrow> u32 \<Rightarrow> bool" where
  "ipv4_find bucket addr = bin_search cmp_ipv4_prefix bucket addr 0 (length bucket)"

definition ipv6_find :: "bytes list \<Rightarrow> bytes \<Rightarrow> bool" where
  "ipv6_find bucket addr = bin_search (\<lambda>a b. memcmp a b 16) bucket addr 0 (length bucket)"

text \<open>A rule goes to the end (the cursor) of the bucket of its prefix.\<close>

fun put_rule :: "u32 list list \<times> bytes list list \<Rightarrow> cidr \<Rightarrow> u32 list list \<times> bytes list list" where
  "put_rule (ipv4, ipv6) (CIDR4 addr msk) =
     (let prefix = ipv4_prefix msk; a = addr AND ipv4_mask prefix in
      (ipv4[prefix := ipv4 ! prefix @ [a]], ipv6))"
| "put_rule (ipv4, ipv6) (CIDR6 addr msk) =
     (let prefix = ipv6_prefix msk; a = ipv6_mask addr prefix in
      (ipv4, ipv6[prefix := ipv6 ! prefix @ [a]]))"

definition empty_buckets :: "u32 list list \<times> bytes list list" where
  "empty_buckets = (replicate 33 [], replicate 129 [])"

definition compile_ips :: "cidr list \<Rightarrow> u32 list list \<times> bytes list list" where
  "compile_ips ips =
     (let (ipv4, ipv6) = foldl put_rule empty_buckets ips in
      (map (\<lambda>b. if b = [] then b else dedup (ngx_qsort cmp_ipv4_prefix b)) ipv4,
       map (\<lambda>b. if b = [] then b else dedup (ngx_qsort cmp_ipv6_prefix b)) ipv6))"

definition match_ipv4 :: "u32 list list \<Rightarrow> u32 \<Rightarrow> bool" where
  "match_ipv4 ipv4 addr \<longleftrightarrow>
     list_ex (\<lambda>prefix. ipv4 ! prefix \<noteq> [] \<and> ipv4_find (ipv4 ! prefix) (addr AND ipv4_mask prefix))
       (rev [0 ..< 33])"

definition match_ipv6 :: "bytes list list \<Rightarrow> bytes \<Rightarrow> bool" where
  "match_ipv6 ipv6 addr \<longleftrightarrow>
     list_ex (\<lambda>prefix. ipv6 ! prefix \<noteq> [] \<and> ipv6_find (ipv6 ! prefix) (ipv6_mask addr prefix))
       (rev [0 ..< 129])"

text \<open>
  What \<open>ngx_ptocidr\<close> returns: a mask made from a prefix length, and an address with the bits behind
  the prefix cleared.
\<close>

definition ones16 :: bytes where
  "ones16 = replicate 16 0xff"

fun cidr_canonical :: "cidr \<Rightarrow> bool" where
  "cidr_canonical (CIDR4 addr msk) \<longleftrightarrow>
     (ipv4_prefix msk \<le> 32 \<and> msk = ipv4_mask (ipv4_prefix msk)) \<and> addr AND msk = addr"
| "cidr_canonical (CIDR6 addr msk) \<longleftrightarrow>
     (ipv6_prefix msk \<le> 128 \<and> msk = ipv6_mask ones16 (ipv6_prefix msk)) \<and> length addr = 16 \<and>
     ipv6_mask addr (ipv6_prefix msk) = addr"

subsection \<open>Prefixes and masks belong together\<close>

lemma top_bit: "w AND 0x80000000 \<noteq> 0 \<longleftrightarrow> bit (w :: u32) 31"
  using and_exp_eq_0_iff_not_bit [of w 31] by simp

lemma ipv4_prefix_loop_mask:
  "p \<le> 32 \<Longrightarrow> p < fuel \<Longrightarrow> ipv4_prefix_loop fuel n (push_bit (32 - p) (- 1)) = n + p"
proof (induction p arbitrary: fuel n)
  case 0
  then obtain f where "fuel = Suc f" by (cases fuel) auto
  moreover have "push_bit 32 (- 1) = (0 :: u32)" by (simp add: push_bit_eq_mult)
  ultimately show ?case by simp
next
  case (Suc p)
  then obtain f where f: "fuel = Suc f" "p < f" by (cases fuel) auto
  have "bit (push_bit (32 - Suc p) (- 1) :: u32) 31"
    using Suc.prems by (simp add: bit_simps)
  moreover have "push_bit 1 (push_bit (32 - Suc p) (- 1) :: u32) = push_bit (32 - p) (- 1)"
  proof -
    have "1 + (32 - Suc p) = 32 - p" using Suc.prems by simp
    then show ?thesis by (simp only: push_bit_push_bit)
  qed
  ultimately show ?case
    using Suc.IH [of f "n + 1"] Suc.prems f by (simp add: top_bit del: push_bit_minus_one)
qed

lemma ipv4_prefix_mask: "p \<le> 32 \<Longrightarrow> ipv4_prefix (ipv4_mask p) = p"
proof -
  assume p: "p \<le> 32"
  have ones: "(0xffffffff :: u32) = - 1" by simp
  have "ipv4_mask p = push_bit (32 - p) (- 1)"
    unfolding ipv4_mask_def ones by (simp add: push_bit_eq_mult)
  with p show ?thesis
    using ipv4_prefix_loop_mask [of p 33 0] by (simp add: ipv4_prefix_def del: ipv4_prefix_loop.simps)
qed

lemma length_ipv6_mask [simp]: "length (ipv6_mask src p) = length src"
  by (induction src p rule: ipv6_mask.induct) (auto simp: Let_def)

lemma ipv6_mask_0 [simp]: "ipv6_mask src 0 = replicate (length src) 0"
  by (induction src) auto

lemma byte_and_ones: "b AND (0xff :: byte) = b"
proof -
  have "(0xff :: byte) = - 1" by simp
  then show ?thesis by (simp only: and.right_neutral)
qed

lemma ipv6_mask_and:
  "ipv6_mask src p = map2 (AND) src (ipv6_mask (replicate (length src) 0xff) p)"
proof (induction src p rule: ipv6_mask.induct)
  case (2 b src prefix)
  have "map2 (AND) src (replicate (length src) (0 :: byte)) = replicate (length src) 0"
    by (induction src) auto
  with 2 show ?case by (auto simp: Let_def byte_and_ones and.assoc [symmetric])
qed simp

lemma ipv6_prefix_loop_mask:
  "p \<le> 8 * n \<Longrightarrow> ipv6_prefix_loop (ipv6_mask (replicate n 0xff) p) k = k + p"
proof (induction n arbitrary: p k)
  case (Suc n)
  show ?case
  proof (cases "8 \<le> p")
    case True
    then show ?thesis using Suc by (simp add: mask_bits_def)
  next
    case False
    then consider "p = 0" | "p = 1" | "p = 2" | "p = 3" | "p = 4" | "p = 5" | "p = 6" | "p = 7"
      by linarith
    then show ?thesis
      by cases (simp_all add: mask_bits_def Let_def)
  qed
qed simp

lemma ipv6_prefix_mask: "p \<le> 128 \<Longrightarrow> ipv6_prefix (ipv6_mask ones16 p) = p"
  using ipv6_prefix_loop_mask [of p 16 0] by (simp add: ipv6_prefix_def ones16_def)

lemma ipv6_prefix_le: "length msk = 16 \<Longrightarrow> ipv6_prefix msk \<le> 128"
proof -
  have "ipv6_prefix_loop msk n \<le> n + 8 * length msk" for n
  proof (induction msk arbitrary: n)
    case (Cons b msk)
    from Cons [of "n + 8"] show ?case by (auto simp: Let_def)
  qed simp
  from this [of 0] show "length msk = 16 \<Longrightarrow> ?thesis" by (simp add: ipv6_prefix_def)
qed

interpretation ipv4: comparator cmp_ipv4_prefix "\<lambda>_. True"
  by unfold_locales (auto simp: cmp_ipv4_prefix_def split: if_splits)


lemma memcmp_eq0: "length a = n \<Longrightarrow> length b = n \<Longrightarrow> memcmp a b n = 0 \<longleftrightarrow> a = b"
proof (induction n arbitrary: a b)
  case (Suc n)
  then show ?case by (cases a; cases b) auto
qed simp

lemma memcmp_sym: "memcmp a b n > 0 \<longleftrightarrow> memcmp b a n < 0"
proof (induction n arbitrary: a b)
  case (Suc n)
  then show ?case by (cases a; cases b) auto
qed simp

lemma memcmp_trans:
  "length a = n \<Longrightarrow> length b = n \<Longrightarrow> length c = n \<Longrightarrow> memcmp a b n < 0 \<Longrightarrow> memcmp b c n < 0 \<Longrightarrow>
   memcmp a c n < 0"
proof (induction n arbitrary: a b c)
  case (Suc n)
  obtain x a' where a: "a = x # a'" "length a' = n" using Suc.prems(1) by (cases a) auto
  obtain y b' where b: "b = y # b'" "length b' = n" using Suc.prems(2) by (cases b) auto
  obtain z c' where c: "c = z # c'" "length c' = n" using Suc.prems(3) by (cases c) auto
  have "x < y \<or> x = y \<and> memcmp a' b' n < 0" using Suc.prems(4) by (auto simp: a b split: if_splits)
  moreover have "y < z \<or> y = z \<and> memcmp b' c' n < 0" using Suc.prems(5) by (auto simp: b c split: if_splits)
  moreover have "x < y \<Longrightarrow> y < z \<Longrightarrow> x < z" by (rule order.strict_trans)
  ultimately have "x < z \<or> x = z \<and> memcmp a' c' n < 0"
    using Suc.IH [OF a(2) b(2) c(2)] by blast
  then show ?case by (auto simp: a c)
qed simp

interpretation ipv6: comparator cmp_ipv6_prefix "\<lambda>a. length a = 16"
  unfolding cmp_ipv6_prefix_def
  by unfold_locales (rule memcmp_eq0 memcmp_sym memcmp_trans; assumption)+

subsection \<open>What the buckets hold\<close>

definition addrs4 :: "cidr list \<Rightarrow> nat \<Rightarrow> u32 set" where
  "addrs4 ips p = {a AND ipv4_mask p | a m. CIDR4 a m \<in> set ips \<and> ipv4_prefix m = p}"

definition addrs6 :: "cidr list \<Rightarrow> nat \<Rightarrow> bytes set" where
  "addrs6 ips p = {ipv6_mask a p | a m. CIDR6 a m \<in> set ips \<and> ipv6_prefix m = p}"

fun prefix_ok :: "cidr \<Rightarrow> bool" where
  "prefix_ok (CIDR4 a m) = (ipv4_prefix m \<le> 32)"
| "prefix_ok (CIDR6 a m) = (ipv6_prefix m \<le> 128)"

lemma put_rule_fold:
  assumes "length (fst st) = 33" "length (snd st) = 129" "\<forall>c \<in> set ips. prefix_ok c"
  defines "r \<equiv> foldl put_rule st ips"
  shows "length (fst r) = 33" "length (snd r) = 129"
    "p < 33 \<Longrightarrow> set (fst r ! p) = set (fst st ! p) \<union> addrs4 ips p"
    "p < 129 \<Longrightarrow> set (snd r ! p) = set (snd st ! p) \<union> addrs6 ips p"
proof -
  have "length (fst r) = 33 \<and> length (snd r) = 129 \<and>
    (\<forall>p < 33. set (fst r ! p) = set (fst st ! p) \<union> addrs4 ips p) \<and>
    (\<forall>p < 129. set (snd r ! p) = set (snd st ! p) \<union> addrs6 ips p)"
    using assms(1-3) unfolding r_def
  proof (induction ips arbitrary: st)
    case Nil
    then show ?case by (simp add: addrs4_def addrs6_def)
  next
    case (Cons c ips)
    obtain x y where st: "st = (x, y)" by (cases st)
    have a4: "addrs4 (c # ips) p = addrs4 [c] p \<union> addrs4 ips p" for p
      by (auto simp: addrs4_def)
    have a6: "addrs6 (c # ips) p = addrs6 [c] p \<union> addrs6 ips p" for p
      by (auto simp: addrs6_def)
    have ok: "prefix_ok c" "length x = 33" "length y = 129" using Cons.prems st by simp_all
    have step: "length (fst (put_rule st c)) = 33 \<and> length (snd (put_rule st c)) = 129 \<and>
      (\<forall>p < 33. set (fst (put_rule st c) ! p) = set (x ! p) \<union> addrs4 [c] p) \<and>
      (\<forall>p < 129. set (snd (put_rule st c) ! p) = set (y ! p) \<union> addrs6 [c] p)"
    proof (cases c)
      case (CIDR4 a m)
      have "addrs4 [c] p = (if p = ipv4_prefix m then {a AND ipv4_mask p} else {})" "addrs6 [c] p = {}" for p
        by (auto simp: CIDR4 addrs4_def addrs6_def)
      with ok show ?thesis by (simp add: CIDR4 st Let_def nth_list_update)
    next
      case (CIDR6 a m)
      have "addrs6 [c] p = (if p = ipv6_prefix m then {ipv6_mask a p} else {})" "addrs4 [c] p = {}" for p
        by (auto simp: CIDR6 addrs4_def addrs6_def)
      with ok show ?thesis by (simp add: CIDR6 st Let_def nth_list_update)
    qed
    have "\<forall>c \<in> set ips. prefix_ok c" using Cons.prems(3) by simp
    with Cons.IH [of "put_rule st c"] step show ?case
      by (simp add: st a4 a6 Un_assoc)
  qed
  then show "length (fst r) = 33" "length (snd r) = 129"
    "p < 33 \<Longrightarrow> set (fst r ! p) = set (fst st ! p) \<union> addrs4 ips p"
    "p < 129 \<Longrightarrow> set (snd r ! p) = set (snd st ! p) \<union> addrs6 ips p"
    by simp_all
qed

lemma bin_search_Nil [simp]: "\<not> bin_search cmp [] x 0 0"
  by (subst bin_search.simps) simp

lemma dedup_qsort_Nil [simp]: "dedup (ngx_qsort cmp []) = []"
  by (simp add: dedup_def ngx_qsort_def)

lemma compile_ips_find:
  assumes "\<forall>c \<in> set ips. prefix_ok c" "\<forall>a m. CIDR6 a m \<in> set ips \<longrightarrow> length a = 16"
    and "length sa6 = 16"
  shows "p < 33 \<Longrightarrow> ipv4_find (fst (compile_ips ips) ! p) sa4 \<longleftrightarrow> sa4 \<in> addrs4 ips p"
    "p < 129 \<Longrightarrow> ipv6_find (snd (compile_ips ips) ! p) sa6 \<longleftrightarrow> sa6 \<in> addrs6 ips p"
proof -
  define r where "r = foldl put_rule empty_buckets ips"
  note F = put_rule_fold [of empty_buckets ips, folded r_def, OF _ _ assms(1)]
  have L: "length (fst r) = 33" "length (snd r) = 129" using F by (simp_all add: empty_buckets_def)
  have c: "fst (compile_ips ips) = map (\<lambda>b. if b = [] then b else dedup (ngx_qsort cmp_ipv4_prefix b)) (fst r)"
    "snd (compile_ips ips) = map (\<lambda>b. if b = [] then b else dedup (ngx_qsort cmp_ipv6_prefix b)) (snd r)"
    by (simp_all add: compile_ips_def r_def split: prod.split)
  show "ipv4_find (fst (compile_ips ips) ! p) sa4 \<longleftrightarrow> sa4 \<in> addrs4 ips p" if p: "p < 33"
  proof -
    have "set (fst r ! p) = addrs4 ips p" using F(3) p by (simp add: empty_buckets_def)
    moreover have "ipv4_find (fst (compile_ips ips) ! p) sa4 \<longleftrightarrow> sa4 \<in> set (fst r ! p)"
      using ipv4.bin_search_compiled [of "fst r ! p" sa4] p L
      by (auto simp: c ipv4_find_def)
    ultimately show ?thesis by simp
  qed
  show "ipv6_find (snd (compile_ips ips) ! p) sa6 \<longleftrightarrow> sa6 \<in> addrs6 ips p" if p: "p < 129"
  proof -
    have s: "set (snd r ! p) = addrs6 ips p" using F(4) p by (simp add: empty_buckets_def)
    then have "\<forall>x \<in> set (snd r ! p). length x = 16" using assms(2) by (auto simp: addrs6_def)
    then have "ipv6_find (snd (compile_ips ips) ! p) sa6 \<longleftrightarrow> sa6 \<in> set (snd r ! p)"
      using ipv6.bin_search_compiled [of "snd r ! p" sa6] p L assms(3)
      by (auto simp: c ipv6_find_def simp flip: cmp_ipv6_prefix_def)
    with s show ?thesis by simp
  qed
qed

lemma prefix_ok_canonical: "cidr_canonical c \<Longrightarrow> prefix_ok c"
  by (cases c) auto

end
