(* ===== verification/Mt_Rules.thy ===== *)
theory Mt_Rules
  imports Mt_Literal Mt_Mph Mt_Prefix
begin

text \<open>
  Route rules (\<open>ngx_stream_mtrojan_rules.c\<close>, \<open>.h\<close>): groups of domain and IP rules, how the
  configuration fills them, the matchers over the rule lists and over the compiled tables, and the
  compilation.

  Not under \<open>src/\<close> and so parameters: \<open>ngx_regex_compile\<close> (a compiled pattern is a predicate on
  host names), \<open>ngx_ptocidr\<close>, \<open>ngx_conf_include\<close>, \<open>ngx_inet_addr\<close> and \<open>ngx_inet6_addr\<close>.
  \<open>ngx_conf_parse\<close> calls its handler for one directive after the other and stops at the first error.
  Strings of the configuration are followed by a NUL byte. A build with PCRE and IPv6 is modelled,
  and pool allocations succeed. \<open>NGX_CONF_ERROR\<close> and \<open>NGX_ERROR\<close> are \<open>None\<close>.
\<close>

subsection \<open>String comparison of the C library\<close>

fun strncmp :: "bytes \<Rightarrow> bytes \<Rightarrow> nat \<Rightarrow> int" where
  "strncmp a b 0 = 0"
| "strncmp (x # a) (y # b) (Suc n) =
     (if x \<noteq> y then uint x - uint y else if x = 0 then 0 else strncmp a b n)"
| "strncmp _ _ _ = 0"

fun strncasecmp :: "bytes \<Rightarrow> bytes \<Rightarrow> nat \<Rightarrow> int" where
  "strncasecmp a b 0 = 0"
| "strncasecmp (x # a) (y # b) (Suc n) =
     (if ngx_tolower x \<noteq> ngx_tolower y then uint (ngx_tolower x) - uint (ngx_tolower y)
      else if x = 0 then 0 else strncasecmp a b n)"
| "strncasecmp _ _ _ = 0"

text \<open>\<open>ngx_strcmp\<close> of a configuration string with a literal.\<close>

definition conf_word :: "bytes \<Rightarrow> string \<Rightarrow> bool" where
  "conf_word v w \<longleftrightarrow> cstr (v @ [0]) = ascii w"

subsection \<open>Rules and groups\<close>

datatype rule_domain_type = RULE_DOMAIN_EXACT | RULE_DOMAIN_SUFFIX | RULE_DOMAIN_WILDCARD
  | RULE_DOMAIN_REGEX

record domain_rule =
  dr_type :: rule_domain_type
  dr_value :: bytes
  dr_regex :: "(bytes \<Rightarrow> bool) option"

record route_rules =
  rr_tag :: bytes
  rr_domains :: "domain_rule list"
  rr_ips :: "cidr list"
  rr_exact :: domain_mph
  rr_suffix :: domain_mph
  rr_regex_domains :: "domain_rule list option"
  rr_ipv4 :: "u32 list list"
  rr_ipv6 :: "bytes list list"
  rr_compiled :: bool

datatype rule_match = RULE_NO_MATCH | RULE_MATCH | RULE_NOT_APPLICABLE

definition rule_reserved_value :: "bytes \<Rightarrow> bool" where
  "rule_reserved_value v \<longleftrightarrow> length v = 7 \<and> strncmp v (ascii ''include'') (length v) = 0"

definition domain_type :: "bytes \<Rightarrow> rule_domain_type option" where
  "domain_type v =
     (if length v = 0 then None
      else if rule_reserved_value v then None
      else if v ! 0 = of_char (CHR ''~'') then
        if length v = 1 then None else Some RULE_DOMAIN_REGEX
      else if v ! 0 = of_char (CHR ''.'') then
        if length v = 1 then None else Some RULE_DOMAIN_SUFFIX
      else if length v > 2 \<and> v ! 0 = of_char (CHR ''*'') \<and> v ! 1 = of_char (CHR ''.'')
      then Some RULE_DOMAIN_WILDCARD
      else Some RULE_DOMAIN_EXACT)"

subsection \<open>Matching over the lists of rules\<close>

definition regex_exec :: "(bytes \<Rightarrow> bool) option \<Rightarrow> bytes \<Rightarrow> bool" where
  "regex_exec regex host = (case regex of Some m \<Rightarrow> m host | None \<Rightarrow> False)"

definition rule_domain_match :: "domain_rule option \<Rightarrow> bytes option \<Rightarrow> bool" where
  "rule_domain_match rule host =
     (case (rule, host) of
        (Some r, Some h) \<Rightarrow>
          if length h = 0 then False
          else
            (case dr_type r of
               RULE_DOMAIN_EXACT \<Rightarrow>
                 length h = length (dr_value r) \<and> strncasecmp h (dr_value r) (length h) = 0
             | RULE_DOMAIN_SUFFIX \<Rightarrow>
                 let suffix = drop 1 (dr_value r); suffix_len = length (dr_value r) - 1 in
                 if length h = suffix_len then strncasecmp h suffix (length h) = 0
                 else if length h \<le> suffix_len + 1 then False
                 else if h ! (length h - suffix_len - 1) \<noteq> of_char (CHR ''.'') then False
                 else strncasecmp (drop (length h - suffix_len) h) suffix suffix_len = 0
             | RULE_DOMAIN_WILDCARD \<Rightarrow>
                 let suffix = drop 2 (dr_value r); suffix_len = length (dr_value r) - 2 in
                 if length h \<le> suffix_len + 1 then False
                 else if h ! (length h - suffix_len - 1) \<noteq> of_char (CHR ''.'') then False
                 else strncasecmp (drop (length h - suffix_len) h) suffix suffix_len = 0
             | RULE_DOMAIN_REGEX \<Rightarrow> regex_exec (dr_regex r) h)
      | _ \<Rightarrow> False)"

definition same_tag :: "bytes \<Rightarrow> bytes \<Rightarrow> bool" where
  "same_tag a tag \<longleftrightarrow> length a = length tag \<and> strncmp a tag (length tag) = 0"

text \<open>\<open>None\<close>: no rules, or no array of groups.\<close>

definition rules_find :: "route_rules list option \<Rightarrow> bytes \<Rightarrow> route_rules option" where
  "rules_find rules tag =
     (case rules of None \<Rightarrow> None | Some groups \<Rightarrow> find (\<lambda>g. same_tag (rr_tag g) tag) groups)"

definition rules_tag_exists :: "route_rules list \<Rightarrow> bytes \<Rightarrow> bool" where
  "rules_tag_exists groups tag \<longleftrightarrow> list_ex (\<lambda>g. same_tag (rr_tag g) tag) groups"

definition route_rules_match_domain :: "route_rules option \<Rightarrow> bytes \<Rightarrow> rule_match" where
  "route_rules_match_domain grp host =
     (case grp of
        None \<Rightarrow> RULE_NOT_APPLICABLE
      | Some g \<Rightarrow>
          if rr_domains g = [] then RULE_NOT_APPLICABLE
          else if rr_compiled g \<and> length host \<le> 255 then
            let name = map ngx_tolower host in
            if domain_mph_find (rr_exact g) name \<noteq> None then RULE_MATCH
            else if (case domain_mph_find (rr_suffix g) name of
                       Some slot \<Rightarrow> slot_flags slot AND SUFFIX_INCLUDE_ROOT \<noteq> 0
                     | None \<Rightarrow> False)
            then RULE_MATCH
            else if list_ex (\<lambda>suffix. name ! suffix = of_char (CHR ''.'') \<and>
                       domain_mph_find (rr_suffix g) (drop (suffix + 1) name) \<noteq> None)
                     [0 ..< length host]
            then RULE_MATCH
            else
              (case rr_regex_domains g of
                 None \<Rightarrow> RULE_NO_MATCH
               | Some regex_domains \<Rightarrow>
                   if list_ex (\<lambda>rule. rule_domain_match (Some rule) (Some host)) regex_domains
                   then RULE_MATCH else RULE_NO_MATCH)
          else
            if list_ex (\<lambda>rule. rule_domain_match (Some rule) (Some host)) (rr_domains g)
            then RULE_MATCH else RULE_NO_MATCH)"

definition route_rules_match_ip :: "route_rules option \<Rightarrow> sockaddr \<Rightarrow> rule_match" where
  "route_rules_match_ip grp sa =
     (case grp of
        None \<Rightarrow> RULE_NOT_APPLICABLE
      | Some g \<Rightarrow>
          if rr_ips g = [] then RULE_NOT_APPLICABLE
          else if rr_compiled g then
            (case sa of
               SA4 addr port \<Rightarrow> if match_ipv4 (rr_ipv4 g) addr then RULE_MATCH else RULE_NO_MATCH
             | SA6 addr port \<Rightarrow> if match_ipv6 (rr_ipv6 g) addr then RULE_MATCH else RULE_NO_MATCH
             | SA_other \<Rightarrow> RULE_NO_MATCH)
          else
            if list_ex (\<lambda>rule. rule_ip_match (Some rule) (Some sa)) (rr_ips g)
            then RULE_MATCH else RULE_NO_MATCH)"

definition rules_match_domain :: "route_rules list option \<Rightarrow> bytes \<Rightarrow> bytes \<Rightarrow> rule_match" where
  "rules_match_domain rules tag host = route_rules_match_domain (rules_find rules tag) host"

definition rules_match_ip :: "route_rules list option \<Rightarrow> bytes \<Rightarrow> sockaddr \<Rightarrow> rule_match" where
  "rules_match_ip rules tag sa = route_rules_match_ip (rules_find rules tag) sa"

datatype sockaddr_result = SOCKADDR_OK sockaddr | SOCKADDR_DECLINED | SOCKADDR_ERROR

definition INADDR_NONE :: u32 where "INADDR_NONE = 0xffffffff"

definition target_to_sockaddr ::
    "(bytes \<Rightarrow> u32) \<Rightarrow> (bytes \<Rightarrow> bytes option) \<Rightarrow> addr_t option \<Rightarrow> sockaddr_result" where
  "target_to_sockaddr inet_addr inet6_addr target =
     (case target of
        None \<Rightarrow> SOCKADDR_ERROR
      | Some t \<Rightarrow>
          if addr_type t = ADDR_IPV4 then
            if addr_host_len t \<noteq> 4 then SOCKADDR_ERROR
            else SOCKADDR_OK (SA4 (read_u32 (addr_host t)) (addr_port t))
          else if addr_type t = ADDR_DOMAIN then
            let addr = inet_addr (host_bytes t) in
            if addr \<noteq> INADDR_NONE then SOCKADDR_OK (SA4 addr (addr_port t))
            else
              (case inet6_addr (host_bytes t) of
                 Some a \<Rightarrow> SOCKADDR_OK (SA6 a (addr_port t))
               | None \<Rightarrow> SOCKADDR_DECLINED)
          else if addr_type t = ADDR_IPV6 then
            if addr_host_len t \<noteq> 16 then SOCKADDR_ERROR
            else SOCKADDR_OK (SA6 (take 16 (addr_host t)) (addr_port t))
          else SOCKADDR_ERROR)"

definition route_rules_match_target ::
    "(bytes \<Rightarrow> u32) \<Rightarrow> (bytes \<Rightarrow> bytes option) \<Rightarrow> route_rules option \<Rightarrow> addr_t option \<Rightarrow> rule_match" where
  "route_rules_match_target inet_addr inet6_addr grp target =
     (case target of
        None \<Rightarrow> RULE_NOT_APPLICABLE
      | Some t \<Rightarrow>
          if addr_type t = ADDR_DOMAIN then
            (case grp of
               None \<Rightarrow> RULE_NO_MATCH
             | Some g \<Rightarrow>
                 if rr_domains g = [] then RULE_NO_MATCH
                 else route_rules_match_domain grp (host_bytes t))
          else
            (case target_to_sockaddr inet_addr inet6_addr target of
               SOCKADDR_OK sa \<Rightarrow> route_rules_match_ip grp sa
             | _ \<Rightarrow> RULE_NOT_APPLICABLE))"

subsection \<open>Filling a group from the configuration\<close>

definition rules_add_domain ::
    "(bytes \<Rightarrow> (bytes \<Rightarrow> bool) option) \<Rightarrow> route_rules \<Rightarrow> bytes \<Rightarrow> route_rules option" where
  "rules_add_domain regex_compile grp v =
     (if rule_reserved_value v then None
      else
        (case domain_type v of
           None \<Rightarrow> None
         | Some type \<Rightarrow>
             let rule = \<lparr>dr_type = type, dr_value = v, dr_regex = None\<rparr> in
             if type = RULE_DOMAIN_REGEX then
               (case regex_compile (drop 1 v) of
                  None \<Rightarrow> None
                | Some regex \<Rightarrow>
                    Some (grp\<lparr>rr_domains := rr_domains grp @ [rule\<lparr>dr_regex := Some regex\<rparr>]\<rparr>))
             else Some (grp\<lparr>rr_domains := rr_domains grp @ [rule]\<rparr>)))"

definition rules_add_ip :: "(bytes \<Rightarrow> cidr option) \<Rightarrow> route_rules \<Rightarrow> bytes \<Rightarrow> route_rules option" where
  "rules_add_ip ptocidr grp v =
     (if rule_reserved_value v then None
      else
        (case ptocidr v of
           None \<Rightarrow> None
         | Some cidr \<Rightarrow> Some (grp\<lparr>rr_ips := rr_ips grp @ [cidr]\<rparr>)))"

text \<open>One call after the other until one fails.\<close>

fun each :: "('s \<Rightarrow> 'a \<Rightarrow> 's option) \<Rightarrow> 's \<Rightarrow> 'a list \<Rightarrow> 's option" where
  "each f s [] = Some s"
| "each f s (x # xs) = (case f s x of None \<Rightarrow> None | Some s \<Rightarrow> each f s xs)"

definition rules_block ::
    "(route_rules \<Rightarrow> bytes list \<Rightarrow> route_rules option) \<Rightarrow> (bytes \<Rightarrow> (bytes \<Rightarrow> bool) option) \<Rightarrow>
     (bytes \<Rightarrow> cidr option) \<Rightarrow> route_rules \<Rightarrow> bytes list \<Rightarrow> route_rules option" where
  "rules_block conf_include regex_compile ptocidr grp args =
     (if conf_word (args ! 0) ''include'' then
        if length args \<noteq> 2 then None else conf_include grp args
      else if conf_word (args ! 0) ''domain'' then
        if length args < 2 then None
        else each (rules_add_domain regex_compile) grp (drop 1 args)
      else if conf_word (args ! 0) ''ip'' then
        if length args < 2 then None
        else each (rules_add_ip ptocidr) grp (drop 1 args)
      else None)"

definition zero_group :: route_rules where
  "zero_group = \<lparr>rr_tag = [], rr_domains = [], rr_ips = [], rr_exact = zero_mph,
     rr_suffix = zero_mph, rr_regex_domains = None, rr_ipv4 = replicate 33 [],
     rr_ipv6 = replicate 129 [], rr_compiled = False\<rparr>"

text \<open>
  \<open>rules\<close> is the result of \<open>rules_get_conf\<close> (\<open>None\<close>: not a level with rules) with its \<open>groups\<close>
  (\<open>None\<close>: no array yet); \<open>block\<close> holds the directives of the block.
\<close>

definition route_rules_block ::
    "(route_rules \<Rightarrow> bytes list \<Rightarrow> route_rules option) \<Rightarrow> (bytes \<Rightarrow> (bytes \<Rightarrow> bool) option) \<Rightarrow>
     (bytes \<Rightarrow> cidr option) \<Rightarrow> route_rules list option option \<Rightarrow> bytes list \<Rightarrow> bytes list list \<Rightarrow>
     route_rules list option" where
  "route_rules_block conf_include regex_compile ptocidr rules args block =
     (case rules of
        None \<Rightarrow> None
      | Some groups_ptr \<Rightarrow>
          let groups = (case groups_ptr of None \<Rightarrow> [] | Some groups \<Rightarrow> groups) in
          if rules_tag_exists groups (args ! 1) then None
          else
            let grp = zero_group\<lparr>rr_tag := args ! 1\<rparr> in
            (case each (rules_block conf_include regex_compile ptocidr) grp block of
               None \<Rightarrow> None
             | Some grp \<Rightarrow> Some (groups @ [grp])))"

subsection \<open>Compiling\<close>

definition add_rule_entry ::
    "build_entry list \<times> build_entry list \<times> domain_rule list option \<Rightarrow> domain_rule \<Rightarrow>
     (build_entry list \<times> build_entry list \<times> domain_rule list option) option" where
  "add_rule_entry st rule =
     (let (exact, suffix, regex_domains) = st in
      case dr_type rule of
        RULE_DOMAIN_EXACT \<Rightarrow>
          (case add_domain_entry exact (dr_value rule) 0 of
             None \<Rightarrow> None | Some exact \<Rightarrow> Some (exact, suffix, regex_domains))
      | RULE_DOMAIN_SUFFIX \<Rightarrow>
          (case add_domain_entry suffix (drop 1 (dr_value rule)) SUFFIX_INCLUDE_ROOT of
             None \<Rightarrow> None | Some suffix \<Rightarrow> Some (exact, suffix, regex_domains))
      | RULE_DOMAIN_WILDCARD \<Rightarrow>
          (case add_domain_entry suffix (drop 2 (dr_value rule)) 0 of
             None \<Rightarrow> None | Some suffix \<Rightarrow> Some (exact, suffix, regex_domains))
      | RULE_DOMAIN_REGEX \<Rightarrow>
          Some (exact, suffix,
            Some ((case regex_domains of None \<Rightarrow> [] | Some rs \<Rightarrow> rs) @ [rule])))"

definition compile_domains :: "route_rules \<Rightarrow> route_rules option" where
  "compile_domains grp =
     (if rr_domains grp = [] then Some grp
      else
        (case each add_rule_entry ([], [], rr_regex_domains grp) (rr_domains grp) of
           None \<Rightarrow> None
         | Some (exact, suffix, regex_domains) \<Rightarrow>
             (case build_domain_mph exact (rr_exact grp) of
                None \<Rightarrow> None
              | Some exact_mph \<Rightarrow>
                  (case build_domain_mph suffix (rr_suffix grp) of
                     None \<Rightarrow> None
                   | Some suffix_mph \<Rightarrow>
                       Some (grp\<lparr>rr_regex_domains := regex_domains, rr_exact := exact_mph,
                         rr_suffix := suffix_mph\<rparr>)))))"

definition compile_group_ips :: "route_rules \<Rightarrow> route_rules" where
  "compile_group_ips grp =
     (if rr_ips grp = [] then grp
      else let (ipv4, ipv6) = compile_ips (rr_ips grp) in
        grp\<lparr>rr_ipv4 := ipv4, rr_ipv6 := ipv6\<rparr>)"

definition route_rules_compile :: "route_rules \<Rightarrow> route_rules option" where
  "route_rules_compile grp =
     (if rr_compiled grp then Some grp
      else
        (case compile_domains grp of
           None \<Rightarrow> None
         | Some grp \<Rightarrow> Some ((compile_group_ips grp)\<lparr>rr_compiled := True\<rparr>)))"

definition rules_compile :: "route_rules list option \<Rightarrow> route_rules list option option" where
  "rules_compile rules =
     (case rules of
        None \<Rightarrow> Some None
      | Some groups \<Rightarrow>
          (case each (\<lambda>acc grp. map_option (\<lambda>g. acc @ [g]) (route_rules_compile grp)) [] groups of
             None \<Rightarrow> None
           | Some groups \<Rightarrow> Some (Some groups)))"

end
