(* ===== verification/Mt_Compile.thy ===== *)
theory Mt_Compile
  imports Mt_Rules
begin

text \<open>
  Compiling does not change what the rules match: the tables built by \<open>route_rules_compile\<close>
  against the list of rules they were built from, for addresses and for host names, and the
  configuration of groups with their tags.
\<close>

subsection \<open>Letters and string comparison\<close>

lemma tolower_small: "d < 65 \<Longrightarrow> ngx_tolower c = d \<longleftrightarrow> c = d"
proof -
  assume d: "d < 65"
  have "c OR 32 \<noteq> d" if "65 \<le> c"
    using le_word_or2 [of c 32] that d by (metis leD order.trans)
  moreover have "\<not> 65 \<le> d" using d by (simp add: not_le)
  ultimately show ?thesis by (auto simp: ngx_tolower_def)
qed

lemma tolower_0 [simp]: "ngx_tolower c = 0 \<longleftrightarrow> c = 0"
  by (rule tolower_small) simp

lemma tolower_dot [simp]: "ngx_tolower c = 46 \<longleftrightarrow> c = 46"
  by (rule tolower_small) simp

abbreviation lower :: "bytes \<Rightarrow> bytes" where
  "lower \<equiv> map ngx_tolower"

lemma strncasecmp_0:
  "0 \<notin> set b \<Longrightarrow> length a = n \<Longrightarrow> length b = n \<Longrightarrow> strncasecmp a b n = 0 \<longleftrightarrow> lower a = lower b"
proof (induction n arbitrary: a b)
  case (Suc n)
  obtain x a' where a: "a = x # a'" "length a' = n" using Suc.prems(2) by (cases a) auto
  obtain y b' where b: "b = y # b'" "length b' = n" using Suc.prems(3) by (cases b) auto
  have "y \<noteq> 0" "0 \<notin> set b'" using Suc.prems(1) by (auto simp: b)
  moreover have "x = 0 \<Longrightarrow> ngx_tolower x = ngx_tolower y \<Longrightarrow> y = 0"
    by (metis tolower_0)
  moreover have "uint u - uint v = 0 \<longleftrightarrow> u = v" for u v :: byte
    by (simp add: word_uint_eq_iff)
  ultimately show ?case using Suc.IH [OF _ a(2) b(2)] by (auto simp: a(1) b(1))
qed simp

lemma strncmp_0_no_nul:
  "0 \<notin> set b \<Longrightarrow> length a = n \<Longrightarrow> length b = n \<Longrightarrow> strncmp a b n = 0 \<longleftrightarrow> a = b"
proof (induction n arbitrary: a b)
  case (Suc n)
  then show ?case by (cases a; cases b) (auto simp: word_uint_eq_iff)
qed simp

lemma strncmp_refl [simp]: "strncmp a a n = 0"
proof (induction n arbitrary: a)
  case (Suc n)
  then show ?case by (cases a) auto
qed simp

subsection \<open>Addresses\<close>

text \<open>Any use of the buckets of \<open>compile_ips\<close> starts here.\<close>

lemma canonical_facts:
  assumes "\<forall>c \<in> set ips. cidr_canonical c"
  shows "\<forall>c \<in> set ips. prefix_ok c" "\<forall>a m. CIDR6 a m \<in> set ips \<longrightarrow> length a = 16"
    "\<And>a m. CIDR4 a m \<in> set ips \<Longrightarrow>
       ipv4_prefix m < 33 \<and> ipv4_mask (ipv4_prefix m) = m \<and> a AND m = a"
    "\<And>a m. CIDR6 a m \<in> set ips \<Longrightarrow>
       ipv6_prefix m < 129 \<and> ipv6_mask ones16 (ipv6_prefix m) = m \<and> ipv6_mask a (ipv6_prefix m) = a"
  using assms by (fastforce dest: prefix_ok_canonical)+

lemma match_ipv4_compiled:
  assumes "\<forall>c \<in> set ips. cidr_canonical c"
  shows "match_ipv4 (fst (compile_ips ips)) addr \<longleftrightarrow>
    (\<exists>c \<in> set ips. rule_ip_match (Some c) (Some (SA4 addr port)))"
proof -
  note C = canonical_facts [OF assms]
  have "match_ipv4 (fst (compile_ips ips)) addr \<longleftrightarrow>
      (\<exists>p < 33. ipv4_find (fst (compile_ips ips) ! p) (addr AND ipv4_mask p))"
    by (force simp: match_ipv4_def list_ex_iff ipv4_find_def)
  also have "\<dots> \<longleftrightarrow> (\<exists>p < 33. addr AND ipv4_mask p \<in> addrs4 ips p)"
    using compile_ips_find(1) [OF C(1,2), of "replicate 16 0"] by (metis length_replicate)
  also have "\<dots> \<longleftrightarrow> (\<exists>a m. CIDR4 a m \<in> set ips \<and> addr AND m = a)"
    (is "?l \<longleftrightarrow> ?r")
  proof
    assume ?l
    then obtain p a m where "addr AND ipv4_mask p = a AND ipv4_mask p" "CIDR4 a m \<in> set ips"
      "ipv4_prefix m = p" by (auto simp: addrs4_def)
    with C(3) [of a m] show ?r by auto
  next
    assume ?r
    then obtain a m where am: "CIDR4 a m \<in> set ips" "addr AND m = a" by blast
    have "a AND ipv4_mask (ipv4_prefix m) \<in> addrs4 ips (ipv4_prefix m)"
      using am(1) unfolding addrs4_def by blast
    with C(3) [OF am(1)] am(2) show ?l by (intro exI [of _ "ipv4_prefix m"]) simp
  qed
  also have "\<dots> \<longleftrightarrow> (\<exists>c \<in> set ips. rule_ip_match (Some c) (Some (SA4 addr port)))"
  proof -
    have "rule_ip_match (Some c) (Some (SA4 addr port)) \<longleftrightarrow> (\<exists>a m. c = CIDR4 a m \<and> addr AND m = a)" for c
      by (cases c) auto
    then show ?thesis by auto
  qed
  finally show ?thesis .
qed

lemma match_ipv6_compiled:
  assumes "\<forall>c \<in> set ips. cidr_canonical c" "length addr = 16"
  shows "match_ipv6 (snd (compile_ips ips)) addr \<longleftrightarrow>
    (\<exists>c \<in> set ips. rule_ip_match (Some c) (Some (SA6 addr port)))"
proof -
  note C = canonical_facts [OF assms(1)]
  have loop: "list_all (\<lambda>n. addr ! n AND m ! n = a ! n) [0 ..< 16] \<longleftrightarrow> ipv6_mask addr (ipv6_prefix m) = a"
    if "CIDR6 a m \<in> set ips" for a m
  proof -
    have la: "length a = 16" using C(2) that by blast
    have lm: "length m = 16" and m: "ipv6_mask ones16 (ipv6_prefix m) = m"
      using C(4) [OF that] length_ipv6_mask [of ones16 "ipv6_prefix m"]
      by (simp_all add: ones16_def)
    have "ipv6_mask addr (ipv6_prefix m) = map2 (AND) addr m"
      using ipv6_mask_and [of addr "ipv6_prefix m"] m assms(2) by (simp add: ones16_def)
    then show ?thesis
      using assms(2) la lm by (auto simp: list_eq_iff_nth_eq list_all_iff)
  qed
  have "match_ipv6 (snd (compile_ips ips)) addr \<longleftrightarrow>
      (\<exists>p < 129. ipv6_find (snd (compile_ips ips) ! p) (ipv6_mask addr p))"
    by (force simp: match_ipv6_def list_ex_iff ipv6_find_def)
  also have "\<dots> \<longleftrightarrow> (\<exists>p < 129. ipv6_mask addr p \<in> addrs6 ips p)"
    using compile_ips_find(2) [OF C(1,2)] assms(2) by (metis length_ipv6_mask)
  also have "\<dots> \<longleftrightarrow> (\<exists>a m. CIDR6 a m \<in> set ips \<and> ipv6_mask addr (ipv6_prefix m) = a)"
    (is "?l \<longleftrightarrow> ?r")
  proof
    assume ?l
    then obtain p a m where "ipv6_mask addr p = ipv6_mask a p" "CIDR6 a m \<in> set ips"
      "ipv6_prefix m = p" by (auto simp: addrs6_def)
    with C(4) [of a m] show ?r by auto
  next
    assume ?r
    then obtain a m where am: "CIDR6 a m \<in> set ips" "ipv6_mask addr (ipv6_prefix m) = a" by blast
    have "ipv6_mask a (ipv6_prefix m) \<in> addrs6 ips (ipv6_prefix m)"
      using am(1) unfolding addrs6_def by blast
    with C(4) [OF am(1)] am(2) show ?l by (intro exI [of _ "ipv6_prefix m"]) simp
  qed
  also have "\<dots> \<longleftrightarrow> (\<exists>c \<in> set ips. rule_ip_match (Some c) (Some (SA6 addr port)))"
  proof -
    have "c \<in> set ips \<Longrightarrow> rule_ip_match (Some c) (Some (SA6 addr port)) \<longleftrightarrow>
        (\<exists>a m. c = CIDR6 a m \<and> ipv6_mask addr (ipv6_prefix m) = a)" for c
      using loop by (cases c) auto
    then show ?thesis by auto
  qed
  finally show ?thesis .
qed

subsection \<open>Host names\<close>

lemma each_append: "each f s (xs @ ys) = (case each f s xs of None \<Rightarrow> None | Some s \<Rightarrow> each f s ys)"
  by (induction xs arbitrary: s) (auto split: option.splits)

text \<open>The keys a rule contributes, in lower case.\<close>

definition exact_keys :: "domain_rule list \<Rightarrow> bytes set" where
  "exact_keys rules = {lower (dr_value r) | r. r \<in> set rules \<and> dr_type r = RULE_DOMAIN_EXACT}"

definition suffix_keys :: "domain_rule list \<Rightarrow> bytes set" where
  "suffix_keys rules = {lower (drop 1 (dr_value r)) | r. r \<in> set rules \<and> dr_type r = RULE_DOMAIN_SUFFIX}"

definition wildcard_keys :: "domain_rule list \<Rightarrow> bytes set" where
  "wildcard_keys rules =
     {lower (drop 2 (dr_value r)) | r. r \<in> set rules \<and> dr_type r = RULE_DOMAIN_WILDCARD}"

lemma keys_Nil [simp]: "exact_keys [] = {}" "suffix_keys [] = {}" "wildcard_keys [] = {}"
  by (auto simp: exact_keys_def suffix_keys_def wildcard_keys_def)

lemma keys_snoc:
  "exact_keys (rs @ [r]) =
     exact_keys rs \<union> (if dr_type r = RULE_DOMAIN_EXACT then {lower (dr_value r)} else {})"
  "suffix_keys (rs @ [r]) =
     suffix_keys rs \<union> (if dr_type r = RULE_DOMAIN_SUFFIX then {lower (drop 1 (dr_value r))} else {})"
  "wildcard_keys (rs @ [r]) =
     wildcard_keys rs \<union> (if dr_type r = RULE_DOMAIN_WILDCARD then {lower (drop 2 (dr_value r))} else {})"
  by (auto simp: exact_keys_def suffix_keys_def wildcard_keys_def)

abbreviation regex_list :: "domain_rule list option \<Rightarrow> domain_rule list" where
  "regex_list rs \<equiv> (case rs of None \<Rightarrow> [] | Some rs \<Rightarrow> rs)"

abbreviation value_bytes :: "domain_rule list \<Rightarrow> nat" where
  "value_bytes rules \<equiv> sum_list (map (\<lambda>r. length (dr_value r)) rules)"

definition entries_inv ::
    "domain_rule list \<Rightarrow> build_entry list \<times> build_entry list \<times> domain_rule list option \<Rightarrow> bool" where
  "entries_inv rules st \<longleftrightarrow>
     (case st of (exact, suffix, regex_domains) \<Rightarrow>
        (\<forall>e \<in> set exact \<union> set suffix. entry_ok e) \<and>
        be_key ` set exact = exact_keys rules \<and>
        be_key ` set suffix = suffix_keys rules \<union> wildcard_keys rules \<and>
        (\<forall>key. or_flags key suffix AND SUFFIX_INCLUDE_ROOT \<noteq> 0 \<longleftrightarrow> key \<in> suffix_keys rules) \<and>
        regex_list regex_domains = filter (\<lambda>r. dr_type r = RULE_DOMAIN_REGEX) rules \<and>
        key_bytes exact + key_bytes suffix \<le> value_bytes rules)"

lemma or_flags_root:
  "(f OR g) AND SUFFIX_INCLUDE_ROOT \<noteq> 0 \<longleftrightarrow>
     f AND SUFFIX_INCLUDE_ROOT \<noteq> 0 \<or> g AND SUFFIX_INCLUDE_ROOT \<noteq> 0"
  by (simp add: SUFFIX_INCLUDE_ROOT_def and_one_eq mod_2_eq_odd even_or_iff)

lemma root_and: "SUFFIX_INCLUDE_ROOT AND SUFFIX_INCLUDE_ROOT \<noteq> 0" "0 AND SUFFIX_INCLUDE_ROOT = 0"
  "SUFFIX_INCLUDE_ROOT \<noteq> 0"
  by (simp_all add: SUFFIX_INCLUDE_ROOT_def)

lemma add_rule_entry_inv:
  assumes "entries_inv rules st" "add_rule_entry st rule = Some st'"
  shows "entries_inv (rules @ [rule]) st'"
proof -
  obtain ex su rg where st: "st = (ex, su, rg)" by (cases st)
  note I = assms(1) [unfolded entries_inv_def st prod.case]
  have B: "key_bytes ex + key_bytes su \<le> value_bytes rules" using I by blast
  show ?thesis
  proof (cases "dr_type rule")
    case RULE_DOMAIN_EXACT
    then obtain es where a: "add_domain_entry ex (dr_value rule) 0 = Some es" and st': "st' = (es, su, rg)"
      using assms(2) by (auto simp: st add_rule_entry_def split: option.splits)
    from a have es: "es = ex @ [\<lparr>be_key = lower (dr_value rule), be_flags = 0,
        be_hash = rules_hash (lower (dr_value rule)) 0\<rparr>]"
      by (simp add: add_domain_entry_def Let_def split: if_splits)
    have "\<forall>e \<in> set es. entry_ok e" using add_domain_entry_ok [OF a] I by blast
    then show ?thesis
      using I B RULE_DOMAIN_EXACT by (simp add: st' entries_inv_def keys_snoc es or_flags_root root_and ball_Un)
  next
    case RULE_DOMAIN_SUFFIX
    then obtain es where a: "add_domain_entry su (drop 1 (dr_value rule)) SUFFIX_INCLUDE_ROOT = Some es" and st': "st' = (ex, es, rg)"
      using assms(2) by (auto simp: st add_rule_entry_def split: option.splits)
    from a have es: "es = su @ [\<lparr>be_key = lower (drop 1 (dr_value rule)), be_flags = SUFFIX_INCLUDE_ROOT,
        be_hash = rules_hash (lower (drop 1 (dr_value rule))) 0\<rparr>]"
      by (simp add: add_domain_entry_def Let_def split: if_splits)
    have "\<forall>e \<in> set es. entry_ok e" using add_domain_entry_ok [OF a] I by blast
    then show ?thesis
      using I B RULE_DOMAIN_SUFFIX by (simp add: st' entries_inv_def keys_snoc es or_flags_root root_and ball_Un)
  next
    case RULE_DOMAIN_WILDCARD
    then obtain es where a: "add_domain_entry su (drop 2 (dr_value rule)) 0 = Some es" and st': "st' = (ex, es, rg)"
      using assms(2) by (auto simp: st add_rule_entry_def split: option.splits)
    from a have es: "es = su @ [\<lparr>be_key = lower (drop 2 (dr_value rule)), be_flags = 0,
        be_hash = rules_hash (lower (drop 2 (dr_value rule))) 0\<rparr>]"
      by (simp add: add_domain_entry_def Let_def split: if_splits)
    have "\<forall>e \<in> set es. entry_ok e" using add_domain_entry_ok [OF a] I by blast
    then show ?thesis
      using I B RULE_DOMAIN_WILDCARD by (simp add: st' entries_inv_def keys_snoc es or_flags_root root_and ball_Un)
  next
    case RULE_DOMAIN_REGEX
    then show ?thesis
      using assms(2) I by (auto simp: st add_rule_entry_def entries_inv_def keys_snoc)
  qed
qed

lemma each_add_rule_entry:
  "each add_rule_entry ([], [], None) rules = Some st \<Longrightarrow> entries_inv rules st"
proof (induction rules arbitrary: st rule: rev_induct)
  case Nil
  then show ?case by (auto simp: entries_inv_def root_and)
next
  case (snoc r rules)
  then obtain st' where "each add_rule_entry ([], [], None) rules = Some st'"
    "add_rule_entry st' r = Some st"
    by (auto simp: each_append split: option.splits)
  with snoc.IH show ?case by (blast intro: add_rule_entry_inv)
qed

text \<open>What the interpreted match means for a rule without NUL bytes.\<close>

definition dot_suffix :: "bytes \<Rightarrow> bytes \<Rightarrow> bool" where
  "dot_suffix host suffix \<longleftrightarrow>
     length suffix + 1 < length host \<and> host ! (length host - length suffix - 1) = 46 \<and>
     lower (drop (length host - length suffix) host) = lower suffix"

lemma drop_nul: "0 \<notin> set v \<Longrightarrow> 0 \<notin> set (drop k v)"
  using set_drop_subset [of k v] by blast

lemma rule_domain_match_iff:
  assumes "0 \<notin> set (dr_value r)" "host \<noteq> []"
  shows "dr_type r = RULE_DOMAIN_EXACT \<Longrightarrow>
      rule_domain_match (Some r) (Some host) \<longleftrightarrow> lower host = lower (dr_value r)"
    "dr_type r = RULE_DOMAIN_SUFFIX \<Longrightarrow>
      rule_domain_match (Some r) (Some host) \<longleftrightarrow>
        lower host = lower (drop 1 (dr_value r)) \<or> dot_suffix host (drop 1 (dr_value r))"
    "dr_type r = RULE_DOMAIN_WILDCARD \<Longrightarrow>
      rule_domain_match (Some r) (Some host) \<longleftrightarrow> dot_suffix host (drop 2 (dr_value r))"
    "dr_type r = RULE_DOMAIN_REGEX \<Longrightarrow>
      rule_domain_match (Some r) (Some host) \<longleftrightarrow> regex_exec (dr_regex r) host"
proof -
  show "rule_domain_match (Some r) (Some host) \<longleftrightarrow> lower host = lower (dr_value r)"
    if "dr_type r = RULE_DOMAIN_EXACT"
  proof (cases "length host = length (dr_value r)")
    case True
    then show ?thesis
      using strncasecmp_0 [OF assms(1) True refl] that assms(2)
      by (simp add: rule_domain_match_def)
  next
    case False
    then have "lower host \<noteq> lower (dr_value r)" by (metis length_map)
    then show ?thesis using that False by (simp add: rule_domain_match_def)
  qed
  have tail: "strncasecmp (drop (length host - length s) host) s (length s) = 0 \<longleftrightarrow>
      lower (drop (length host - length s) host) = lower s"
    if "length s \<le> length host" "0 \<notin> set s" for s
    using that by (intro strncasecmp_0) auto
  show "rule_domain_match (Some r) (Some host) \<longleftrightarrow>
        lower host = lower (drop 1 (dr_value r)) \<or> dot_suffix host (drop 1 (dr_value r))"
    if t: "dr_type r = RULE_DOMAIN_SUFFIX"
  proof -
    define s where "s = drop 1 (dr_value r)"
    have s: "0 \<notin> set s" "length s = length (dr_value r) - 1"
      using drop_nul [OF assms(1)] by (simp_all add: s_def)
    have "length host = length s \<Longrightarrow> strncasecmp host s (length host) = 0 \<longleftrightarrow> lower host = lower s"
      using strncasecmp_0 [OF s(1)] by metis
    moreover have "length host \<noteq> length s \<Longrightarrow> lower host \<noteq> lower s" by (metis length_map)
    moreover have "rule_domain_match (Some r) (Some host) \<longleftrightarrow>
        (if length host = length s then strncasecmp host s (length host) = 0
         else if length host \<le> length s + 1 then False
         else if host ! (length host - length s - 1) \<noteq> 46 then False
         else strncasecmp (drop (length host - length s) host) s (length s) = 0)"
      using t assms(2) by (simp add: rule_domain_match_def Let_def s_def)
    ultimately show ?thesis
      using tail [of s] s(1) unfolding s_def [symmetric] dot_suffix_def
      by (auto simp del: diff_diff_left)
  qed
  show "rule_domain_match (Some r) (Some host) \<longleftrightarrow> dot_suffix host (drop 2 (dr_value r))"
    if t: "dr_type r = RULE_DOMAIN_WILDCARD"
  proof -
    define s where "s = drop 2 (dr_value r)"
    have s: "0 \<notin> set s" "length s = length (dr_value r) - 2"
      using drop_nul [OF assms(1)] by (simp_all add: s_def)
    moreover have "rule_domain_match (Some r) (Some host) \<longleftrightarrow>
        (if length host \<le> length s + 1 then False
         else if host ! (length host - length s - 1) \<noteq> 46 then False
         else strncasecmp (drop (length host - length s) host) s (length s) = 0)"
      using t assms(2) by (simp add: rule_domain_match_def Let_def s_def)
    ultimately show ?thesis
      using tail [of s] unfolding s_def [symmetric] dot_suffix_def
      by (auto simp del: diff_diff_left)
  qed
  show "rule_domain_match (Some r) (Some host) \<longleftrightarrow> regex_exec (dr_regex r) host"
    if "dr_type r = RULE_DOMAIN_REGEX"
    using that assms(2) by (simp add: rule_domain_match_def)
qed

text \<open>The compiled loop over the dots of the name finds the same suffixes, when no dot comes first.\<close>

lemma dots_iff:
  assumes "host ! 0 \<noteq> 46" "suffix \<noteq> []"
  shows "dot_suffix host suffix \<longleftrightarrow>
    (\<exists>i < length host. lower host ! i = 46 \<and> drop (i + 1) (lower host) = lower suffix)"
proof
  assume d: "dot_suffix host suffix"
  define i where "i = length host - length suffix - 1"
  have "i < length host" "i + 1 = length host - length suffix" "host ! i = 46"
    using d by (auto simp: dot_suffix_def i_def)
  then show "\<exists>i < length host. lower host ! i = 46 \<and> drop (i + 1) (lower host) = lower suffix"
    using d by (intro exI [of _ i]) (simp add: dot_suffix_def drop_map)
next
  assume "\<exists>i < length host. lower host ! i = 46 \<and> drop (i + 1) (lower host) = lower suffix"
  then obtain i where i: "i < length host" "lower host ! i = 46"
    and dr: "drop (i + 1) (lower host) = lower suffix" by blast
  from dr have "length (drop (i + 1) (lower host)) = length (lower suffix)" by simp
  then have l: "length host - (i + 1) = length suffix" by simp
  have h: "host ! i = 46" using i by simp
  have "i \<noteq> 0"
  proof
    assume "i = 0"
    with h assms(1) show False by simp
  qed
  then have "length suffix + 1 < length host" "length host - length suffix - 1 = i"
    "length host - length suffix = i + 1" using l i(1) by auto
  with dr h show "dot_suffix host suffix" by (simp add: dot_suffix_def drop_map)
qed

subsection \<open>A compiled group\<close>

definition fresh_group :: "route_rules \<Rightarrow> bool" where
  "fresh_group g \<longleftrightarrow> \<not> rr_compiled g \<and> rr_exact g = zero_mph \<and> rr_suffix g = zero_mph \<and>
     rr_regex_domains g = None"

lemma compile_group_facts:
  assumes "route_rules_compile g = Some g'" "\<not> rr_compiled g"
  shows "rr_compiled g'" "rr_domains g' = rr_domains g" "rr_ips g' = rr_ips g"
    "rr_tag g' = rr_tag g"
    "rr_ips g \<noteq> [] \<Longrightarrow> (rr_ipv4 g', rr_ipv6 g') = compile_ips (rr_ips g)"
    "\<exists>d. compile_domains g = Some d \<and> rr_exact g' = rr_exact d \<and> rr_suffix g' = rr_suffix d \<and>
       rr_regex_domains g' = rr_regex_domains d"
proof -
  from assms obtain d where d: "compile_domains g = Some d"
    and g': "g' = (compile_group_ips d)\<lparr>rr_compiled := True\<rparr>"
    by (auto simp: route_rules_compile_def split: option.splits)
  have "rr_domains d = rr_domains g" "rr_ips d = rr_ips g" "rr_tag d = rr_tag g"
    using d by (auto simp: compile_domains_def split: if_splits option.splits)
  then show "rr_compiled g'" "rr_domains g' = rr_domains g" "rr_ips g' = rr_ips g"
    "rr_tag g' = rr_tag g"
    "rr_ips g \<noteq> [] \<Longrightarrow> (rr_ipv4 g', rr_ipv6 g') = compile_ips (rr_ips g)"
    "\<exists>d. compile_domains g = Some d \<and> rr_exact g' = rr_exact d \<and> rr_suffix g' = rr_suffix d \<and>
       rr_regex_domains g' = rr_regex_domains d"
    using d by (auto simp: g' compile_group_ips_def split: prod.splits)
qed

text \<open>The tables of a compiled group answer for the keys of its rules.\<close>

lemma compiled_tables:
  assumes "compile_domains g = Some d" "fresh_group g" "rr_domains g \<noteq> []"
    and "value_bytes (rr_domains g) < 2 ^ 32"
  shows "domain_mph_find (rr_exact d) key \<noteq> None \<longleftrightarrow> key \<in> exact_keys (rr_domains g)"
    "domain_mph_find (rr_suffix d) key \<noteq> None \<longleftrightarrow>
       key \<in> suffix_keys (rr_domains g) \<union> wildcard_keys (rr_domains g)"
    "(case domain_mph_find (rr_suffix d) key of
        Some slot \<Rightarrow> slot_flags slot AND SUFFIX_INCLUDE_ROOT \<noteq> 0
      | None \<Rightarrow> False) \<longleftrightarrow> key \<in> suffix_keys (rr_domains g)"
    "regex_list (rr_regex_domains d) = filter (\<lambda>r. dr_type r = RULE_DOMAIN_REGEX) (rr_domains g)"
proof -
  obtain ex su rg where e: "each add_rule_entry ([], [], None) (rr_domains g) = Some (ex, su, rg)"
    and bx: "build_domain_mph ex zero_mph = Some (rr_exact d)"
    and bs: "build_domain_mph su zero_mph = Some (rr_suffix d)"
    and rg: "rr_regex_domains d = rg"
    using assms(1-3)
    by (auto simp: compile_domains_def fresh_group_def split: option.splits)
  note I = each_add_rule_entry [OF e, unfolded entries_inv_def prod.case]
  have "key_bytes ex < 2 ^ 32" "key_bytes su < 2 ^ 32" using I assms(4) by linarith+
  then have X: "map_option slot_flags (domain_mph_find (rr_exact d) key) =
      (if key \<in> be_key ` set ex then Some (or_flags key ex) else None)"
    and S: "map_option slot_flags (domain_mph_find (rr_suffix d) key) =
      (if key \<in> be_key ` set su then Some (or_flags key su) else None)"
    using I mph_find_build' [OF bx] mph_find_build' [OF bs] by auto
  show "domain_mph_find (rr_exact d) key \<noteq> None \<longleftrightarrow> key \<in> exact_keys (rr_domains g)"
    using X I by (metis option.map_disc_iff option.distinct(1))
  show "domain_mph_find (rr_suffix d) key \<noteq> None \<longleftrightarrow>
       key \<in> suffix_keys (rr_domains g) \<union> wildcard_keys (rr_domains g)"
    using S I by (metis option.map_disc_iff option.distinct(1))
  show "(case domain_mph_find (rr_suffix d) key of
        Some slot \<Rightarrow> slot_flags slot AND SUFFIX_INCLUDE_ROOT \<noteq> 0
      | None \<Rightarrow> False) \<longleftrightarrow> key \<in> suffix_keys (rr_domains g)"
  proof (cases "domain_mph_find (rr_suffix d) key")
    case None
    with S I show ?thesis by (auto split: if_splits)
  next
    case (Some slot)
    with S have "slot_flags slot = or_flags key su" by (auto split: if_splits)
    with Some I show ?thesis by simp
  qed
  show "regex_list (rr_regex_domains d) = filter (\<lambda>r. dr_type r = RULE_DOMAIN_REGEX) (rr_domains g)"
    using I rg by simp
qed

lemma exists_rule_split:
  assumes "\<forall>r \<in> set rules. 0 \<notin> set (dr_value r)" "host \<noteq> []"
  shows "list_ex (\<lambda>r. rule_domain_match (Some r) (Some host)) rules \<longleftrightarrow>
    lower host \<in> exact_keys rules \<or> lower host \<in> suffix_keys rules \<or>
    (\<exists>r \<in> set rules. dr_type r = RULE_DOMAIN_SUFFIX \<and> dot_suffix host (drop 1 (dr_value r))) \<or>
    (\<exists>r \<in> set rules. dr_type r = RULE_DOMAIN_WILDCARD \<and> dot_suffix host (drop 2 (dr_value r))) \<or>
    list_ex (\<lambda>r. rule_domain_match (Some r) (Some host))
      (filter (\<lambda>r. dr_type r = RULE_DOMAIN_REGEX) rules)"
proof -
  have "rule_domain_match (Some r) (Some host) \<longleftrightarrow>
      dr_type r = RULE_DOMAIN_EXACT \<and> lower host = lower (dr_value r) \<or>
      dr_type r = RULE_DOMAIN_SUFFIX \<and> lower host = lower (drop 1 (dr_value r)) \<or>
      dr_type r = RULE_DOMAIN_SUFFIX \<and> dot_suffix host (drop 1 (dr_value r)) \<or>
      dr_type r = RULE_DOMAIN_WILDCARD \<and> dot_suffix host (drop 2 (dr_value r)) \<or>
      dr_type r = RULE_DOMAIN_REGEX \<and> rule_domain_match (Some r) (Some host)"
    if "r \<in> set rules" for r
    using rule_domain_match_iff [of r host] assms that
    by (cases "dr_type r") auto
  then have "(\<exists>r \<in> set rules. rule_domain_match (Some r) (Some host)) \<longleftrightarrow>
      (\<exists>r \<in> set rules. dr_type r = RULE_DOMAIN_EXACT \<and> lower host = lower (dr_value r) \<or>
        dr_type r = RULE_DOMAIN_SUFFIX \<and> lower host = lower (drop 1 (dr_value r)) \<or>
        dr_type r = RULE_DOMAIN_SUFFIX \<and> dot_suffix host (drop 1 (dr_value r)) \<or>
        dr_type r = RULE_DOMAIN_WILDCARD \<and> dot_suffix host (drop 2 (dr_value r)) \<or>
        dr_type r = RULE_DOMAIN_REGEX \<and> rule_domain_match (Some r) (Some host))"
    by (rule bex_cong [OF refl])
  then show ?thesis
    unfolding list_ex_iff exact_keys_def suffix_keys_def set_filter mem_Collect_eq by blast
qed

text \<open>C16: building the tables does not change the answer for any address: a group compiled from
  the rules \<open>ngx_ptocidr\<close> made matches exactly the addresses the list of rules matches.\<close>

theorem compiled_ip_match:
  assumes "route_rules_compile g = Some g'" "\<not> rr_compiled g"
    and "\<forall>c \<in> set (rr_ips g). cidr_canonical c"
    and "\<forall>a port. sa = SA6 a port \<longrightarrow> length a = 16"
  shows "route_rules_match_ip (Some g') sa = route_rules_match_ip (Some g) sa"
proof (cases "rr_ips g = []")
  case False
  note G = compile_group_facts [OF assms(1,2)]
  have b: "rr_ipv4 g' = fst (compile_ips (rr_ips g))" "rr_ipv6 g' = snd (compile_ips (rr_ips g))"
    using G(5) [OF False] by (metis fst_conv snd_conv)+
  have other: "\<not> list_ex (\<lambda>rule. rule_ip_match (Some rule) (Some SA_other)) (rr_ips g)"
    by (simp add: list_ex_iff)
  show ?thesis
    using assms(2-4) match_ipv4_compiled [OF assms(3)] match_ipv6_compiled [OF assms(3)] other
    by (cases sa) (simp_all add: route_rules_match_ip_def G(1,3) b False list_ex_iff)
qed (use compile_group_facts(3) [OF assms(1,2)] in \<open>simp add: route_rules_match_ip_def\<close>)

definition sample_ip_group :: route_rules where
  "sample_ip_group = zero_group\<lparr>rr_ips := [CIDR4 0x0a000000 (ipv4_mask 8), CIDR6 (replicate 16 0) (ipv6_mask ones16 0)]\<rparr>"

theorem compiled_ip_match_witness:
  "route_rules_match_ip (route_rules_compile sample_ip_group) (SA4 0x0a010203 443) = RULE_MATCH"
proof -
  define g' where "g' = the (route_rules_compile sample_ip_group)"
  have c: "route_rules_compile sample_ip_group = Some g'"
    by (simp add: g'_def sample_ip_group_def route_rules_compile_def compile_domains_def zero_group_def)
  have m: "ipv4_mask 8 = 0xff000000" by (simp add: ipv4_mask_def)
  have p: "ipv4_prefix (ipv4_mask 8) = 8" "ipv6_prefix (ipv6_mask ones16 0) = 0"
    by (simp_all only: ipv4_prefix_mask ipv6_prefix_mask)
  have "route_rules_match_ip (Some g') (SA4 0x0a010203 443) =
      route_rules_match_ip (Some sample_ip_group) (SA4 0x0a010203 443)"
    by (rule compiled_ip_match [OF c])
      (simp_all add: sample_ip_group_def zero_group_def p del: ipv6_mask_0, simp_all add: m)
  also have "\<dots> = RULE_MATCH"
    by (simp add: route_rules_match_ip_def sample_ip_group_def zero_group_def m)
  finally show ?thesis by (simp add: c)
qed

text \<open>C11: and for host names: a group built from the configuration (its rules hold no NUL byte, its
  keys fit the 32-bit offsets) matches every host that does not begin with a dot in the compiled
  tables exactly as in the list of rules, in any letter case, also when an exact rule, a suffix rule
  and a wildcard rule share a key.\<close>

theorem compiled_domain_match:
  assumes "route_rules_compile g = Some g'" "fresh_group g"
    and "\<forall>r \<in> set (rr_domains g). 0 \<notin> set (dr_value r)"
    and "value_bytes (rr_domains g) < 2 ^ 32" "take 1 host \<noteq> [46]"
  shows "route_rules_match_domain (Some g') host = route_rules_match_domain (Some g) host"
proof (cases "rr_domains g = [] \<or> 255 < length host")
  case True
  have "rr_domains g' = rr_domains g"
    using compile_group_facts(2) [OF assms(1)] assms(2) by (simp add: fresh_group_def)
  with True assms(2) show ?thesis by (auto simp: route_rules_match_domain_def fresh_group_def)
next
  case False
  then have ne: "rr_domains g \<noteq> []" and len: "length host \<le> 255" by auto
  have nc: "\<not> rr_compiled g" using assms(2) by (simp add: fresh_group_def)
  note G = compile_group_facts [OF assms(1) nc]
  from G(6) obtain d where d: "compile_domains g = Some d" "rr_exact g' = rr_exact d"
    "rr_suffix g' = rr_suffix d" "rr_regex_domains g' = rr_regex_domains d" by blast
  note T = compiled_tables [OF d(1) assms(2) ne assms(4)]
  define rules where "rules = rr_domains g"
  define re where "re = filter (\<lambda>r. dr_type r = RULE_DOMAIN_REGEX) rules"
  let ?m = "\<lambda>r. rule_domain_match (Some r) (Some host)"
  have regex: "(case rr_regex_domains d of None \<Rightarrow> RULE_NO_MATCH
      | Some rs \<Rightarrow> if list_ex ?m rs then RULE_MATCH else RULE_NO_MATCH) =
      (if list_ex ?m re then RULE_MATCH else RULE_NO_MATCH)"
    using T(4) by (cases "rr_regex_domains d") (auto simp: re_def rules_def)
  have dots: "list_ex (\<lambda>i. lower host ! i = 46 \<and> domain_mph_find (rr_suffix d) (drop (i + 1) (lower host)) \<noteq> None)
        [0 ..< length host] \<longleftrightarrow>
      (\<exists>i < length host. lower host ! i = 46 \<and>
        drop (i + 1) (lower host) \<in> suffix_keys rules \<union> wildcard_keys rules)"
    using T(2) by (auto simp: list_ex_iff rules_def)
  have compiled: "route_rules_match_domain (Some g') host =
      (if lower host \<in> exact_keys rules \<or> lower host \<in> suffix_keys rules \<or>
          (\<exists>i < length host. lower host ! i = 46 \<and>
            drop (i + 1) (lower host) \<in> suffix_keys rules \<union> wildcard_keys rules) \<or> list_ex ?m re
       then RULE_MATCH else RULE_NO_MATCH)"
    using T(1,3) dots regex ne len
    by (simp add: route_rules_match_domain_def G(1,2) d Let_def rules_def) blast
  show ?thesis
  proof (cases "host = []")
    case True
    have "lower host \<notin> exact_keys rules" "lower host \<notin> suffix_keys rules"
      using T(1,2) [of "[]"] True by (auto simp: rules_def domain_mph_find_def)
    moreover have "\<not> list_ex ?m re" "\<not> list_ex ?m rules"
      using True by (simp_all add: list_ex_iff rule_domain_match_def)
    ultimately show ?thesis
      using True nc ne unfolding compiled
      by (simp add: route_rules_match_domain_def rules_def)
  next
    case hne: False
    have h0: "host ! 0 \<noteq> 46" using assms(5) hne by (cases host) auto
    have keyne: "key \<noteq> []" if "lower key \<in> suffix_keys rules \<union> wildcard_keys rules" for key
      using T(2) [of "lower key"] that by (auto simp: rules_def domain_mph_find_def)
    have "(\<exists>i < length host. lower host ! i = 46 \<and>
          drop (i + 1) (lower host) \<in> suffix_keys rules \<union> wildcard_keys rules) \<longleftrightarrow>
        (\<exists>r \<in> set rules. dr_type r = RULE_DOMAIN_SUFFIX \<and> dot_suffix host (drop 1 (dr_value r))) \<or>
        (\<exists>r \<in> set rules. dr_type r = RULE_DOMAIN_WILDCARD \<and> dot_suffix host (drop 2 (dr_value r)))"
      (is "?l \<longleftrightarrow> ?r")
    proof -
      have s: "dot_suffix host (drop 1 (dr_value r)) \<longleftrightarrow>
          (\<exists>i < length host. lower host ! i = 46 \<and> drop (i + 1) (lower host) = lower (drop 1 (dr_value r)))"
        if "r \<in> set rules" "dr_type r = RULE_DOMAIN_SUFFIX" for r
        using that by (intro dots_iff h0 keyne) (auto simp: suffix_keys_def)
      have w: "dot_suffix host (drop 2 (dr_value r)) \<longleftrightarrow>
          (\<exists>i < length host. lower host ! i = 46 \<and> drop (i + 1) (lower host) = lower (drop 2 (dr_value r)))"
        if "r \<in> set rules" "dr_type r = RULE_DOMAIN_WILDCARD" for r
        using that by (intro dots_iff h0 keyne) (auto simp: wildcard_keys_def)
      show ?thesis
        using s w unfolding suffix_keys_def wildcard_keys_def Un_iff mem_Collect_eq by blast
    qed
    moreover have "list_ex ?m rules \<longleftrightarrow> lower host \<in> exact_keys rules \<or> lower host \<in> suffix_keys rules \<or>
        (\<exists>r \<in> set rules. dr_type r = RULE_DOMAIN_SUFFIX \<and> dot_suffix host (drop 1 (dr_value r))) \<or>
        (\<exists>r \<in> set rules. dr_type r = RULE_DOMAIN_WILDCARD \<and> dot_suffix host (drop 2 (dr_value r))) \<or>
        list_ex ?m re"
      unfolding re_def using assms(3) hne by (intro exists_rule_split) (auto simp: rules_def)
    moreover have "route_rules_match_domain (Some g) host =
        (if list_ex ?m rules then RULE_MATCH else RULE_NO_MATCH)"
      using nc ne by (simp add: route_rules_match_domain_def rules_def)
    ultimately show ?thesis unfolding compiled by simp
  qed
qed

definition sample_suffix_group :: route_rules where
  "sample_suffix_group =
     zero_group\<lparr>rr_domains := [\<lparr>dr_type = RULE_DOMAIN_SUFFIX, dr_value = [46, 99, 111], dr_regex = None\<rparr>]\<rparr>"

lemma sample_suffix_compiled: "route_rules_compile sample_suffix_group \<noteq> None"
proof -
  have l: "lower [99, 111] = [99, 111]" by (simp add: ngx_tolower_def)
  have "each add_rule_entry ([], [], None) (rr_domains sample_suffix_group) =
      Some ([], [\<lparr>be_key = [99, 111], be_flags = SUFFIX_INCLUDE_ROOT, be_hash = rules_hash [99, 111] 0\<rparr>], None)"
    using l by (simp add: sample_suffix_group_def add_rule_entry_def add_domain_entry_def Let_def)
  moreover have "rr_domains sample_suffix_group \<noteq> []" "rr_regex_domains sample_suffix_group = None"
    "rr_compiled sample_suffix_group = False"
    by (simp_all add: sample_suffix_group_def zero_group_def)
  ultimately show ?thesis
    using build_single_key [of "\<lparr>be_key = [99, 111], be_flags = SUFFIX_INCLUDE_ROOT, be_hash = rules_hash [99, 111] 0\<rparr>"]
    by (simp add: route_rules_compile_def compile_domains_def build_domain_mph_def [of "[]"] entry_ok_def)
qed

theorem compiled_domain_match_witness:
  "route_rules_match_domain (route_rules_compile sample_suffix_group) [119, 46, 67, 111] = RULE_MATCH"
proof -
  obtain g' where c: "route_rules_compile sample_suffix_group = Some g'"
    using sample_suffix_compiled by auto
  have "route_rules_match_domain (Some g') [119, 46, 67, 111] =
      route_rules_match_domain (Some sample_suffix_group) [119, 46, 67, 111]"
    by (rule compiled_domain_match [OF c])
      (simp_all add: sample_suffix_group_def fresh_group_def zero_group_def)
  also have "\<dots> = RULE_MATCH"
  proof -
    have "strncasecmp [67, 111] [99, 111] (Suc (Suc 0)) = 0" by (simp add: ngx_tolower_def)
    then have "strncasecmp [67, 111] [99, 111] 2 = 0" by (simp only: numeral_2_eq_2)
    then show ?thesis
      by (simp add: route_rules_match_domain_def sample_suffix_group_def zero_group_def
          rule_domain_match_def Let_def ngx_tolower_def)
  qed
  finally show ?thesis by (simp add: c)
qed

text \<open>The condition on the first byte is needed. With the one rule \<open>.co\<close> the list of rules does
  not match the host \<open>.co\<close>, the compiled tables do.\<close>

theorem leading_dot_differs:
  "route_rules_match_domain (Some sample_suffix_group) [46, 99, 111] = RULE_NO_MATCH \<and>
   route_rules_match_domain (route_rules_compile sample_suffix_group) [46, 99, 111] = RULE_MATCH"
proof
  show "route_rules_match_domain (Some sample_suffix_group) [46, 99, 111] = RULE_NO_MATCH"
    by (simp add: route_rules_match_domain_def sample_suffix_group_def zero_group_def
        rule_domain_match_def Let_def)
  obtain g' where c: "route_rules_compile sample_suffix_group = Some g'"
    using sample_suffix_compiled by auto
  have s: "fresh_group sample_suffix_group" "\<not> rr_compiled sample_suffix_group"
    "rr_domains sample_suffix_group \<noteq> []" "value_bytes (rr_domains sample_suffix_group) < 2 ^ 32"
    by (simp_all add: sample_suffix_group_def fresh_group_def zero_group_def)
  note G = compile_group_facts [OF c s(2)]
  from G(6) obtain d where d: "compile_domains sample_suffix_group = Some d"
    "rr_exact g' = rr_exact d" "rr_suffix g' = rr_suffix d" by blast
  define h :: bytes where "h = [46, 99, 111]"
  have l: "lower h = h" "lower [99, 111] = [99, 111]" "length h = 3" "h ! 0 = 46" "drop 1 h = [99, 111]"
    by (simp_all add: ngx_tolower_def h_def)
  have "[99, 111] \<in> suffix_keys (rr_domains sample_suffix_group)"
    using l by (auto simp: suffix_keys_def sample_suffix_group_def)
  then have "domain_mph_find (rr_suffix g') (drop 1 h) \<noteq> None"
    using compiled_tables(2) [OF d(1) s(1,3,4)] d(3) l by auto
  then have "list_ex (\<lambda>i. h ! i = 46 \<and> domain_mph_find (rr_suffix g') (drop (i + 1) h) \<noteq> None) [0 ..< 3]"
    using l(4) by (force simp: list_ex_iff intro: bexI [of _ 0])
  then have "route_rules_match_domain (Some g') h = RULE_MATCH"
    using G(1,2) s(3) by (simp add: route_rules_match_domain_def l Let_def)
  then show "route_rules_match_domain (route_rules_compile sample_suffix_group) [46, 99, 111] = RULE_MATCH"
    by (simp add: c h_def)
qed

subsection \<open>Groups from the configuration\<close>

definition group_wf :: "route_rules \<Rightarrow> bool" where
  "group_wf g \<longleftrightarrow> fresh_group g \<and>
     (\<forall>r \<in> set (rr_domains g). domain_type (dr_value r) = Some (dr_type r) \<and>
        (dr_type r = RULE_DOMAIN_REGEX \<longleftrightarrow> dr_regex r \<noteq> None))"

definition groups_wf :: "route_rules list \<Rightarrow> bool" where
  "groups_wf groups \<longleftrightarrow> distinct (map rr_tag groups) \<and> (\<forall>g \<in> set groups. group_wf g)"

lemma each_inv:
  assumes "\<And>s x s'. I s \<Longrightarrow> x \<in> set xs \<Longrightarrow> f s x = Some s' \<Longrightarrow> I s'"
    and "I s" "each f s xs = Some s'"
  shows "I s'"
  using assms
proof (induction xs arbitrary: s)
  case (Cons x xs)
  from Cons.prems(3) obtain t where t: "f s x = Some t" "each f t xs = Some s'"
    by (auto split: option.splits)
  have "I t" using Cons.prems(1) [OF Cons.prems(2) _ t(1)] by simp
  then show ?case using Cons.IH [OF _ _ t(2)] Cons.prems(1) by (meson list.set_intros(2))
qed simp

lemma rules_add_domain_wf:
  "rules_add_domain rc g v = Some g' \<Longrightarrow> group_wf g \<and> rr_tag g = tag \<Longrightarrow> group_wf g' \<and> rr_tag g' = tag"
  by (auto simp: rules_add_domain_def group_wf_def fresh_group_def Let_def
      split: if_splits option.splits)

lemma rules_add_ip_wf:
  "rules_add_ip pc g v = Some g' \<Longrightarrow> group_wf g \<and> rr_tag g = tag \<Longrightarrow> group_wf g' \<and> rr_tag g' = tag"
  by (auto simp: rules_add_ip_def group_wf_def fresh_group_def split: if_splits option.splits)

lemma rules_block_wf:
  assumes "\<And>g args g'. inc g args = Some g' \<Longrightarrow> group_wf g \<Longrightarrow> group_wf g' \<and> rr_tag g' = rr_tag g"
    and "rules_block inc rc pc g args = Some g'" "group_wf g \<and> rr_tag g = tag"
  shows "group_wf g' \<and> rr_tag g' = tag"
proof -
  have d: "group_wf g' \<and> rr_tag g' = tag" if "each (rules_add_domain rc) g xs = Some g'" for xs
    by (rule each_inv [where I = "\<lambda>g. group_wf g \<and> rr_tag g = tag", OF _ assms(3) that]) (rule rules_add_domain_wf)
  have i: "group_wf g' \<and> rr_tag g' = tag" if "each (rules_add_ip pc) g xs = Some g'" for xs
    by (rule each_inv [where I = "\<lambda>g. group_wf g \<and> rr_tag g = tag", OF _ assms(3) that]) (rule rules_add_ip_wf)
  show ?thesis
    using assms(1) [of g args g'] assms(2,3) d i by (auto simp: rules_block_def split: if_splits)
qed

lemma same_tag_refl [simp]: "same_tag t t"
  by (simp add: same_tag_def)

lemma route_rules_block_wf':
  assumes "\<And>g args g'. inc g args = Some g' \<Longrightarrow> group_wf g \<Longrightarrow> group_wf g' \<and> rr_tag g' = rr_tag g"
    and "route_rules_block inc rc pc (Some gs) args block = Some groups"
    and "groups_wf (case gs of None \<Rightarrow> [] | Some g \<Rightarrow> g)"
  shows "groups_wf groups \<and>
    (0 \<notin> set (args ! 1) \<longrightarrow> map_option rr_tag (rules_find (Some groups) (args ! 1)) = Some (args ! 1))"
proof -
  define old where "old = (case gs of None \<Rightarrow> [] | Some g \<Rightarrow> g)"
  obtain g where fresh_tag: "\<not> rules_tag_exists old (args ! 1)" and g: "groups = old @ [g]"
    and e: "each (rules_block inc rc pc) (zero_group\<lparr>rr_tag := args ! 1\<rparr>) block = Some g"
    using assms(2) by (auto simp: route_rules_block_def old_def Let_def split: if_splits option.splits)
  have z: "group_wf (zero_group\<lparr>rr_tag := args ! 1\<rparr>) \<and> rr_tag (zero_group\<lparr>rr_tag := args ! 1\<rparr>) = args ! 1"
    by (simp add: group_wf_def fresh_group_def zero_group_def)
  have wf: "group_wf g \<and> rr_tag g = args ! 1"
    by (rule each_inv [where I = "\<lambda>g. group_wf g \<and> rr_tag g = args ! 1", OF _ z e])
      (rule rules_block_wf [OF assms(1)])
  have new: "args ! 1 \<notin> rr_tag ` set old"
    using fresh_tag by (auto simp: rules_tag_exists_def list_ex_iff)
  have "groups_wf groups"
    using assms(3) wf new by (auto simp: groups_wf_def g old_def)
  moreover have "map_option rr_tag (rules_find (Some groups) (args ! 1)) = Some (args ! 1)"
    if nul: "0 \<notin> set (args ! 1)"
  proof -
    have "find (\<lambda>g. same_tag (rr_tag g) (args ! 1)) old = None"
      using fresh_tag by (auto simp: find_None_iff rules_tag_exists_def list_ex_iff)
    moreover have "find P (xs @ ys) = (case find P xs of None \<Rightarrow> find P ys | Some x \<Rightarrow> Some x)"
      for P and xs ys :: "route_rules list" by (induction xs) auto
    ultimately show ?thesis using wf by (simp add: rules_find_def g)
  qed
  ultimately show ?thesis by blast
qed



end
