(* ===== verification/Mt_Cache.thy ===== *)
theory Mt_Cache
  imports Mt_Address Mt_Order
begin

text \<open>
  The route cache (\<open>ngx_stream_mtrojan_module.c\<close>, \<open>route_cache_*\<close>): which outbound a target was
  sent to, in hash chains threaded through a fixed array of entries, with a list in order of use
  for replacement; and the links between the entries and the sessions and UDP mappings that use
  them (\<open>route_track_*\<close>, \<open>route_mark_stale\<close>, \<open>route_cache_unlink_active\<close>).

  Pointers to entries, outbounds, sessions and mappings are indices (\<open>None\<close> is \<open>NULL\<close>); a chain
  (\<open>next\<close>) or an \<open>ngx_queue_t\<close> is the list of the indices on it, head first. The entries, sessions
  and mappings of one server are in the record \<open>world\<close>. Milliseconds and seconds do not wrap.
\<close>

subsection \<open>State\<close>

record cache_entry =
  ce_active_tcp :: "nat list"
  ce_active_udp :: "nat list"
  ce_hash :: u64
  ce_generation :: u64
  ce_expires :: int
  ce_type :: byte
  ce_host_len :: nat
  ce_port :: u16
  ce_host :: bytes
  ce_outbound :: "nat option"
  ce_valid :: bool
  ce_ttl :: bool
  ce_refreshing :: bool

record route_cache =
  rc_size :: nat
  rc_buckets_n :: nat
  rc_next_free :: nat
  rc_generation :: u64
  rc_lru :: "nat list"
  rc_buckets :: "nat list list"
  rc_entries :: "cache_entry list"

definition zero_entry :: cache_entry where
  "zero_entry = \<lparr>ce_active_tcp = [], ce_active_udp = [], ce_hash = 0, ce_generation = 0,
     ce_expires = 0, ce_type = 0, ce_host_len = 0, ce_port = 0, ce_host = replicate 255 0,
     ce_outbound = None, ce_valid = False, ce_ttl = False, ce_refreshing = False\<rparr>"

text \<open>The route fields of a session, and a UDP mapping.\<close>

record tcp_track =
  t_outbound :: "nat option"
  t_route_entry :: "nat option"
  t_last_active :: nat
  t_tracked_outbound :: "nat option"
  t_linked :: bool
  t_stale :: bool
  t_read_timer :: "nat option"

record udp_mapping =
  m_hash :: u64
  m_last_seen :: nat
  m_target :: addr_t
  m_outbound :: "nat option"
  m_route_entry :: "nat option"
  m_linked :: bool
  m_stale :: bool

datatype route_resolve = RESOLVE_OFF | RESOLVE_LITERAL | RESOLVE_LAZY
datatype route_drain = DRAIN_IDLE | DRAIN_FAST

record route_conf =
  cf_resolve :: route_resolve
  cf_drain :: route_drain
  cf_udp_timeout :: nat

record world =
  w_conf :: route_conf
  w_cache :: route_cache
  w_tcp :: "nat \<Rightarrow> tcp_track"
  w_udp :: "nat \<Rightarrow> udp_mapping"
  w_maps :: "nat \<Rightarrow> nat list list"
  w_next_mapping :: nat
  w_msec :: nat

definition ROUTE_DRAIN_TIMEOUT :: nat where "ROUTE_DRAIN_TIMEOUT = 1000"
definition UDP_ROUTE_MAPPING_BUCKETS :: nat where "UDP_ROUTE_MAPPING_BUCKETS = 64"

abbreviation entry_of :: "world \<Rightarrow> nat \<Rightarrow> cache_entry" where
  "entry_of w i \<equiv> rc_entries (w_cache w) ! i"

definition set_entry :: "nat \<Rightarrow> (cache_entry \<Rightarrow> cache_entry) \<Rightarrow> world \<Rightarrow> world" where
  "set_entry i f w =
     w\<lparr>w_cache := (w_cache w)\<lparr>rc_entries := (rc_entries (w_cache w))[i := f (entry_of w i)]\<rparr>\<rparr>"

definition set_tcp :: "nat \<Rightarrow> (tcp_track \<Rightarrow> tcp_track) \<Rightarrow> world \<Rightarrow> world" where
  "set_tcp s f w = w\<lparr>w_tcp := (w_tcp w)(s := f (w_tcp w s))\<rparr>"

definition set_udp :: "nat \<Rightarrow> (udp_mapping \<Rightarrow> udp_mapping) \<Rightarrow> world \<Rightarrow> world" where
  "set_udp m f w = w\<lparr>w_udp := (w_udp w)(m := f (w_udp w m))\<rparr>"

subsection \<open>Creation and hash\<close>

text \<open>The loop doubles a 64-bit integer.\<close>

fun buckets_loop :: "nat \<Rightarrow> nat \<Rightarrow> nat \<Rightarrow> nat" where
  "buckets_loop 0 b n = b"
| "buckets_loop (Suc fuel) b n = (if b < n then buckets_loop fuel (sz_mul b 2) n else b)"

definition route_cache_init :: "nat \<Rightarrow> route_cache" where
  "route_cache_init cache_size =
     (let buckets_n = buckets_loop 64 1 (sz_mul cache_size 2) in
      \<lparr>rc_size = cache_size, rc_buckets_n = buckets_n, rc_next_free = 0, rc_generation = 0,
       rc_lru = [], rc_buckets = replicate buckets_n [], rc_entries = replicate cache_size zero_entry\<rparr>)"

definition hash_byte :: "u64 \<Rightarrow> byte \<Rightarrow> u64" where
  "hash_byte hash c = (hash XOR ucast c) * 16777619"

definition route_cache_hash :: "addr_t \<Rightarrow> u64" where
  "route_cache_hash target =
     (let hash = 2166136261;
          hash = hash_byte hash (addr_type target);
          hash = hash_byte hash (ucast (drop_bit 8 (addr_port target)));
          hash = hash_byte hash (ucast (addr_port target)) in
      foldl (\<lambda>hash i.
          let c = addr_host target ! i;
              c = (if addr_type target = ADDR_DOMAIN then ngx_tolower c else c) in
          hash_byte hash c)
        hash [0 ..< addr_host_len target])"

definition chain_of :: "nat \<Rightarrow> u64 \<Rightarrow> nat" where
  "chain_of buckets_n hash = unat hash AND (buckets_n - 1)"

subsection \<open>Lookup\<close>

definition entry_matches :: "cache_entry \<Rightarrow> u64 \<Rightarrow> addr_t \<Rightarrow> bool" where
  "entry_matches e hash target \<longleftrightarrow>
     ce_valid e \<and> ce_hash e = hash \<and> ce_type e = addr_type target
     \<and> ce_host_len e = addr_host_len target \<and> ce_port e = addr_port target
     \<and> (if addr_type target = ADDR_DOMAIN
        then list_all (\<lambda>i. ngx_tolower (addr_host target ! i) = ce_host e ! i)
               [0 ..< addr_host_len target]
        else memcmp (ce_host e) (addr_host target) (addr_host_len target) = 0)"

definition lru_touch :: "nat \<Rightarrow> route_cache \<Rightarrow> route_cache" where
  "lru_touch i cache = cache\<lparr>rc_lru := i # remove1 i (rc_lru cache)\<rparr>"

definition chain_find :: "route_cache \<Rightarrow> addr_t \<Rightarrow> nat option" where
  "chain_find cache target =
     (let hash = route_cache_hash target in
      find (\<lambda>i. entry_matches (rc_entries cache ! i) hash target)
        (rc_buckets cache ! chain_of (rc_buckets_n cache) hash))"

definition route_cache_lookup :: "route_cache \<Rightarrow> addr_t \<Rightarrow> nat option \<times> route_cache" where
  "route_cache_lookup cache target =
     (if addr_host_len target = 0 \<or> addr_host_len target > 255 then (None, cache)
      else
        (case chain_find cache target of
           None \<Rightarrow> (None, cache)
         | Some i \<Rightarrow> (Some i, lru_touch i cache)))"

subsection \<open>Links to sessions and mappings\<close>

definition route_cache_unlink_active :: "nat \<Rightarrow> world \<Rightarrow> world" where
  "route_cache_unlink_active i w =
     (let w = foldl (\<lambda>w s. set_tcp s (\<lambda>t. t\<lparr>t_linked := False, t_stale := False,
                 t_route_entry := None, t_tracked_outbound := None\<rparr>) w)
               w (ce_active_tcp (entry_of w i));
          w = foldl (\<lambda>w m. set_udp m (\<lambda>u. u\<lparr>m_linked := False, m_route_entry := None\<rparr>) w)
               w (ce_active_udp (entry_of w i)) in
      set_entry i (\<lambda>e. e\<lparr>ce_active_tcp := [], ce_active_udp := []\<rparr>) w)"

definition stale_tcp :: "nat \<Rightarrow> world \<Rightarrow> nat \<Rightarrow> world" where
  "stale_tcp old w s =
     (if t_tracked_outbound (w_tcp w s) = Some old
      then set_tcp s (\<lambda>t. t\<lparr>t_stale := True, t_last_active := w_msec w,
             t_read_timer := Some (w_msec w + ROUTE_DRAIN_TIMEOUT)\<rparr>) w
      else w)"

definition stale_udp :: "nat \<Rightarrow> world \<Rightarrow> nat \<Rightarrow> world" where
  "stale_udp old w m =
     (if m_outbound (w_udp w m) = Some old
      then set_udp m (\<lambda>u. u\<lparr>m_stale := True, m_last_seen := w_msec w\<rparr>) w
      else w)"

definition route_mark_stale :: "nat \<Rightarrow> nat option \<Rightarrow> world \<Rightarrow> world" where
  "route_mark_stale i old_outbound w =
     (case old_outbound of
        None \<Rightarrow> w
      | Some old \<Rightarrow>
          let w = foldl (stale_tcp old) w (ce_active_tcp (entry_of w i)) in
          foldl (stale_udp old) w (ce_active_udp (entry_of w i)))"

definition route_cache_update_entry :: "nat \<Rightarrow> nat option \<Rightarrow> bool \<Rightarrow> int \<Rightarrow> world \<Rightarrow> world" where
  "route_cache_update_entry i outbound ttl expires w =
     (if \<not> ce_valid (entry_of w i) then w
      else
        let old_outbound = ce_outbound (entry_of w i);
            w = (if old_outbound \<noteq> outbound then route_mark_stale i old_outbound w else w);
            generation = rc_generation (w_cache w) + 1;
            w = w\<lparr>w_cache := (w_cache w)\<lparr>rc_generation := generation\<rparr>\<rparr> in
        set_entry i (\<lambda>e. e\<lparr>ce_outbound := outbound, ce_ttl := ttl,
          ce_expires := (if ttl then expires else 0), ce_refreshing := False,
          ce_generation := generation\<rparr>) w)"

subsection \<open>Insertion\<close>

text \<open>The next unused entry, or the one used longest ago, taken off its chain.\<close>

definition take_entry :: "world \<Rightarrow> nat \<times> world" where
  "take_entry w =
     (let cache = w_cache w in
      if rc_next_free cache < rc_size cache then
        (rc_next_free cache, w\<lparr>w_cache := cache\<lparr>rc_next_free := rc_next_free cache + 1\<rparr>\<rparr>)
      else
        let i = last (rc_lru cache);
            w = route_cache_unlink_active i w;
            cache = w_cache w;
            b = chain_of (rc_buckets_n cache) (ce_hash (rc_entries cache ! i)) in
        (i, w\<lparr>w_cache := cache\<lparr>rc_lru := remove1 i (rc_lru cache),
              rc_buckets := (rc_buckets cache)[b := remove1 i (rc_buckets cache ! b)]\<rparr>\<rparr>))"

definition fill_entry :: "addr_t \<Rightarrow> u64 \<Rightarrow> u64 \<Rightarrow> nat option \<Rightarrow> bool \<Rightarrow> int \<Rightarrow> cache_entry" where
  "fill_entry target hash generation outbound ttl expires =
     zero_entry\<lparr>ce_valid := True, ce_hash := hash, ce_generation := generation,
       ce_type := addr_type target, ce_host_len := addr_host_len target,
       ce_port := addr_port target, ce_outbound := outbound, ce_ttl := ttl,
       ce_expires := (if ttl then expires else 0),
       ce_host :=
         (if addr_type target = ADDR_DOMAIN
          then poke (ce_host zero_entry) 0 (map (\<lambda>i. ngx_tolower (addr_host target ! i))
                 [0 ..< addr_host_len target])
          else poke (ce_host zero_entry) 0 (take (addr_host_len target) (addr_host target)))\<rparr>"

definition route_cache_insert ::
    "addr_t \<Rightarrow> nat option \<Rightarrow> bool \<Rightarrow> int \<Rightarrow> world \<Rightarrow> nat option \<times> world" where
  "route_cache_insert target outbound ttl expires w =
     (if outbound = None \<or> addr_host_len target = 0 \<or> addr_host_len target > 255 then (None, w)
      else
        (case chain_find (w_cache w) target of
           Some i \<Rightarrow>
             let w = route_cache_update_entry i outbound ttl expires w in
             (Some i, w\<lparr>w_cache := lru_touch i (w_cache w)\<rparr>)
         | None \<Rightarrow>
             let (i, w) = take_entry w;
                 cache = w_cache w;
                 hash = route_cache_hash target;
                 generation = rc_generation cache + 1;
                 b = chain_of (rc_buckets_n cache) hash in
             (Some i, w\<lparr>w_cache := cache\<lparr>rc_generation := generation,
                rc_entries := (rc_entries cache)[i := fill_entry target hash generation outbound ttl expires],
                rc_buckets := (rc_buckets cache)[b := i # rc_buckets cache ! b],
                rc_lru := i # rc_lru cache\<rparr>\<rparr>)))"

subsection \<open>Tracking\<close>

definition route_fast_drain_enabled :: "world \<Rightarrow> bool" where
  "route_fast_drain_enabled w \<longleftrightarrow> cf_resolve (w_conf w) = RESOLVE_LAZY \<and> cf_drain (w_conf w) = DRAIN_FAST"

definition route_untrack_tcp :: "nat \<Rightarrow> world \<Rightarrow> world" where
  "route_untrack_tcp s w =
     (if \<not> t_linked (w_tcp w s) then w
      else
        (case t_route_entry (w_tcp w s) of
           None \<Rightarrow> w
         | Some i \<Rightarrow>
             set_tcp s (\<lambda>t. t\<lparr>t_linked := False, t_stale := False, t_route_entry := None,
                 t_tracked_outbound := None\<rparr>)
               (set_entry i (\<lambda>e. e\<lparr>ce_active_tcp := remove1 s (ce_active_tcp e)\<rparr>) w)))"

definition route_track_tcp :: "nat \<Rightarrow> nat option \<Rightarrow> world \<Rightarrow> world" where
  "route_track_tcp s entry w =
     (case entry of
        None \<Rightarrow> w
      | Some i \<Rightarrow>
          if \<not> route_fast_drain_enabled w \<or> \<not> ce_ttl (entry_of w i) \<or> t_outbound (w_tcp w s) = None
          then w
          else
            let w = (if t_linked (w_tcp w s) then route_untrack_tcp s w else w);
                w = set_entry i (\<lambda>e. e\<lparr>ce_active_tcp := ce_active_tcp e @ [s]\<rparr>) w in
            set_tcp s (\<lambda>t. t\<lparr>t_route_entry := Some i, t_tracked_outbound := t_outbound t,
              t_last_active := w_msec w, t_linked := True, t_stale := False\<rparr>) w)"

definition route_touch_tcp :: "nat \<Rightarrow> world \<Rightarrow> world" where
  "route_touch_tcp s w =
     (if t_linked (w_tcp w s) then set_tcp s (\<lambda>t. t\<lparr>t_last_active := w_msec w\<rparr>) w else w)"

definition route_untrack_udp :: "nat \<Rightarrow> world \<Rightarrow> world" where
  "route_untrack_udp m w =
     (if \<not> m_linked (w_udp w m) then w
      else
        (case m_route_entry (w_udp w m) of
           None \<Rightarrow> w
         | Some i \<Rightarrow>
             set_udp m (\<lambda>u. u\<lparr>m_linked := False, m_stale := False, m_route_entry := None\<rparr>)
               (set_entry i (\<lambda>e. e\<lparr>ce_active_udp := remove1 m (ce_active_udp e)\<rparr>) w)))"

definition route_track_udp :: "nat \<Rightarrow> nat option \<Rightarrow> world \<Rightarrow> world" where
  "route_track_udp m entry w =
     (case entry of
        None \<Rightarrow> w
      | Some i \<Rightarrow>
          if \<not> route_fast_drain_enabled w \<or> \<not> ce_ttl (entry_of w i) then w
          else
            let w = (if m_linked (w_udp w m) then route_untrack_udp m w else w);
                w = set_entry i (\<lambda>e. e\<lparr>ce_active_udp := ce_active_udp e @ [m]\<rparr>) w in
            set_udp m (\<lambda>u. u\<lparr>m_route_entry := Some i, m_linked := True, m_stale := False\<rparr>) w)"

subsection \<open>The mappings of a UDP session\<close>

definition addr_equal :: "addr_t \<Rightarrow> addr_t \<Rightarrow> bool" where
  "addr_equal a b \<longleftrightarrow>
     addr_type a = addr_type b \<and> addr_host_len a = addr_host_len b \<and> addr_port a = addr_port b
     \<and> (if addr_type a = ADDR_DOMAIN
        then list_all (\<lambda>i. ngx_tolower (addr_host a ! i) = ngx_tolower (addr_host b ! i))
               [0 ..< addr_host_len a]
        else memcmp (addr_host a) (addr_host b) (addr_host_len a) = 0)"

definition mapping_expired :: "world \<Rightarrow> nat \<Rightarrow> bool" where
  "mapping_expired w m \<longleftrightarrow>
     m_stale (w_udp w m) \<and> m_last_seen (w_udp w m) + ROUTE_DRAIN_TIMEOUT < w_msec w
     \<or> m_last_seen (w_udp w m) + cf_udp_timeout (w_conf w) < w_msec w"

text \<open>The walk along a chain: expired mappings are dropped on the way. It gives the mapping found
  and the chain that remains.\<close>

fun mapping_walk :: "addr_t \<Rightarrow> nat list \<Rightarrow> world \<Rightarrow> nat option \<times> nat list \<times> world" where
  "mapping_walk target [] w = (None, [], w)"
| "mapping_walk target (m # ms) w =
     (if mapping_expired w m then mapping_walk target ms (route_untrack_udp m w)
      else if m_hash (w_udp w m) = route_cache_hash target \<and> addr_equal (m_target (w_udp w m)) target
      then (Some m, m # ms, set_udp m (\<lambda>u. u\<lparr>m_last_seen := w_msec w\<rparr>) w)
      else let (r, ms, w) = mapping_walk target ms w in (r, m # ms, w))"

definition set_chain :: "nat \<Rightarrow> nat \<Rightarrow> nat list \<Rightarrow> world \<Rightarrow> world" where
  "set_chain s b ms w = w\<lparr>w_maps := (w_maps w)(s := (w_maps w s)[b := ms])\<rparr>"

definition udp_route_mapping_lookup :: "nat \<Rightarrow> addr_t \<Rightarrow> world \<Rightarrow> nat option \<times> world" where
  "udp_route_mapping_lookup s target w =
     (if addr_host_len target = 0 \<or> addr_host_len target > 255 then (None, w)
      else
        let b = chain_of UDP_ROUTE_MAPPING_BUCKETS (route_cache_hash target);
            (r, ms, w) = mapping_walk target (w_maps w s ! b) w in
        (r, set_chain s b ms w))"

definition new_mapping :: "nat \<Rightarrow> addr_t \<Rightarrow> nat option \<Rightarrow> udp_mapping" where
  "new_mapping now target outbound =
     \<lparr>m_hash = route_cache_hash target, m_last_seen = now,
      m_target =
        (if addr_type target = ADDR_DOMAIN
         then target\<lparr>addr_host := poke (addr_host target) 0
                (map (\<lambda>i. ngx_tolower (addr_host target ! i)) [0 ..< addr_host_len target])\<rparr>
         else target),
      m_outbound = outbound, m_route_entry = None, m_linked = False, m_stale = False\<rparr>"

definition udp_route_mapping_insert :: "nat \<Rightarrow> addr_t \<Rightarrow> nat option \<Rightarrow> nat option \<Rightarrow> world \<Rightarrow> bool \<times> world" where
  "udp_route_mapping_insert s target outbound entry w =
     (if outbound = None \<or> addr_host_len target = 0 \<or> addr_host_len target > 255 then (False, w)
      else
        let (r, w) = udp_route_mapping_lookup s target w in
        (case r of
           Some m \<Rightarrow>
             let w = route_untrack_udp m w;
                 w = set_udp m (\<lambda>u. u\<lparr>m_outbound := outbound, m_last_seen := w_msec w\<rparr>) w in
             (True, route_track_udp m entry w)
         | None \<Rightarrow>
             let m = w_next_mapping w;
                 b = chain_of UDP_ROUTE_MAPPING_BUCKETS (route_cache_hash target);
                 w = w\<lparr>w_next_mapping := m + 1\<rparr>;
                 w = set_udp m (\<lambda>_. new_mapping (w_msec w) target outbound) w;
                 w = set_chain s b (m # w_maps w s ! b) w in
             (True, route_track_udp m entry w)))"

text \<open>What \<open>finalize\<close> does to the links before the memory of the session is released.\<close>

definition finalize_links :: "nat \<Rightarrow> world \<Rightarrow> world" where
  "finalize_links s w = route_untrack_tcp s w"

subsection \<open>Draining a stale session\<close>

text \<open>The two relay buffers of a session and the data that waits to be sent, as positions
  \<open>(pos, last)\<close>.\<close>

record relay_buffers =
  rb_client :: "(nat \<times> nat) option"
  rb_upstream :: "(nat \<times> nat) option"
  rb_pending_up :: "(nat \<times> nat) option"
  rb_pending_client :: "(nat \<times> nat) option"

definition route_tcp_idle :: "relay_buffers \<Rightarrow> bool" where
  "route_tcp_idle rb \<longleftrightarrow>
     (case (rb_client rb, rb_upstream rb) of
        (Some (cp, cl), Some (up, ul)) \<Rightarrow>
          (case rb_pending_up rb of Some (p, l) \<Rightarrow> \<not> p < l | None \<Rightarrow> True) \<and>
          (case rb_pending_client rb of Some (p, l) \<Rightarrow> \<not> p < l | None \<Rightarrow> True) \<and>
          cp = cl \<and> up = ul
      | _ \<Rightarrow> False)"

text \<open>The result says whether the session was finalized.\<close>

definition route_check_tcp_stale :: "nat \<Rightarrow> relay_buffers \<Rightarrow> world \<Rightarrow> bool \<times> world" where
  "route_check_tcp_stale s rb w =
     (if \<not> t_linked (w_tcp w s) \<or> \<not> t_stale (w_tcp w s) then (False, w)
      else if \<not> route_tcp_idle rb then (False, set_tcp s (\<lambda>t. t\<lparr>t_last_active := w_msec w\<rparr>) w)
      else if w_msec w - t_last_active (w_tcp w s) \<ge> ROUTE_DRAIN_TIMEOUT then (True, finalize_links s w)
      else (False, w))"

end
