(* ===== verification/Mt_Cache_Lru.thy ===== *)
theory Mt_Cache_Lru
  imports Mt_Cache
begin

text \<open>
  The route cache is a map with least-recently-used replacement: the abstract cache is the list of
  its key and value pairs in order of use, and lookup and insertion refine the operations on that
  list.
\<close>

subsection \<open>Keys\<close>

type_synonym route_key = "byte \<times> u16 \<times> bytes"
type_synonym route_value = "nat option \<times> bool \<times> int"

definition canon_host :: "addr_t \<Rightarrow> bytes" where
  "canon_host t = (if addr_type t = ADDR_DOMAIN then map ngx_tolower (host_bytes t) else host_bytes t)"

definition target_key :: "addr_t \<Rightarrow> route_key" where
  "target_key t = (addr_type t, addr_port t, canon_host t)"

definition target_ok :: "addr_t \<Rightarrow> bool" where
  "target_ok t \<longleftrightarrow> 0 < addr_host_len t \<and> addr_host_len t \<le> 255 \<and> length (addr_host t) = 255"

definition entry_key :: "cache_entry \<Rightarrow> route_key" where
  "entry_key e = (ce_type e, ce_port e, take (ce_host_len e) (ce_host e))"

definition entry_value :: "cache_entry \<Rightarrow> route_value" where
  "entry_value e = (ce_outbound e, ce_ttl e, ce_expires e)"

fun key_hash :: "route_key \<Rightarrow> u64" where
  "key_hash (ty, port, host) =
     foldl hash_byte (hash_byte (hash_byte (hash_byte 2166136261 ty) (ucast (drop_bit 8 port)))
       (ucast port)) host"

lemma canon_host_map:
  "target_ok t \<Longrightarrow> canon_host t =
     map (\<lambda>i. if addr_type t = ADDR_DOMAIN then ngx_tolower (addr_host t ! i) else addr_host t ! i)
       [0 ..< addr_host_len t]"
  by (auto simp: canon_host_def host_bytes_def target_ok_def intro!: nth_equalityI)

lemma length_canon_host: "target_ok t \<Longrightarrow> length (canon_host t) = addr_host_len t"
  by (simp add: canon_host_map)

lemma route_cache_hash_key: "target_ok t \<Longrightarrow> route_cache_hash t = key_hash (target_key t)"
  by (simp add: route_cache_hash_def target_key_def canon_host_map foldl_map Let_def)

definition entry_good :: "cache_entry \<Rightarrow> bool" where
  "entry_good e \<longleftrightarrow> ce_valid e \<and> ce_hash e = key_hash (entry_key e) \<and> ce_host_len e \<le> 255 \<and>
     length (ce_host e) = 255"

lemma entry_matches_iff:
  assumes "entry_good e" "target_ok t"
  shows "entry_matches e (route_cache_hash t) t \<longleftrightarrow> entry_key e = target_key t"
proof -
  let ?n = "addr_host_len t"
  have host: "ce_host_len e = ?n \<Longrightarrow>
      take ?n (ce_host e) = canon_host t \<longleftrightarrow>
      (if addr_type t = ADDR_DOMAIN
       then list_all (\<lambda>i. ngx_tolower (addr_host t ! i) = ce_host e ! i) [0 ..< ?n]
       else memcmp (ce_host e) (addr_host t) ?n = 0)"
  proof -
    assume l: "ce_host_len e = ?n"
    have n: "?n \<le> 255" "length (addr_host t) = 255" "length (ce_host e) = 255"
      using assms by (auto simp: target_ok_def entry_good_def)
    show ?thesis
    proof (cases "addr_type t = ADDR_DOMAIN")
      case True
      then show ?thesis
        using n by (auto simp: canon_host_map [OF assms(2)] list_all_iff list_eq_iff_nth_eq)
    next
      case False
      then show ?thesis
        using n memcmp_take [of ?n "ce_host e" "addr_host t"]
        by (simp add: canon_host_def host_bytes_def)
    qed
  qed
  have len: "entry_key e = target_key t \<Longrightarrow> ce_host_len e = ?n"
    using assms length_canon_host [OF assms(2)]
    by (auto simp: entry_key_def target_key_def entry_good_def min_def dest: arg_cong [of _ _ length])
  show ?thesis
  proof
    assume "entry_matches e (route_cache_hash t) t"
    with host show "entry_key e = target_key t"
      by (auto simp: entry_matches_def entry_key_def target_key_def)
  next
    assume k: "entry_key e = target_key t"
    then have "ce_hash e = route_cache_hash t"
      using assms by (simp add: entry_good_def route_cache_hash_key)
    with k len [OF k] host assms(1) show "entry_matches e (route_cache_hash t) t"
      by (simp add: entry_matches_def entry_key_def target_key_def entry_good_def)
  qed
qed

subsection \<open>The invariant\<close>

text \<open>\<open>D\<close>: the entries in use.\<close>

definition cache_inv :: "nat set \<Rightarrow> route_cache \<Rightarrow> bool" where
  "cache_inv D c \<longleftrightarrow>
     0 < rc_size c \<and> length (rc_entries c) = rc_size c \<and> rc_next_free c \<le> rc_size c \<and>
     0 < rc_buckets_n c \<and> length (rc_buckets c) = rc_buckets_n c \<and>
     D \<subseteq> {..< rc_next_free c} \<and> distinct (rc_lru c) \<and> set (rc_lru c) = D \<and>
     (\<forall>i \<in> D. entry_good (rc_entries c ! i)) \<and>
     inj_on (\<lambda>i. entry_key (rc_entries c ! i)) D \<and>
     (\<forall>b < rc_buckets_n c. distinct (rc_buckets c ! b) \<and>
        set (rc_buckets c ! b) =
          {i \<in> D. chain_of (rc_buckets_n c) (ce_hash (rc_entries c ! i)) = b})"

definition cache_ok :: "route_cache \<Rightarrow> bool" where
  "cache_ok c \<longleftrightarrow> cache_inv {..< rc_next_free c} c"

definition lru_abs :: "route_cache \<Rightarrow> (route_key \<times> route_value) list" where
  "lru_abs c = map (\<lambda>i. (entry_key (rc_entries c ! i), entry_value (rc_entries c ! i))) (rc_lru c)"

definition lru_lookup :: "'k \<Rightarrow> ('k \<times> 'v) list \<Rightarrow> 'v option \<times> ('k \<times> 'v) list" where
  "lru_lookup k xs =
     (case map_of xs k of
        None \<Rightarrow> (None, xs)
      | Some v \<Rightarrow> (Some v, (k, v) # filter (\<lambda>p. fst p \<noteq> k) xs))"

definition lru_insert :: "nat \<Rightarrow> 'k \<Rightarrow> 'v \<Rightarrow> ('k \<times> 'v) list \<Rightarrow> ('k \<times> 'v) list" where
  "lru_insert cap k v xs =
     (if k \<in> fst ` set xs then (k, v) # filter (\<lambda>p. fst p \<noteq> k) xs else (k, v) # take (cap - 1) xs)"

lemma chain_of_less: "0 < m \<Longrightarrow> chain_of m hash < m"
proof -
  assume "0 < m"
  have "int (unat hash AND (m - 1)) \<le> int (m - 1)"
    unfolding of_nat_and_eq by (rule AND_upper2) simp
  with \<open>0 < m\<close> show ?thesis by (simp add: chain_of_def)
qed

lemma chain_find_cases:
  assumes "cache_ok c" "target_ok t"
  shows "case chain_find c t of
      None \<Rightarrow> \<forall>i < rc_next_free c. entry_key (rc_entries c ! i) \<noteq> target_key t
    | Some i \<Rightarrow> i < rc_next_free c \<and> entry_key (rc_entries c ! i) = target_key t"
proof -
  note I = assms(1) [unfolded cache_ok_def cache_inv_def]
  define b where "b = chain_of (rc_buckets_n c) (route_cache_hash t)"
  have b: "b < rc_buckets_n c" using I by (simp add: b_def chain_of_less)
  then have sb: "set (rc_buckets c ! b) =
      {i. i < rc_next_free c \<and> chain_of (rc_buckets_n c) (ce_hash (rc_entries c ! i)) = b}"
    using I by simp
  have m: "entry_matches (rc_entries c ! i) (route_cache_hash t) t \<longleftrightarrow>
      entry_key (rc_entries c ! i) = target_key t" if "i < rc_next_free c" for i
    using I that entry_matches_iff [OF _ assms(2)] by simp
  have key_chain: "i \<in> set (rc_buckets c ! b)"
    if "i < rc_next_free c" "entry_key (rc_entries c ! i) = target_key t" for i
  proof -
    have "ce_hash (rc_entries c ! i) = route_cache_hash t"
      using I that route_cache_hash_key [OF assms(2)] by (simp add: entry_good_def)
    then show ?thesis using that sb by (simp add: b_def)
  qed
  show ?thesis
  proof (cases "chain_find c t")
    case None
    then have "\<forall>i \<in> set (rc_buckets c ! b). \<not> entry_matches (rc_entries c ! i) (route_cache_hash t) t"
      by (auto simp: chain_find_def b_def find_None_iff Let_def)
    with None key_chain m show ?thesis by auto
  next
    case (Some i)
    then have "i \<in> set (rc_buckets c ! b)" "entry_matches (rc_entries c ! i) (route_cache_hash t) t"
      by (auto simp: chain_find_def b_def find_Some_iff Let_def)
    with Some sb m show ?thesis by simp
  qed
qed

subsection \<open>Moving an entry to the front\<close>

lemma lru_touch_ok: "cache_ok c \<Longrightarrow> i < rc_next_free c \<Longrightarrow> cache_ok (lru_touch i c)"
  by (auto simp: cache_ok_def cache_inv_def lru_touch_def)

lemma lru_touch_abs:
  assumes "cache_ok c" "i < rc_next_free c"
  shows "lru_abs (lru_touch i c) =
    (entry_key (rc_entries c ! i), entry_value (rc_entries c ! i)) #
      filter (\<lambda>p. fst p \<noteq> entry_key (rc_entries c ! i)) (lru_abs c)"
proof -
  note I = assms(1) [unfolded cache_ok_def cache_inv_def]
  have "remove1 i (rc_lru c) = filter ((\<noteq>) i) (rc_lru c)"
    using I by (simp add: distinct_remove1_removeAll removeAll_filter_not_eq)
  also have "\<dots> = filter (\<lambda>j. entry_key (rc_entries c ! j) \<noteq> entry_key (rc_entries c ! i)) (rc_lru c)"
    using I assms(2) by (intro filter_cong refl) (auto dest: inj_onD)
  finally show ?thesis
    by (simp add: lru_abs_def lru_touch_def filter_map o_def)
qed

lemma map_of_lru_abs:
  assumes "cache_ok c"
  shows "i < rc_next_free c \<Longrightarrow> map_of (lru_abs c) (entry_key (rc_entries c ! i)) =
      Some (entry_value (rc_entries c ! i))"
    "\<forall>i < rc_next_free c. entry_key (rc_entries c ! i) \<noteq> k \<Longrightarrow> map_of (lru_abs c) k = None"
    "fst ` set (lru_abs c) = (\<lambda>i. entry_key (rc_entries c ! i)) ` {..< rc_next_free c}"
proof -
  note I = assms [unfolded cache_ok_def cache_inv_def]
  have "distinct (map fst (lru_abs c))"
    using I by (simp add: lru_abs_def distinct_map o_def)
  then show "i < rc_next_free c \<Longrightarrow> map_of (lru_abs c) (entry_key (rc_entries c ! i)) =
      Some (entry_value (rc_entries c ! i))"
    using I by (intro map_of_is_SomeI) (auto simp: lru_abs_def)
  show 3: "fst ` set (lru_abs c) = (\<lambda>i. entry_key (rc_entries c ! i)) ` {..< rc_next_free c}"
    using I by (auto simp: lru_abs_def image_image)
  show "\<forall>i < rc_next_free c. entry_key (rc_entries c ! i) \<noteq> k \<Longrightarrow> map_of (lru_abs c) k = None"
    using 3 by (auto simp: map_of_eq_None_iff)
qed

lemma lookup_refines':
  assumes "cache_ok c" "target_ok t" "route_cache_lookup c t = (r, c')"
  shows "cache_ok c' \<and>
    lru_lookup (target_key t) (lru_abs c) = (map_option (\<lambda>i. entry_value (rc_entries c ! i)) r, lru_abs c') \<and>
    (\<forall>i. r = Some i \<longrightarrow> i < rc_next_free c)"
proof (cases "chain_find c t")
  case None
  then have "map_of (lru_abs c) (target_key t) = None"
    using chain_find_cases [OF assms(1,2)] map_of_lru_abs(2) [OF assms(1)] by simp
  then show ?thesis
    using assms None by (auto simp: route_cache_lookup_def lru_lookup_def split: if_splits)
next
  case (Some i)
  then have i: "i < rc_next_free c" "entry_key (rc_entries c ! i) = target_key t"
    using chain_find_cases [OF assms(1,2)] by simp_all
  moreover have "r = Some i" "c' = lru_touch i c"
    using assms Some by (auto simp: route_cache_lookup_def target_ok_def)
  ultimately show ?thesis
    using map_of_lru_abs(1) [OF assms(1) i(1)] lru_touch_ok [OF assms(1) i(1)]
      lru_touch_abs [OF assms(1) i(1)]
    by (simp add: lru_lookup_def)
qed

subsection \<open>Insertion\<close>

text \<open>Steps that only touch the links, the values or the generations keep the cache as it is.\<close>

lemma cache_inv_cong:
  assumes "cache_inv D c"
    and "rc_size c' = rc_size c" "rc_buckets_n c' = rc_buckets_n c" "rc_next_free c' = rc_next_free c"
    "rc_lru c' = rc_lru c" "rc_buckets c' = rc_buckets c" "length (rc_entries c') = length (rc_entries c)"
    and "\<And>i. i \<in> D \<Longrightarrow> entry_key (rc_entries c' ! i) = entry_key (rc_entries c ! i) \<and>
      ce_hash (rc_entries c' ! i) = ce_hash (rc_entries c ! i) \<and>
      (entry_good (rc_entries c ! i) \<longrightarrow> entry_good (rc_entries c' ! i))"
  shows "cache_inv D c'"
proof -
  have "inj_on (\<lambda>i. entry_key (rc_entries c' ! i)) D \<longleftrightarrow> inj_on (\<lambda>i. entry_key (rc_entries c ! i)) D"
    by (rule inj_on_cong) (simp add: assms(8))
  moreover have "{i \<in> D. chain_of m (ce_hash (rc_entries c' ! i)) = b} =
      {i \<in> D. chain_of m (ce_hash (rc_entries c ! i)) = b}" for m b
    using assms(8) by auto
  ultimately show ?thesis
    using assms by (simp add: cache_inv_def)
qed

lemma foldl_set_tcp_cache: "w_cache (foldl (\<lambda>w s. set_tcp s f w) w ss) = w_cache w"
  by (induction ss arbitrary: w) (simp_all add: set_tcp_def)

lemma foldl_set_udp_cache: "w_cache (foldl (\<lambda>w s. set_udp s f w) w ss) = w_cache w"
  by (induction ss arbitrary: w) (simp_all add: set_udp_def)

lemma mark_stale_cache [simp]: "w_cache (route_mark_stale i old w) = w_cache w"
proof -
  have "w_cache (foldl (stale_tcp o') w ss) = w_cache w" for o' w ss
    by (induction ss arbitrary: w) (simp_all add: stale_tcp_def set_tcp_def)
  moreover have "w_cache (foldl (stale_udp o') w ss) = w_cache w" for o' w ss
    by (induction ss arbitrary: w) (simp_all add: stale_udp_def set_udp_def)
  ultimately show ?thesis by (simp add: route_mark_stale_def split: option.split)
qed

lemma unlink_active_cache:
  "w_cache (route_cache_unlink_active i w) =
     (w_cache w)\<lparr>rc_entries := (rc_entries (w_cache w))
        [i := (entry_of w i)\<lparr>ce_active_tcp := [], ce_active_udp := []\<rparr>]\<rparr>"
  by (simp add: route_cache_unlink_active_def set_entry_def Let_def foldl_set_tcp_cache
      foldl_set_udp_cache)

lemma entry_key_links [simp]:
  "entry_key (e\<lparr>ce_active_tcp := a, ce_active_udp := b\<rparr>) = entry_key e"
  "entry_value (e\<lparr>ce_active_tcp := a, ce_active_udp := b\<rparr>) = entry_value e"
  "entry_good (e\<lparr>ce_active_tcp := a, ce_active_udp := b\<rparr>) = entry_good e"
  by (simp_all add: entry_key_def entry_value_def entry_good_def)

lemma entry_key_update [simp]:
  "entry_key (e\<lparr>ce_outbound := u, ce_ttl := t, ce_expires := x, ce_refreshing := r, ce_generation := g\<rparr>) =
     entry_key e"
  "entry_good (e\<lparr>ce_outbound := u, ce_ttl := t, ce_expires := x, ce_refreshing := r, ce_generation := g\<rparr>) =
     entry_good e"
  "entry_value (e\<lparr>ce_outbound := u, ce_ttl := t, ce_expires := x, ce_refreshing := r, ce_generation := g\<rparr>) =
     (u, t, x)"
  by (simp_all add: entry_key_def entry_value_def entry_good_def)

lemma update_entry_ok:
  fixes outbound :: "nat option" and ttl :: bool and expires :: int
  assumes "cache_ok (w_cache w)" "i < rc_next_free (w_cache w)"
  defines "c' \<equiv> w_cache (route_cache_update_entry i outbound ttl expires w)"
  shows "cache_ok c'" "rc_next_free c' = rc_next_free (w_cache w)" "rc_size c' = rc_size (w_cache w)"
    "lru_abs c' = map (\<lambda>p. if fst p = entry_key (entry_of w i)
        then (fst p, (outbound, ttl, if ttl then expires else 0)) else p) (lru_abs (w_cache w))"
    "entry_key (rc_entries c' ! i) = entry_key (entry_of w i)"
    "entry_value (rc_entries c' ! i) = (outbound, ttl, if ttl then expires else 0)"
proof -
  note I = assms(1) [unfolded cache_ok_def cache_inv_def]
  have v: "ce_valid (entry_of w i)" using I assms(2) by (simp add: entry_good_def)
  have li: "i < length (rc_entries (w_cache w))" using I assms(2) by simp
  define g where "g = rc_generation (w_cache w) + 1"
  define e where "e = (entry_of w i)\<lparr>ce_outbound := outbound, ce_ttl := ttl,
      ce_expires := (if ttl then expires else 0), ce_refreshing := False, ce_generation := g\<rparr>"
  have c': "c' = (w_cache w)\<lparr>rc_generation := g, rc_entries := (rc_entries (w_cache w))[i := e]\<rparr>"
    using v by (simp add: c'_def route_cache_update_entry_def set_entry_def Let_def g_def e_def)
  have h: "ce_hash e = ce_hash (entry_of w i)" "entry_key e = entry_key (entry_of w i)"
    "entry_good e = entry_good (entry_of w i)"
    "entry_value e = (outbound, ttl, if ttl then expires else 0)"
    by (simp_all add: e_def)
  show nf: "rc_next_free c' = rc_next_free (w_cache w)" "rc_size c' = rc_size (w_cache w)"
    by (simp_all add: c')
  show "cache_ok c'"
    unfolding cache_ok_def nf
    by (rule cache_inv_cong [OF assms(1) [unfolded cache_ok_def]])
      (use li h in \<open>auto simp: c' nth_list_update\<close>)
  show "entry_key (rc_entries c' ! i) = entry_key (entry_of w i)"
    "entry_value (rc_entries c' ! i) = (outbound, ttl, if ttl then expires else 0)"
    using li h by (simp_all add: c')
  show "lru_abs c' = map (\<lambda>p. if fst p = entry_key (entry_of w i)
        then (fst p, (outbound, ttl, if ttl then expires else 0)) else p) (lru_abs (w_cache w))"
  proof -
    have "(entry_key (rc_entries c' ! j), entry_value (rc_entries c' ! j)) =
        (if entry_key (entry_of w j) = entry_key (entry_of w i)
         then (entry_key (entry_of w j), (outbound, ttl, if ttl then expires else 0))
         else (entry_key (entry_of w j), entry_value (entry_of w j)))"
      if "j \<in> set (rc_lru (w_cache w))" for j
    proof (cases "j = i")
      case False
      then have "entry_key (entry_of w j) \<noteq> entry_key (entry_of w i)"
        using I that assms(2) by (auto dest: inj_onD)
      then show ?thesis using False by (simp add: c')
    qed (use li h in \<open>simp add: c'\<close>)
    then show ?thesis by (simp add: lru_abs_def c' cong: map_cong)
  qed
qed

lemma remove1_last: "distinct xs \<Longrightarrow> xs \<noteq> [] \<Longrightarrow> remove1 (last xs) xs = butlast xs"
  by (cases xs rule: rev_cases) (auto simp: remove1_append)

text \<open>An entry to fill: the cache without it, and what is left of the list.\<close>

lemma take_entry_ok:
  assumes "cache_ok (w_cache w)" "take_entry w = (i, w')"
  defines "c \<equiv> w_cache w" and "c' \<equiv> w_cache w'"
  shows "cache_inv ({..< rc_next_free c'} - {i}) c'" "i < rc_next_free c'"
    "lru_abs c' = take (rc_size c - 1) (lru_abs c)" "rc_size c' = rc_size c"
    "entry_key ` ((!) (rc_entries c') ` ({..< rc_next_free c'} - {i})) \<subseteq>
       (\<lambda>i. entry_key (rc_entries c ! i)) ` {..< rc_next_free c}"
proof -
  note I = assms(1) [unfolded cache_ok_def cache_inv_def, folded c_def]
  have ll: "length (rc_lru c) = rc_next_free c"
    using I by (metis card_lessThan distinct_card)
  have thesis: "cache_inv ({..< rc_next_free c'} - {i}) c' \<and> i < rc_next_free c' \<and>
      lru_abs c' = take (rc_size c - 1) (lru_abs c) \<and> rc_size c' = rc_size c \<and>
      entry_key ` ((!) (rc_entries c') ` ({..< rc_next_free c'} - {i})) \<subseteq>
        (\<lambda>i. entry_key (rc_entries c ! i)) ` {..< rc_next_free c}"
  proof (cases "rc_next_free c < rc_size c")
    case True
    then have i: "i = rc_next_free c" and c': "c' = c\<lparr>rc_next_free := rc_next_free c + 1\<rparr>"
      using assms(2) by (auto simp: take_entry_def c_def c'_def Let_def)
    have D: "{..< rc_next_free c'} - {i} = {..< rc_next_free c}" by (auto simp: c' i)
    have "lru_abs c' = lru_abs c" by (simp add: lru_abs_def c')
    moreover have "length (lru_abs c) \<le> rc_size c - 1" using ll True by (simp add: lru_abs_def)
    ultimately show ?thesis
      using I True unfolding D by (auto simp: cache_inv_def c' i)
  next
    case False
    then have full: "rc_next_free c = rc_size c" using I by simp
    then have ne: "rc_lru c \<noteq> []" using ll I by auto
    define es where "es = (rc_entries c)[i := (rc_entries c ! i)\<lparr>ce_active_tcp := [], ce_active_udp := []\<rparr>]"
    define b where "b = chain_of (rc_buckets_n c) (ce_hash (rc_entries c ! i))"
    have i: "i = last (rc_lru c)"
      using assms(2) False by (auto simp: take_entry_def c_def Let_def)
    then have iD: "i \<in> {..< rc_next_free c}" using I ne by (metis last_in_set)
    then have li: "i < length (rc_entries c)" using I by simp
    have c': "c' = c\<lparr>rc_entries := es, rc_lru := remove1 i (rc_lru c),
        rc_buckets := (rc_buckets c)[b := remove1 i (rc_buckets c ! b)]\<rparr>"
      using assms(2) False li
      by (auto simp: take_entry_def c_def c'_def Let_def unlink_active_cache es_def b_def)
    have same: "entry_key (es ! j) = entry_key (rc_entries c ! j)"
      "entry_value (es ! j) = entry_value (rc_entries c ! j)"
      "entry_good (es ! j) = entry_good (rc_entries c ! j)"
      "ce_hash (es ! j) = ce_hash (rc_entries c ! j)" for j
      using li by (simp_all add: es_def nth_list_update)
    have bl: "b < rc_buckets_n c" using I by (simp add: b_def chain_of_less)
    have bu: "distinct ((rc_buckets c)[b := remove1 i (rc_buckets c ! b)] ! b') \<and>
        set ((rc_buckets c)[b := remove1 i (rc_buckets c ! b)] ! b') =
          {j \<in> {..< rc_next_free c} - {i}. chain_of (rc_buckets_n c) (ce_hash (rc_entries c ! j)) = b'}"
      if "b' < rc_buckets_n c" for b'
      using I that bl by (auto simp: nth_list_update b_def)
    have inv: "cache_inv ({..< rc_next_free c} - {i}) c'"
      using I bu unfolding cache_inv_def c'
      by (auto simp: same es_def [symmetric] intro: inj_on_subset) (simp_all add: es_def)
    have r: "remove1 i (rc_lru c) = butlast (rc_lru c)"
      using I ne i by (simp add: remove1_last)
    have "lru_abs c' = butlast (lru_abs c)"
      by (simp add: lru_abs_def c' r same map_butlast)
    also have "\<dots> = take (rc_size c - 1) (lru_abs c)"
      using ll full by (simp add: butlast_conv_take lru_abs_def)
    finally show ?thesis using inv iD by (auto simp: c' same)
  qed
  then show "cache_inv ({..< rc_next_free c'} - {i}) c'" "i < rc_next_free c'"
    "lru_abs c' = take (rc_size c - 1) (lru_abs c)" "rc_size c' = rc_size c"
    "entry_key ` ((!) (rc_entries c') ` ({..< rc_next_free c'} - {i})) \<subseteq>
       (\<lambda>i. entry_key (rc_entries c ! i)) ` {..< rc_next_free c}"
    by blast+
qed

lemma fill_entry_key:
  fixes g :: u64 and u :: "nat option" and ttl :: bool and x :: int
  assumes "target_ok t"
  defines "e \<equiv> fill_entry t (route_cache_hash t) g u ttl x"
  shows "entry_key e = target_key t" "entry_good e" "ce_hash e = route_cache_hash t"
    "entry_value e = (u, ttl, if ttl then x else 0)"
proof -
  have h: "ce_host e = poke (replicate 255 0) 0 (canon_host t)" "ce_host_len e = addr_host_len t"
    "ce_type e = addr_type t" "ce_port e = addr_port t" "ce_valid e" "ce_hash e = route_cache_hash t"
    "entry_value e = (u, ttl, if ttl then x else 0)"
    unfolding e_def
    by (simp_all add: fill_entry_def zero_entry_def entry_value_def canon_host_map [OF assms(1)])
      (use assms(1) in \<open>auto simp: target_ok_def intro!: nth_equalityI\<close>)
  have l: "length (canon_host t) = addr_host_len t" by (rule length_canon_host [OF assms(1)])
  show k: "entry_key e = target_key t"
    by (simp add: entry_key_def target_key_def h l)
  show "ce_hash e = route_cache_hash t" "entry_value e = (u, ttl, if ttl then x else 0)"
    by (rule h)+
  show "entry_good e"
    using assms(1) k by (simp add: entry_good_def h l route_cache_hash_key target_ok_def)
qed

lemma fill_slot_ok:
  assumes inv: "cache_inv D c" and i: "i \<notin> D" "i < rc_next_free c" "insert i D = {..< rc_next_free c}"
    and e: "entry_good e" "entry_key e \<notin> (\<lambda>j. entry_key (rc_entries c ! j)) ` D"
    and c': "c' = c\<lparr>rc_generation := g, rc_entries := (rc_entries c)[i := e],
      rc_buckets := (rc_buckets c)[b := i # rc_buckets c ! b], rc_lru := i # rc_lru c\<rparr>"
    and b: "b = chain_of (rc_buckets_n c) (ce_hash e)"
  shows "cache_ok c'" "lru_abs c' = (entry_key e, entry_value e) # lru_abs c"
proof -
  note I = inv [unfolded cache_inv_def]
  have li: "i < length (rc_entries c)" using I i(2) by simp
  have bl: "b < rc_buckets_n c" using I by (simp add: b chain_of_less)
  have other: "(rc_entries c)[i := e] ! j = rc_entries c ! j" if "j \<in> D" for j
    using that i(1) by (metis nth_list_update_neq)
  let ?es = "(rc_entries c)[i := e]"
  have new: "?es ! i = e" using li by simp
  have "inj_on (\<lambda>j. entry_key (?es ! j)) D"
    using I by (simp add: other cong: inj_on_cong)
  moreover have "(\<lambda>j. entry_key (?es ! j)) ` D = (\<lambda>j. entry_key (rc_entries c ! j)) ` D"
    by (rule image_cong [OF refl]) (simp add: other)
  ultimately have "inj_on (\<lambda>j. entry_key (?es ! j)) (insert i D)"
    using e(2) i(1) new by simp
  moreover have "set ((rc_buckets c)[b := i # rc_buckets c ! b] ! b') =
      {j \<in> insert i D. chain_of (rc_buckets_n c) (ce_hash (?es ! j)) = b'}"
    if b': "b' < rc_buckets_n c" for b'
  proof -
    have "{j \<in> insert i D. chain_of (rc_buckets_n c) (ce_hash (?es ! j)) = b'} =
        (if b' = b then {i} else {}) \<union> {j \<in> D. chain_of (rc_buckets_n c) (ce_hash (rc_entries c ! j)) = b'}"
      using other new i(1) by (auto simp: b)
    moreover have "set ((rc_buckets c)[b := i # rc_buckets c ! b] ! b') =
        (if b' = b then {i} else {}) \<union> set (rc_buckets c ! b')"
      using I bl b' by (simp add: nth_list_update)
    ultimately show ?thesis using I b' by simp
  qed
  moreover have "distinct ((rc_buckets c)[b := i # rc_buckets c ! b] ! b')" if "b' < rc_buckets_n c" for b'
  proof -
    have "i \<notin> set (rc_buckets c ! b')" "distinct (rc_buckets c ! b')" using I that i(1) by auto
    then show ?thesis using I bl i(1) by (simp add: nth_list_update)
  qed
  moreover have "\<forall>j \<in> insert i D. entry_good (?es ! j)"
    using I e(1) other new by simp
  ultimately have "cache_inv (insert i D) c'"
    using I i by (simp add: cache_inv_def c')
  then show "cache_ok c'" using i(3) by (simp add: cache_ok_def c')
  have "lru_abs c' = (entry_key e, entry_value e) #
      map (\<lambda>j. (entry_key ((rc_entries c)[i := e] ! j), entry_value ((rc_entries c)[i := e] ! j))) (rc_lru c)"
    using li by (simp add: lru_abs_def c')
  moreover have "map (\<lambda>j. (entry_key ((rc_entries c)[i := e] ! j), entry_value ((rc_entries c)[i := e] ! j))) (rc_lru c) =
      lru_abs c"
    using I other by (simp add: lru_abs_def cong: map_cong)
  ultimately show "lru_abs c' = (entry_key e, entry_value e) # lru_abs c" by simp
qed

lemma filter_revalue:
  "filter (\<lambda>p. fst p \<noteq> k) (map (\<lambda>p. if fst p = k then (fst p, v) else p) xs) =
     filter (\<lambda>p. fst p \<noteq> k) xs"
  by (induction xs) auto

lemma insert_refines':
  assumes "cache_ok (w_cache w)" "target_ok t"
    and "route_cache_insert t (Some u) ttl expires w = (r, w')"
  shows "cache_ok (w_cache w') \<and> rc_size (w_cache w') = rc_size (w_cache w) \<and> r \<noteq> None \<and>
    lru_abs (w_cache w') =
      lru_insert (rc_size (w_cache w)) (target_key t) (Some u, ttl, if ttl then expires else 0)
        (lru_abs (w_cache w))"
proof (cases "chain_find (w_cache w) t")
  case (Some i)
  then have i: "i < rc_next_free (w_cache w)" "entry_key (entry_of w i) = target_key t"
    using chain_find_cases [OF assms(1,2)] by simp_all
  define v where "v = route_cache_update_entry i (Some u) ttl expires w"
  have r: "r = Some i" "w' = v\<lparr>w_cache := lru_touch i (w_cache v)\<rparr>"
    using assms(2,3) Some by (auto simp: route_cache_insert_def v_def target_ok_def Let_def)
  note U = update_entry_ok [OF assms(1) i(1), of "Some u" ttl expires, folded v_def]
  have iv: "i < rc_next_free (w_cache v)" using i(1) U(2) by simp
  have "target_key t \<in> fst ` set (lru_abs (w_cache w))"
    using map_of_lru_abs(3) [OF assms(1)] i by (metis image_eqI lessThan_iff)
  moreover have "filter (\<lambda>p. fst p \<noteq> target_key t) (lru_abs (w_cache v)) =
      filter (\<lambda>p. fst p \<noteq> target_key t) (lru_abs (w_cache w))"
    unfolding U(4) i(2) by (rule filter_revalue)
  ultimately show ?thesis
    using lru_touch_ok [OF U(1) iv] lru_touch_abs [OF U(1) iv] U(3,5,6) i(2)
    by (simp add: r lru_insert_def) (simp add: lru_touch_def)
next
  case None
  then have fresh: "\<forall>i < rc_next_free (w_cache w). entry_key (entry_of w i) \<noteq> target_key t"
    using chain_find_cases [OF assms(1,2)] by simp
  obtain i v where te: "take_entry w = (i, v)" by (cases "take_entry w")
  note T = take_entry_ok [OF assms(1) te]
  define c where "c = w_cache v"
  define g where "g = rc_generation c + 1"
  define e where "e = fill_entry t (route_cache_hash t) g (Some u) ttl expires"
  note E = fill_entry_key [OF assms(2), of g "Some u" ttl expires, folded e_def]
  have r: "r = Some i" and w': "w_cache w' = c\<lparr>rc_generation := g, rc_entries := (rc_entries c)[i := e],
      rc_buckets := (rc_buckets c)[chain_of (rc_buckets_n c) (ce_hash e) :=
        i # rc_buckets c ! chain_of (rc_buckets_n c) (ce_hash e)], rc_lru := i # rc_lru c\<rparr>"
    using assms(2,3) None te E(3)
    by (auto simp: route_cache_insert_def target_ok_def Let_def c_def g_def e_def)
  have "target_key t \<notin> fst ` set (lru_abs (w_cache w))"
    unfolding map_of_lru_abs(3) [OF assms(1)] using fresh by auto
  moreover have "entry_key e \<notin> (\<lambda>j. entry_key (rc_entries c ! j)) ` ({..< rc_next_free c} - {i})"
    using T(5) fresh E(1) unfolding c_def by (auto simp: image_image)
  ultimately show ?thesis
    using fill_slot_ok [OF T(1) _ T(2) _ E(2), folded c_def, OF _ _ _ w' refl] T(2,3,4) E(1,4) r
    by (auto simp: lru_insert_def c_def w' insert_absorb)
qed

lemma buckets_loop_pos: "0 < b \<Longrightarrow> b < 2 ^ 63 \<or> n \<le> b \<Longrightarrow> n \<le> 2 ^ 63 \<Longrightarrow> 0 < buckets_loop fuel b n"
proof (induction fuel b n rule: buckets_loop.induct)
  case (2 fuel b n)
  show ?case
  proof (cases "b < n")
    case True
    then have b: "b < 2 ^ 63" using "2.prems" by simp
    then have "sz_mul b 2 = b * 2" by (simp add: sz_mul_def)
    moreover have "b * 2 < 2 ^ 63 \<or> n \<le> b * 2" using "2.prems"(3) by linarith
    ultimately have "0 < buckets_loop fuel (sz_mul b 2) n"
      using "2.IH" [OF True] "2.prems" by simp
    then show ?thesis using True by simp
  qed (use "2.prems" in simp)
qed simp

lemma route_cache_init_ok: "0 < n \<Longrightarrow> n \<le> 2 ^ 62 \<Longrightarrow> cache_ok (route_cache_init n)"
proof -
  assume n: "0 < n" "n \<le> 2 ^ 62"
  then have "sz_mul n 2 \<le> 2 ^ 63" by (simp add: sz_mul_def)
  then have "0 < buckets_loop 64 1 (sz_mul n 2)" by (intro buckets_loop_pos) simp_all
  with n show ?thesis
    by (simp add: cache_ok_def cache_inv_def route_cache_init_def Let_def)
qed

end
