(* ===== verification/Mt_Cache_Links.thy ===== *)
theory Mt_Cache_Links
  imports Mt_Cache_Lru
begin

text \<open>
  The links between cache entries and the sessions and UDP mappings that use them: what every
  operation keeps of them, the runs of all operations, and what the end of a session leaves behind.
\<close>

subsection \<open>Links in general\<close>

text \<open>\<open>act i\<close>: the queue of entry \<open>i\<close>; \<open>lk s\<close>: the entry \<open>s\<close> is linked to; the entries below \<open>n\<close>
  are in use.\<close>

definition links :: "(nat \<Rightarrow> nat list) \<Rightarrow> (nat \<Rightarrow> nat option) \<Rightarrow> nat \<Rightarrow> bool" where
  "links act lk n \<longleftrightarrow>
     (\<forall>i. distinct (act i) \<and> set (act i) = {s. lk s = Some i}) \<and> (\<forall>s i. lk s = Some i \<longrightarrow> i < n)"

lemma links_remove:
  "links act lk n \<Longrightarrow> lk s = Some i \<Longrightarrow> links (act(i := remove1 s (act i))) (lk(s := None)) n"
  by (auto simp: links_def)

lemma links_add:
  "links act lk n \<Longrightarrow> lk s = None \<Longrightarrow> i < n \<Longrightarrow> links (act(i := act i @ [s])) (lk(s := Some i)) n"
  by (auto simp: links_def)

lemma links_clear:
  "links act lk n \<Longrightarrow> links (act(i := [])) (\<lambda>s. if s \<in> set (act i) then None else lk s) n"
  by (auto simp: links_def)

lemma links_mono: "links act lk n \<Longrightarrow> n \<le> n' \<Longrightarrow> links act lk n'"
  unfolding links_def by (meson less_le_trans)

definition tcp_act :: "world \<Rightarrow> nat \<Rightarrow> nat list" where
  "tcp_act w i = (if i < length (rc_entries (w_cache w)) then ce_active_tcp (entry_of w i) else [])"

definition udp_act :: "world \<Rightarrow> nat \<Rightarrow> nat list" where
  "udp_act w i = (if i < length (rc_entries (w_cache w)) then ce_active_udp (entry_of w i) else [])"

definition tcp_link :: "world \<Rightarrow> nat \<Rightarrow> nat option" where
  "tcp_link w s = (if t_linked (w_tcp w s) then t_route_entry (w_tcp w s) else None)"

definition udp_link :: "world \<Rightarrow> nat \<Rightarrow> nat option" where
  "udp_link w m = (if m_linked (w_udp w m) then m_route_entry (w_udp w m) else None)"

definition links_ok :: "world \<Rightarrow> bool" where
  "links_ok w \<longleftrightarrow>
     links (tcp_act w) (tcp_link w) (rc_next_free (w_cache w)) \<and>
     links (udp_act w) (udp_link w) (rc_next_free (w_cache w)) \<and>
     (\<forall>s. t_linked (w_tcp w s) \<longrightarrow> t_route_entry (w_tcp w s) \<noteq> None) \<and>
     (\<forall>m. m_linked (w_udp w m) \<longrightarrow> m_route_entry (w_udp w m) \<noteq> None) \<and>
     rc_next_free (w_cache w) \<le> length (rc_entries (w_cache w))"

named_theorems link_defs \<open>the views of the links and the writes of the operations\<close>

lemmas [link_defs] = tcp_act_def udp_act_def tcp_link_def udp_link_def set_entry_def set_tcp_def
  set_udp_def

subsection \<open>Tracking and untracking\<close>

lemma untrack_tcp_ok:
  assumes "links_ok w"
  shows "links_ok (route_untrack_tcp s w)" "tcp_link (route_untrack_tcp s w) s = None"
    "rc_next_free (w_cache (route_untrack_tcp s w)) = rc_next_free (w_cache w)"
proof -
  note L = assms [unfolded links_ok_def]
  have *: "links_ok (route_untrack_tcp s w) \<and> tcp_link (route_untrack_tcp s w) s = None \<and>
    rc_next_free (w_cache (route_untrack_tcp s w)) = rc_next_free (w_cache w)"
  proof (cases "t_linked (w_tcp w s)")
    case False
    then show ?thesis using assms by (simp add: route_untrack_tcp_def tcp_link_def)
  next
    case True
    then obtain i where i: "t_route_entry (w_tcp w s) = Some i" using L by auto
    then have lk: "tcp_link w s = Some i" using True by (simp add: tcp_link_def)
    then have il: "i < length (rc_entries (w_cache w))" using L by (force simp: links_def)
    define v where "v = route_untrack_tcp s w"
    have "tcp_act v = (tcp_act w)(i := remove1 s (tcp_act w i))"
      "tcp_link v = (tcp_link w)(s := None)" "udp_act v = udp_act w" "udp_link v = udp_link w"
      "rc_next_free (w_cache v) = rc_next_free (w_cache w)"
      "length (rc_entries (w_cache v)) = length (rc_entries (w_cache w))"
      using True i il by (auto simp: v_def route_untrack_tcp_def link_defs fun_eq_iff nth_list_update)
    moreover have "\<forall>s. t_linked (w_tcp v s) \<longrightarrow> t_route_entry (w_tcp v s) \<noteq> None"
      "\<forall>m. m_linked (w_udp v m) \<longrightarrow> m_route_entry (w_udp v m) \<noteq> None"
      using L True i by (auto simp: v_def route_untrack_tcp_def link_defs)
    ultimately show ?thesis
      using L links_remove [of "tcp_act w" "tcp_link w" _ s i] lk
      by (simp add: links_ok_def flip: v_def)
  qed
  then show "links_ok (route_untrack_tcp s w)" "tcp_link (route_untrack_tcp s w) s = None"
    "rc_next_free (w_cache (route_untrack_tcp s w)) = rc_next_free (w_cache w)"
    by blast+
qed

lemma untrack_udp_ok:
  assumes "links_ok w"
  shows "links_ok (route_untrack_udp m w)" "udp_link (route_untrack_udp m w) m = None"
    "rc_next_free (w_cache (route_untrack_udp m w)) = rc_next_free (w_cache w)"
proof -
  note L = assms [unfolded links_ok_def]
  have *: "links_ok (route_untrack_udp m w) \<and> udp_link (route_untrack_udp m w) m = None \<and>
    rc_next_free (w_cache (route_untrack_udp m w)) = rc_next_free (w_cache w)"
  proof (cases "m_linked (w_udp w m)")
    case False
    then show ?thesis using assms by (simp add: route_untrack_udp_def udp_link_def)
  next
    case True
    then obtain i where i: "m_route_entry (w_udp w m) = Some i" using L by auto
    then have lk: "udp_link w m = Some i" using True by (simp add: udp_link_def)
    then have il: "i < length (rc_entries (w_cache w))" using L by (force simp: links_def)
    define v where "v = route_untrack_udp m w"
    have "udp_act v = (udp_act w)(i := remove1 m (udp_act w i))"
      "udp_link v = (udp_link w)(m := None)" "tcp_act v = tcp_act w" "tcp_link v = tcp_link w"
      "rc_next_free (w_cache v) = rc_next_free (w_cache w)"
      "length (rc_entries (w_cache v)) = length (rc_entries (w_cache w))"
      using True i il by (auto simp: v_def route_untrack_udp_def link_defs fun_eq_iff nth_list_update)
    moreover have "\<forall>s. t_linked (w_tcp v s) \<longrightarrow> t_route_entry (w_tcp v s) \<noteq> None"
      "\<forall>m. m_linked (w_udp v m) \<longrightarrow> m_route_entry (w_udp v m) \<noteq> None"
      using L True i by (auto simp: v_def route_untrack_udp_def link_defs)
    ultimately show ?thesis
      using L links_remove [of "udp_act w" "udp_link w" _ m i] lk
      by (simp add: links_ok_def flip: v_def)
  qed
  then show "links_ok (route_untrack_udp m w)" "udp_link (route_untrack_udp m w) m = None"
    "rc_next_free (w_cache (route_untrack_udp m w)) = rc_next_free (w_cache w)"
    by blast+
qed

lemma track_tcp_ok:
  assumes "links_ok w" "\<forall>i. entry = Some i \<longrightarrow> i < rc_next_free (w_cache w)"
  shows "links_ok (route_track_tcp s entry w)"
proof (cases "entry = None \<or> \<not> route_fast_drain_enabled w \<or> \<not> ce_ttl (entry_of w (the entry)) \<or>
    t_outbound (w_tcp w s) = None")
  case True
  then show ?thesis using assms(1) by (auto simp: route_track_tcp_def split: option.split)
next
  case False
  then obtain i where i: "entry = Some i" "i < rc_next_free (w_cache w)" using assms(2) by auto
  define v where "v = (if t_linked (w_tcp w s) then route_untrack_tcp s w else w)"
  have v: "links_ok v" "tcp_link v s = None" "i < rc_next_free (w_cache v)"
    using untrack_tcp_ok [OF assms(1), of s] assms(1) i(2) by (auto simp: v_def tcp_link_def)
  note L = v(1) [unfolded links_ok_def]
  have il: "i < length (rc_entries (w_cache v))" using L v(3) by linarith
  define x where "x = route_track_tcp s entry w"
  have x: "x = set_tcp s (\<lambda>t. t\<lparr>t_route_entry := Some i, t_tracked_outbound := t_outbound t,
      t_last_active := w_msec (set_entry i (\<lambda>e. e\<lparr>ce_active_tcp := ce_active_tcp e @ [s]\<rparr>) v),
      t_linked := True, t_stale := False\<rparr>) (set_entry i (\<lambda>e. e\<lparr>ce_active_tcp := ce_active_tcp e @ [s]\<rparr>) v)"
    using False i(1) by (auto simp: x_def route_track_tcp_def v_def Let_def)
  have "tcp_act x = (tcp_act v)(i := tcp_act v i @ [s])" "tcp_link x = (tcp_link v)(s := Some i)"
    "udp_act x = udp_act v" "udp_link x = udp_link v"
    "rc_next_free (w_cache x) = rc_next_free (w_cache v)"
    "length (rc_entries (w_cache x)) = length (rc_entries (w_cache v))"
    using il by (auto simp: x link_defs fun_eq_iff nth_list_update)
  moreover have "\<forall>s. t_linked (w_tcp x s) \<longrightarrow> t_route_entry (w_tcp x s) \<noteq> None"
    "\<forall>m. m_linked (w_udp x m) \<longrightarrow> m_route_entry (w_udp x m) \<noteq> None"
    using L by (auto simp: x link_defs)
  ultimately show ?thesis
    using L links_add [of "tcp_act v" "tcp_link v" _ s i] v(2,3) by (simp add: links_ok_def flip: x_def)
qed

lemma track_udp_ok:
  assumes "links_ok w" "\<forall>i. entry = Some i \<longrightarrow> i < rc_next_free (w_cache w)"
  shows "links_ok (route_track_udp m entry w)"
    "rc_next_free (w_cache (route_track_udp m entry w)) = rc_next_free (w_cache w)"
proof -
  have "links_ok (route_track_udp m entry w) \<and>
    rc_next_free (w_cache (route_track_udp m entry w)) = rc_next_free (w_cache w)"
  proof (cases "entry = None \<or> \<not> route_fast_drain_enabled w \<or> \<not> ce_ttl (entry_of w (the entry))")
    case True
    then show ?thesis using assms(1) by (auto simp: route_track_udp_def split: option.split)
  next
    case False
    then obtain i where i: "entry = Some i" "i < rc_next_free (w_cache w)" using assms(2) by auto
    define v where "v = (if m_linked (w_udp w m) then route_untrack_udp m w else w)"
    have v: "links_ok v" "udp_link v m = None" "i < rc_next_free (w_cache v)"
      "rc_next_free (w_cache v) = rc_next_free (w_cache w)"
      using untrack_udp_ok [OF assms(1), of m] assms(1) i(2) by (auto simp: v_def udp_link_def)
    note L = v(1) [unfolded links_ok_def]
    have il: "i < length (rc_entries (w_cache v))" using L v(3) by linarith
    define x where "x = route_track_udp m entry w"
    have x: "x = set_udp m (\<lambda>u. u\<lparr>m_route_entry := Some i, m_linked := True, m_stale := False\<rparr>)
        (set_entry i (\<lambda>e. e\<lparr>ce_active_udp := ce_active_udp e @ [m]\<rparr>) v)"
      using False i(1) by (simp add: x_def route_track_udp_def v_def Let_def)
    have "udp_act x = (udp_act v)(i := udp_act v i @ [m])" "udp_link x = (udp_link v)(m := Some i)"
      "tcp_act x = tcp_act v" "tcp_link x = tcp_link v"
      "rc_next_free (w_cache x) = rc_next_free (w_cache v)"
      "length (rc_entries (w_cache x)) = length (rc_entries (w_cache v))"
      using il by (auto simp: x link_defs fun_eq_iff nth_list_update)
    moreover have "\<forall>s. t_linked (w_tcp x s) \<longrightarrow> t_route_entry (w_tcp x s) \<noteq> None"
      "\<forall>m. m_linked (w_udp x m) \<longrightarrow> m_route_entry (w_udp x m) \<noteq> None"
      using L by (auto simp: x link_defs)
    ultimately show ?thesis
      using L links_add [of "udp_act v" "udp_link v" _ m i] v(2-4)
      by (simp add: links_ok_def flip: x_def)
  qed
  then show "links_ok (route_track_udp m entry w)"
    "rc_next_free (w_cache (route_track_udp m entry w)) = rc_next_free (w_cache w)" by blast+
qed

subsection \<open>The operations of the cache\<close>

text \<open>Steps that change neither the queues nor the links.\<close>

lemma links_ok_cong:
  assumes "links_ok w" "tcp_act v = tcp_act w" "udp_act v = udp_act w"
    "\<And>m. m_linked (w_udp v m) = m_linked (w_udp w m)"
    "\<And>m. m_route_entry (w_udp v m) = m_route_entry (w_udp w m)"
    "\<And>s. t_linked (w_tcp v s) = t_linked (w_tcp w s)"
    "\<And>s. t_route_entry (w_tcp v s) = t_route_entry (w_tcp w s)"
    "rc_next_free (w_cache w) \<le> rc_next_free (w_cache v)"
    "rc_next_free (w_cache v) \<le> length (rc_entries (w_cache v))"
  shows "links_ok v"
proof -
  have "tcp_link v = tcp_link w" "udp_link v = udp_link w"
    using assms by (auto simp: tcp_link_def udp_link_def fun_eq_iff)
  then show ?thesis
    using assms links_mono unfolding links_ok_def by (metis (no_types, lifting))
qed

lemma foldl_set_tcp:
  "(\<And>t. f (f t) = f t) \<Longrightarrow> w_tcp (foldl (\<lambda>w s. set_tcp s f w) w ss) =
     (\<lambda>s. if s \<in> set ss then f (w_tcp w s) else w_tcp w s)"
  by (induction ss arbitrary: w) (auto simp: set_tcp_def fun_eq_iff)

lemma foldl_set_udp:
  "(\<And>t. f (f t) = f t) \<Longrightarrow> w_udp (foldl (\<lambda>w s. set_udp s f w) w ss) =
     (\<lambda>s. if s \<in> set ss then f (w_udp w s) else w_udp w s)"
  by (induction ss arbitrary: w) (auto simp: set_udp_def fun_eq_iff)

lemma foldl_set_tcp_udp: "w_udp (foldl (\<lambda>w s. set_tcp s f w) w ss) = w_udp w"
  by (induction ss arbitrary: w) (simp_all add: set_tcp_def)

lemma foldl_set_udp_tcp: "w_tcp (foldl (\<lambda>w s. set_udp s f w) w ss) = w_tcp w"
  by (induction ss arbitrary: w) (simp_all add: set_udp_def)

lemma unlink_active_tcp:
  "w_tcp (route_cache_unlink_active i w) =
     (\<lambda>s. if s \<in> set (ce_active_tcp (entry_of w i))
        then (w_tcp w s)\<lparr>t_linked := False, t_stale := False, t_route_entry := None,
               t_tracked_outbound := None\<rparr>
        else w_tcp w s)"
  by (simp add: route_cache_unlink_active_def Let_def set_entry_def foldl_set_udp_tcp foldl_set_tcp)

lemma unlink_active_udp:
  "w_udp (route_cache_unlink_active i w) =
     (\<lambda>m. if m \<in> set (ce_active_udp (entry_of w i))
        then (w_udp w m)\<lparr>m_linked := False, m_route_entry := None\<rparr> else w_udp w m)"
  by (simp add: route_cache_unlink_active_def Let_def set_entry_def foldl_set_udp
      foldl_set_tcp_udp foldl_set_tcp_cache cong: if_cong)

lemma unlink_active_ok:
  assumes "links_ok w" "i < rc_next_free (w_cache w)"
  shows "links_ok (route_cache_unlink_active i w)"
proof -
  note L = assms(1) [unfolded links_ok_def]
  have il: "i < length (rc_entries (w_cache w))" using L assms(2) by linarith
  define v where "v = route_cache_unlink_active i w"
  have t: "w_tcp v = (\<lambda>s. if s \<in> set (tcp_act w i)
        then (w_tcp w s)\<lparr>t_linked := False, t_stale := False, t_route_entry := None,
               t_tracked_outbound := None\<rparr> else w_tcp w s)"
    using il by (simp add: v_def unlink_active_tcp tcp_act_def)
  have u: "w_udp v = (\<lambda>m. if m \<in> set (udp_act w i)
        then (w_udp w m)\<lparr>m_linked := False, m_route_entry := None\<rparr> else w_udp w m)"
    using il by (simp add: v_def unlink_active_udp udp_act_def)
  have c: "w_cache v = (w_cache w)\<lparr>rc_entries := (rc_entries (w_cache w))
        [i := (entry_of w i)\<lparr>ce_active_tcp := [], ce_active_udp := []\<rparr>]\<rparr>"
    by (simp add: v_def unlink_active_cache)
  have "tcp_act v = (tcp_act w)(i := [])" "udp_act v = (udp_act w)(i := [])"
    using il by (auto simp: tcp_act_def udp_act_def c fun_eq_iff nth_list_update)
  moreover have "tcp_link v = (\<lambda>s. if s \<in> set (tcp_act w i) then None else tcp_link w s)"
    "udp_link v = (\<lambda>m. if m \<in> set (udp_act w i) then None else udp_link w m)"
    by (auto simp: tcp_link_def udp_link_def t u)
  moreover have "\<forall>s. t_linked (w_tcp v s) \<longrightarrow> t_route_entry (w_tcp v s) \<noteq> None"
    "\<forall>m. m_linked (w_udp v m) \<longrightarrow> m_route_entry (w_udp v m) \<noteq> None"
    using L by (auto simp: t u)
  ultimately show ?thesis
    using L links_clear [of "tcp_act w" "tcp_link w" _ i] links_clear [of "udp_act w" "udp_link w" _ i]
    by (simp add: links_ok_def c flip: v_def)
qed

lemma stale_tcp_links:
  "t_linked (w_tcp (foldl (stale_tcp old) w ss) s) = t_linked (w_tcp w s)"
  "t_route_entry (w_tcp (foldl (stale_tcp old) w ss) s) = t_route_entry (w_tcp w s)"
  "w_udp (foldl (stale_tcp old) w ss) = w_udp w" "w_maps (foldl (stale_tcp old) w ss) = w_maps w"
  "w_next_mapping (foldl (stale_tcp old) w ss) = w_next_mapping w"
  by (induction ss arbitrary: w) (simp_all add: stale_tcp_def set_tcp_def)

lemma stale_udp_links:
  "m_linked (w_udp (foldl (stale_udp old) w ms) m) = m_linked (w_udp w m)"
  "m_route_entry (w_udp (foldl (stale_udp old) w ms) m) = m_route_entry (w_udp w m)"
  "w_tcp (foldl (stale_udp old) w ms) = w_tcp w" "w_maps (foldl (stale_udp old) w ms) = w_maps w"
  "w_next_mapping (foldl (stale_udp old) w ms) = w_next_mapping w"
  by (induction ms arbitrary: w) (simp_all add: stale_udp_def set_udp_def)

lemma mark_stale_links:
  "t_linked (w_tcp (route_mark_stale i old w) s) = t_linked (w_tcp w s)"
  "t_route_entry (w_tcp (route_mark_stale i old w) s) = t_route_entry (w_tcp w s)"
  "m_linked (w_udp (route_mark_stale i old w) m) = m_linked (w_udp w m)"
  "m_route_entry (w_udp (route_mark_stale i old w) m) = m_route_entry (w_udp w m)"
  "w_maps (route_mark_stale i old w) = w_maps w"
  "w_next_mapping (route_mark_stale i old w) = w_next_mapping w"
  by (simp_all add: route_mark_stale_def Let_def stale_tcp_links stale_udp_links split: option.split)

end
