(* ===== verification/Mt_Cache_Run.thy ===== *)
theory Mt_Cache_Run
  imports Mt_Cache_Links
begin

text \<open>
  The runs of a server over the route cache: every operation as a step, and what holds in every
  state a run reaches.
\<close>

subsection \<open>The invariant\<close>

definition maps_ok :: "world \<Rightarrow> bool" where
  "maps_ok w \<longleftrightarrow>
     (\<forall>m. m_linked (w_udp w m) \<longrightarrow> m < w_next_mapping w) \<and>
     (\<forall>s. length (w_maps w s) = UDP_ROUTE_MAPPING_BUCKETS) \<and>
     (\<forall>s. \<forall>ms \<in> set (w_maps w s). \<forall>m \<in> set ms. m < w_next_mapping w)"

definition world_ok :: "world \<Rightarrow> bool" where
  "world_ok w \<longleftrightarrow> cache_ok (w_cache w) \<and> links_ok w \<and> maps_ok w"

subsection \<open>The operations of the cache\<close>

lemma nth_update_if: "xs[i := x] ! j = (if i = j \<and> j < length xs then x else xs ! j)"
  by (cases "i = j"; cases "j < length xs") (simp_all add: not_less list_update_beyond)

lemma links_okD: "links_ok w \<Longrightarrow> rc_next_free (w_cache w) \<le> length (rc_entries (w_cache w))"
  by (simp add: links_ok_def)

lemma touch_links: "links_ok w \<Longrightarrow> links_ok (w\<lparr>w_cache := lru_touch i (w_cache w)\<rparr>)"
  by (rule links_ok_cong [of w])
    (auto simp: tcp_act_def udp_act_def lru_touch_def links_okD fun_eq_iff)

lemma touch_ok:
  "world_ok w \<Longrightarrow> i < rc_next_free (w_cache w) \<Longrightarrow> world_ok (w\<lparr>w_cache := lru_touch i (w_cache w)\<rparr>)"
  by (simp add: world_ok_def touch_links lru_touch_ok) (simp add: maps_ok_def)

lemma update_entry_links:
  assumes "links_ok w"
  shows "links_ok (route_cache_update_entry i u ttl x w)"
proof (cases "ce_valid (entry_of w i)")
  case False
  then show ?thesis using assms by (simp add: route_cache_update_entry_def)
next
  case True
  define v where "v = (if ce_outbound (entry_of w i) \<noteq> u then route_mark_stale i (ce_outbound (entry_of w i)) w else w)"
  have v: "w_cache v = w_cache w" "m_linked (w_udp v m) = m_linked (w_udp w m)"
    "m_route_entry (w_udp v m) = m_route_entry (w_udp w m)"
    "t_linked (w_tcp v s) = t_linked (w_tcp w s)"
    "t_route_entry (w_tcp v s) = t_route_entry (w_tcp w s)" for m s
    by (simp_all add: v_def mark_stale_links)
  define z where "z = route_cache_update_entry i u ttl x w"
  have z: "z = set_entry i (\<lambda>e. e\<lparr>ce_outbound := u, ce_ttl := ttl, ce_expires := (if ttl then x else 0),
          ce_refreshing := False, ce_generation := rc_generation (w_cache w) + 1\<rparr>)
        (v\<lparr>w_cache := (w_cache w)\<lparr>rc_generation := rc_generation (w_cache w) + 1\<rparr>\<rparr>)"
    using True by (simp add: route_cache_update_entry_def Let_def v_def z_def)
  have "tcp_act z = tcp_act w" "udp_act z = udp_act w"
    by (auto simp: z tcp_act_def udp_act_def set_entry_def fun_eq_iff nth_update_if)
  moreover have "rc_next_free (w_cache w) \<le> rc_next_free (w_cache z)"
    "rc_next_free (w_cache z) \<le> length (rc_entries (w_cache z))"
    using links_okD [OF assms] by (simp_all add: z set_entry_def)
  moreover have "m_linked (w_udp z m) = m_linked (w_udp w m)"
    "m_route_entry (w_udp z m) = m_route_entry (w_udp w m)"
    "t_linked (w_tcp z s) = t_linked (w_tcp w s)"
    "t_route_entry (w_tcp z s) = t_route_entry (w_tcp w s)" for m s
    using v by (simp_all add: z set_entry_def)
  ultimately have "links_ok z" by (intro links_ok_cong [OF assms])
  then show ?thesis by (simp add: z_def)
qed

lemma update_entry_maps:
  "w_maps (route_cache_update_entry i u ttl x w) = w_maps w"
  "w_next_mapping (route_cache_update_entry i u ttl x w) = w_next_mapping w"
  "m_linked (w_udp (route_cache_update_entry i u ttl x w) m) = m_linked (w_udp w m)"
  by (simp_all add: route_cache_update_entry_def set_entry_def mark_stale_links Let_def)

lemma update_entry_world:
  "world_ok w \<Longrightarrow> i < rc_next_free (w_cache w) \<Longrightarrow> world_ok (route_cache_update_entry i u ttl x w)"
  using update_entry_ok(1) [of w i u ttl x] update_entry_links [of w i u ttl x]
  by (simp add: world_ok_def maps_ok_def update_entry_maps)

lemma foldl_same: "(\<And>w s. P (f w s) = P w) \<Longrightarrow> P (foldl f w ss) = P w"
  by (induction ss arbitrary: w) simp_all

lemma unlink_active_maps:
  "w_maps (route_cache_unlink_active i w) = w_maps w"
  "w_next_mapping (route_cache_unlink_active i w) = w_next_mapping w"
  by (simp_all add: route_cache_unlink_active_def Let_def set_entry_def set_tcp_def set_udp_def
      foldl_same [where P = w_maps] foldl_same [where P = w_next_mapping])

lemma take_entry_links:
  assumes "world_ok w" "take_entry w = (i, v)"
  shows "links_ok v" "maps_ok v" "tcp_act v i = []" "udp_act v i = []"
proof -
  note L = assms(1) [unfolded world_ok_def links_ok_def maps_ok_def]
  have "links_ok v \<and> maps_ok v \<and> tcp_act v i = [] \<and> udp_act v i = []"
  proof (cases "rc_next_free (w_cache w) < rc_size (w_cache w)")
    case True
    then have i: "i = rc_next_free (w_cache w)"
      and v: "v = w\<lparr>w_cache := (w_cache w)\<lparr>rc_next_free := rc_next_free (w_cache w) + 1\<rparr>\<rparr>"
      using assms(2) by (auto simp: take_entry_def Let_def)
    have il: "i < length (rc_entries (w_cache w))"
      using L True i by (simp add: cache_ok_def cache_inv_def)
    have a: "tcp_act v = tcp_act w" "udp_act v = udp_act w"
      by (auto simp: tcp_act_def udp_act_def v fun_eq_iff)
    have "links_ok w" using assms(1) by (simp add: world_ok_def)
    then have "links_ok v" using il a by (intro links_ok_cong [of w v]) (simp_all add: v flip: i)
    moreover have "maps_ok v" using L by (simp add: maps_ok_def v)
    moreover have "tcp_act w i = []" "udp_act w i = []"
      using L i by (metis (mono_tags, lifting) links_def empty_Collect_eq nat_less_le set_empty)+
    ultimately show ?thesis using a by simp
  next
    case False
    define x where "x = route_cache_unlink_active i w"
    have i: "i = last (rc_lru (w_cache w))" and
      v: "v = x\<lparr>w_cache := (w_cache x)\<lparr>rc_lru := remove1 i (rc_lru (w_cache x)),
            rc_buckets := (rc_buckets (w_cache x))
              [chain_of (rc_buckets_n (w_cache x)) (ce_hash (entry_of x i)) :=
                 remove1 i (rc_buckets (w_cache x) !
                   chain_of (rc_buckets_n (w_cache x)) (ce_hash (entry_of x i)))]\<rparr>\<rparr>"
      using assms(2) False by (auto simp: take_entry_def Let_def x_def)
    have I: "set (rc_lru (w_cache w)) = {..< rc_next_free (w_cache w)}" "0 < rc_next_free (w_cache w)"
      using L False by (auto simp: cache_ok_def cache_inv_def)
    then have iD: "i < rc_next_free (w_cache w)"
      using i last_in_set [of "rc_lru (w_cache w)"] by fastforce
    then have il: "i < length (rc_entries (w_cache w))" using L by linarith
    have x: "links_ok x" using unlink_active_ok iD assms(1) by (simp add: x_def world_ok_def)
    have a: "tcp_act v = tcp_act x" "udp_act v = udp_act x"
      by (auto simp: tcp_act_def udp_act_def v fun_eq_iff)
    have "links_ok v" using x a by (intro links_ok_cong [of x v]) (simp_all add: v links_ok_def)
    moreover have "maps_ok v"
      using L by (simp add: maps_ok_def v x_def unlink_active_udp unlink_active_maps)
    moreover have "tcp_act x i = []" "udp_act x i = []"
      using il by (simp_all add: tcp_act_def udp_act_def x_def unlink_active_cache)
    ultimately show ?thesis using a by simp
  qed
  then show "links_ok v" "maps_ok v" "tcp_act v i = []" "udp_act v i = []" by blast+
qed

lemma insert_world:
  assumes "world_ok w" "target_ok t" "route_cache_insert t u ttl x w = (r, w')"
  shows "world_ok w'" "r = Some i \<Longrightarrow> i < rc_next_free (w_cache w')"
proof -
  have ok: "cache_ok (w_cache w)" using assms(1) by (simp add: world_ok_def)
  have "world_ok w' \<and> (\<forall>i. r = Some i \<longrightarrow> i < rc_next_free (w_cache w'))"
  proof (cases u)
    case None
    then show ?thesis using assms by (auto simp: route_cache_insert_def)
  next
    case u: (Some o')
    have cok: "cache_ok (w_cache w')"
      using insert_refines' [OF ok assms(2)] assms(3) u by simp
    show ?thesis
    proof (cases "chain_find (w_cache w) t")
      case (Some i)
      define v where "v = route_cache_update_entry i u ttl x w"
      have i: "i < rc_next_free (w_cache w)"
        using chain_find_cases [OF ok assms(2)] Some by simp
      have "r = Some i" "w' = v\<lparr>w_cache := lru_touch i (w_cache v)\<rparr>"
        using assms(2,3) Some u by (auto simp: route_cache_insert_def v_def target_ok_def Let_def)
      moreover have "i < rc_next_free (w_cache v)"
        using update_entry_ok(2) [OF ok i] i by (simp add: v_def)
      ultimately show ?thesis
        using touch_ok [OF update_entry_world [OF assms(1) i], of i u ttl x]
        by (simp add: v_def) (simp add: lru_touch_def)
    next
      case None
      obtain i v where te: "take_entry w = (i, v)" by (cases "take_entry w")
      note T = take_entry_ok [OF ok te] and K = take_entry_links [OF assms(1) te]
      define g where "g = rc_generation (w_cache v) + 1"
      define e where "e = fill_entry t (route_cache_hash t) g u ttl x"
      define b where "b = chain_of (rc_buckets_n (w_cache v)) (route_cache_hash t)"
      have r: "r = Some i" and w': "w' = v\<lparr>w_cache := (w_cache v)\<lparr>rc_generation := g,
          rc_entries := (rc_entries (w_cache v))[i := e],
          rc_buckets := (rc_buckets (w_cache v))[b := i # rc_buckets (w_cache v) ! b],
          rc_lru := i # rc_lru (w_cache v)\<rparr>\<rparr>"
        using assms(2,3) None te u
        by (auto simp: route_cache_insert_def target_ok_def Let_def g_def e_def b_def)
      have e: "ce_active_tcp e = []" "ce_active_udp e = []"
        by (simp_all add: e_def fill_entry_def zero_entry_def)
      have "tcp_act w' = tcp_act v" "udp_act w' = udp_act v"
        using K(3,4) e by (auto simp: tcp_act_def udp_act_def w' fun_eq_iff nth_update_if)
      moreover have "rc_next_free (w_cache w') = rc_next_free (w_cache v)"
        "length (rc_entries (w_cache w')) = length (rc_entries (w_cache v))"
        by (simp_all add: w')
      ultimately have "links_ok w'"
        using links_okD [OF K(1)] by (intro links_ok_cong [OF K(1)]) (simp_all add: w')
      moreover have "maps_ok w'" using K(2) by (simp add: maps_ok_def w')
      ultimately show ?thesis using cok r T(2) by (simp add: world_ok_def w')
    qed
  qed
  then show "world_ok w'" "r = Some i \<Longrightarrow> i < rc_next_free (w_cache w')" by blast+
qed

subsection \<open>The operations on the links\<close>

text \<open>What tracking and untracking leave of the cache and of the mappings.\<close>

definition same_frame :: "world \<Rightarrow> world \<Rightarrow> bool" where
  "same_frame w v \<longleftrightarrow>
     w_maps v = w_maps w \<and> w_next_mapping v = w_next_mapping w \<and> w_conf v = w_conf w \<and>
     w_msec v = w_msec w \<and>
     rc_size (w_cache v) = rc_size (w_cache w) \<and> rc_buckets_n (w_cache v) = rc_buckets_n (w_cache w) \<and>
     rc_next_free (w_cache v) = rc_next_free (w_cache w) \<and> rc_lru (w_cache v) = rc_lru (w_cache w) \<and>
     rc_buckets (w_cache v) = rc_buckets (w_cache w) \<and>
     length (rc_entries (w_cache v)) = length (rc_entries (w_cache w)) \<and>
     (\<forall>i. entry_key (entry_of v i) = entry_key (entry_of w i) \<and> ce_hash (entry_of v i) = ce_hash (entry_of w i) \<and>
        ce_ttl (entry_of v i) = ce_ttl (entry_of w i) \<and>
        entry_good (entry_of v i) = entry_good (entry_of w i))"

lemma same_frame_trans: "same_frame a b \<Longrightarrow> same_frame b c \<Longrightarrow> same_frame a c"
  by (simp add: same_frame_def)

lemma same_frame_set:
  "same_frame w (set_tcp s f w)" "same_frame w (set_udp m g w)"
  "same_frame w (set_entry i (\<lambda>e. e\<lparr>ce_active_tcp := h e\<rparr>) w)"
  "same_frame w (set_entry i (\<lambda>e. e\<lparr>ce_active_udp := h e\<rparr>) w)"
  by (auto simp: same_frame_def set_tcp_def set_udp_def set_entry_def nth_update_if entry_key_def
      entry_good_def)

lemma same_frame_refl: "same_frame w w"
  by (simp add: same_frame_def)

lemma untrack_frame:
  "same_frame w (route_untrack_tcp s w)" "same_frame w (route_untrack_udp m w)"
  by (auto simp: route_untrack_tcp_def route_untrack_udp_def same_frame_refl
      intro: same_frame_trans same_frame_set split: option.split)

lemma track_tcp_frame: "same_frame w (route_track_tcp s entry w)"
proof (cases entry)
  case (Some i)
  define v where "v = (if t_linked (w_tcp w s) then route_untrack_tcp s w else w)"
  have "same_frame w v" by (simp add: v_def untrack_frame same_frame_refl)
  moreover have "route_track_tcp s entry w = w \<or>
      (\<exists>f. route_track_tcp s entry w =
         set_tcp s f (set_entry i (\<lambda>e. e\<lparr>ce_active_tcp := ce_active_tcp e @ [s]\<rparr>) v))"
    by (auto simp: Some route_track_tcp_def Let_def v_def)
  moreover have "same_frame v (set_tcp s f (set_entry i (\<lambda>e. e\<lparr>ce_active_tcp := ce_active_tcp e @ [s]\<rparr>) v))" for f
    by (rule same_frame_trans [OF same_frame_set(3) same_frame_set(1)])
  ultimately show ?thesis
    by (auto intro: same_frame_refl same_frame_trans [of w v])
qed (simp add: route_track_tcp_def same_frame_refl)

lemma track_udp_frame: "same_frame w (route_track_udp m entry w)"
proof (cases entry)
  case (Some i)
  define v where "v = (if m_linked (w_udp w m) then route_untrack_udp m w else w)"
  have "same_frame w v" by (simp add: v_def untrack_frame same_frame_refl)
  moreover have "route_track_udp m entry w = w \<or>
      (\<exists>f. route_track_udp m entry w =
         set_udp m f (set_entry i (\<lambda>e. e\<lparr>ce_active_udp := ce_active_udp e @ [m]\<rparr>) v))"
    by (auto simp: Some route_track_udp_def Let_def v_def)
  moreover have "same_frame v (set_udp m f (set_entry i (\<lambda>e. e\<lparr>ce_active_udp := ce_active_udp e @ [m]\<rparr>) v))" for f
    by (rule same_frame_trans [OF same_frame_set(4) same_frame_set(2)])
  ultimately show ?thesis
    by (auto intro: same_frame_refl same_frame_trans [of w v])
qed (simp add: route_track_udp_def same_frame_refl)

lemma same_frame_cache: "same_frame w v \<Longrightarrow> cache_ok (w_cache w) \<Longrightarrow> cache_ok (w_cache v)"
  unfolding cache_ok_def same_frame_def by (auto intro: cache_inv_cong)

subsection \<open>The operations on the mappings\<close>

lemma untrack_m_linked:
  "m_linked (w_udp (route_untrack_tcp s w) m) = m_linked (w_udp w m)"
  "m_linked (w_udp (route_untrack_udp m' w) m) \<Longrightarrow> m_linked (w_udp w m)"
  by (auto simp: route_untrack_tcp_def route_untrack_udp_def set_udp_def set_tcp_def set_entry_def
      split: option.splits if_splits)

lemma track_m_linked:
  "m_linked (w_udp (route_track_tcp s entry w) m) = m_linked (w_udp w m)"
  "m_linked (w_udp (route_track_udp m' entry w) m) \<Longrightarrow> m = m' \<or> m_linked (w_udp w m)"
proof -
  have frame: "w_udp (set_tcp s f (set_entry i g v)) = w_udp v" for f i g v
    by (simp add: set_tcp_def set_entry_def)
  show "m_linked (w_udp (route_track_tcp s entry w) m) = m_linked (w_udp w m)"
    by (simp add: route_track_tcp_def Let_def frame untrack_m_linked(1) split: option.split)
  have "w_udp (set_udp m' f (set_entry i g v)) m = w_udp v m" if "m \<noteq> m'" for f i g v
    using that by (simp add: set_udp_def set_entry_def)
  then show "m = m' \<or> m_linked (w_udp w m)" if "m_linked (w_udp (route_track_udp m' entry w) m)"
    using that untrack_m_linked(2) [of m' w m]
    by (cases "m = m'") (simp_all add: route_track_udp_def Let_def split: option.splits if_splits)
qed

lemma same_frame_world:
  assumes "world_ok w" "same_frame w v" "links_ok v"
    "\<And>m. m_linked (w_udp v m) \<Longrightarrow> m_linked (w_udp w m) \<or> m < w_next_mapping w"
  shows "world_ok v"
proof -
  have "maps_ok v"
    using assms by (auto simp: world_ok_def maps_ok_def same_frame_def)
  then show ?thesis using assms same_frame_cache by (simp add: world_ok_def)
qed

lemma world_okD: "world_ok w \<Longrightarrow> links_ok w"
  by (simp add: world_ok_def)

lemma untrack_world:
  assumes "world_ok w"
  shows "world_ok (route_untrack_tcp s w)" "world_ok (route_untrack_udp m w)"
proof -
  show "world_ok (route_untrack_tcp s w)"
    by (rule same_frame_world [OF assms untrack_frame(1) untrack_tcp_ok(1) [OF world_okD [OF assms]]])
      (simp add: untrack_m_linked(1))
  show "world_ok (route_untrack_udp m w)"
    by (rule same_frame_world [OF assms untrack_frame(2) untrack_udp_ok(1) [OF world_okD [OF assms]]])
      (erule disjI1 [OF untrack_m_linked(2)])
qed

lemma track_world:
  assumes "world_ok w" "\<forall>i. entry = Some i \<longrightarrow> i < rc_next_free (w_cache w)"
  shows "world_ok (route_track_tcp s entry w)"
    "m < w_next_mapping w \<Longrightarrow> world_ok (route_track_udp m entry w)"
proof -
  show "world_ok (route_track_tcp s entry w)"
    by (rule same_frame_world [OF assms(1) track_tcp_frame track_tcp_ok [OF world_okD [OF assms(1)] assms(2)]])
      (simp add: track_m_linked)
  show "world_ok (route_track_udp m entry w)" if "m < w_next_mapping w"
    by (rule same_frame_world [OF assms(1) track_udp_frame track_udp_ok(1) [OF world_okD [OF assms(1)] assms(2)]])
      (use that in \<open>auto dest: track_m_linked(2)\<close>)
qed

text \<open>Writes to a session or a mapping that leave its link alone.\<close>

lemma set_world:
  assumes "world_ok w"
  shows "(\<And>t. t_linked (f t) = t_linked t) \<Longrightarrow> (\<And>t. t_route_entry (f t) = t_route_entry t) \<Longrightarrow>
      world_ok (set_tcp s f w)"
    "(\<And>u. m_linked (g u) = m_linked u) \<Longrightarrow> (\<And>u. m_route_entry (g u) = m_route_entry u) \<Longrightarrow>
      world_ok (set_udp m g w)"
proof -
  note L = world_okD [OF assms]
  have act: "tcp_act (set_tcp s f w) = tcp_act w" "udp_act (set_tcp s f w) = udp_act w"
    "tcp_act (set_udp m g w) = tcp_act w" "udp_act (set_udp m g w) = udp_act w"
    by (simp_all add: tcp_act_def udp_act_def set_tcp_def set_udp_def fun_eq_iff)
  show "world_ok (set_tcp s f w)"
    if "\<And>t. t_linked (f t) = t_linked t" "\<And>t. t_route_entry (f t) = t_route_entry t"
    using links_okD [OF L] that
    by (intro same_frame_world [OF assms same_frame_set(1)] links_ok_cong [OF L] act)
      (simp_all add: set_tcp_def)
  show "world_ok (set_udp m g w)"
    if "\<And>u. m_linked (g u) = m_linked u" "\<And>u. m_route_entry (g u) = m_route_entry u"
    using links_okD [OF L] that
    by (intro same_frame_world [OF assms same_frame_set(2)] links_ok_cong [OF L] act)
      (simp_all add: set_udp_def split: if_splits)
qed

lemma mapping_walk_ok:
  "world_ok w \<Longrightarrow> mapping_walk target ms w = (r, ms', w') \<Longrightarrow>
     world_ok w' \<and> same_frame w w' \<and> set ms' \<subseteq> set ms \<and> (\<forall>m. r = Some m \<longrightarrow> m \<in> set ms)"
proof (induction target ms w arbitrary: r ms' w' rule: mapping_walk.induct)
  case (1 target w)
  then show ?case by (simp add: same_frame_refl)
next
  case (2 target m ms w)
  consider (exp) "mapping_expired w m"
    | (hit) "\<not> mapping_expired w m" "m_hash (w_udp w m) = route_cache_hash target"
        "addr_equal (m_target (w_udp w m)) target"
    | (miss) "\<not> mapping_expired w m"
        "\<not> (m_hash (w_udp w m) = route_cache_hash target \<and> addr_equal (m_target (w_udp w m)) target)"
    by blast
  then show ?case
  proof cases
    case exp
    then have "mapping_walk target ms (route_untrack_udp m w) = (r, ms', w')" using "2.prems" by simp
    with "2.IH"(1) [OF exp untrack_world(2) [OF "2.prems"(1)]] show ?thesis
      using same_frame_trans [OF untrack_frame(2)] by auto
  next
    case hit
    then show ?thesis using "2.prems" set_world(2) same_frame_set(2) by auto
  next
    case miss
    obtain r0 ms0 w0 where e: "mapping_walk target ms w = (r0, ms0, w0)"
      by (cases "mapping_walk target ms w") auto
    with miss "2.prems" have "r = r0" "ms' = m # ms0" "w' = w0" by auto
    with "2.IH"(2) [OF miss(1) _ "2.prems"(1) e] miss(2) show ?thesis by auto
  qed
qed

lemma set_chain_world:
  assumes "world_ok w" "set ms \<subseteq> {..< w_next_mapping w}"
  shows "world_ok (set_chain s b ms w)"
proof -
  have "links_ok (set_chain s b ms w)"
    using links_okD [OF world_okD [OF assms(1)]]
    by (intro links_ok_cong [OF world_okD [OF assms(1)]])
      (simp_all add: set_chain_def tcp_act_def udp_act_def fun_eq_iff)
  moreover have "maps_ok (set_chain s b ms w)"
    using assms set_update_subset_insert [of "w_maps w s" b ms]
    by (fastforce simp: world_ok_def maps_ok_def set_chain_def subset_iff)
  ultimately show ?thesis
    using assms(1) by (simp add: world_ok_def) (simp add: set_chain_def)
qed

lemma chain_bound:
  assumes "world_ok w" "b < UDP_ROUTE_MAPPING_BUCKETS"
  shows "set (w_maps w s ! b) \<subseteq> {..< w_next_mapping w}"
proof -
  have "w_maps w s ! b \<in> set (w_maps w s)" using assms by (simp add: world_ok_def maps_ok_def)
  then show ?thesis using assms(1) by (fastforce simp: world_ok_def maps_ok_def)
qed

lemma bucket_less: "chain_of UDP_ROUTE_MAPPING_BUCKETS h < UDP_ROUTE_MAPPING_BUCKETS"
  by (rule chain_of_less) (simp add: UDP_ROUTE_MAPPING_BUCKETS_def)

lemma mapping_lookup_world:
  assumes "world_ok w" "udp_route_mapping_lookup s target w = (r, w')"
  shows "world_ok w'" "rc_next_free (w_cache w') = rc_next_free (w_cache w)"
    "r = Some m \<Longrightarrow> m < w_next_mapping w'" "w_next_mapping w' = w_next_mapping w"
proof -
  define b where "b = chain_of UDP_ROUTE_MAPPING_BUCKETS (route_cache_hash target)"
  have "world_ok w' \<and> rc_next_free (w_cache w') = rc_next_free (w_cache w) \<and>
      (\<forall>m. r = Some m \<longrightarrow> m < w_next_mapping w') \<and> w_next_mapping w' = w_next_mapping w"
  proof (cases "addr_host_len target = 0 \<or> addr_host_len target > 255")
    case True
    then show ?thesis using assms by (auto simp: udp_route_mapping_lookup_def)
  next
    case False
    obtain r0 ms v where e: "mapping_walk target (w_maps w s ! b) w = (r0, ms, v)"
      by (cases "mapping_walk target (w_maps w s ! b) w") auto
    then have w': "r = r0" "w' = set_chain s b ms v"
      using False assms(2) by (auto simp: udp_route_mapping_lookup_def Let_def b_def)
    note W = mapping_walk_ok [OF assms(1) e] and B = chain_bound [OF assms(1), of b s]
    have "set ms \<subseteq> {..< w_next_mapping v}" "\<forall>m. r0 = Some m \<longrightarrow> m < w_next_mapping v"
      using W B by (auto simp: same_frame_def b_def bucket_less subset_iff)
    then show ?thesis using W set_chain_world by (simp add: w') (simp add: set_chain_def same_frame_def)
  qed
  then show "world_ok w'" "rc_next_free (w_cache w') = rc_next_free (w_cache w)"
    "r = Some m \<Longrightarrow> m < w_next_mapping w'" "w_next_mapping w' = w_next_mapping w" by blast+
qed

lemma new_mapping_world:
  fixes u :: udp_mapping
  assumes "world_ok w" "m = w_next_mapping w" "\<not> m_linked u" "b < UDP_ROUTE_MAPPING_BUCKETS"
  defines "v \<equiv> set_udp m (\<lambda>_. u) (w\<lparr>w_next_mapping := m + 1\<rparr>)"
  shows "world_ok (set_chain s b (m # w_maps v s ! b) v)"
proof (rule set_chain_world)
  note L = world_okD [OF assms(1)]
  have new: "\<not> m_linked (w_udp w m)"
    using assms(1,2) by (auto simp: world_ok_def maps_ok_def)
  have link: "udp_link v = udp_link w"
    using new assms(3) by (auto simp: udp_link_def v_def set_udp_def fun_eq_iff)
  have act: "tcp_act v = tcp_act w" "udp_act v = udp_act w" "tcp_link v = tcp_link w"
    by (simp_all add: tcp_act_def udp_act_def tcp_link_def v_def set_udp_def fun_eq_iff)
  have "links_ok v"
    using L assms(3) by (simp add: links_ok_def link act) (simp add: v_def set_udp_def)
  moreover have "maps_ok v"
    using assms(1,3) by (auto simp: world_ok_def maps_ok_def v_def set_udp_def assms(2) less_Suc_eq)
  ultimately show "world_ok v"
    using assms(1) by (simp add: world_ok_def) (simp add: v_def set_udp_def)
  show "set (m # w_maps v s ! b) \<subseteq> {..< w_next_mapping v}"
    using chain_bound [OF assms(1,4), of s] by (auto simp: v_def set_udp_def assms(2))
qed

lemma mapping_insert_world:
  assumes "world_ok w" "\<forall>i. entry = Some i \<longrightarrow> i < rc_next_free (w_cache w)"
    "udp_route_mapping_insert s target u entry w = (ok, w')"
  shows "world_ok w'"
proof (cases "u = None \<or> addr_host_len target = 0 \<or> addr_host_len target > 255")
  case True
  then show ?thesis using assms by (auto simp: udp_route_mapping_insert_def)
next
  case False
  obtain r v where e: "udp_route_mapping_lookup s target w = (r, v)"
    by (cases "udp_route_mapping_lookup s target w")
  note V = mapping_lookup_world [OF assms(1) e]
  have en: "\<forall>i. entry = Some i \<longrightarrow> i < rc_next_free (w_cache v)" using assms(2) V(2) by simp
  show ?thesis
  proof (cases r)
    case None
    define b where "b = chain_of UDP_ROUTE_MAPPING_BUCKETS (route_cache_hash target)"
    have b: "b < UDP_ROUTE_MAPPING_BUCKETS" by (simp add: b_def bucket_less)
    define m where "m = w_next_mapping v"
    define n where "n = new_mapping (w_msec v) target u"
    have n: "\<not> m_linked n" by (simp add: n_def new_mapping_def)
    have w': "w' = route_track_udp m entry (set_chain s b
           (m # w_maps (set_udp m (\<lambda>_. n) (v\<lparr>w_next_mapping := m + 1\<rparr>)) s ! b)
           (set_udp m (\<lambda>_. n) (v\<lparr>w_next_mapping := m + 1\<rparr>)))"
      using assms(3) False e None
      by (auto simp: udp_route_mapping_insert_def Let_def b_def m_def n_def)
    show ?thesis
      unfolding w' using en
      by (intro track_world(2) new_mapping_world [OF V(1) m_def n b])
        (simp_all add: set_chain_def set_udp_def)
  next
    case (Some m)
    have "w' = route_track_udp m entry
        (set_udp m (\<lambda>x. x\<lparr>m_outbound := u, m_last_seen := w_msec (route_untrack_udp m v)\<rparr>)
          (route_untrack_udp m v))"
      using assms(3) False e Some by (auto simp: udp_route_mapping_insert_def Let_def)
    moreover have "w_next_mapping (route_untrack_udp m v) = w_next_mapping v"
      "rc_next_free (w_cache (route_untrack_udp m v)) = rc_next_free (w_cache v)"
      using untrack_frame(2) [of v m] by (simp_all add: same_frame_def)
    ultimately show ?thesis
      using en V(3) [OF Some]
      by (auto intro!: track_world(2) set_world(2) untrack_world(2) V(1)) (simp_all add: set_udp_def)
  qed
qed

subsection \<open>Runs\<close>

definition new_track :: tcp_track where
  "new_track = \<lparr>t_outbound = None, t_route_entry = None, t_last_active = 0, t_tracked_outbound = None,
     t_linked = False, t_stale = False, t_read_timer = None\<rparr>"

definition start_world :: "route_conf \<Rightarrow> nat \<Rightarrow> nat \<Rightarrow> world" where
  "start_world conf cache_size msec =
     \<lparr>w_conf = conf, w_cache = route_cache_init cache_size, w_tcp = (\<lambda>_. new_track),
      w_udp = (\<lambda>_. \<lparr>m_hash = 0, m_last_seen = 0,
        m_target = \<lparr>addr_type = 0, addr_host = [], addr_host_len = 0, addr_port = 0, addr_wire_len = 0\<rparr>,
        m_outbound = None, m_route_entry = None, m_linked = False, m_stale = False\<rparr>),
      w_maps = (\<lambda>_. replicate UDP_ROUTE_MAPPING_BUCKETS []), w_next_mapping = 0, w_msec = msec\<rparr>"

inductive route_step :: "world \<Rightarrow> world \<Rightarrow> bool" where
  cache_lookup: "target_ok t \<Longrightarrow> route_cache_lookup (w_cache w) t = (r, c) \<Longrightarrow>
    route_step w (w\<lparr>w_cache := c\<rparr>)"
| cache_insert: "target_ok t \<Longrightarrow> route_cache_insert t u ttl x w = (r, w') \<Longrightarrow> route_step w w'"
| cache_update: "i < rc_next_free (w_cache w) \<Longrightarrow>
    route_step w (route_cache_update_entry i u ttl x w)"
| set_outbound: "route_step w (set_tcp s (\<lambda>t. t\<lparr>t_outbound := u\<rparr>) w)"
| track_tcp: "\<forall>i. entry = Some i \<longrightarrow> i < rc_next_free (w_cache w) \<Longrightarrow>
    route_step w (route_track_tcp s entry w)"
| untrack_tcp: "route_step w (route_untrack_tcp s w)"
| touch_tcp: "route_step w (route_touch_tcp s w)"
| check_tcp: "route_check_tcp_stale s rb w = (r, w') \<Longrightarrow> route_step w w'"
| mapping_lookup: "udp_route_mapping_lookup s t w = (r, w') \<Longrightarrow> route_step w w'"
| mapping_insert: "\<forall>i. entry = Some i \<longrightarrow> i < rc_next_free (w_cache w) \<Longrightarrow>
    udp_route_mapping_insert s t u entry w = (ok, w') \<Longrightarrow> route_step w w'"
| finalize: "route_step w (finalize_links s w)"
| tick: "route_step w (w\<lparr>w_msec := w_msec w + d\<rparr>)"

definition route_run :: "route_conf \<Rightarrow> nat \<Rightarrow> nat \<Rightarrow> world \<Rightarrow> bool" where
  "route_run conf cache_size msec w \<longleftrightarrow> route_step\<^sup>*\<^sup>* (start_world conf cache_size msec) w"

lemma start_world_ok: "0 < n \<Longrightarrow> n \<le> 2 ^ 62 \<Longrightarrow> world_ok (start_world conf n msec)"
  using route_cache_init_ok [of n]
  by (auto simp: world_ok_def start_world_def links_ok_def links_def maps_ok_def tcp_act_def udp_act_def
      tcp_link_def udp_link_def new_track_def route_cache_init_def Let_def zero_entry_def)

lemma lookup_world:
  assumes "world_ok w" "target_ok t" "route_cache_lookup (w_cache w) t = (r, c)"
  shows "world_ok (w\<lparr>w_cache := c\<rparr>)"
proof -
  have "c = w_cache w \<or> (\<exists>i. c = lru_touch i (w_cache w) \<and> i < rc_next_free (w_cache w))"
    using lookup_refines' [OF _ assms(2,3)] assms
    by (auto simp: route_cache_lookup_def world_ok_def split: if_splits option.splits)
  then show ?thesis using assms(1) touch_ok by auto
qed

lemma tick_world:
  assumes "world_ok w"
  shows "world_ok (w\<lparr>w_msec := n\<rparr>)"
proof -
  have "tcp_act (w\<lparr>w_msec := n\<rparr>) = tcp_act w" "udp_act (w\<lparr>w_msec := n\<rparr>) = udp_act w"
    "tcp_link (w\<lparr>w_msec := n\<rparr>) = tcp_link w" "udp_link (w\<lparr>w_msec := n\<rparr>) = udp_link w"
    by (simp_all add: tcp_act_def udp_act_def tcp_link_def udp_link_def fun_eq_iff)
  then show ?thesis using assms by (simp add: world_ok_def maps_ok_def links_ok_def)
qed

lemma route_step_world:
  assumes "route_step w w'" "world_ok w"
  shows "world_ok w'"
  using assms
proof (cases rule: route_step.cases)
  case (touch_tcp s)
  then show ?thesis using assms(2) by (auto simp: route_touch_tcp_def intro: set_world(1))
next
  case (check_tcp s rb r)
  then show ?thesis
    using assms(2) by (auto simp: route_check_tcp_stale_def finalize_links_def untrack_world
        intro: set_world(1) split: if_splits)
qed (use assms(2) in \<open>auto simp: finalize_links_def
      intro: lookup_world insert_world(1) update_entry_world set_world(1) track_world(1)
        untrack_world mapping_lookup_world(1) mapping_insert_world tick_world\<close>)

lemma route_run_world: "route_run conf n msec w \<Longrightarrow> 0 < n \<Longrightarrow> n \<le> 2 ^ 62 \<Longrightarrow> world_ok w"
proof -
  assume n: "0 < n" "n \<le> 2 ^ 62" and "route_run conf n msec w"
  then have "route_step\<^sup>*\<^sup>* (start_world conf n msec) w" by (simp add: route_run_def)
  then show "world_ok w"
    by (induction rule: rtranclp_induct) (auto intro: start_world_ok n route_step_world)
qed

subsection \<open>Properties\<close>

definition wit_target :: addr_t where
  "wit_target = \<lparr>addr_type = ADDR_DOMAIN, addr_host = 97 # replicate 254 0, addr_host_len = 1,
     addr_port = 443, addr_wire_len = 0\<rparr>"

definition wit_conf :: route_conf where
  "wit_conf = \<lparr>cf_resolve = RESOLVE_LAZY, cf_drain = DRAIN_FAST, cf_udp_timeout = 60000\<rparr>"

definition wit_insert :: "nat option \<times> world" where
  "wit_insert = route_cache_insert wit_target (Some 7) True 60 (start_world wit_conf 1 0)"

lemma wit_target_ok: "target_ok wit_target"
  by (simp add: target_ok_def wit_target_def)

lemma wit_start_ok: "cache_ok (w_cache (start_world wit_conf 1 0))"
  using route_cache_init_ok [of 1] by (simp add: start_world_def)

lemma wit_insert_ok:
  "cache_ok (w_cache (snd wit_insert))"
  "lru_abs (w_cache (snd wit_insert)) = [(target_key wit_target, (Some 7, True, 60))]"
  using insert_refines' [OF wit_start_ok wit_target_ok, of 7 True 60 "fst wit_insert" "snd wit_insert"]
  by (simp_all add: wit_insert_def lru_insert_def lru_abs_def start_world_def route_cache_init_def Let_def)

text \<open>C14: A route cache lookup refines the lookup of a least-recently-used map. On any well-formed
  cache and any target with a host of 1 to 255 bytes, \<open>route_cache_lookup\<close> finds an entry exactly
  when the abstract list has the canonical key of the target (type, port, host in lower case for a
  domain), the entry holds the outbound, the TTL flag and the expiry the list has for it, the
  entry moves to the front, and the cache stays well formed.\<close>

theorem route_cache_lookup_refines:
  assumes "cache_ok c" "target_ok t" "route_cache_lookup c t = (r, c')"
  shows "cache_ok c' \<and>
    lru_lookup (target_key t) (lru_abs c) =
      (map_option (\<lambda>i. entry_value (rc_entries c ! i)) r, lru_abs c')"
  using lookup_refines' [OF assms] by blast

theorem route_cache_lookup_refines_witness:
  "map_option (\<lambda>i. entry_value (rc_entries (w_cache (snd wit_insert)) ! i))
     (fst (route_cache_lookup (w_cache (snd wit_insert)) wit_target)) = Some (Some 7, True, 60)"
  using route_cache_lookup_refines [OF wit_insert_ok(1) wit_target_ok prod.collapse [symmetric]]
  by (simp add: wit_insert_ok(2) lru_lookup_def)

text \<open>C13: A route cache insertion refines the insertion of a least-recently-used map of the
  configured size: an existing key gets the new outbound, TTL flag and expiry and moves to the
  front; a new key goes to the front and, when the cache is full, exactly the pair used longest ago
  is dropped. The hash chains, the order list and the entries stay consistent, whatever the hashes.\<close>

theorem route_cache_insert_refines:
  assumes "cache_ok (w_cache w)" "target_ok t"
    and "route_cache_insert t (Some u) ttl expires w = (r, w')"
  shows "cache_ok (w_cache w') \<and> rc_size (w_cache w') = rc_size (w_cache w) \<and> r \<noteq> None \<and>
    lru_abs (w_cache w') =
      lru_insert (rc_size (w_cache w)) (target_key t) (Some u, ttl, if ttl then expires else 0)
        (lru_abs (w_cache w))"
  by (rule insert_refines' [OF assms])

theorem route_cache_insert_refines_witness:
  "lru_abs (w_cache (snd (route_cache_insert (wit_target\<lparr>addr_port := 80\<rparr>) (Some 3) False 0 (snd wit_insert))))
     = [((ADDR_DOMAIN, 80, [97]), (Some 3, False, 0))]"
proof -
  have t: "target_ok (wit_target\<lparr>addr_port := 80\<rparr>)" by (simp add: target_ok_def wit_target_def)
  have n: "rc_size (w_cache (snd wit_insert)) = 1"
    using insert_refines' [OF wit_start_ok wit_target_ok, of 7 True 60 "fst wit_insert" "snd wit_insert"]
    by (simp add: wit_insert_def start_world_def route_cache_init_def Let_def)
  show ?thesis
    using route_cache_insert_refines [OF wit_insert_ok(1) t prod.collapse [symmetric], of 3 False 0]
    by (simp add: wit_insert_ok(2) lru_insert_def n target_key_def canon_host_def host_bytes_def
        wit_target_def ngx_tolower_def)
qed

text \<open>C12: In every state that a server reaches by any sequence of route cache lookups, insertions,
  updates (with eviction and with stale marking), trackings, untrackings, idle checks, UDP mapping
  lookups and insertions and passing of time, the cache is well formed and its links are exact: the
  queue of each entry holds, once each, exactly the sessions (the UDP mappings) that are linked and
  whose \<open>route_entry\<close> is that entry, and no session or mapping is linked to an unused entry.\<close>

theorem route_run_links:
  assumes "route_run conf n msec w" "0 < n" "n \<le> 2 ^ 62"
  shows "cache_ok (w_cache w) \<and>
    links (tcp_act w) (tcp_link w) (rc_next_free (w_cache w)) \<and>
    links (udp_act w) (udp_link w) (rc_next_free (w_cache w))"
  using route_run_world [OF assms] by (simp add: world_ok_def links_ok_def)

theorem route_run_links_witness:
  "cache_ok (w_cache (snd wit_insert)) \<and> links (tcp_act (snd wit_insert)) (tcp_link (snd wit_insert))
     (rc_next_free (w_cache (snd wit_insert)))"
proof -
  have "route_step (start_world wit_conf 1 0) (snd wit_insert)"
    by (rule cache_insert [OF wit_target_ok, where u = "Some 7" and ttl = True and x = 60 and r = "fst wit_insert"])
      (simp add: wit_insert_def)
  then have "route_run wit_conf 1 0 (snd wit_insert)" by (simp add: route_run_def)
  then show ?thesis using route_run_links [of wit_conf 1 0 "snd wit_insert"] by simp
qed

lemma mapping_walk_hit:
  "mapping_walk target ms w = (Some m, ms', w') \<Longrightarrow>
     \<exists>v. \<not> mapping_expired v m \<and> m_hash (w_udp v m) = route_cache_hash target \<and>
         addr_equal (m_target (w_udp v m)) target \<and>
         w' = set_udp m (\<lambda>u. u\<lparr>m_last_seen := w_msec v\<rparr>) v \<and> m \<in> set ms'"
proof (induction target ms w arbitrary: ms' w' rule: mapping_walk.induct)
  case (2 target m0 ms w)
  show ?case
  proof (cases "mapping_expired w m0")
    case False
    then show ?thesis
      using "2.prems" "2.IH"(2) [OF False] by (auto split: if_splits prod.splits)
  qed (use 2 in simp)
qed simp

end
