(* ===== verification/Mt_Cache_Map.thy ===== *)
theory Mt_Cache_Map
  imports Mt_Cache_Run
begin

text \<open>
  The UDP mappings of a session: what was inserted is found again, and what the end of a session
  leaves in the queues of the cache.
\<close>

subsection \<open>The walk along a chain\<close>

definition mapping_match :: "world \<Rightarrow> addr_t \<Rightarrow> nat \<Rightarrow> bool" where
  "mapping_match w target m \<longleftrightarrow>
     m_hash (w_udp w m) = route_cache_hash target \<and> addr_equal (m_target (w_udp w m)) target"

definition mapping_passed :: "world \<Rightarrow> addr_t \<Rightarrow> nat \<Rightarrow> bool" where
  "mapping_passed w target j \<longleftrightarrow> \<not> mapping_expired w j \<and> \<not> mapping_match w target j"

lemma mapping_passed_cong:
  "w_udp v j = w_udp w j \<Longrightarrow> w_conf v = w_conf w \<Longrightarrow> w_msec v = w_msec w \<Longrightarrow>
     mapping_passed v target j = mapping_passed w target j"
  by (simp add: mapping_passed_def mapping_expired_def mapping_match_def)

lemma untrack_udp_udp:
  "w_udp (route_untrack_udp m w) j = w_udp w j \<or> j = m"
  "m_last_seen (w_udp (route_untrack_udp m w) j) = m_last_seen (w_udp w j)"
  "m_target (w_udp (route_untrack_udp m w) j) = m_target (w_udp w j)"
  "m_hash (w_udp (route_untrack_udp m w) j) = m_hash (w_udp w j)"
  "m_outbound (w_udp (route_untrack_udp m w) j) = m_outbound (w_udp w j)"
  by (auto simp: route_untrack_udp_def set_udp_def set_entry_def split: option.splits)

lemma untrack_udp_frame:
  "w_conf (route_untrack_udp m w) = w_conf w" "w_msec (route_untrack_udp m w) = w_msec w"
  using untrack_frame(2) [of w m] by (simp_all add: same_frame_def)

lemma walk_passed:
  "mapping_passed w target j \<Longrightarrow> mapping_walk target ms w = (r, ms', w') \<Longrightarrow>
     w_udp w' j = w_udp w j \<and> w_conf w' = w_conf w \<and> w_msec w' = w_msec w \<and> r \<noteq> Some j"
proof (induction target ms w arbitrary: r ms' w' rule: mapping_walk.induct)
  case (2 target m ms w)
  show ?case
  proof (cases "mapping_expired w m")
    case True
    then have "j \<noteq> m" using "2.prems"(1) by (auto simp: mapping_passed_def)
    then have j: "w_udp (route_untrack_udp m w) j = w_udp w j" using untrack_udp_udp(1) [of m w j] by simp
    have p: "mapping_passed (route_untrack_udp m w) target j"
      using "2.prems"(1) mapping_passed_cong [OF j untrack_udp_frame] by simp
    have "mapping_walk target ms (route_untrack_udp m w) = (r, ms', w')"
      using "2.prems"(2) True by simp
    from "2.IH"(1) [OF True p this] show ?thesis by (simp add: j untrack_udp_frame)
  next
    case False
    show ?thesis
    proof (cases "mapping_match w target m")
      case True
      then have "j \<noteq> m" using "2.prems"(1) by (auto simp: mapping_passed_def)
      moreover have "w' = set_udp m (\<lambda>u. u\<lparr>m_last_seen := w_msec w\<rparr>) w" "r = Some m"
        using "2.prems"(2) False True by (simp_all add: mapping_match_def)
      ultimately show ?thesis by (simp add: set_udp_def)
    next
      case n: False
      then have n': "\<not> (m_hash (w_udp w m) = route_cache_hash target \<and> addr_equal (m_target (w_udp w m)) target)"
        by (simp add: mapping_match_def)
      obtain r0 ms0 w0 where e: "mapping_walk target ms w = (r0, ms0, w0)"
        by (cases "mapping_walk target ms w") auto
      then have "r = r0" "w' = w0" using "2.prems"(2) False n' by auto
      with "2.IH"(2) [OF False n' "2.prems"(1) e] show ?thesis by simp
    qed
  qed
qed simp

lemma walk_split:
  "mapping_walk target ms w = (Some m, ms', w') \<Longrightarrow>
     (\<exists>pre post. ms' = pre @ m # post \<and> (\<forall>j \<in> set pre. mapping_passed w' target j \<and> j \<noteq> m)) \<and>
     mapping_match w' target m"
proof (induction target ms w arbitrary: ms' w' rule: mapping_walk.induct)
  case (2 target m0 ms w)
  show ?case
  proof (cases "mapping_expired w m0")
    case True
    then have "mapping_walk target ms (route_untrack_udp m0 w) = (Some m, ms', w')"
      using "2.prems" by simp
    then show ?thesis by (rule "2.IH"(1) [OF True])
  next
    case False
    show ?thesis
    proof (cases "mapping_match w target m0")
      case True
      then have e: "m = m0" "ms' = m0 # ms" "w' = set_udp m0 (\<lambda>u. u\<lparr>m_last_seen := w_msec w\<rparr>) w"
        using "2.prems" False by (auto simp: mapping_match_def)
      then have "ms' = [] @ m # ms" by simp
      moreover have "mapping_match w' target m"
        using True e by (simp add: mapping_match_def set_udp_def)
      ultimately show ?thesis using e(2) by (intro conjI exI [of _ "[]"] exI [of _ ms]) simp_all
    next
      case n: False
      obtain r0 ms0 w0 where e: "mapping_walk target ms w = (r0, ms0, w0)"
        by (cases "mapping_walk target ms w") auto
      then have r: "r0 = Some m" "w' = w0" "ms' = m0 # ms0"
        using "2.prems" False n by (auto simp: mapping_match_def)
      then have e': "mapping_walk target ms w = (Some m, ms0, w0)" using e by simp
      have n': "\<not> (m_hash (w_udp w m0) = route_cache_hash target \<and> addr_equal (m_target (w_udp w m0)) target)"
        using n by (simp add: mapping_match_def)
      obtain pre post where p: "ms0 = pre @ m # post" "\<forall>j \<in> set pre. mapping_passed w0 target j \<and> j \<noteq> m"
          "mapping_match w0 target m"
        using "2.IH"(2) [OF False n' e'] by blast
      have "mapping_passed w target m0" using False n by (simp add: mapping_passed_def)
      then have "mapping_passed w0 target m0 \<and> m0 \<noteq> m"
        using walk_passed [OF _ e', of m0] mapping_passed_cong [of w0 m0 w target] by auto
      then have "ms' = (m0 # pre) @ m # post \<and> (\<forall>j \<in> set (m0 # pre). mapping_passed w' target j \<and> j \<noteq> m)"
        using p r by simp
      then show ?thesis using p r by blast
    qed
  qed
qed simp

lemma walk_found:
  "\<forall>j \<in> set pre. mapping_passed w target j \<Longrightarrow> \<not> mapping_expired w m \<Longrightarrow> mapping_match w target m \<Longrightarrow>
     fst (mapping_walk target (pre @ m # post) w) = Some m"
  by (induction pre) (auto simp: mapping_passed_def mapping_match_def split: prod.splits)

subsection \<open>Insertion\<close>

lemma tolower_tolower: "ngx_tolower (ngx_tolower c) = ngx_tolower c"
  by (simp add: ngx_tolower_def or.assoc)

lemma track_udp_udp:
  "j \<noteq> m \<Longrightarrow> w_udp (route_track_udp m entry w) j = w_udp w j"
  "m_last_seen (w_udp (route_track_udp m entry w) j) = m_last_seen (w_udp w j)"
  "m_target (w_udp (route_track_udp m entry w) j) = m_target (w_udp w j)"
  "m_hash (w_udp (route_track_udp m entry w) j) = m_hash (w_udp w j)"
  "m_outbound (w_udp (route_track_udp m entry w) j) = m_outbound (w_udp w j)"
  using untrack_udp_udp [of m w j]
  by (simp_all add: route_track_udp_def Let_def set_udp_def set_entry_def untrack_udp_udp(2-5)
      split: option.split)

lemma addr_equal_stored:
  assumes "target_ok t"
  shows "addr_equal (m_target (new_mapping now t u)) t"
proof (cases "addr_type t = ADDR_DOMAIN")
  case True
  then show ?thesis
    using assms by (auto simp: new_mapping_def addr_equal_def list_all_iff nth_append tolower_tolower target_ok_def)
next
  case False
  have "memcmp (addr_host t) (addr_host t) (addr_host_len t) = 0"
    using assms by (simp add: memcmp_take target_ok_def)
  then show ?thesis using False by (simp add: new_mapping_def addr_equal_def)
qed

lemma fresh_not_expired: "m_last_seen (w_udp w m) = w_msec w \<Longrightarrow> \<not> mapping_expired w m"
  by (simp add: mapping_expired_def)

lemma lookup_found:
  assumes "target_ok t" "w_maps w s ! chain_of UDP_ROUTE_MAPPING_BUCKETS (route_cache_hash t) = pre @ m # post"
    "\<forall>j \<in> set pre. mapping_passed w t j" "m_last_seen (w_udp w m) = w_msec w" "mapping_match w t m"
  shows "fst (udp_route_mapping_lookup s t w) = Some m"
  using walk_found [OF assms(3) fresh_not_expired [OF assms(4)] assms(5), of post] assms(1,2)
  by (auto simp: udp_route_mapping_lookup_def Let_def target_ok_def split: prod.split)

text \<open>Tracking a mapping puts it on the queue of the entry.\<close>

lemma track_udp_adds:
  assumes "route_fast_drain_enabled w" "ce_ttl (entry_of w i)" "i < length (rc_entries (w_cache w))"
  shows "m \<in> set (ce_active_udp (entry_of (route_track_udp m (Some i) w) i))"
proof -
  define v where "v = (if m_linked (w_udp w m) then route_untrack_udp m w else w)"
  have "length (rc_entries (w_cache v)) = length (rc_entries (w_cache w))"
    using untrack_frame(2) [of w m] unfolding v_def same_frame_def by simp
  then have il: "i < length (rc_entries (w_cache v))" using assms(3) by simp
  have t: "route_track_udp m (Some i) w =
      set_udp m (\<lambda>u. u\<lparr>m_route_entry := Some i, m_linked := True, m_stale := False\<rparr>)
        (set_entry i (\<lambda>e. e\<lparr>ce_active_udp := ce_active_udp e @ [m]\<rparr>) v)"
    using assms(1,2) unfolding route_track_udp_def Let_def v_def by simp
  have "entry_of (set_udp m f (set_entry i g v)) i = g (entry_of v i)" for f g
    using il by (simp add: set_entry_def set_udp_def)
  then show ?thesis unfolding t by simp
qed

lemma finalize_udp: "ce_active_udp (entry_of (finalize_links s w) i) = ce_active_udp (entry_of w i)"
proof (cases "t_linked (w_tcp w s) \<and> t_route_entry (w_tcp w s) \<noteq> None")
  case True
  then obtain j where "t_linked (w_tcp w s)" "t_route_entry (w_tcp w s) = Some j" by blast
  then show ?thesis
    by (simp add: finalize_links_def route_untrack_tcp_def set_tcp_def set_entry_def nth_update_if)
qed (auto simp: finalize_links_def route_untrack_tcp_def split: option.split)

lemma finalize_maps: "w_maps (finalize_links s w) = w_maps w"
  using untrack_frame(1) [of w s] by (simp add: finalize_links_def same_frame_def)

lemma set_chain_frame: "w_conf (set_chain s b ms w) = w_conf w" "w_cache (set_chain s b ms w) = w_cache w"
  "w_udp (set_chain s b ms w) = w_udp w" "w_msec (set_chain s b ms w) = w_msec w"
  by (simp_all add: set_chain_def)

lemma lookup_frame:
  assumes "world_ok w" "udp_route_mapping_lookup s t w = (r, v)"
  shows "w_conf v = w_conf w" "length (rc_entries (w_cache v)) = length (rc_entries (w_cache w))"
    "ce_ttl (entry_of v i) = ce_ttl (entry_of w i)"
proof -
  obtain r0 ms v0 where e: "mapping_walk t (w_maps w s ! chain_of UDP_ROUTE_MAPPING_BUCKETS (route_cache_hash t)) w = (r0, ms, v0)"
    by (cases "mapping_walk t (w_maps w s ! chain_of UDP_ROUTE_MAPPING_BUCKETS (route_cache_hash t)) w") auto
  have "same_frame w v0" using mapping_walk_ok [OF assms(1) e] by simp
  then have f: "w_conf v0 = w_conf w" "length (rc_entries (w_cache v0)) = length (rc_entries (w_cache w))"
    "ce_ttl (entry_of v0 i) = ce_ttl (entry_of w i)"
    unfolding same_frame_def by blast+
  have "v = w \<or> v = set_chain s (chain_of UDP_ROUTE_MAPPING_BUCKETS (route_cache_hash t)) ms v0"
    using assms(2) e unfolding udp_route_mapping_lookup_def Let_def by (simp split: if_splits)
  then show "w_conf v = w_conf w" "length (rc_entries (w_cache v)) = length (rc_entries (w_cache w))"
    "ce_ttl (entry_of v i) = ce_ttl (entry_of w i)"
    using f by (elim disjE; simp add: set_chain_frame)+
qed

lemma insert_lookup':
  assumes "world_ok w" "target_ok t" "udp_route_mapping_insert s t (Some u) entry w = (ok, w')"
  shows "ok \<and> (\<exists>m y. fst (udp_route_mapping_lookup s t w') = Some m \<and> m_outbound (w_udp w' m) = Some u \<and>
    w' = route_track_udp m entry y \<and> w_conf y = w_conf w \<and>
    length (rc_entries (w_cache y)) = length (rc_entries (w_cache w)) \<and>
    (\<forall>i. ce_ttl (entry_of y i) = ce_ttl (entry_of w i)))"
proof -
  define b where "b = chain_of UDP_ROUTE_MAPPING_BUCKETS (route_cache_hash t)"
  obtain r ms v0 where e: "mapping_walk t (w_maps w s ! b) w = (r, ms, v0)"
    by (cases "mapping_walk t (w_maps w s ! b) w") auto
  define v where "v = set_chain s b ms v0"
  have l: "udp_route_mapping_lookup s t w = (r, v)"
    using assms(2) e by (simp add: udp_route_mapping_lookup_def Let_def b_def v_def target_ok_def)
  have "length (w_maps v0 s) = UDP_ROUTE_MAPPING_BUCKETS"
    using mapping_walk_ok [OF assms(1) e] by (simp add: world_ok_def maps_ok_def)
  then have len: "b < length (w_maps v s)" and vb: "w_maps v s ! b = ms"
    by (simp_all add: v_def set_chain_def b_def bucket_less)
  note tr = track_udp_frame [unfolded same_frame_def] and un = untrack_frame(2) [unfolded same_frame_def]
  show ?thesis
  proof (cases r)
    case None
    define m where "m = w_next_mapping v"
    define x where "x = set_udp m (\<lambda>_. new_mapping (w_msec v) t (Some u)) (v\<lparr>w_next_mapping := m + 1\<rparr>)"
    define y where "y = set_chain s b (m # ms) x"
    have w': "ok" "w' = route_track_udp m entry y"
      using assms(2,3) l None vb
      by (auto simp: udp_route_mapping_insert_def Let_def target_ok_def b_def m_def x_def y_def set_udp_def)
    have y: "w_maps y s ! b = m # ms" "w_msec y = w_msec v"
      "w_udp y m = new_mapping (w_msec v) t (Some u)"
      using len by (simp_all add: y_def x_def set_chain_def set_udp_def)
    have "w_maps w' s ! b = [] @ m # ms" using tr [where w = y] y by (simp add: w')
    moreover have "m_last_seen (w_udp w' m) = w_msec w'"
      using tr [where w = y] y by (simp add: w' track_udp_udp) (simp add: new_mapping_def)
    moreover have "mapping_match w' t m"
      using addr_equal_stored [OF assms(2)]
      by (simp add: mapping_match_def w' track_udp_udp y) (simp add: new_mapping_def)
    ultimately have "fst (udp_route_mapping_lookup s t w') = Some m"
      by (intro lookup_found [OF assms(2), where pre = "[]" and post = ms]) (simp_all add: b_def)
    moreover have "m_outbound (w_udp w' m) = Some u"
      by (simp add: w' track_udp_udp y) (simp add: new_mapping_def)
    moreover have "w_conf y = w_conf w" "length (rc_entries (w_cache y)) = length (rc_entries (w_cache w))"
      "\<forall>i. ce_ttl (entry_of y i) = ce_ttl (entry_of w i)"
      using lookup_frame [OF assms(1) l] by (simp_all add: y_def x_def set_chain_def set_udp_def)
    ultimately show ?thesis using w' by blast
  next
    case (Some m)
    from walk_split e Some obtain pre post where p: "ms = pre @ m # post"
      "\<forall>j \<in> set pre. mapping_passed v0 t j \<and> j \<noteq> m" "mapping_match v0 t m"
      by metis
    define y where "y = set_udp m (\<lambda>n. n\<lparr>m_outbound := Some u, m_last_seen := w_msec v\<rparr>) (route_untrack_udp m v)"
    have w': "ok" "w' = route_track_udp m entry y"
      using assms(2,3) l Some un [of m v]
      by (auto simp: udp_route_mapping_insert_def Let_def target_ok_def y_def)
    have y: "w_maps y = w_maps v" "w_msec y = w_msec v" "w_conf y = w_conf v"
      using un [of m v] by (simp_all add: y_def set_udp_def)
    have "w_udp w' j = w_udp v0 j" if "j \<noteq> m" for j
      using that untrack_udp_udp(1) [of m v j]
      by (simp add: w' track_udp_udp y_def set_udp_def) (simp add: v_def set_chain_def)
    then have pre: "\<forall>j \<in> set pre. mapping_passed w' t j"
      using p(2) mapping_passed_cong [of w' _ v0 t] tr [where w = y] y
      by (auto simp: w' v_def set_chain_def)
    have m: "m_last_seen (w_udp w' m) = w_msec w'" "m_outbound (w_udp w' m) = Some u"
      using tr [where w = y] y by (simp_all add: w' track_udp_udp) (simp_all add: y_def set_udp_def)
    have "mapping_match w' t m"
      using p(3) by (simp add: mapping_match_def w' track_udp_udp)
        (simp add: y_def set_udp_def untrack_udp_udp v_def set_chain_def)
    moreover have "w_maps w' s ! b = pre @ m # post"
      using tr [where w = y] y(1) vb p(1) by (simp add: w')
    ultimately have "fst (udp_route_mapping_lookup s t w') = Some m"
      using pre m by (intro lookup_found [OF assms(2), where pre = pre and post = post]) (simp_all add: b_def)
    moreover have "w_conf y = w_conf w" "length (rc_entries (w_cache y)) = length (rc_entries (w_cache w))"
      "\<forall>i. ce_ttl (entry_of y i) = ce_ttl (entry_of w i)"
      using lookup_frame [OF assms(1) l] un [of m v] by (simp_all add: y_def set_udp_def)
    ultimately show ?thesis using m w' by blast
  qed
qed

lemma insert_tracks:
  assumes "world_ok w" "target_ok t" "i < rc_next_free (w_cache w)" "route_fast_drain_enabled w"
    "ce_ttl (entry_of w i)" "udp_route_mapping_insert s t (Some u) (Some i) w = (ok, w')"
  shows "\<exists>m. fst (udp_route_mapping_lookup s t w') = Some m \<and>
    m \<in> set (ce_active_udp (entry_of (finalize_links s w') i))"
proof -
  have il: "i < length (rc_entries (w_cache w))"
    using links_okD [OF world_okD [OF assms(1)]] assms(3) by linarith
  obtain m y where m: "fst (udp_route_mapping_lookup s t w') = Some m"
      "w' = route_track_udp m (Some i) y" and y: "w_conf y = w_conf w"
      "length (rc_entries (w_cache y)) = length (rc_entries (w_cache w))"
      "ce_ttl (entry_of y i) = ce_ttl (entry_of w i)"
    using insert_lookup' [OF assms(1,2,6)] by blast
  have "m \<in> set (ce_active_udp (entry_of w' i))"
    unfolding m(2) using y il assms(4,5)
    by (intro track_udp_adds) (simp_all add: route_fast_drain_enabled_def)
  then show ?thesis using m(1) by (simp add: finalize_udp)
qed

lemma insert_conf: "route_cache_insert t u ttl x w = (r, w') \<Longrightarrow> w_conf w' = w_conf w"
proof -
  have ms: "w_conf (route_mark_stale i old w) = w_conf w" for i old w
    by (simp add: route_mark_stale_def Let_def stale_tcp_def stale_udp_def set_tcp_def set_udp_def
        foldl_same [where P = w_conf] split: option.split)
  have "w_conf (route_cache_unlink_active i w) = w_conf w" for i w
    by (simp add: route_cache_unlink_active_def Let_def set_entry_def set_tcp_def set_udp_def
        foldl_same [where P = w_conf])
  then have "w_conf (snd (take_entry w)) = w_conf w"
    by (simp add: take_entry_def Let_def)
  moreover have "w_conf (route_cache_update_entry i u ttl x w) = w_conf w" for i
    by (simp add: route_cache_update_entry_def set_entry_def ms Let_def)
  ultimately show "route_cache_insert t u ttl x w = (r, w') \<Longrightarrow> w_conf w' = w_conf w"
    by (auto simp: route_cache_insert_def Let_def split: if_splits option.splits prod.splits)
qed

subsection \<open>Properties\<close>

text \<open>A UDP mapping that was inserted is found: after \<open>udp_route_mapping_insert\<close> for a target
  (whether it reuses a mapping or makes a new one, and whatever it drops on the way because it
  expired), \<open>udp_route_mapping_lookup\<close> for that target at the same time finds a mapping, and its
  outbound is the one inserted.\<close>

theorem udp_mapping_insert_lookup:
  assumes "world_ok w" "target_ok t" "udp_route_mapping_insert s t (Some u) entry w = (ok, w')"
  shows "ok \<and> (\<exists>m. fst (udp_route_mapping_lookup s t w') = Some m \<and> m_outbound (w_udp w' m) = Some u)"
  using insert_lookup' [OF assms] by blast

theorem udp_mapping_insert_lookup_witness:
  "fst (udp_route_mapping_insert 4 wit_target (Some 7) None (start_world wit_conf 1 0)) \<and>
   fst (udp_route_mapping_lookup 4 wit_target
     (snd (udp_route_mapping_insert 4 wit_target (Some 7) None (start_world wit_conf 1 0)))) \<noteq> None"
proof -
  have "world_ok (start_world wit_conf 1 0)" by (rule start_world_ok) simp_all
  from udp_mapping_insert_lookup [OF this wit_target_ok prod.collapse [symmetric], of 4 7 None]
  show ?thesis by auto
qed

text \<open>The end of a session leaves its UDP mappings in the cache. With the lazy resolver and
  the fast drain mode, after a session inserts a mapping for an entry with a TTL and is then
  finalized (\<open>finalize\<close> only untracks the TCP link), the mapping is still on the queue
  \<open>active_udp\<close> of the entry, although its memory belongs to the pool of the closed connection.\<close>

theorem finalize_leaves_udp_links:
  assumes "world_ok w" "target_ok t" "i < rc_next_free (w_cache w)" "route_fast_drain_enabled w"
    "ce_ttl (entry_of w i)" "udp_route_mapping_insert s t (Some u) (Some i) w = (ok, w')"
  shows "\<exists>m. fst (udp_route_mapping_lookup s t w') = Some m \<and>
    m \<in> set (ce_active_udp (entry_of (finalize_links s w') i))"
  by (rule insert_tracks [OF assms])

theorem finalize_leaves_udp_links_witness:
  "\<exists>m. m \<in> set (ce_active_udp (entry_of (finalize_links 4
     (snd (udp_route_mapping_insert 4 wit_target (Some 7) (fst wit_insert) (snd wit_insert))))
       (the (fst wit_insert))))"
proof -
  have start: "world_ok (start_world wit_conf 1 0)" by (rule start_world_ok) simp_all
  have ins: "route_cache_insert wit_target (Some 7) True 60 (start_world wit_conf 1 0) =
      (fst wit_insert, snd wit_insert)" by (simp add: wit_insert_def)
  obtain i where i: "fst wit_insert = Some i"
    using insert_refines' [OF wit_start_ok wit_target_ok, of 7 True 60 "fst wit_insert" "snd wit_insert"]
    by (auto simp: wit_insert_def)
  note ok = insert_world(1) [OF start wit_target_ok ins]
    and bound = insert_world(2) [OF start wit_target_ok ins i]
  define c where "c = w_cache (snd wit_insert)"
  have "i \<in> set (rc_lru c)"
    using bound wit_insert_ok(1) by (simp add: cache_ok_def cache_inv_def c_def)
  then have "(entry_key (rc_entries c ! i), entry_value (rc_entries c ! i)) \<in> set (lru_abs c)"
    by (auto simp: lru_abs_def)
  then have "entry_value (rc_entries c ! i) = (Some 7, True, 60)"
    using wit_insert_ok(2) by (simp add: c_def)
  then have ttl: "ce_ttl (entry_of (snd wit_insert) i)" by (simp add: entry_value_def c_def)
  have conf: "route_fast_drain_enabled (snd wit_insert)"
    using insert_conf [OF ins] by (simp add: route_fast_drain_enabled_def start_world_def wit_conf_def)
  show ?thesis
    using finalize_leaves_udp_links [OF ok wit_target_ok bound conf ttl prod.collapse [symmetric], of 4 7]
    by (auto simp: i)
qed

end
