(* ===== verification/Mt_Outbound.thy ===== *)
theory Mt_Outbound
  imports Mt_Cache Mt_Rules Mt_Literal Mt_Trojan
begin

text \<open>
  Outbounds and what a request does with the one chosen for it
  (\<open>ngx_stream_mtrojan_module.c\<close>): their record, the values of their parameters, the reference to a
  server of the configuration, and which requests an outbound blocks.

  A string of the configuration (\<open>ngx_str_t\<close>) is its bytes. \<open>ngx_atoi\<close> and
  \<open>ngx_parse_addr\<close> of nginx are parameters.
\<close>

subsection \<open>Outbounds\<close>

datatype outbound_type = OUTBOUND_DIRECT | OUTBOUND_SOCKS5

datatype block = BLOCK_NONE | BLOCK_H3 | BLOCK_UDP | BLOCK_ALL

record outbound =
  ob_type :: outbound_type
  ob_ip_prefer :: nat
  ob_ip_prefer_set :: bool
  ob_block :: block
  ob_block_set :: bool
  ob_tag :: bytes
  ob_match_all :: bool
  ob_socks5_server :: "sockaddr option"
  ob_socks5_username :: cptr
  ob_socks5_password :: cptr
  ob_has_rules :: bool
  ob_matcher :: "route_rules option"

text \<open>A name or password whose \<open>data\<close> is \<open>NULL\<close> is \<open>None\<close>.\<close>

definition outbound_init :: "outbound_type \<Rightarrow> outbound" where
  "outbound_init type =
     \<lparr>ob_type = type, ob_ip_prefer = IP_PREFER_AUTO, ob_ip_prefer_set = False,
      ob_block = BLOCK_NONE, ob_block_set = False, ob_tag = [], ob_match_all = True,
      ob_socks5_server = None, ob_socks5_username = None, ob_socks5_password = None,
      ob_has_rules = False, ob_matcher = None\<rparr>"

definition outbound_set_tag :: "outbound \<Rightarrow> bytes \<Rightarrow> outbound option" where
  "outbound_set_tag outbound tag =
     (if tag = [] \<or> length tag = 1 \<and> tag ! 0 = of_char (CHR ''*'')
      then Some (outbound\<lparr>ob_match_all := True\<rparr>)
      else if rule_reserved_value tag then None
      else Some (outbound\<lparr>ob_tag := tag, ob_match_all := False, ob_has_rules := True\<rparr>))"

definition parse_ip_prefer :: "bytes \<Rightarrow> nat option" where
  "parse_ip_prefer v =
     (if length v = 4 \<and> strncmp v (ascii ''auto'') 4 = 0 then Some IP_PREFER_AUTO
      else if length v = 4 \<and> strncmp v (ascii ''ipv4'') 4 = 0 then Some IP_PREFER_IPV4
      else if length v = 4 \<and> strncmp v (ascii ''ipv6'') 4 = 0 then Some IP_PREFER_IPV6
      else None)"

definition parse_block :: "bytes \<Rightarrow> block option" where
  "parse_block v =
     (if length v = 4 \<and> strncmp v (ascii ''none'') 4 = 0 then Some BLOCK_NONE
      else if length v = 2 \<and> strncmp v (ascii ''h3'') 2 = 0 then Some BLOCK_H3
      else if length v = 3 \<and> strncmp v (ascii ''udp'') 3 = 0 then Some BLOCK_UDP
      else if length v = 3 \<and> strncmp v (ascii ''all'') 3 = 0 then Some BLOCK_ALL
      else None)"

subsection \<open>The server of a local proxy\<close>

record server_ref =
  sr_host :: bytes
  sr_port :: u16
  sr_set :: bool
  sr_localhost :: bool

definition strlchr :: "bytes \<Rightarrow> byte \<Rightarrow> nat option" where
  "strlchr v c = find (\<lambda>i. v ! i = c) [0 ..< length v]"

text \<open>The result is whether it succeeded, the reference, and the string, whose host part is put
  into lower case in place.\<close>

definition parse_server_ref ::
    "(bytes \<Rightarrow> int) \<Rightarrow> (bytes \<Rightarrow> bool) \<Rightarrow> bytes \<Rightarrow> server_ref \<Rightarrow> bool \<times> server_ref \<times> bytes" where
  "parse_server_ref atoi ip_address v r =
     (if v = [] then (False, r, v)
      else
        (case strlchr v (of_char (CHR '':'')) of
           None \<Rightarrow> (False, r, v)
         | Some colon \<Rightarrow>
             if colon = 0 \<or> colon + 1 = length v then (False, r, v)
             else if list_ex (\<lambda>c. c < of_char (CHR ''0'') \<or> c > of_char (CHR ''9'')) (drop (colon + 1) v)
             then (False, r, v)
             else
               let port = atoi (drop (colon + 1) v) in
               if port \<le> 0 \<or> port > 65535 then (False, r, v)
               else
                 let host = map ngx_tolower (take colon v);
                     r = r\<lparr>sr_host := host, sr_port := word_of_int port, sr_set := True\<rparr>;
                     v = poke v 0 host in
                 if length host = 9 \<and> strncmp host (ascii ''localhost'') (length host) = 0
                 then (True, r\<lparr>sr_localhost := True\<rparr>, v)
                 else if ip_address host then (False, r, v)
                 else (True, r, v)))"

subsection \<open>Blocked requests\<close>

definition CMD_UDP_ASSOCIATE :: byte where "CMD_UDP_ASSOCIATE = 0x03"

definition outbound_type_of :: "outbound option \<Rightarrow> outbound_type" where
  "outbound_type_of ob = (case ob of None \<Rightarrow> OUTBOUND_DIRECT | Some ob \<Rightarrow> ob_type ob)"

definition current_block :: "outbound option \<Rightarrow> block" where
  "current_block ob = (case ob of None \<Rightarrow> BLOCK_NONE | Some ob \<Rightarrow> ob_block ob)"

definition current_ip_prefer :: "outbound option \<Rightarrow> nat" where
  "current_ip_prefer ob =
     (case ob of
        None \<Rightarrow> IP_PREFER_AUTO
      | Some o' \<Rightarrow> if ob_type o' \<noteq> OUTBOUND_DIRECT then IP_PREFER_AUTO else ob_ip_prefer o')"

text \<open>The fields of a session that decide: its outbound, command and target.\<close>

record request =
  rq_outbound :: "outbound option"
  rq_command :: byte
  rq_target :: addr_t

definition request_blocked :: "request \<Rightarrow> bool" where
  "request_blocked rq =
     (let block = current_block (rq_outbound rq) in
      if block = BLOCK_NONE then False
      else if block = BLOCK_ALL then True
      else if rq_command rq \<noteq> CMD_UDP_ASSOCIATE then False
      else if block = BLOCK_UDP then True
      else block = BLOCK_H3 \<and> addr_port (rq_target rq) = 443)"

text \<open>The target of the session is replaced by that of the frame and put back.\<close>

definition udp_frame_blocked :: "request \<Rightarrow> udp_frame_t option \<Rightarrow> bool \<times> request" where
  "udp_frame_blocked rq frame =
     (case frame of
        None \<Rightarrow> (False, rq)
      | Some f \<Rightarrow>
          let original = rq_target rq;
              rq = rq\<lparr>rq_target := uf_addr f\<rparr>;
              blocked = request_blocked rq in
          (blocked, rq\<lparr>rq_target := original\<rparr>))"

subsection \<open>The internal resolver\<close>

definition needs_internal_resolver :: "bool \<Rightarrow> route_resolve \<Rightarrow> outbound list option \<Rightarrow> bool" where
  "needs_internal_resolver route_enabled resolve outbounds =
     (if route_enabled \<and> resolve = RESOLVE_LAZY then True
      else
        (case outbounds of
           None \<Rightarrow> True
         | Some obs \<Rightarrow> obs = [] \<or> list_ex (\<lambda>ob. ob_type ob = OUTBOUND_DIRECT) obs))"

text \<open>One line of \<open>resolv.conf\<close>, as the C string \<open>fgets\<close> leaves (without the \<open>NUL\<close>): the name
  server it gives, with brackets around an IPv6 address that has none.\<close>

definition blank :: "byte \<Rightarrow> bool" where
  "blank c \<longleftrightarrow> c = of_char (CHR '' '') \<or> c = 9"

definition name_end :: "byte \<Rightarrow> bool" where
  "name_end c \<longleftrightarrow> c = 10 \<or> c = 13 \<or> blank c \<or> c = of_char (CHR ''#'') \<or> c = of_char (CHR '';'')"

definition nameserver_line :: "bytes \<Rightarrow> bytes option" where
  "nameserver_line text =
     (let p = dropWhile blank text in
      if p = [] \<or> hd p = of_char (CHR ''#'') \<or> hd p = of_char (CHR '';'') then None
      else if strncmp (p @ [0]) (ascii ''nameserver'') 10 \<noteq> 0 then None
      else
        let p = drop 10 p in
        if p = [] \<or> \<not> blank (hd p) then None
        else
          let name = takeWhile (\<lambda>c. \<not> name_end c) (dropWhile blank p) in
          if name = [] then None
          else if list_ex (\<lambda>c. c = of_char (CHR '':'')) name \<and> hd name \<noteq> of_char (CHR ''['')
          then Some (of_char (CHR ''['') # name @ [of_char (CHR '']'')])
          else Some name)"

text \<open>\<open>None\<close>: the file cannot be opened.\<close>

definition read_system_nameservers :: "bytes list option \<Rightarrow> bytes list \<Rightarrow> bytes list option" where
  "read_system_nameservers file names =
     (case file of
        None \<Rightarrow> None
      | Some ls \<Rightarrow> Some (names @ List.map_filter nameserver_line ls))"

end
