(* ===== verification/Mt_Select.thy ===== *)
theory Mt_Select
  imports Mt_Cache_Run Mt_Outbound
begin

text \<open>
  The choice of an outbound for a target (\<open>ngx_stream_mtrojan_module.c\<close>, \<open>select_outbound\<close> and what it
  calls): the rules of the outbounds in configuration order, the route cache in front of them, the
  system and the nginx resolver behind them, and the refresh of an entry that has expired.

  An outbound is an index into the list of the server. The record \<open>route_srv\<close> holds what the server
  configuration has fixed, \<open>route_env\<close> what lies outside of the program: the clock, the parsers of
  address literals, \<open>getaddrinfo\<close> and \<open>ngx_resolve_name\<close>. Pool allocations succeed.
\<close>

subsection \<open>Server and environment\<close>

text \<open>\<open>rs_core_resolver\<close>, \<open>rs_route_resolver\<close>: the number of name servers of the resolver of the
  server block and of the internal one; \<open>rs_cache\<close>: the server has a route cache.\<close>

record route_srv =
  rs_outbounds :: "outbound list option"
  rs_route_enabled :: bool
  rs_cache :: bool
  rs_core_resolver :: "nat option"
  rs_route_resolver :: "nat option"

record addrinfo =
  ai_addr :: "sockaddr option"
  ai_addrlen :: nat

text \<open>\<open>ngx_resolve_name\<close> fails, or calls the handler at once with a state and addresses (and the
  time up to which they are valid), or calls it later.\<close>

record resolved =
  rv_state :: int
  rv_addrs :: "sockaddr option list"
  rv_valid :: int

datatype resolve_call = RESOLVE_FAILS | RESOLVE_NOW resolved | RESOLVE_LATER

record route_env =
  en_time :: int
  en_inet_addr :: "bytes \<Rightarrow> u32"
  en_inet6_addr :: "bytes \<Rightarrow> bytes option"
  en_pton4 :: "bytes \<Rightarrow> bytes option"
  en_pton6 :: "bytes \<Rightarrow> bytes option"
  en_getaddrinfo :: "bytes \<Rightarrow> u16 \<Rightarrow> addrinfo list option"
  en_resolve_name :: "bytes \<Rightarrow> resolve_call"

definition ROUTE_CACHE_TTL :: int where "ROUTE_CACHE_TTL = 60"
definition ROUTE_MAX_SYSTEM_ADDRS :: nat where "ROUTE_MAX_SYSTEM_ADDRS = 8"

subsection \<open>The rules of one outbound\<close>

definition outbound_matches :: "route_env \<Rightarrow> outbound \<Rightarrow> addr_t \<Rightarrow> bool" where
  "outbound_matches env ob target =
     (if ob_match_all ob \<or> \<not> ob_has_rules ob then True
      else if ob_matcher ob = None then False
      else route_rules_match_target (en_inet_addr env) (en_inet6_addr env) (ob_matcher ob) (Some target)
             = RULE_MATCH)"

definition outbound_matches_domain :: "outbound \<Rightarrow> addr_t \<Rightarrow> bool" where
  "outbound_matches_domain ob target =
     (if ob_match_all ob \<or> \<not> ob_has_rules ob then True
      else if ob_matcher ob = None \<or> addr_type target \<noteq> ADDR_DOMAIN then False
      else route_rules_match_domain (ob_matcher ob) (host_bytes target) = RULE_MATCH)"

definition outbound_has_ip_rules :: "outbound \<Rightarrow> bool" where
  "outbound_has_ip_rules ob = (case ob_matcher ob of None \<Rightarrow> False | Some g \<Rightarrow> rr_ips g \<noteq> [])"

definition outbound_matches_resolved_ip :: "outbound \<Rightarrow> sockaddr option list \<Rightarrow> bool" where
  "outbound_matches_resolved_ip ob addrs =
     (ob_matcher ob \<noteq> None \<and>
      list_ex (\<lambda>a. case a of
          None \<Rightarrow> False
        | Some sa \<Rightarrow> route_rules_match_ip (ob_matcher ob) sa = RULE_MATCH) addrs)"

subsection \<open>The first outbound that takes the target\<close>

text \<open>The outbound and whether the entry for it is to expire, or that addresses are needed.\<close>

datatype selection = SELECTED nat bool | NEEDS_RESOLVE | NOT_SELECTED

fun select_from ::
    "route_env \<Rightarrow> route_resolve \<Rightarrow> addr_t \<Rightarrow> sockaddr option list \<Rightarrow> bool \<Rightarrow> nat \<Rightarrow> outbound list \<Rightarrow> selection" where
  "select_from env resolve target addrs lazy_used i [] = NOT_SELECTED"
| "select_from env resolve target addrs lazy_used i (ob # obs) =
     (if outbound_matches_domain ob target then
        SELECTED i (lazy_used \<and> addr_type target = ADDR_DOMAIN \<and> (ob_match_all ob \<or> \<not> ob_has_rules ob))
      else if addr_type target = ADDR_DOMAIN \<and> resolve = RESOLVE_LAZY \<and> outbound_has_ip_rules ob \<and> addrs = []
      then NEEDS_RESOLVE
      else if addr_type target = ADDR_DOMAIN \<and> resolve = RESOLVE_LAZY \<and> outbound_has_ip_rules ob
              \<and> outbound_matches_resolved_ip ob addrs
      then SELECTED i True
      else if addr_type target \<noteq> ADDR_DOMAIN \<and> outbound_matches env ob target then SELECTED i False
      else select_from env resolve target addrs lazy_used (i + 1) obs)"

definition select_outbound_now ::
    "route_env \<Rightarrow> route_srv \<Rightarrow> route_resolve \<Rightarrow> addr_t \<Rightarrow> sockaddr option list \<Rightarrow> bool \<Rightarrow> selection" where
  "select_outbound_now env srv resolve target addrs lazy_used =
     (case rs_outbounds srv of
        None \<Rightarrow> NOT_SELECTED
      | Some obs \<Rightarrow> select_from env resolve target addrs lazy_used 0 obs)"

subsection \<open>Resolvers\<close>

datatype resolver_ref = CORE_RESOLVER | INTERNAL_RESOLVER

definition route_resolver :: "route_srv \<Rightarrow> resolver_ref option" where
  "route_resolver srv =
     (if (case rs_core_resolver srv of None \<Rightarrow> False | Some n \<Rightarrow> n \<noteq> 0) then Some CORE_RESOLVER
      else if (case rs_route_resolver srv of None \<Rightarrow> False | Some n \<Rightarrow> n \<noteq> 0) then Some INTERNAL_RESOLVER
      else None)"

datatype resolver_kind = RESOLVER_NGINX | RESOLVER_SYSTEM

definition route_resolver_kind :: "route_srv \<Rightarrow> resolver_kind" where
  "route_resolver_kind srv = (if route_resolver srv \<noteq> None then RESOLVER_NGINX else RESOLVER_SYSTEM)"

text \<open>An address of the list that \<open>getaddrinfo\<close> gives is used when it fits and is IPv4 or IPv6.\<close>

definition system_addr_ok :: "addrinfo \<Rightarrow> bool" where
  "system_addr_ok ai =
     (ai_addr ai \<noteq> None \<and> ai_addrlen ai \<le> 128 \<and> ai_addr ai \<noteq> Some SA_other)"

fun system_addrs :: "nat \<Rightarrow> addrinfo list \<Rightarrow> sockaddr option list" where
  "system_addrs n [] = []"
| "system_addrs n (ai # ais) =
     (if n \<ge> ROUTE_MAX_SYSTEM_ADDRS then []
      else if system_addr_ok ai then ai_addr ai # system_addrs (n + 1) ais
      else system_addrs n ais)"

definition route_system_resolve :: "route_env \<Rightarrow> addr_t \<Rightarrow> sockaddr option list option" where
  "route_system_resolve env target =
     (if addr_type target \<noteq> ADDR_DOMAIN \<or> addr_host_len target = 0 \<or> addr_host_len target \<ge> 256 then None
      else
        (case en_getaddrinfo env (cstr (host_bytes target @ [0])) (addr_port target) of
           None \<Rightarrow> None
         | Some ais \<Rightarrow>
             let addrs = system_addrs 0 ais in
             if addrs \<noteq> [] then Some addrs else None))"

definition route_valid_time :: "route_env \<Rightarrow> int \<Rightarrow> int" where
  "route_valid_time env valid = (if valid > en_time env then valid else en_time env + ROUTE_CACHE_TTL)"

definition route_resolve_target :: "route_env \<Rightarrow> route_resolve \<Rightarrow> addr_t \<Rightarrow> addr_t" where
  "route_resolve_target env resolve target =
     (if resolve = RESOLVE_OFF then target
      else if addr_type target \<noteq> ADDR_DOMAIN then target
      else the (snd (normalize_ip_literal (en_pton4 env) (en_pton6 env) (Some target))))"

subsection \<open>Refreshing an entry\<close>

text \<open>A refresh holds the entry, its generation and the target.\<close>

record refresh =
  rf_entry :: nat
  rf_generation :: u64
  rf_target :: addr_t

definition route_refresh_handler :: "route_env \<Rightarrow> route_srv \<Rightarrow> refresh \<Rightarrow> resolved \<Rightarrow> world \<Rightarrow> world" where
  "route_refresh_handler env srv rf rv w =
     (let i = rf_entry rf;
          fresh = (\<lambda>w. ce_valid (entry_of w i) \<and> ce_generation (entry_of w i) = rf_generation rf);
          w = (if fresh w then set_entry i (\<lambda>e. e\<lparr>ce_refreshing := False\<rparr>) w else w) in
      if rv_state rv = 0 \<and> rv_addrs rv \<noteq> [] \<and> fresh w then
        (case select_outbound_now env srv (cf_resolve (w_conf w)) (rf_target rf) (rv_addrs rv) True of
           SELECTED ob ttl \<Rightarrow>
             route_cache_update_entry i (Some ob) ttl (route_valid_time env (rv_valid rv)) w
         | _ \<Rightarrow> w)
      else w)"

text \<open>The result tells which refresh waits for its handler.\<close>

definition route_cache_start_refresh ::
    "route_env \<Rightarrow> route_srv \<Rightarrow> addr_t \<Rightarrow> nat \<Rightarrow> world \<Rightarrow> refresh option \<times> world" where
  "route_cache_start_refresh env srv target i w =
     (if ce_refreshing (entry_of w i) \<or> addr_type target \<noteq> ADDR_DOMAIN \<or> addr_host_len target = 0
         \<or> addr_host_len target > 255
      then (None, w)
      else if route_resolver_kind srv \<noteq> RESOLVER_NGINX then (None, w)
      else
        let rf = \<lparr>rf_entry = i, rf_generation = ce_generation (entry_of w i), rf_target = target\<rparr>;
            w = set_entry i (\<lambda>e. e\<lparr>ce_refreshing := True\<rparr>) w in
        (case en_resolve_name env (host_bytes target) of
           RESOLVE_FAILS \<Rightarrow> (None, set_entry i (\<lambda>e. e\<lparr>ce_refreshing := False\<rparr>) w)
         | RESOLVE_NOW rv \<Rightarrow> (None, route_refresh_handler env srv rf rv w)
         | RESOLVE_LATER \<Rightarrow> (Some rf, w)))"

subsection \<open>Selection with the cache\<close>

definition cache_lookup :: "route_srv \<Rightarrow> addr_t \<Rightarrow> world \<Rightarrow> nat option \<times> world" where
  "cache_lookup srv target w =
     (if \<not> rs_cache srv then (None, w)
      else let (r, c) = route_cache_lookup (w_cache w) target in (r, w\<lparr>w_cache := c\<rparr>))"

definition cache_insert ::
    "route_srv \<Rightarrow> addr_t \<Rightarrow> nat option \<Rightarrow> bool \<Rightarrow> int \<Rightarrow> world \<Rightarrow> nat option \<times> world" where
  "cache_insert srv target ob ttl expires w =
     (if \<not> rs_cache srv then (None, w) else route_cache_insert target ob ttl expires w)"

definition set_route :: "nat \<Rightarrow> nat option \<Rightarrow> nat option \<Rightarrow> world \<Rightarrow> world" where
  "set_route s ob entry w = set_tcp s (\<lambda>t. t\<lparr>t_outbound := ob, t_route_entry := entry\<rparr>) w"

text \<open>The return code; \<open>ROUTE_RESOLVE\<close> hands over to \<open>start_route_resolver\<close>.\<close>

datatype route_rc = ROUTE_OK | ROUTE_RESOLVE

definition route_miss :: "route_env \<Rightarrow> route_srv \<Rightarrow> nat \<Rightarrow> addr_t \<Rightarrow> world \<Rightarrow> route_rc \<times> world" where
  "route_miss env srv s target w =
     (let resolve = cf_resolve (w_conf w) in
      case select_outbound_now env srv resolve target [] False of
        SELECTED ob ttl \<Rightarrow>
          let (entry, w) = cache_insert srv target (Some ob) ttl 0 w in
          (ROUTE_OK, set_route s (Some ob) entry w)
      | NEEDS_RESOLVE \<Rightarrow>
          if route_resolver_kind srv \<noteq> RESOLVER_NGINX then
            (case route_system_resolve env target of
               None \<Rightarrow> (ROUTE_OK, set_tcp s (\<lambda>t. t\<lparr>t_outbound := None\<rparr>) w)
             | Some addrs \<Rightarrow>
                 (case select_outbound_now env srv resolve target addrs True of
                    SELECTED ob ttl \<Rightarrow>
                      let (entry, w) = cache_insert srv target (Some ob) ttl (en_time env + ROUTE_CACHE_TTL) w in
                      (ROUTE_OK, set_route s (Some ob) entry w)
                  | _ \<Rightarrow> (ROUTE_OK, set_tcp s (\<lambda>t. t\<lparr>t_outbound := None\<rparr>) w)))
          else (ROUTE_RESOLVE, w)
      | NOT_SELECTED \<Rightarrow> (ROUTE_OK, set_route s None None w))"

text \<open>The result also has the target, which may have become an IP address, and a refresh that was
  started.\<close>

definition select_outbound ::
    "route_env \<Rightarrow> route_srv \<Rightarrow> nat \<Rightarrow> addr_t \<Rightarrow> world \<Rightarrow> route_rc \<times> addr_t \<times> refresh option \<times> world" where
  "select_outbound env srv s target w =
     (case rs_outbounds srv of
        None \<Rightarrow> (ROUTE_OK, target, None, set_route s None None w)
      | Some [] \<Rightarrow> (ROUTE_OK, target, None, set_route s None None w)
      | Some (ob # obs) \<Rightarrow>
          let target = route_resolve_target env (cf_resolve (w_conf w)) target in
          if \<not> rs_route_enabled srv then (ROUTE_OK, target, None, set_route s (Some 0) None w)
          else
            let (cached, w) = cache_lookup srv target w in
            (case cached of
               Some i \<Rightarrow>
                 if ce_ttl (entry_of w i) \<and> ce_expires (entry_of w i) \<le> en_time env then
                   if route_resolver_kind srv \<noteq> RESOLVER_NGINX then
                     let (rc, w) = route_miss env srv s target w in (rc, target, None, w)
                   else
                     let w = set_route s (ce_outbound (entry_of w i)) (Some i) w;
                         (rf, w) = (if \<not> ce_refreshing (entry_of w i)
                           then route_cache_start_refresh env srv target i w else (None, w)) in
                     (ROUTE_OK, target, rf, w)
                 else (ROUTE_OK, target, None, set_route s (ce_outbound (entry_of w i)) (Some i) w)
             | None \<Rightarrow> let (rc, w) = route_miss env srv s target w in (rc, target, None, w)))"

text \<open>\<open>resolve_handler\<close>, for a route: the addresses have come. \<open>None\<close>: no outbound, the session is
  finalized.\<close>

definition route_resolved ::
    "route_env \<Rightarrow> route_srv \<Rightarrow> nat \<Rightarrow> addr_t \<Rightarrow> resolved \<Rightarrow> world \<Rightarrow> world option" where
  "route_resolved env srv s target rv w =
     (if rv_state rv \<noteq> 0 then None
      else
        (case select_outbound_now env srv (cf_resolve (w_conf w)) target (rv_addrs rv) True of
           SELECTED ob ttl \<Rightarrow>
             let (entry, w) = cache_insert srv target (Some ob) ttl (route_valid_time env (rv_valid rv)) w in
             Some (set_route s (Some ob) entry w)
         | _ \<Rightarrow> None))"

end
