(* ===== verification/Mt_Select_Props.thy ===== *)
theory Mt_Select_Props
  imports Mt_Select Mt_Cache_Map
begin

text \<open>
  What the choice of an outbound guarantees: it is the first outbound that takes the target, the
  route cache gives the same answer again, and the links of the cache survive it.
\<close>

subsection \<open>The first outbound that takes the target\<close>

definition accepts :: "route_env \<Rightarrow> route_resolve \<Rightarrow> addr_t \<Rightarrow> sockaddr option list \<Rightarrow> outbound \<Rightarrow> bool" where
  "accepts env resolve target addrs ob \<longleftrightarrow>
     outbound_matches_domain ob target \<or>
     (if addr_type target = ADDR_DOMAIN
      then resolve = RESOLVE_LAZY \<and> outbound_has_ip_rules ob \<and> outbound_matches_resolved_ip ob addrs
      else outbound_matches env ob target)"

lemma select_from_first:
  "case select_from env resolve target addrs lazy_used i obs of
     SELECTED k ttl \<Rightarrow> i \<le> k \<and> k - i < length obs \<and> accepts env resolve target addrs (obs ! (k - i)) \<and>
       (\<forall>j < k - i. \<not> accepts env resolve target addrs (obs ! j))
   | NEEDS_RESOLVE \<Rightarrow> addrs = [] \<and> addr_type target = ADDR_DOMAIN \<and> resolve = RESOLVE_LAZY
   | NOT_SELECTED \<Rightarrow> (\<forall>ob \<in> set obs. \<not> accepts env resolve target addrs ob)"
proof (induction obs arbitrary: i)
  case (Cons ob obs)
  show ?case
  proof (cases "accepts env resolve target addrs ob")
    case True
    then show ?thesis by (auto simp: accepts_def split: if_splits)
  next
    case False
    then have r: "select_from env resolve target addrs lazy_used i (ob # obs) = NEEDS_RESOLVE \<and>
          addrs = [] \<and> addr_type target = ADDR_DOMAIN \<and> resolve = RESOLVE_LAZY \<or>
        select_from env resolve target addrs lazy_used i (ob # obs) =
          select_from env resolve target addrs lazy_used (i + 1) obs"
      by (auto simp: accepts_def)
    show ?thesis
    proof (cases "select_from env resolve target addrs lazy_used (i + 1) obs")
      case (SELECTED k ttl)
      with Cons.IH [of "i + 1"] have k: "i + 1 \<le> k" "k - (i + 1) < length obs"
          "accepts env resolve target addrs (obs ! (k - (i + 1)))"
          "\<forall>j < k - (i + 1). \<not> accepts env resolve target addrs (obs ! j)" by simp_all
      then have "\<forall>j < k - i. \<not> accepts env resolve target addrs ((ob # obs) ! j)"
        using False by (auto simp: nth_Cons split: nat.split)
      moreover have "(ob # obs) ! (k - i) = obs ! (k - (i + 1))"
        using k(1) by (metis Suc_diff_Suc Suc_eq_plus1 less_eq_Suc_le nth_Cons_Suc)
      ultimately show ?thesis using r SELECTED k by (auto simp del: select_from.simps)
    next
      case NEEDS_RESOLVE
      then show ?thesis using r Cons.IH [of "i + 1"] by (auto simp del: select_from.simps)
    next
      case NOT_SELECTED
      then show ?thesis using r Cons.IH [of "i + 1"] False by (auto simp del: select_from.simps)
    qed
  qed
qed simp

text \<open>An outbound that was selected without addresses is selected with any addresses.\<close>

lemma select_from_stable:
  "select_from env resolve target [] l i obs = SELECTED k ttl \<Longrightarrow>
     \<exists>ttl'. select_from env resolve target addrs l' i obs = SELECTED k ttl'"
  by (induction obs arbitrary: i) (auto split: if_splits)

lemma select_from_ttl: "select_from env resolve target [] False i obs = SELECTED k ttl \<Longrightarrow> \<not> ttl"
  by (induction obs arbitrary: i) (auto split: if_splits)

subsection \<open>The cache gives the answer again\<close>

lemma lookup_after_insert:
  assumes "world_ok w" "target_ok t" "route_cache_insert t (Some u) ttl x w = (r, w')"
  shows "\<exists>i c. route_cache_lookup (w_cache w') t = (Some i, c) \<and>
    ce_outbound (entry_of w' i) = Some u \<and> ce_ttl (entry_of w' i) = ttl \<and>
    ce_expires (entry_of w' i) = (if ttl then x else 0) \<and> rc_entries c = rc_entries (w_cache w')"
proof -
  have ok: "cache_ok (w_cache w)" using assms(1) by (simp add: world_ok_def)
  note R = insert_refines' [OF ok assms(2,3)]
  obtain r' c where l: "route_cache_lookup (w_cache w') t = (r', c)"
    by (cases "route_cache_lookup (w_cache w') t")
  have "map_of (lru_abs (w_cache w')) (target_key t) = Some (Some u, ttl, if ttl then x else 0)"
    using R by (simp add: lru_insert_def)
  then have "map_option (\<lambda>i. entry_value (rc_entries (w_cache w') ! i)) r' =
      Some (Some u, ttl, if ttl then x else 0)"
    using lookup_refines' [OF _ assms(2) l] R by (simp add: lru_lookup_def)
  then obtain i where "r' = Some i" "entry_value (entry_of w' i) = (Some u, ttl, if ttl then x else 0)"
    by auto
  moreover have "rc_entries c = rc_entries (w_cache w')"
    using l by (auto simp: route_cache_lookup_def lru_touch_def split: if_splits option.splits)
  ultimately show ?thesis using l by (auto simp: entry_value_def)
qed

lemma select_hit:
  assumes "rs_outbounds srv = Some (ob # obs)" "rs_route_enabled srv" "rs_cache srv"
    and "route_cache_lookup (w_cache w) (route_resolve_target env (cf_resolve (w_conf w)) t) = (Some i, c)"
    and "rc_entries c = rc_entries (w_cache w)"
    and "\<not> (ce_ttl (entry_of w i) \<and> ce_expires (entry_of w i) \<le> en_time env)"
  shows "select_outbound env srv s t w =
    (ROUTE_OK, route_resolve_target env (cf_resolve (w_conf w)) t, None,
     set_route s (ce_outbound (entry_of w i)) (Some i) (w\<lparr>w_cache := c\<rparr>))"
  using assms by (auto simp: select_outbound_def cache_lookup_def Let_def)

lemma set_route_outbound: "t_outbound (w_tcp (set_route s u e w) s) = u"
  by (simp add: set_route_def set_tcp_def)

lemma set_route_frame:
  "w_cache (set_route s u e w) = w_cache w" "w_conf (set_route s u e w) = w_conf w"
  by (simp_all add: set_route_def set_tcp_def)

lemma route_resolve_target_time [simp]:
  "route_resolve_target (env\<lparr>en_time := n\<rparr>) r t = route_resolve_target env r t"
  by (simp add: route_resolve_target_def)

lemma select_again:
  assumes "rs_outbounds srv = Some (ob # obs)" "rs_route_enabled srv" "rs_cache srv"
    and "world_ok w" "target_ok (route_resolve_target env (cf_resolve (w_conf w)) t)"
    and "route_cache_insert (route_resolve_target env (cf_resolve (w_conf w)) t) (Some u) ttl x w = (r, v)"
    and "w' = set_route s0 u' e' v" "ttl \<Longrightarrow> en_time env' < x"
    and "route_resolve_target env' = route_resolve_target env"
    and "select_outbound env' srv s t w' = (rc, t', rf, w'')"
  shows "rc = ROUTE_OK \<and> rf = None \<and> t_outbound (w_tcp w'' s) = Some u"
proof -
  let ?t = "route_resolve_target env (cf_resolve (w_conf w)) t"
  obtain i c where l: "route_cache_lookup (w_cache v) ?t = (Some i, c)" "ce_outbound (entry_of v i) = Some u"
      "ce_ttl (entry_of v i) = ttl" "ce_expires (entry_of v i) = (if ttl then x else 0)"
      "rc_entries c = rc_entries (w_cache v)"
    using lookup_after_insert [OF assms(4-6)] by blast
  have conf: "w_conf w' = w_conf w" using insert_conf [OF assms(6)] by (simp add: assms(7) set_route_frame)
  have c: "w_cache w' = w_cache v" by (simp add: assms(7) set_route_frame)
  have "select_outbound env' srv s t w' = (ROUTE_OK, ?t, None,
      set_route s (ce_outbound (entry_of w' i)) (Some i) (w'\<lparr>w_cache := c\<rparr>))"
    using select_hit [OF assms(1-3), of w' env' t i c s] l assms(8,9) by (auto simp: conf c)
  then show ?thesis using assms(10) l(2) by (auto simp: c set_route_outbound)
qed

subsection \<open>The links survive a selection\<close>

lemma set_route_world:
  assumes "world_ok w" "\<not> t_linked (w_tcp w s)"
  shows "world_ok (set_route s u e w)"
proof -
  note L = world_okD [OF assms(1)]
  let ?v = "set_route s u e w"
  have "tcp_act ?v = tcp_act w" "udp_act ?v = udp_act w" "udp_link ?v = udp_link w"
    by (simp_all add: tcp_act_def udp_act_def udp_link_def set_route_def set_tcp_def fun_eq_iff)
  moreover have "tcp_link ?v = tcp_link w"
    using assms(2) by (auto simp: tcp_link_def set_route_def set_tcp_def fun_eq_iff)
  ultimately have "links_ok ?v"
    using L assms(2) by (auto simp: links_ok_def) (auto simp: set_route_def set_tcp_def)
  then show ?thesis
    using assms(1) by (simp add: world_ok_def maps_ok_def) (simp add: set_route_def set_tcp_def)
qed

lemma set_refreshing_world:
  assumes "world_ok w"
  shows "world_ok (set_entry i (\<lambda>e. e\<lparr>ce_refreshing := b\<rparr>) w)"
proof -
  let ?v = "set_entry i (\<lambda>e. e\<lparr>ce_refreshing := b\<rparr>) w"
  note L = world_okD [OF assms]
  have act: "tcp_act ?v = tcp_act w" "udp_act ?v = udp_act w"
    by (auto simp: tcp_act_def udp_act_def set_entry_def nth_update_if fun_eq_iff)
  have "same_frame w ?v"
    by (auto simp: same_frame_def set_entry_def nth_update_if entry_key_def entry_good_def)
  moreover have "links_ok ?v"
    using links_okD [OF L] by (intro links_ok_cong [OF L act]) (simp_all add: set_entry_def)
  ultimately show ?thesis
    by (rule same_frame_world [OF assms]) (simp add: set_entry_def)
qed

lemma update_entry_linked:
  "t_linked (w_tcp (route_cache_update_entry i u ttl x w) s) = t_linked (w_tcp w s)"
  "rc_next_free (w_cache (route_cache_update_entry i u ttl x w)) = rc_next_free (w_cache w)"
  by (simp_all add: route_cache_update_entry_def set_entry_def mark_stale_links Let_def)

lemma insert_linked:
  assumes "route_cache_insert t u ttl x w = (r, w')" "\<not> t_linked (w_tcp w s)"
  shows "\<not> t_linked (w_tcp w' s)"
proof -
  have "\<not> t_linked (w_tcp (snd (take_entry w)) s)"
    using assms(2) by (simp add: take_entry_def Let_def unlink_active_tcp)
  then show ?thesis
    using assms by (auto simp: route_cache_insert_def update_entry_linked Let_def
        split: if_splits option.splits prod.splits)
qed

lemma insert_bound:
  assumes "world_ok w" "target_ok t" "cache_insert srv t u ttl x w = (r, w')"
  shows "world_ok w' \<and> (\<forall>i. r = Some i \<longrightarrow> i < rc_next_free (w_cache w')) \<and>
    (\<not> t_linked (w_tcp w s) \<longrightarrow> \<not> t_linked (w_tcp w' s))"
  using assms insert_world [OF assms(1,2)] insert_linked
  by (auto simp: cache_insert_def split: if_splits)

text \<open>The entry a selection leaves in the session, if it changes it, is in use.\<close>

definition route_kept :: "nat \<Rightarrow> world \<Rightarrow> world \<Rightarrow> bool" where
  "route_kept s w w' \<longleftrightarrow> world_ok w' \<and> \<not> t_linked (w_tcp w' s) \<and>
     (\<forall>i. t_route_entry (w_tcp w' s) = Some i \<longrightarrow>
        i < rc_next_free (w_cache w') \<or> t_route_entry (w_tcp w s) = Some i)"

lemma route_kept_set:
  assumes "world_ok v" "\<not> t_linked (w_tcp v s)" "\<forall>i. e = Some i \<longrightarrow> i < rc_next_free (w_cache v)"
  shows "route_kept s w (set_route s u e v)"
  using set_route_world [OF assms(1,2)] assms(2,3)
  by (simp add: route_kept_def set_route_frame) (simp add: set_route_def set_tcp_def)

lemma route_kept_fail:
  assumes "world_ok w" "\<not> t_linked (w_tcp w s)"
  shows "route_kept s w (set_tcp s (\<lambda>t. t\<lparr>t_outbound := None\<rparr>) w)"
  using set_world(1) [OF assms(1), of "\<lambda>t. t\<lparr>t_outbound := None\<rparr>" s] assms(2)
  by (simp add: route_kept_def) (simp add: set_tcp_def)

lemma route_miss_kept:
  assumes "world_ok w" "\<not> t_linked (w_tcp w s)" "target_ok t" "route_miss env srv s t w = (rc, w')"
  shows "route_kept s w w'"
proof -
  have ins: "route_kept s w (set_route s u (fst (cache_insert srv t u' ttl x w)) (snd (cache_insert srv t u' ttl x w)))"
    for u u' ttl x
    using insert_bound [OF assms(1,3) prod.collapse [symmetric], of srv u' ttl x s] assms(2)
    by (intro route_kept_set) auto
  have same: "route_kept s w w" using assms(1,2) by (simp add: route_kept_def)
  have none: "route_kept s w (set_route s None None w)" using assms(1,2) by (intro route_kept_set) simp_all
  show ?thesis
    using assms(4) ins same none route_kept_fail [OF assms(1,2)]
    by (auto simp: route_miss_def Let_def case_prod_beta split: selection.splits option.splits if_splits)
qed

lemma refresh_handler_kept:
  assumes "world_ok w" "rf_entry rf < rc_next_free (w_cache w)"
  shows "world_ok (route_refresh_handler env srv rf rv w)"
    "t_linked (w_tcp (route_refresh_handler env srv rf rv w) s) = t_linked (w_tcp w s)"
    "t_route_entry (w_tcp (route_refresh_handler env srv rf rv w) s) = t_route_entry (w_tcp w s)"
    "rc_next_free (w_cache (route_refresh_handler env srv rf rv w)) = rc_next_free (w_cache w)"
proof -
  define v where "v = (if ce_valid (entry_of w (rf_entry rf)) \<and> ce_generation (entry_of w (rf_entry rf)) = rf_generation rf
      then set_entry (rf_entry rf) (\<lambda>e. e\<lparr>ce_refreshing := False\<rparr>) w else w)"
  have v: "world_ok v" "w_tcp v = w_tcp w" "rc_next_free (w_cache v) = rc_next_free (w_cache w)"
    using assms(1) set_refreshing_world by (auto simp: v_def set_entry_def)
  have r: "route_refresh_handler env srv rf rv w = v \<or>
      (\<exists>u ttl x. route_refresh_handler env srv rf rv w = route_cache_update_entry (rf_entry rf) u ttl x v)"
    by (auto simp: route_refresh_handler_def Let_def v_def split: selection.split)
  have e: "t_route_entry (w_tcp (route_cache_update_entry i u ttl x v) s) = t_route_entry (w_tcp v s)" for i u ttl x
    by (simp add: route_cache_update_entry_def set_entry_def mark_stale_links Let_def)
  show "world_ok (route_refresh_handler env srv rf rv w)"
    using r v(1,3) assms(2) update_entry_world by auto
  show "t_linked (w_tcp (route_refresh_handler env srv rf rv w) s) = t_linked (w_tcp w s)"
    "t_route_entry (w_tcp (route_refresh_handler env srv rf rv w) s) = t_route_entry (w_tcp w s)"
    "rc_next_free (w_cache (route_refresh_handler env srv rf rv w)) = rc_next_free (w_cache w)"
    using r v(2,3) e update_entry_linked by metis+
qed

lemma start_refresh_kept:
  assumes "world_ok w" "i < rc_next_free (w_cache w)" "route_cache_start_refresh env srv t i w = (rf, w')"
  shows "world_ok w' \<and> t_linked (w_tcp w' s) = t_linked (w_tcp w s) \<and>
    t_route_entry (w_tcp w' s) = t_route_entry (w_tcp w s) \<and>
    rc_next_free (w_cache w') = rc_next_free (w_cache w)"
proof -
  define v where "v = set_entry i (\<lambda>e. e\<lparr>ce_refreshing := True\<rparr>) w"
  define rf0 where "rf0 = \<lparr>rf_entry = i, rf_generation = ce_generation (entry_of w i), rf_target = t\<rparr>"
  have v: "world_ok v" "w_tcp v = w_tcp w" "rc_next_free (w_cache v) = rc_next_free (w_cache w)"
    using assms(1) set_refreshing_world by (auto simp: v_def set_entry_def)
  have h: "world_ok (route_refresh_handler env srv rf0 rv v)"
    "t_linked (w_tcp (route_refresh_handler env srv rf0 rv v) s) = t_linked (w_tcp w s)"
    "t_route_entry (w_tcp (route_refresh_handler env srv rf0 rv v) s) = t_route_entry (w_tcp w s)"
    "rc_next_free (w_cache (route_refresh_handler env srv rf0 rv v)) = rc_next_free (w_cache w)" for rv
    using refresh_handler_kept [OF v(1), of rf0 env srv rv] v(2,3) assms(2) by (simp_all add: rf0_def)
  have f: "world_ok (set_entry i (\<lambda>e. e\<lparr>ce_refreshing := False\<rparr>) v)"
    "w_tcp (set_entry i (\<lambda>e. e\<lparr>ce_refreshing := False\<rparr>) v) = w_tcp w"
    "rc_next_free (w_cache (set_entry i (\<lambda>e. e\<lparr>ce_refreshing := False\<rparr>) v)) = rc_next_free (w_cache w)"
    using set_refreshing_world [OF v(1)] v(2,3) by (simp_all add: set_entry_def)
  have "w' = w \<or> w' = v \<or> w' = set_entry i (\<lambda>e. e\<lparr>ce_refreshing := False\<rparr>) v \<or>
      (\<exists>rv. w' = route_refresh_handler env srv rf0 rv v)"
    using assms(3) unfolding route_cache_start_refresh_def Let_def v_def [symmetric] rf0_def [symmetric]
    by (auto split: if_splits resolve_call.splits)
  then show ?thesis using assms(1) v h f by (elim disjE exE) simp_all
qed

lemma select_outbound_kept:
  assumes "world_ok w" "\<not> t_linked (w_tcp w s)"
    "target_ok (route_resolve_target env (cf_resolve (w_conf w)) t)"
    "select_outbound env srv s t w = (rc, t', rf, w')"
  shows "route_kept s w w'"
proof -
  define t0 where "t0 = route_resolve_target env (cf_resolve (w_conf w)) t"
  have t0: "target_ok t0" using assms(3) by (simp add: t0_def)
  have none: "route_kept s w (set_route s u None w)" for u
    using assms(1,2) by (intro route_kept_set) simp_all
  show ?thesis
  proof (cases "(\<exists>ob obs. rs_outbounds srv = Some (ob # obs)) \<and> rs_route_enabled srv")
    case False
    then show ?thesis
      using assms(4) none by (auto simp: select_outbound_def Let_def split: option.splits list.splits)
  next
    case True
    then obtain ob obs where o: "rs_outbounds srv = Some (ob # obs)" "rs_route_enabled srv" by blast
    obtain r v where l: "cache_lookup srv t0 w = (r, v)" by (cases "cache_lookup srv t0 w")
    have v: "world_ok v" "w_tcp v = w_tcp w" "\<forall>i. r = Some i \<longrightarrow> i < rc_next_free (w_cache v)"
    proof -
      obtain r1 c1 where l1: "route_cache_lookup (w_cache w) t0 = (r1, c1)"
        by (cases "route_cache_lookup (w_cache w) t0")
      have "\<forall>i. r1 = Some i \<longrightarrow> i < rc_next_free (w_cache w)"
        using lookup_refines' [OF _ t0 l1] assms(1) by (simp add: world_ok_def)
      moreover have "rc_next_free c1 = rc_next_free (w_cache w)"
        using l1 by (auto simp: route_cache_lookup_def lru_touch_def split: if_splits option.splits)
      ultimately show "world_ok v" "w_tcp v = w_tcp w" "\<forall>i. r = Some i \<longrightarrow> i < rc_next_free (w_cache v)"
        using l l1 assms(1) lookup_world [OF assms(1) t0 l1] by (auto simp: cache_lookup_def split: if_splits)
    qed
    have nl: "\<not> t_linked (w_tcp v s)" using assms(2) v(2) by simp
    have miss: "route_kept s w (snd (route_miss env srv s t0 v))"
      using route_miss_kept [OF v(1) nl t0 prod.collapse [symmetric], of env srv] v(2)
      by (simp add: route_kept_def)
    show ?thesis
    proof (cases r)
      case None
      then show ?thesis
        using assms(4) o l miss by (auto simp: select_outbound_def Let_def case_prod_beta simp flip: t0_def)
    next
      case (Some i)
      have i: "i < rc_next_free (w_cache v)" using v(3) Some by simp
      define x where "x = set_route s (ce_outbound (entry_of v i)) (Some i) v"
      have x: "route_kept s w x" unfolding x_def using i by (intro route_kept_set v(1) nl) simp
      then have xo: "world_ok x" "i < rc_next_free (w_cache x)" "\<not> t_linked (w_tcp x s)"
        "t_route_entry (w_tcp x s) = Some i"
        using i nl by (simp_all add: route_kept_def x_def set_route_frame) (simp_all add: set_route_def set_tcp_def)
      have "route_kept s w (snd (route_cache_start_refresh env srv t0 i x))"
        using start_refresh_kept [OF xo(1,2) prod.collapse [symmetric], of env srv t0 s] xo
        by (simp add: route_kept_def)
      then show ?thesis
        using assms(4) o l miss x Some
        by (auto simp: select_outbound_def Let_def case_prod_beta simp flip: t0_def x_def split: if_splits)
    qed
  qed
qed

subsection \<open>Properties\<close>

definition ip_group :: route_rules where
  "ip_group = zero_group\<lparr>rr_ips := [CIDR4 0x0A000000 0xFF000000]\<rparr>"

definition domain_group :: route_rules where
  "domain_group = zero_group\<lparr>rr_domains :=
     [\<lparr>dr_type = RULE_DOMAIN_EXACT, dr_value = ascii ''a'', dr_regex = None\<rparr>]\<rparr>"

definition ruled :: "route_rules \<Rightarrow> outbound" where
  "ruled g = (outbound_init OUTBOUND_SOCKS5)\<lparr>ob_match_all := False, ob_has_rules := True, ob_matcher := Some g\<rparr>"

definition sample_srv :: route_srv where
  "sample_srv = \<lparr>rs_outbounds = Some [ruled ip_group, ruled domain_group], rs_route_enabled = True,
     rs_cache = True, rs_core_resolver = None, rs_route_resolver = None\<rparr>"

definition sample_env :: "int \<Rightarrow> u32 \<Rightarrow> route_env" where
  "sample_env now ip = \<lparr>en_time = now, en_inet_addr = (\<lambda>_. INADDR_NONE), en_inet6_addr = (\<lambda>_. None),
     en_pton4 = (\<lambda>_. None), en_pton6 = (\<lambda>_. None),
     en_getaddrinfo = (\<lambda>_ port. Some [\<lparr>ai_addr = Some (SA4 ip port), ai_addrlen = 16\<rparr>]),
     en_resolve_name = (\<lambda>_. RESOLVE_LATER)\<rparr>"

lemma sample_ip:
  "outbound_matches_domain (ruled ip_group) wit_target = False"
  "outbound_has_ip_rules (ruled ip_group) = True"
  "outbound_matches_resolved_ip (ruled ip_group) [Some (SA4 0x0A010203 443)] = True"
  "outbound_matches_resolved_ip (ruled ip_group) [Some (SA4 0x7F000001 443)] = False"
  by (simp_all add: outbound_matches_domain_def outbound_has_ip_rules_def outbound_matches_resolved_ip_def
      ruled_def ip_group_def outbound_init_def wit_target_def route_rules_match_domain_def
      route_rules_match_ip_def zero_group_def)

lemma sample_domain:
  "outbound_matches_domain (ruled domain_group) wit_target = True"
  "outbound_has_ip_rules (ruled domain_group) = False"
  "ob_match_all (ruled domain_group) = False" "ob_has_rules (ruled domain_group) = True"
  by (simp_all add: outbound_matches_domain_def outbound_has_ip_rules_def
      ruled_def domain_group_def outbound_init_def wit_target_def route_rules_match_domain_def
      zero_group_def rule_domain_match_def host_bytes_def ascii_def ngx_tolower_def)

lemma select_cached':
  assumes "rs_outbounds srv = Some (ob # obs)" "rs_route_enabled srv" "rs_cache srv"
    and "world_ok w" "target_ok (route_resolve_target env (cf_resolve (w_conf w)) t)"
    and "chain_find (w_cache w) (route_resolve_target env (cf_resolve (w_conf w)) t) = None"
    and "select_outbound env srv s t w = (ROUTE_OK, t1, rf1, w1)" "t_outbound (w_tcp w1 s) = Some u"
    and "now < en_time env + ROUTE_CACHE_TTL"
    and "select_outbound (env\<lparr>en_time := now\<rparr>) srv s' t w1 = (rc, t2, rf2, w2)"
  shows "rc = ROUTE_OK \<and> rf2 = None \<and> t_outbound (w_tcp w2 s') = Some u"
proof -
  let ?t = "route_resolve_target env (cf_resolve (w_conf w)) t"
  have l: "cache_lookup srv ?t w = (None, w)"
    using assms(3,6) by (simp add: cache_lookup_def route_cache_lookup_def)
  then have m: "route_miss env srv s ?t w = (ROUTE_OK, w1)"
    using assms(1,2,7) by (auto simp: select_outbound_def Let_def split: prod.splits)
  have none: "t_outbound (w_tcp (set_tcp s (\<lambda>t. t\<lparr>t_outbound := None\<rparr>) v) s) = None" for v
    by (simp add: set_tcp_def)
  have "\<exists>ttl x r v. route_cache_insert ?t (Some u) ttl x w = (r, v) \<and> w1 = set_route s (Some u) r v \<and>
      (ttl \<longrightarrow> now < x)"
  proof (cases "select_outbound_now env srv (cf_resolve (w_conf w)) ?t [] False")
    case (SELECTED k ttl)
    then have "\<not> ttl"
      using assms(1) select_from_ttl by (simp add: select_outbound_now_def del: select_from.simps)
    obtain r v where i: "route_cache_insert ?t (Some k) False 0 w = (r, v)"
      by (cases "route_cache_insert ?t (Some k) False 0 w")
    have "w1 = set_route s (Some k) r v"
      using SELECTED \<open>\<not> ttl\<close> m i by (simp add: route_miss_def cache_insert_def assms(3) Let_def)
    moreover from this have "k = u" using assms(8) by (simp add: set_route_outbound)
    ultimately show ?thesis using i by blast
  next
    case NEEDS_RESOLVE
    with m assms(8) obtain addrs k ttl where a: "route_system_resolve env ?t = Some addrs"
        "select_outbound_now env srv (cf_resolve (w_conf w)) ?t addrs True = SELECTED k ttl"
        "route_resolver_kind srv \<noteq> RESOLVER_NGINX"
      by (auto simp: route_miss_def none Let_def split: if_splits option.splits selection.splits)
    obtain r v where i: "route_cache_insert ?t (Some k) ttl (en_time env + ROUTE_CACHE_TTL) w = (r, v)"
      by (cases "route_cache_insert ?t (Some k) ttl (en_time env + ROUTE_CACHE_TTL) w")
    have "w1 = set_route s (Some k) r v"
      using NEEDS_RESOLVE a m i by (simp add: route_miss_def cache_insert_def assms(3) Let_def)
    moreover from this have "k = u" using assms(8) by (simp add: set_route_outbound)
    ultimately show ?thesis using i assms(9) by blast
  next
    case NOT_SELECTED
    with m assms(8) show ?thesis
      by (auto simp: route_miss_def set_route_outbound Let_def)
  qed
  then obtain ttl x r v where i: "route_cache_insert ?t (Some u) ttl x w = (r, v)"
      "w1 = set_route s (Some u) r v" "ttl \<Longrightarrow> en_time (env\<lparr>en_time := now\<rparr>) < x" by auto
  have "route_resolve_target (env\<lparr>en_time := now\<rparr>) = route_resolve_target env"
    by (simp add: fun_eq_iff)
  from select_again [OF assms(1-5) i(1,2,3) this assms(10)] show ?thesis by blast
qed

lemma permanent':
  assumes "rs_outbounds srv = Some [a, b]" "rs_route_enabled srv" "rs_cache srv"
    and "world_ok w" "cf_resolve (w_conf w) = RESOLVE_LAZY" "target_ok t" "addr_type t = ADDR_DOMAIN"
    and "route_resolve_target env RESOLVE_LAZY t = t"
    and "\<not> outbound_matches_domain a t" "outbound_has_ip_rules a"
    and "outbound_matches_domain b t" "ob_has_rules b" "\<not> ob_match_all b"
    and "rv_state rv = 0" "rv_addrs rv \<noteq> []" "\<not> outbound_matches_resolved_ip a (rv_addrs rv)"
    and "route_resolved env srv s t rv w = Some w1"
    and "select_outbound (env\<lparr>en_time := now\<rparr>) srv s' t w1 = (rc, t2, rf2, w2)"
    and "outbound_matches_resolved_ip a addrs" "addrs \<noteq> []"
  shows "t_outbound (w_tcp w2 s') = Some 1 \<and>
    select_outbound_now env srv RESOLVE_LAZY t addrs True = SELECTED 0 True"
proof -
  have now: "select_outbound_now env srv RESOLVE_LAZY t (rv_addrs rv) True = SELECTED 1 False"
    using assms by (simp add: select_outbound_now_def)
  obtain r v where i: "route_cache_insert t (Some 1) False (route_valid_time env (rv_valid rv)) w = (r, v)"
    by (cases "route_cache_insert t (Some 1) False (route_valid_time env (rv_valid rv)) w")
  then have w1: "w1 = set_route s (Some 1) r v"
    using assms(3,5,14,17) now by (simp add: route_resolved_def cache_insert_def)
  have time: "route_resolve_target (env\<lparr>en_time := now\<rparr>) = route_resolve_target env"
    by (simp add: fun_eq_iff)
  have "target_ok (route_resolve_target env (cf_resolve (w_conf w)) t)" using assms(5,6,8) by simp
  moreover have "route_cache_insert (route_resolve_target env (cf_resolve (w_conf w)) t) (Some 1) False
      (route_valid_time env (rv_valid rv)) w = (r, v)" using i assms(5,8) by simp
  ultimately have "t_outbound (w_tcp w2 s') = Some 1"
    using select_again [OF assms(1-4) _ _ w1 _ time assms(18)] by blast
  moreover have "select_outbound_now env srv RESOLVE_LAZY t addrs True = SELECTED 0 True"
    using assms by (simp add: select_outbound_now_def)
  ultimately show ?thesis by blast
qed

lemma sample_srv:
  "rs_outbounds sample_srv = Some [ruled ip_group, ruled domain_group]" "rs_route_enabled sample_srv"
  "rs_cache sample_srv" "route_resolver_kind sample_srv = RESOLVER_SYSTEM"
  by (simp_all add: sample_srv_def route_resolver_kind_def route_resolver_def)

lemma sample_target:
  "route_resolve_target (sample_env now ip) r wit_target = wit_target" "addr_type wit_target = ADDR_DOMAIN"
  by (simp_all add: route_resolve_target_def normalize_ip_literal_def sample_env_def wit_target_def
      tail_has_colon_def INET6_ADDRSTRLEN_def Let_def)

lemma sample_start:
  "world_ok (start_world wit_conf 1 0)" "cf_resolve (w_conf (start_world wit_conf 1 0)) = RESOLVE_LAZY"
  "chain_find (w_cache (start_world wit_conf 1 0)) wit_target = None"
proof -
  show "world_ok (start_world wit_conf 1 0)" by (rule start_world_ok) simp_all
  show "cf_resolve (w_conf (start_world wit_conf 1 0)) = RESOLVE_LAZY"
    by (simp add: start_world_def wit_conf_def)
  show "chain_find (w_cache (start_world wit_conf 1 0)) wit_target = None"
    using chain_find_cases [OF wit_start_ok wit_target_ok]
    by (auto simp: start_world_def route_cache_init_def Let_def split: option.splits)
qed

definition first_choice :: "route_rc \<times> addr_t \<times> refresh option \<times> world" where
  "first_choice = select_outbound (sample_env 0 0x0A010203) sample_srv 4 wit_target (start_world wit_conf 1 0)"

lemma first_choice:
  "\<exists>w1. first_choice = (ROUTE_OK, wit_target, None, w1) \<and> t_outbound (w_tcp w1 4) = Some 0"
proof -
  let ?w = "start_world wit_conf 1 0" and ?env = "sample_env 0 0x0A010203"
  have n: "select_outbound_now ?env sample_srv RESOLVE_LAZY wit_target [] False = NEEDS_RESOLVE"
    by (simp add: select_outbound_now_def sample_srv(1) sample_ip sample_target)
  have g: "route_system_resolve ?env wit_target = Some [Some (SA4 0x0A010203 443)]"
    by (simp add: route_system_resolve_def sample_env_def wit_target_def system_addr_ok_def
        ROUTE_MAX_SYSTEM_ADDRS_def)
  have y: "select_outbound_now ?env sample_srv RESOLVE_LAZY wit_target [Some (SA4 0x0A010203 443)] True =
      SELECTED 0 True"
    by (simp add: select_outbound_now_def sample_srv(1) sample_ip sample_target)
  obtain r v where i: "cache_insert sample_srv wit_target (Some 0) True (en_time ?env + ROUTE_CACHE_TTL) ?w = (r, v)"
    by (cases "cache_insert sample_srv wit_target (Some 0) True (en_time ?env + ROUTE_CACHE_TTL) ?w")
  have m: "route_miss ?env sample_srv 4 wit_target ?w = (ROUTE_OK, set_route 4 (Some 0) r v)"
    by (simp add: route_miss_def sample_start(2) n g y sample_srv(4) i del: One_nat_def)
  have "first_choice = (ROUTE_OK, wit_target, None, set_route 4 (Some 0) r v)"
    using sample_start(3) m
    by (simp add: first_choice_def select_outbound_def sample_srv(1-3) sample_target cache_lookup_def
        route_cache_lookup_def del: One_nat_def)
  with set_route_outbound [of 4 "Some 0" r v] show ?thesis by blast
qed



text \<open>C31: The route cache gives the answer again. When \<open>select_outbound\<close> misses the cache and settles on
  an outbound (from the rules alone, or with the addresses of the system resolver), then until the
  minute for which such an answer is kept is over, \<open>select_outbound\<close> for the same target finds the
  same outbound for any session, without any resolver and without a refresh.\<close>

theorem select_outbound_cached:
  assumes "rs_outbounds srv = Some (ob # obs)" "rs_route_enabled srv" "rs_cache srv"
    and "world_ok w" "target_ok (route_resolve_target env (cf_resolve (w_conf w)) t)"
    and "chain_find (w_cache w) (route_resolve_target env (cf_resolve (w_conf w)) t) = None"
    and "select_outbound env srv s t w = (ROUTE_OK, t1, rf1, w1)" "t_outbound (w_tcp w1 s) = Some u"
    and "now < en_time env + ROUTE_CACHE_TTL"
    and "select_outbound (env\<lparr>en_time := now\<rparr>) srv s' t w1 = (rc, t2, rf2, w2)"
  shows "rc = ROUTE_OK \<and> rf2 = None \<and> t_outbound (w_tcp w2 s') = Some u"
  by (rule select_cached' [OF assms])

theorem select_outbound_cached_witness:
  "t_outbound (w_tcp (snd (snd (snd (select_outbound (sample_env 30 0x0A010203) sample_srv 9 wit_target
     (snd (snd (snd first_choice))))))) 9) = Some 0"
proof -
  obtain w1 where f: "first_choice = (ROUTE_OK, wit_target, None, w1)" "t_outbound (w_tcp w1 4) = Some 0"
    using first_choice by blast
  have t: "target_ok (route_resolve_target (sample_env 0 0x0A010203)
      (cf_resolve (w_conf (start_world wit_conf 1 0))) wit_target)"
    by (simp add: sample_target wit_target_ok)
  have c: "chain_find (w_cache (start_world wit_conf 1 0)) (route_resolve_target (sample_env 0 0x0A010203)
      (cf_resolve (w_conf (start_world wit_conf 1 0))) wit_target) = None"
    unfolding sample_target by (rule sample_start(3))
  have time: "sample_env 30 0x0A010203 = (sample_env 0 0x0A010203)\<lparr>en_time := 30\<rparr>"
    "30 < en_time (sample_env 0 0x0A010203) + ROUTE_CACHE_TTL"
    by (simp_all add: sample_env_def ROUTE_CACHE_TTL_def)
  obtain rc t2 rf2 w2 where s: "select_outbound ((sample_env 0 0x0A010203)\<lparr>en_time := 30\<rparr>) sample_srv 9
      wit_target w1 = (rc, t2, rf2, w2)" by (metis prod_cases4)
  from select_outbound_cached [OF sample_srv(1-3) sample_start(1) t c f(1) [unfolded first_choice_def]
      f(2) time(2) s]
  show ?thesis by (simp add: f(1) time(1) s)
qed

text \<open>A route that depends on the addresses of a name can be kept for ever. With the lazy resolver,
  when the first outbound has IP rules that the resolved addresses do not meet and the second takes
  the name by a domain rule, the answer is stored without an expiry: at every later time any session
  is sent to the second outbound, although the rules send the name to the first one once it resolves
  to an address the IP rules list.\<close>

theorem permanent_route_depends_on_addresses:
  assumes "rs_outbounds srv = Some [a, b]" "rs_route_enabled srv" "rs_cache srv"
    and "world_ok w" "cf_resolve (w_conf w) = RESOLVE_LAZY" "target_ok t" "addr_type t = ADDR_DOMAIN"
    and "route_resolve_target env RESOLVE_LAZY t = t"
    and "\<not> outbound_matches_domain a t" "outbound_has_ip_rules a"
    and "outbound_matches_domain b t" "ob_has_rules b" "\<not> ob_match_all b"
    and "rv_state rv = 0" "rv_addrs rv \<noteq> []" "\<not> outbound_matches_resolved_ip a (rv_addrs rv)"
    and "route_resolved env srv s t rv w = Some w1"
    and "select_outbound (env\<lparr>en_time := now\<rparr>) srv s' t w1 = (rc, t2, rf2, w2)"
    and "outbound_matches_resolved_ip a addrs" "addrs \<noteq> []"
  shows "t_outbound (w_tcp w2 s') = Some 1 \<and>
    select_outbound_now env srv RESOLVE_LAZY t addrs True = SELECTED 0 True"
  by (rule permanent' [OF assms])

theorem permanent_route_depends_on_addresses_witness:
  "\<exists>w1. route_resolved (sample_env 0 0) sample_srv 4 wit_target
        \<lparr>rv_state = 0, rv_addrs = [Some (SA4 0x7F000001 443)], rv_valid = 60\<rparr> (start_world wit_conf 1 0)
      = Some w1 \<and>
    t_outbound (w_tcp (snd (snd (snd (select_outbound (sample_env 1000000000 0) sample_srv 9 wit_target w1)))) 9)
      = Some 1"
proof -
  let ?env = "sample_env 0 0" and ?w = "start_world wit_conf 1 0"
    and ?rv = "\<lparr>rv_state = 0, rv_addrs = [Some (SA4 0x7F000001 443)], rv_valid = 60\<rparr>"
  have n: "select_outbound_now ?env sample_srv RESOLVE_LAZY wit_target [Some (SA4 0x7F000001 443)] True =
      SELECTED 1 False"
    by (simp add: select_outbound_now_def sample_srv(1) sample_ip sample_domain sample_target)
  obtain r v where "cache_insert sample_srv wit_target (Some 1) False (route_valid_time ?env 60) ?w = (r, v)"
    by (cases "cache_insert sample_srv wit_target (Some 1) False (route_valid_time ?env 60) ?w")
  then obtain w1 where w1: "route_resolved ?env sample_srv 4 wit_target ?rv ?w = Some w1"
    by (simp add: route_resolved_def sample_start(2) n del: One_nat_def)
  have time: "sample_env 1000000000 0 = ?env\<lparr>en_time := 1000000000\<rparr>"
    by (simp add: sample_env_def)
  obtain rc t2 rf2 w2 where s: "select_outbound (?env\<lparr>en_time := 1000000000\<rparr>) sample_srv 9
      wit_target w1 = (rc, t2, rf2, w2)" by (metis prod_cases4)
  have f: "\<not> outbound_matches_domain (ruled ip_group) wit_target"
    "outbound_has_ip_rules (ruled ip_group)" "outbound_matches_domain (ruled domain_group) wit_target"
    "ob_has_rules (ruled domain_group)" "\<not> ob_match_all (ruled domain_group)"
    "rv_state ?rv = 0" "rv_addrs ?rv \<noteq> []" "\<not> outbound_matches_resolved_ip (ruled ip_group) (rv_addrs ?rv)"
    by (simp_all add: sample_ip sample_domain)
  have a: "outbound_matches_resolved_ip (ruled ip_group) [Some (SA4 0x0A010203 443)]"
    "[Some (SA4 0x0A010203 443)] \<noteq> []" by (simp_all add: sample_ip)
  from permanent_route_depends_on_addresses [OF sample_srv(1-3) sample_start(1,2) wit_target_ok
      sample_target(2) sample_target(1) f w1 s a]
  show ?thesis using w1 by (simp add: time s)
qed

end
