(* ===== verification/Mt_Relay.thy ===== *)
theory Mt_Relay
  imports Mt_Http Mt_Cache_Run
begin

text \<open>
  The relay between the two connections of a session (\<open>ngx_stream_mtrojan_module.c\<close>,
  \<open>process_proxy\<close> and \<open>process_direction\<close>).

  A connection is what it will still deliver, what was sent on it, and the script of the answers its
  \<open>recv\<close> and \<open>send\<close> give: a script that has run out means that the socket would block. A buffer is a
  region with two positions; its start is 0 and its end the length of the region.
\<close>

subsection \<open>Buffers and connections\<close>

record nbuf =
  nb_pos :: nat
  nb_last :: nat
  nb_data :: bytes

definition unsent :: "nbuf \<Rightarrow> bytes" where
  "unsent b = take (nb_last b - nb_pos b) (drop (nb_pos b) (nb_data b))"

definition temp_buf :: "nat \<Rightarrow> nbuf" where
  "temp_buf n = \<lparr>nb_pos = 0, nb_last = 0, nb_data = replicate n 0\<rparr>"

text \<open>\<open>SENT n\<close>: \<open>n\<close> bytes were taken, never more than offered. \<open>RECVD n\<close>: the event is ready and up to
  \<open>n\<close> bytes come; \<open>NOT_READY\<close>: \<open>rev->ready\<close> is not set.\<close>

datatype send_event = SENT nat | SEND_AGAIN | SEND_ERROR

datatype recv_event = RECVD nat | RECV_AGAIN | RECV_EOF | RECV_ERROR | NOT_READY

record conn =
  cn_in :: bytes
  cn_recvs :: "recv_event list"
  cn_out :: bytes
  cn_sends :: "send_event list"
  cn_eof :: bool
  cn_error :: bool

subsection \<open>Sending what a buffer holds\<close>

datatype flushed = FLUSHED | BLOCKED | FAILED

text \<open>The last part of the result: something was sent (\<open>route_touch_tcp\<close>).\<close>

fun send_loop :: "nbuf \<Rightarrow> bytes \<Rightarrow> send_event list \<Rightarrow> bool \<Rightarrow> flushed \<times> nbuf \<times> bytes \<times> send_event list \<times> bool" where
  "send_loop b out [] touched =
     (if nb_pos b < nb_last b then (BLOCKED, b, out, [], touched) else (FLUSHED, b, out, [], touched))"
| "send_loop b out (ev # evs) touched =
     (if nb_pos b < nb_last b then
        (case ev of
           SEND_AGAIN \<Rightarrow> (BLOCKED, b, out, evs, touched)
         | SEND_ERROR \<Rightarrow> (FAILED, b, out, evs, touched)
         | SENT n \<Rightarrow>
             let n = min n (nb_last b - nb_pos b) in
             send_loop (b\<lparr>nb_pos := nb_pos b + n\<rparr>) (out @ take n (drop (nb_pos b) (nb_data b))) evs True)
      else (FLUSHED, b, out, ev # evs, touched))"

subsection \<open>One direction\<close>

record direction =
  d_buf :: nbuf
  d_src :: conn
  d_dst :: conn
  d_eof :: bool
  d_touched :: bool

text \<open>The part of the loop that sends, and empties the buffer when all is sent.\<close>

definition send_part :: "direction \<Rightarrow> flushed \<times> direction" where
  "send_part d =
     (let (r, b, out, evs, touched) =
        send_loop (d_buf d) (cn_out (d_dst d)) (cn_sends (d_dst d)) (d_touched d) in
      (r, d\<lparr>d_buf := (if r = FLUSHED then b\<lparr>nb_pos := 0, nb_last := 0\<rparr> else b),
            d_dst := (d_dst d)\<lparr>cn_out := out, cn_sends := evs\<rparr>, d_touched := touched\<rparr>))"

text \<open>One turn of the loop of \<open>process_direction\<close>, with the next event of the source, if any: it
  stops (whether with success, and whether the event was used), or takes some bytes and goes on.\<close>

datatype relay_turn = STOP bool bool direction | GO nat direction

definition recv_step :: "nat \<Rightarrow> direction \<Rightarrow> direction" where
  "recv_step n d = d\<lparr>d_buf := (d_buf d)\<lparr>nb_last := nb_last (d_buf d) + n,
       nb_data := poke (nb_data (d_buf d)) (nb_last (d_buf d)) (take n (cn_in (d_src d)))\<rparr>,
     d_src := (d_src d)\<lparr>cn_in := drop n (cn_in (d_src d))\<rparr>, d_touched := True\<rparr>"

definition relay_turn :: "nat \<Rightarrow> recv_event option \<Rightarrow> nat \<Rightarrow> nat \<Rightarrow> direction \<Rightarrow> relay_turn" where
  "relay_turn limit ev loops bytes d =
     (let (r, d) = send_part d in
      if r = FAILED then STOP False False d
      else if r = BLOCKED then STOP True False d
      else if d_eof d then STOP True False d
      else if ev = None then STOP True False d
      else if ev = Some NOT_READY then STOP True True d
      else if \<not> relay_should_continue loops bytes limit then STOP True False d
      else
        let available = relay_read_size (length (nb_data (d_buf d)) - nb_last (d_buf d)) bytes limit in
        if available = 0 then STOP True False d
        else
          (case the ev of
             RECV_EOF \<Rightarrow> STOP True True (d\<lparr>d_eof := True, d_src := (d_src d)\<lparr>cn_eof := True\<rparr>\<rparr>)
           | RECV_ERROR \<Rightarrow> STOP True True (d\<lparr>d_eof := True, d_src := (d_src d)\<lparr>cn_error := True\<rparr>\<rparr>)
           | RECVD n \<Rightarrow>
               let n = min n (min available (length (cn_in (d_src d)))) in
               if n = 0 then STOP True True d else GO n (recv_step n d)
           | _ \<Rightarrow> STOP True True d))"

text \<open>The loop, for a script of events; \<open>False\<close> is \<open>NGX_ERROR\<close>.\<close>

fun relay_loop :: "nat \<Rightarrow> recv_event list \<Rightarrow> nat \<Rightarrow> nat \<Rightarrow> direction \<Rightarrow> bool \<times> recv_event list \<times> direction" where
  "relay_loop limit [] loops bytes d =
     (case relay_turn limit None loops bytes d of STOP ok used d \<Rightarrow> (ok, [], d) | GO n d \<Rightarrow> (True, [], d))"
| "relay_loop limit (ev # evs) loops bytes d =
     (case relay_turn limit (Some ev) loops bytes d of
        STOP ok used d \<Rightarrow> (ok, if used then evs else ev # evs, d)
      | GO n d \<Rightarrow> relay_loop limit evs (loops + 1) (bytes + n) d)"

definition process_direction :: "nat \<Rightarrow> direction \<Rightarrow> bool \<times> direction" where
  "process_direction buffer_size d =
     (let (ok, evs, d) = relay_loop (relay_limit buffer_size) (cn_recvs (d_src d)) 0 0 d in
      (ok, d\<lparr>d_src := (d_src d)\<lparr>cn_recvs := evs\<rparr>\<rparr>))"

text \<open>Without a source.\<close>

definition process_pending :: "nbuf \<Rightarrow> conn \<Rightarrow> bool \<times> nbuf \<times> conn \<times> bool" where
  "process_pending b dst =
     (let (r, b, out, evs, touched) = send_loop b (cn_out dst) (cn_sends dst) False in
      (r \<noteq> FAILED, (if r = FLUSHED then b\<lparr>nb_pos := 0, nb_last := 0\<rparr> else b),
       dst\<lparr>cn_out := out, cn_sends := evs\<rparr>, touched))"

subsection \<open>Both directions\<close>

record proxy =
  px_client :: conn
  px_upstream :: conn
  px_pending :: "nbuf option"
  px_client_buffer :: nbuf
  px_upstream_buffer :: nbuf
  px_touched :: bool

datatype proxy_rc = PROXY_WAIT | PROXY_BAD_GATEWAY | PROXY_DONE

text \<open>What was pending, then the two directions; each part gives whether it succeeded, and a direction
  whether its source has ended.\<close>

definition pending_part :: "proxy \<Rightarrow> bool \<times> proxy" where
  "pending_part p =
     (case px_pending p of
        None \<Rightarrow> (True, p)
      | Some b \<Rightarrow>
          if nb_pos b < nb_last b then
            let (ok, b, dst, touched) = process_pending b (px_upstream p) in
            (ok, p\<lparr>px_pending := Some b, px_upstream := dst, px_touched := px_touched p \<or> touched\<rparr>)
          else (True, p))"

definition client_part :: "nat \<Rightarrow> bool \<Rightarrow> proxy \<Rightarrow> bool \<times> bool \<times> proxy" where
  "client_part buffer_size client_eof p =
     (let (ok, d) = process_direction buffer_size
        \<lparr>d_buf = px_client_buffer p, d_src = px_client p, d_dst = px_upstream p,
         d_eof = client_eof, d_touched = px_touched p\<rparr> in
      (ok, d_eof d, p\<lparr>px_client_buffer := d_buf d, px_client := d_src d, px_upstream := d_dst d,
         px_touched := d_touched d\<rparr>))"

definition upstream_part :: "nat \<Rightarrow> bool \<Rightarrow> proxy \<Rightarrow> bool \<times> bool \<times> proxy" where
  "upstream_part buffer_size upstream_eof p =
     (let (ok, d) = process_direction buffer_size
        \<lparr>d_buf = px_upstream_buffer p, d_src = px_upstream p, d_dst = px_client p,
         d_eof = upstream_eof, d_touched = px_touched p\<rparr> in
      (ok, d_eof d, p\<lparr>px_upstream_buffer := d_buf d, px_upstream := d_src d, px_client := d_dst d,
         px_touched := d_touched d\<rparr>))"

definition process_proxy :: "nat \<Rightarrow> proxy \<Rightarrow> proxy_rc \<times> proxy" where
  "process_proxy buffer_size p =
     (let client_eof = cn_eof (px_client p) \<or> cn_error (px_client p);
          upstream_eof = cn_eof (px_upstream p) \<or> cn_error (px_upstream p);
          (ok, p) = pending_part p in
      if \<not> ok then (PROXY_BAD_GATEWAY, p)
      else
        let (ok, client_eof, p) = client_part buffer_size client_eof p in
        if \<not> ok then (PROXY_BAD_GATEWAY, p)
        else
          let (ok, upstream_eof, p) = upstream_part buffer_size upstream_eof p in
          if \<not> ok then (PROXY_BAD_GATEWAY, p)
          else if client_eof \<and> upstream_eof
             \<and> nb_pos (px_client_buffer p) = nb_last (px_client_buffer p)
             \<and> nb_pos (px_upstream_buffer p) = nb_last (px_upstream_buffer p)
          then (PROXY_DONE, p)
          else (PROXY_WAIT, p))"

end
