(* ===== verification/Mt_Relay_Props.thy ===== *)
theory Mt_Relay_Props
  imports Mt_Relay
begin

text \<open>
  The relay loses, repeats and reorders nothing, takes a bounded amount in one turn, and what happens
  to data that was waiting before the relay began.
\<close>

subsection \<open>Sending\<close>

lemma unsent_split:
  "n \<le> nb_last b - nb_pos b \<Longrightarrow>
     take n (drop (nb_pos b) (nb_data b)) @ unsent (b\<lparr>nb_pos := nb_pos b + n\<rparr>) = unsent b"
proof -
  assume n: "n \<le> nb_last b - nb_pos b"
  let ?xs = "drop (nb_pos b) (nb_data b)" and ?k = "nb_last b - nb_pos b - n"
  have "take n ?xs @ take ?k (drop n ?xs) = take (n + ?k) ?xs" by (rule take_add [symmetric])
  moreover have "n + ?k = nb_last b - nb_pos b" using n by simp
  ultimately show ?thesis by (simp add: unsent_def add.commute)
qed

lemma send_loop_out:
  "send_loop b out evs touched = (r, b', out', evs', touched') \<Longrightarrow>
     out' @ unsent b' = out @ unsent b \<and> nb_last b' = nb_last b \<and> nb_data b' = nb_data b \<and>
     (r = FLUSHED \<longrightarrow> nb_last b' \<le> nb_pos b') \<and> nb_pos b \<le> nb_pos b' \<and>
     (nb_pos b \<le> nb_last b \<longrightarrow> nb_pos b' \<le> nb_last b')"
proof (induction b out evs touched rule: send_loop.induct)
  case (1 b out touched)
  then show ?case by (auto split: if_splits)
next
  case (2 b out ev evs touched)
  show ?case
  proof (cases "nb_pos b < nb_last b \<and> (\<exists>n. ev = SENT n)")
    case True
    then obtain n where n: "nb_pos b < nb_last b" "ev = SENT n" by blast
    define k where "k = min n (nb_last b - nb_pos b)"
    have "send_loop (b\<lparr>nb_pos := nb_pos b + k\<rparr>) (out @ take k (drop (nb_pos b) (nb_data b))) evs True =
        (r, b', out', evs', touched')"
      using 2 n by (simp add: k_def Let_def)
    from "2.IH" [OF n k_def this] show ?thesis
      using unsent_split [of k b] n(1) by (auto simp: k_def)
  next
    case False
    then show ?thesis using "2.prems" by (auto split: if_splits send_event.splits)
  qed
qed

definition stream :: "direction \<Rightarrow> bytes" where
  "stream d = cn_out (d_dst d) @ unsent (d_buf d) @ cn_in (d_src d)"

lemma unsent_empty: "nb_last b \<le> nb_pos b \<Longrightarrow> unsent b = []"
  by (simp add: unsent_def)

lemma send_part_stream:
  assumes "send_part d = (r, d')"
  shows "stream d' = stream d" "length (nb_data (d_buf d')) = length (nb_data (d_buf d))"
    "d_src d' = d_src d" "d_eof d' = d_eof d"
    "r = FLUSHED \<Longrightarrow> nb_pos (d_buf d') = 0 \<and> nb_last (d_buf d') = 0"
    "nb_pos (d_buf d) \<le> nb_last (d_buf d) \<Longrightarrow> nb_last (d_buf d) \<le> length (nb_data (d_buf d)) \<Longrightarrow>
       nb_pos (d_buf d') \<le> nb_last (d_buf d') \<and> nb_last (d_buf d') \<le> length (nb_data (d_buf d'))"
proof -
  obtain r0 b out evs t where s: "send_loop (d_buf d) (cn_out (d_dst d)) (cn_sends (d_dst d)) (d_touched d)
      = (r0, b, out, evs, t)" by (metis prod_cases5)
  then have d': "r = r0" "d' = d\<lparr>d_buf := (if r = FLUSHED then b\<lparr>nb_pos := 0, nb_last := 0\<rparr> else b),
      d_dst := (d_dst d)\<lparr>cn_out := out, cn_sends := evs\<rparr>, d_touched := t\<rparr>"
    using assms by (auto simp: send_part_def Let_def)
  note S = send_loop_out [OF s]
  have e: "r = FLUSHED \<Longrightarrow> unsent b = []" using S d'(1) by (simp add: unsent_empty)
  have "unsent (b\<lparr>nb_pos := 0, nb_last := 0\<rparr>) = []" by (simp add: unsent_def)
  with S e show "stream d' = stream d" by (auto simp: stream_def d'(2) simp flip: append_assoc)
  show "length (nb_data (d_buf d')) = length (nb_data (d_buf d))" "d_src d' = d_src d" "d_eof d' = d_eof d"
    "r = FLUSHED \<Longrightarrow> nb_pos (d_buf d') = 0 \<and> nb_last (d_buf d') = 0"
    "nb_pos (d_buf d) \<le> nb_last (d_buf d) \<Longrightarrow> nb_last (d_buf d) \<le> length (nb_data (d_buf d)) \<Longrightarrow>
       nb_pos (d_buf d') \<le> nb_last (d_buf d') \<and> nb_last (d_buf d') \<le> length (nb_data (d_buf d'))"
    using S by (simp_all add: d'(2))
qed

subsection \<open>The loop\<close>

definition same_data :: "direction \<Rightarrow> direction \<Rightarrow> bool" where
  "same_data d d' \<longleftrightarrow> d_buf d' = d_buf d \<and> d_dst d' = d_dst d \<and> cn_in (d_src d') = cn_in (d_src d) \<and>
     cn_out (d_src d') = cn_out (d_src d)"

lemma relay_turn_stop:
  assumes "send_part d = (r, d1)" "relay_turn limit ev loops bytes d = STOP ok used d'"
  shows "same_data d1 d' \<and> (used \<longrightarrow> ev \<noteq> None)"
  using assms
  by (auto simp: relay_turn_def same_data_def Let_def split: recv_event.splits if_splits)

lemma relay_turn_go:
  assumes "send_part d = (r, d1)" "relay_turn limit ev loops bytes d = GO n d'"
  shows "r = FLUSHED \<and> (\<exists>m. ev = Some (RECVD m)) \<and> relay_should_continue loops bytes limit \<and> 0 < n \<and>
    n \<le> relay_read_size (length (nb_data (d_buf d1)) - nb_last (d_buf d1)) bytes limit \<and>
    n \<le> length (cn_in (d_src d1)) \<and> d' = recv_step n d1"
  using assms
  by (cases r) (auto simp: relay_turn_def Let_def split: recv_event.splits if_splits)

lemma relay_loop_cases:
  assumes "relay_loop limit evs loops bytes d = (ok, evs', d')" "send_part d = (r, d1)"
  shows "same_data d1 d' \<and> (evs' = evs \<or> (\<exists>ev. evs = ev # evs')) \<or>
    (\<exists>m n evs1. r = FLUSHED \<and> evs = RECVD m # evs1 \<and> relay_should_continue loops bytes limit \<and> 0 < n \<and>
       n \<le> relay_read_size (length (nb_data (d_buf d1)) - nb_last (d_buf d1)) bytes limit \<and>
       n \<le> length (cn_in (d_src d1)) \<and>
       relay_loop limit evs1 (loops + 1) (bytes + n) (recv_step n d1) = (ok, evs', d'))"
proof (cases evs)
  case Nil
  show ?thesis
  proof (cases "relay_turn limit None loops bytes d")
    case (STOP ok0 used d0)
    then show ?thesis using assms(1) Nil relay_turn_stop [OF assms(2) STOP] by simp
  next
    case (GO n d0)
    then show ?thesis using relay_turn_go [OF assms(2) GO] by simp
  qed
next
  case (Cons ev evs1)
  show ?thesis
  proof (cases "relay_turn limit (Some ev) loops bytes d")
    case (STOP ok0 used d0)
    then show ?thesis using assms(1) Cons relay_turn_stop [OF assms(2) STOP] by (auto split: if_splits)
  next
    case (GO n d0)
    then have "relay_loop limit evs1 (loops + 1) (bytes + n) d0 = (ok, evs', d')"
      using assms(1) Cons by simp
    then show ?thesis using relay_turn_go [OF assms(2) GO] Cons by auto
  qed
qed

lemma recv_step_stream:
  assumes "nb_pos (d_buf d) = 0" "nb_last (d_buf d) = 0" "n \<le> length (nb_data (d_buf d))"
    "n \<le> length (cn_in (d_src d))"
  shows "stream (recv_step n d) = stream d"
    "length (nb_data (d_buf (recv_step n d))) = length (nb_data (d_buf d))"
  using assms by (simp_all add: stream_def recv_step_def unsent_def min_def)

lemma relay_read_size_le: "relay_read_size a b l \<le> a" "b + relay_read_size a b l \<le> max b l"
  by (auto simp: relay_read_size_def Let_def)

definition buf_ok :: "nbuf \<Rightarrow> bool" where
  "buf_ok b \<longleftrightarrow> nb_pos b \<le> nb_last b \<and> nb_last b \<le> length (nb_data b)"

lemma relay_loop_stream:
  "relay_loop limit evs loops bytes d = (ok, evs', d') \<Longrightarrow>
     stream d' = stream d \<and> length (nb_data (d_buf d')) = length (nb_data (d_buf d)) \<and>
     cn_out (d_src d') = cn_out (d_src d) \<and> (buf_ok (d_buf d) \<longrightarrow> buf_ok (d_buf d'))"
proof (induction evs arbitrary: loops bytes d rule: length_induct)
  case (1 evs)
  obtain r d1 where s: "send_part d = (r, d1)" by (cases "send_part d")
  note S = send_part_stream [OF s]
  from relay_loop_cases [OF "1.prems" s] show ?case
  proof (elim disjE conjE exE)
    assume "same_data d1 d'" "evs' = evs"
    then show ?thesis using S by (simp add: same_data_def stream_def buf_ok_def)
  next
    fix ev
    assume "same_data d1 d'" "evs = ev # evs'"
    then show ?thesis using S by (simp add: same_data_def stream_def buf_ok_def)
  next
    fix m n evs1
    assume r: "r = FLUSHED" and e: "evs = RECVD m # evs1" and n: "0 < n"
      "n \<le> relay_read_size (length (nb_data (d_buf d1)) - nb_last (d_buf d1)) bytes limit"
      "n \<le> length (cn_in (d_src d1))"
      and l: "relay_loop limit evs1 (loops + 1) (bytes + n) (recv_step n d1) = (ok, evs', d')"
    have z: "nb_pos (d_buf d1) = 0" "nb_last (d_buf d1) = 0" using S(5) [OF r] by simp_all
    have nl: "n \<le> length (nb_data (d_buf d1))"
      using n(2) relay_read_size_le(1) z by (metis le_trans minus_nat.diff_0)
    note R = recv_step_stream [OF z nl n(3)]
    have "buf_ok (d_buf (recv_step n d1))" "cn_out (d_src (recv_step n d1)) = cn_out (d_src d1)"
      using z nl R(2) by (simp_all add: buf_ok_def recv_step_def)
    with "1.IH" [rule_format, of evs1, OF _ l] e R S show ?thesis by simp
  qed
qed

lemma relay_loop_bounds:
  "relay_loop limit evs loops bytes d = (ok, evs', d') \<Longrightarrow> bytes \<le> limit \<Longrightarrow> loops \<le> RELAY_MAX_LOOPS \<Longrightarrow>
     length evs \<le> length evs' + (RELAY_MAX_LOOPS - loops) + 1 \<and>
     length (cn_in (d_src d)) + bytes \<le> length (cn_in (d_src d')) + limit"
proof (induction evs arbitrary: loops bytes d rule: length_induct)
  case (1 evs)
  obtain r d1 where s: "send_part d = (r, d1)" by (cases "send_part d")
  note S = send_part_stream [OF s]
  from relay_loop_cases [OF "1.prems"(1) s] show ?case
  proof (elim disjE conjE exE)
    assume "same_data d1 d'" "evs' = evs"
    then show ?thesis using S "1.prems" by (simp add: same_data_def)
  next
    fix ev
    assume "same_data d1 d'" "evs = ev # evs'"
    then show ?thesis using S "1.prems" by (simp add: same_data_def)
  next
    fix m n evs1
    assume e: "evs = RECVD m # evs1" and c: "relay_should_continue loops bytes limit" and n:
      "n \<le> relay_read_size (length (nb_data (d_buf d1)) - nb_last (d_buf d1)) bytes limit"
      "n \<le> length (cn_in (d_src d1))"
      and l: "relay_loop limit evs1 (loops + 1) (bytes + n) (recv_step n d1) = (ok, evs', d')"
    have "bytes + n \<le> limit"
      using n(1) relay_read_size_le(2) [of bytes "length (nb_data (d_buf d1)) - nb_last (d_buf d1)" limit] "1.prems"(2) by simp
    moreover have "loops + 1 \<le> RELAY_MAX_LOOPS" using c by (simp add: relay_should_continue_def)
    moreover have "length (cn_in (d_src (recv_step n d1))) = length (cn_in (d_src d)) - n"
      using S(3) by (simp add: recv_step_def)
    ultimately show ?thesis using "1.IH" [rule_format, of evs1, OF _ l] e n(2) S(3) by auto
  qed
qed

lemma process_direction_stream:
  assumes "process_direction bs d = (ok, d')"
  shows "stream d' = stream d" "length (nb_data (d_buf d')) = length (nb_data (d_buf d))"
    "cn_out (d_src d') = cn_out (d_src d)" "buf_ok (d_buf d) \<Longrightarrow> buf_ok (d_buf d')"
proof -
  obtain ok0 evs d0 where r: "relay_loop (relay_limit bs) (cn_recvs (d_src d)) 0 0 d = (ok0, evs, d0)"
    by (metis prod_cases3)
  then have "d' = d0\<lparr>d_src := (d_src d0)\<lparr>cn_recvs := evs\<rparr>\<rparr>"
    using assms by (auto simp: process_direction_def)
  with relay_loop_stream [OF r]
  show "stream d' = stream d" "length (nb_data (d_buf d')) = length (nb_data (d_buf d))"
    "cn_out (d_src d') = cn_out (d_src d)" "buf_ok (d_buf d) \<Longrightarrow> buf_ok (d_buf d')"
    by (simp_all add: stream_def)
qed

text \<open>The direction does not touch what its destination delivers.\<close>

lemma send_part_dst: "send_part d = (r, d') \<Longrightarrow> cn_in (d_dst d') = cn_in (d_dst d)"
  by (auto simp: send_part_def Let_def split: prod.splits)

lemma relay_loop_dst:
  "relay_loop limit evs loops bytes d = (ok, evs', d') \<Longrightarrow> cn_in (d_dst d') = cn_in (d_dst d)"
proof (induction evs arbitrary: loops bytes d rule: length_induct)
  case (1 evs)
  obtain r d1 where s: "send_part d = (r, d1)" by (cases "send_part d")
  from relay_loop_cases [OF "1.prems" s] show ?case
  proof (elim disjE conjE exE)
    fix m n evs1
    assume "evs = RECVD m # evs1"
      "relay_loop limit evs1 (loops + 1) (bytes + n) (recv_step n d1) = (ok, evs', d')"
    then show ?thesis
      using "1.IH" [rule_format, of evs1 "loops + 1" "bytes + n" "recv_step n d1"] send_part_dst [OF s]
      by (simp add: recv_step_def)
  qed (use send_part_dst [OF s] in \<open>simp_all add: same_data_def\<close>)
qed

lemma process_direction_dst:
  "process_direction bs d = (ok, d') \<Longrightarrow> cn_in (d_dst d') = cn_in (d_dst d)"
  by (auto simp: process_direction_def dest: relay_loop_dst split: prod.splits)

subsection \<open>Both directions\<close>

definition pending_unsent :: "proxy \<Rightarrow> bytes" where
  "pending_unsent p = (case px_pending p of None \<Rightarrow> [] | Some b \<Rightarrow> unsent b)"

definition pending_sent :: "proxy \<Rightarrow> bool" where
  "pending_sent p = (case px_pending p of None \<Rightarrow> True | Some b \<Rightarrow> nb_last b \<le> nb_pos b)"

definition up_stream :: "proxy \<Rightarrow> bytes" where
  "up_stream p = cn_out (px_upstream p) @ pending_unsent p @ unsent (px_client_buffer p) @ cn_in (px_client p)"

definition down_stream :: "proxy \<Rightarrow> bytes" where
  "down_stream p = cn_out (px_client p) @ unsent (px_upstream_buffer p) @ cn_in (px_upstream p)"

lemma pending_sent_unsent: "pending_sent p \<Longrightarrow> pending_unsent p = []"
  by (auto simp: pending_sent_def pending_unsent_def unsent_empty split: option.splits)

lemma pending_part_stream:
  assumes "pending_part p = (ok, p')"
  shows "up_stream p' = up_stream p" "down_stream p' = down_stream p"
    "px_client p' = px_client p" "px_client_buffer p' = px_client_buffer p"
    "px_upstream_buffer p' = px_upstream_buffer p" "cn_in (px_upstream p') = cn_in (px_upstream p)"
proof -
  have "up_stream p' = up_stream p \<and> down_stream p' = down_stream p \<and>
    px_client p' = px_client p \<and> px_client_buffer p' = px_client_buffer p \<and>
    px_upstream_buffer p' = px_upstream_buffer p \<and> cn_in (px_upstream p') = cn_in (px_upstream p)"
  proof (cases "\<exists>b. px_pending p = Some b \<and> nb_pos b < nb_last b")
    case True
    then obtain b where b: "px_pending p = Some b" "nb_pos b < nb_last b" by blast
    obtain r b1 out evs t where s: "send_loop b (cn_out (px_upstream p)) (cn_sends (px_upstream p)) False
        = (r, b1, out, evs, t)" by (metis prod_cases5)
    define b2 where "b2 = (if r = FLUSHED then b1\<lparr>nb_pos := 0, nb_last := 0\<rparr> else b1)"
    have p': "p' = p\<lparr>px_pending := Some b2, px_upstream := (px_upstream p)\<lparr>cn_out := out, cn_sends := evs\<rparr>,
        px_touched := px_touched p \<or> t\<rparr>"
      using assms b s by (auto simp: pending_part_def process_pending_def Let_def b2_def)
    have "unsent (b1\<lparr>nb_pos := 0, nb_last := 0\<rparr>) = []" by (simp add: unsent_def)
    then have "unsent b2 = unsent b1"
      using send_loop_out [OF s] unsent_empty [of b1] by (auto simp: b2_def)
    then have "out @ unsent b2 = cn_out (px_upstream p) @ unsent b" using send_loop_out [OF s] by simp
    then show ?thesis
      using b(1) by (simp add: p' up_stream_def down_stream_def pending_unsent_def flip: append_assoc)
  next
    case False
    then have "p' = p" using assms by (auto simp: pending_part_def split: option.splits if_splits)
    then show ?thesis by simp
  qed
  then show "up_stream p' = up_stream p" "down_stream p' = down_stream p"
    "px_client p' = px_client p" "px_client_buffer p' = px_client_buffer p"
    "px_upstream_buffer p' = px_upstream_buffer p" "cn_in (px_upstream p') = cn_in (px_upstream p)"
    by blast+
qed

lemma client_part_stream:
  assumes "client_part bs eof p = (ok, eof', p')" "pending_sent p"
  shows "up_stream p' = up_stream p" "down_stream p' = down_stream p"
    "px_pending p' = px_pending p"
proof -
  obtain d where d: "process_direction bs \<lparr>d_buf = px_client_buffer p, d_src = px_client p,
      d_dst = px_upstream p, d_eof = eof, d_touched = px_touched p\<rparr> = (ok, d)"
      "p' = p\<lparr>px_client_buffer := d_buf d, px_client := d_src d, px_upstream := d_dst d,
         px_touched := d_touched d\<rparr>"
    using assms(1) by (auto simp: client_part_def split: prod.splits)
  note D = process_direction_stream [OF d(1)] and E = process_direction_dst [OF d(1)]
  have "pending_unsent p = []" "pending_unsent p' = []"
    using pending_sent_unsent [OF assms(2)] by (simp_all add: pending_unsent_def d(2))
  with D(1) show "up_stream p' = up_stream p" by (simp add: up_stream_def stream_def d(2))
  show "down_stream p' = down_stream p" "px_pending p' = px_pending p"
    using D(3) E by (simp_all add: down_stream_def d(2))
qed

lemma client_part_down:
  assumes "client_part bs eof p = (ok, eof', p')"
  shows "down_stream p' = down_stream p" "px_pending p' = px_pending p"
proof -
  obtain d where d: "process_direction bs \<lparr>d_buf = px_client_buffer p, d_src = px_client p,
      d_dst = px_upstream p, d_eof = eof, d_touched = px_touched p\<rparr> = (ok, d)"
      "p' = p\<lparr>px_client_buffer := d_buf d, px_client := d_src d, px_upstream := d_dst d,
         px_touched := d_touched d\<rparr>"
    using assms(1) by (auto simp: client_part_def split: prod.splits)
  with process_direction_stream [OF d(1)] process_direction_dst [OF d(1)]
  show "down_stream p' = down_stream p" "px_pending p' = px_pending p"
    by (simp_all add: down_stream_def)
qed

lemma upstream_part_stream:
  assumes "upstream_part bs eof p = (ok, eof', p')"
  shows "up_stream p' = up_stream p" "down_stream p' = down_stream p"
    "px_pending p' = px_pending p"
proof -
  obtain d where d: "process_direction bs \<lparr>d_buf = px_upstream_buffer p, d_src = px_upstream p,
      d_dst = px_client p, d_eof = eof, d_touched = px_touched p\<rparr> = (ok, d)"
      "p' = p\<lparr>px_upstream_buffer := d_buf d, px_upstream := d_src d, px_client := d_dst d,
         px_touched := d_touched d\<rparr>"
    using assms(1) by (auto simp: upstream_part_def split: prod.splits)
  with process_direction_stream [OF d(1)] process_direction_dst [OF d(1)]
  show "up_stream p' = up_stream p" "down_stream p' = down_stream p" "px_pending p' = px_pending p"
    by (simp_all add: up_stream_def down_stream_def stream_def pending_unsent_def)
qed

lemma process_proxy_stream:
  assumes "process_proxy bs p = (rc, p')"
  shows "down_stream p' = down_stream p" "pending_sent p' \<Longrightarrow> up_stream p' = up_stream p"
proof -
  obtain ok0 p0 where p0: "pending_part p = (ok0, p0)" by fastforce
  obtain ok1 e1 p1 where p1: "client_part bs (cn_eof (px_client p) \<or> cn_error (px_client p)) p0 = (ok1, e1, p1)"
    by (metis prod_cases3)
  obtain ok2 e2 p2 where p2: "upstream_part bs (cn_eof (px_upstream p) \<or> cn_error (px_upstream p)) p1 = (ok2, e2, p2)"
    by (metis prod_cases3)
  have p': "p' = p0 \<or> p' = p1 \<or> p' = p2"
    using assms p0 p1 p2 by (auto simp: process_proxy_def Let_def split: if_splits)
  note P0 = pending_part_stream [OF p0] and P1 = client_part_stream [OF p1]
    and P1' = client_part_down [OF p1] and P2 = upstream_part_stream [OF p2]
  show "down_stream p' = down_stream p"
    using p' P0(2) P1'(1) P2(2) by auto
  show "up_stream p' = up_stream p" if s: "pending_sent p'"
  proof -
    have "pending_sent p0" using p' s P1'(2) P2(3) by (auto simp: pending_sent_def)
    then show ?thesis using p' P0(1) P1(1) P2(1) by auto
  qed
qed

subsection \<open>Properties\<close>

definition sample_conn :: "bytes \<Rightarrow> recv_event list \<Rightarrow> send_event list \<Rightarrow> bool \<Rightarrow> conn" where
  "sample_conn bs recvs sends eof =
     \<lparr>cn_in = bs, cn_recvs = recvs, cn_out = [], cn_sends = sends, cn_eof = eof, cn_error = False\<rparr>"

definition sample_proxy :: "nbuf option \<Rightarrow> conn \<Rightarrow> conn \<Rightarrow> proxy" where
  "sample_proxy pending client upstream =
     \<lparr>px_client = client, px_upstream = upstream, px_pending = pending, px_client_buffer = temp_buf 4,
      px_upstream_buffer = temp_buf 4, px_touched = False\<rparr>"

lemma sample_limit: "relay_limit 4 = 1048576"
  by (simp add: relay_limit_def sz_mul_def RELAY_MIN_BYTES_def RELAY_MAX_BYTES_def)

lemmas relay_eval = process_proxy_def pending_part_def client_part_def upstream_part_def
  process_pending_def process_direction_def relay_turn_def recv_step_def send_part_def relay_should_continue_def relay_read_size_def
  RELAY_MAX_LOOPS_def sample_limit sample_conn_def sample_proxy_def temp_buf_def Let_def

text \<open>C18: The relay loses, repeats and reorders nothing. Whatever the sockets do (short, blocked and
  failed sends, short receives, end of file, errors), one run of \<open>process_proxy\<close> keeps, for the way to
  the client, what was sent followed by what is buffered followed by what is still to come; and it
  keeps the same for the way to the upstream, whenever the data that was waiting before the relay
  began has been sent by then.\<close>

theorem relay_conserves:
  assumes "process_proxy bs p = (rc, p')"
  shows "down_stream p' = down_stream p \<and> (pending_sent p' \<longrightarrow> up_stream p' = up_stream p)"
  using process_proxy_stream [OF assms] by blast

theorem relay_conserves_witness:
  "up_stream (snd (process_proxy 4 (sample_proxy None (sample_conn [1, 2, 3] [RECVD 2, RECVD 9] [] False)
     (sample_conn [4] [RECV_EOF] [SENT 1, SENT 5, SEND_AGAIN] False)))) = [1, 2, 3]"
  using relay_conserves [of 4 "sample_proxy None (sample_conn [1, 2, 3] [RECVD 2, RECVD 9] [] False)
     (sample_conn [4] [RECV_EOF] [SENT 1, SENT 5, SEND_AGAIN] False)", OF prod.collapse [symmetric]]
  by (simp add: relay_eval up_stream_def pending_sent_def pending_unsent_def unsent_def)


text \<open>Data that was waiting when the relay began is not safe. When a send of it blocks and a later
  send in the same run succeeds, bytes of the client overtake it; and when both sides have ended and
  the two relay buffers are empty, the session is finished as done while it is still unsent.\<close>

theorem relay_pending_hazards:
  "(let (rc, p') = process_proxy 4 (sample_proxy (Some \<lparr>nb_pos = 0, nb_last = 2, nb_data = [1, 2]\<rparr>)
       (sample_conn [3] [RECVD 1] [] False) (sample_conn [] [] [SENT 1, SEND_AGAIN, SENT 1] False)) in
     rc = PROXY_WAIT \<and> cn_out (px_upstream p') = [1, 3] \<and> pending_unsent p' = [2]) \<and>
   (let (rc, p') = process_proxy 4 (sample_proxy (Some \<lparr>nb_pos = 0, nb_last = 2, nb_data = [1, 2]\<rparr>)
       (sample_conn [] [] [] True) (sample_conn [] [] [SEND_AGAIN] True)) in
     rc = PROXY_DONE \<and> cn_out (px_upstream p') = [] \<and> pending_unsent p' = [1, 2])"
  by (simp add: relay_eval pending_unsent_def unsent_def)

end
