(* ===== verification/Mt_Conf.thy ===== *)
theory Mt_Conf
  imports Mt_Outbound Mt_Sha224
begin

text \<open>
  The server configuration (\<open>ngx_stream_mtrojan_module.c\<close>): its record, the directives, the merge
  with the enclosing level, and the checks and links made once all servers are read.

  A value that is not set is \<open>None\<close>. A directive, or a whole step, that fails is \<open>None\<close> too: nginx
  then refuses the configuration. Strings end in a NUL byte; pool allocations succeed. Of nginx,
  \<open>ngx_conf_set_flag_slot\<close>, \<open>ngx_atoi\<close>, \<open>ngx_parse_addr\<close> and \<open>ngx_parse_url\<close> (its addresses) are
  parameters; \<open>ngx_conf_parse\<close> calls the handler of a block for one directive after the other.
\<close>

subsection \<open>The record\<close>

datatype local_proxy = LOCAL_PROXY_NONE | LOCAL_PROXY_SOCKS5 | LOCAL_PROXY_HTTP

record srv_conf =
  sc_enable :: "bool option"
  sc_socks5_enable :: "bool option"
  sc_http_proxy_enable :: "bool option"
  sc_socks5_udp_enable :: "bool option"
  sc_local_proxy_type :: "local_proxy option"
  sc_socks5_ref_set :: bool
  sc_keys :: "bytes list option"
  sc_fallback :: "sockaddr option"
  sc_connect_timeout :: "nat option"
  sc_timeout :: "nat option"
  sc_udp_timeout :: "nat option"
  sc_buffer_size :: "nat option"
  sc_outbounds :: "outbound list option"
  sc_effective :: "nat option"
  sc_socks5_ref :: server_ref
  sc_rules :: "route_rules list option"
  sc_route_cache_size :: "nat option"
  sc_route_resolve :: "route_resolve option"
  sc_route_drain :: "route_drain option"
  sc_route_enabled :: bool
  sc_route_cache :: "route_cache option"
  sc_route_resolver :: "nat option"
  sc_internal_resolver :: bool

definition zero_ref :: server_ref where
  "zero_ref = \<lparr>sr_host = [], sr_port = 0, sr_set = False, sr_localhost = False\<rparr>"

definition create_srv_conf :: srv_conf where
  "create_srv_conf =
     \<lparr>sc_enable = None, sc_socks5_enable = None, sc_http_proxy_enable = None,
      sc_socks5_udp_enable = None, sc_local_proxy_type = None, sc_socks5_ref_set = False,
      sc_keys = None, sc_fallback = None, sc_connect_timeout = None, sc_timeout = None,
      sc_udp_timeout = None, sc_buffer_size = None, sc_outbounds = None, sc_effective = None,
      sc_socks5_ref = zero_ref, sc_rules = None, sc_route_cache_size = None,
      sc_route_resolve = None, sc_route_drain = None, sc_route_enabled = False,
      sc_route_cache = None, sc_route_resolver = None, sc_internal_resolver = False\<rparr>"

subsection \<open>Directives of one value\<close>

text \<open>\<open>slot\<close> is \<open>ngx_conf_set_flag_slot\<close>: the old value and the word give the new value or an error.\<close>

definition mtrojan_on :: "(bool option \<Rightarrow> bytes \<Rightarrow> bool option) \<Rightarrow> bytes list \<Rightarrow> srv_conf \<Rightarrow> srv_conf option" where
  "mtrojan_on slot args c =
     (case slot (sc_enable c) (args ! 1) of
        None \<Rightarrow> None
      | Some b \<Rightarrow> Some (c\<lparr>sc_enable := Some b\<rparr>))"

definition socks5_on :: "(bool option \<Rightarrow> bytes \<Rightarrow> bool option) \<Rightarrow> bytes list \<Rightarrow> srv_conf \<Rightarrow> srv_conf option" where
  "socks5_on slot args c =
     (case slot (sc_socks5_enable c) (args ! 1) of
        None \<Rightarrow> None
      | Some b \<Rightarrow>
          let c = c\<lparr>sc_socks5_enable := Some b\<rparr> in
          Some (if b \<and> sc_local_proxy_type c = None
                then c\<lparr>sc_local_proxy_type := Some LOCAL_PROXY_SOCKS5\<rparr> else c))"

definition http_proxy_on :: "(bool option \<Rightarrow> bytes \<Rightarrow> bool option) \<Rightarrow> bytes list \<Rightarrow> srv_conf \<Rightarrow> srv_conf option" where
  "http_proxy_on slot args c =
     (case slot (sc_http_proxy_enable c) (args ! 1) of
        None \<Rightarrow> None
      | Some b \<Rightarrow>
          let c = c\<lparr>sc_http_proxy_enable := Some b\<rparr> in
          Some (if b \<and> sc_local_proxy_type c = None
                then c\<lparr>sc_local_proxy_type := Some LOCAL_PROXY_HTTP\<rparr> else c))"

definition socks5_udp_on :: "(bool option \<Rightarrow> bytes \<Rightarrow> bool option) \<Rightarrow> bytes list \<Rightarrow> srv_conf \<Rightarrow> srv_conf option" where
  "socks5_udp_on slot args c =
     (case slot (sc_socks5_udp_enable c) (args ! 1) of
        None \<Rightarrow> None
      | Some b \<Rightarrow> Some (c\<lparr>sc_socks5_udp_enable := Some b\<rparr>))"

definition trojan_server ::
    "(bytes \<Rightarrow> int) \<Rightarrow> (bytes \<Rightarrow> bool) \<Rightarrow> bytes list \<Rightarrow> srv_conf \<Rightarrow> srv_conf option" where
  "trojan_server atoi ip_address args c =
     (if sc_socks5_ref_set c then None
      else
        let (ok, r, v) = parse_server_ref atoi ip_address (args ! 1) (sc_socks5_ref c) in
        if \<not> ok then None else Some (c\<lparr>sc_socks5_ref := r, sc_socks5_ref_set := True\<rparr>))"

definition word_is :: "bytes \<Rightarrow> string \<Rightarrow> bool" where
  "word_is v w \<longleftrightarrow> length v = length w \<and> strncmp v (ascii w) (length v) = 0"

definition route_cache_directive :: "(bytes \<Rightarrow> int) \<Rightarrow> bytes list \<Rightarrow> srv_conf \<Rightarrow> srv_conf option" where
  "route_cache_directive atoi args c =
     (if sc_route_cache_size c \<noteq> None then None
      else if word_is (args ! 1) ''off'' then Some (c\<lparr>sc_route_cache_size := Some 0\<rparr>)
      else
        let n = atoi (args ! 1) in
        if n = -1 then None else Some (c\<lparr>sc_route_cache_size := Some (nat n)\<rparr>))"

definition route_resolve_directive :: "bytes list \<Rightarrow> srv_conf \<Rightarrow> srv_conf option" where
  "route_resolve_directive args c =
     (if sc_route_resolve c \<noteq> None then None
      else if word_is (args ! 1) ''off'' then Some (c\<lparr>sc_route_resolve := Some RESOLVE_OFF\<rparr>)
      else if word_is (args ! 1) ''literal'' then Some (c\<lparr>sc_route_resolve := Some RESOLVE_LITERAL\<rparr>)
      else if word_is (args ! 1) ''lazy'' then Some (c\<lparr>sc_route_resolve := Some RESOLVE_LAZY\<rparr>)
      else None)"

definition route_drain_directive :: "bytes list \<Rightarrow> srv_conf \<Rightarrow> srv_conf option" where
  "route_drain_directive args c =
     (if sc_route_drain c \<noteq> None then None
      else if word_is (args ! 1) ''idle'' then Some (c\<lparr>sc_route_drain := Some DRAIN_IDLE\<rparr>)
      else if word_is (args ! 1) ''fast'' then Some (c\<lparr>sc_route_drain := Some DRAIN_FAST\<rparr>)
      else None)"

text \<open>One key for each argument; \<open>stack\<close> is the uninitialised block of the hash.\<close>

definition password_directive :: "bytes \<Rightarrow> bytes list \<Rightarrow> srv_conf \<Rightarrow> srv_conf option" where
  "password_directive stack args c =
     (let keys = (case sc_keys c of None \<Rightarrow> [] | Some ks \<Rightarrow> ks) in
      case each (\<lambda>ks v. map_option (\<lambda>k. ks @ [k]) (make_key_len stack (Some v))) keys (drop 1 args) of
        None \<Rightarrow> None
      | Some keys \<Rightarrow> Some (c\<lparr>sc_keys := Some keys\<rparr>))"

definition fallback_directive ::
    "(bytes \<Rightarrow> nat \<Rightarrow> sockaddr list option) \<Rightarrow> bytes list \<Rightarrow> srv_conf \<Rightarrow> srv_conf option" where
  "fallback_directive parse_url args c =
     (if sc_fallback c \<noteq> None then None
      else
        (case parse_url (args ! 1) 80 of
           None \<Rightarrow> None
         | Some [] \<Rightarrow> None
         | Some (a # addrs) \<Rightarrow> Some (c\<lparr>sc_fallback := Some a\<rparr>)))"

subsection \<open>Outbounds\<close>

definition outbounds_block ::
    "(bytes \<Rightarrow> nat \<Rightarrow> sockaddr list option) \<Rightarrow> outbound \<Rightarrow> bytes list \<Rightarrow> outbound option" where
  "outbounds_block parse_url ob args =
     (if length args = 2 \<and> conf_word (args ! 0) ''server'' then
        if ob_type ob \<noteq> OUTBOUND_SOCKS5 then None
        else if ob_socks5_server ob \<noteq> None then None
        else
          (case parse_url (args ! 1) 1080 of
             None \<Rightarrow> None
           | Some [] \<Rightarrow> None
           | Some (a # addrs) \<Rightarrow> Some (ob\<lparr>ob_socks5_server := Some a\<rparr>))
      else if length args = 2 \<and> conf_word (args ! 0) ''username'' then
        if ob_type ob \<noteq> OUTBOUND_SOCKS5 then None
        else if ob_socks5_username ob \<noteq> None then None
        else if length (args ! 1) = 0 \<or> length (args ! 1) > 255 then None
        else Some (ob\<lparr>ob_socks5_username := Some (args ! 1)\<rparr>)
      else if length args = 2 \<and> conf_word (args ! 0) ''password'' then
        if ob_type ob \<noteq> OUTBOUND_SOCKS5 then None
        else if ob_socks5_password ob \<noteq> None then None
        else if length (args ! 1) > 255 then None
        else Some (ob\<lparr>ob_socks5_password := Some (args ! 1)\<rparr>)
      else if length args = 2 \<and> conf_word (args ! 0) ''ip_prefer'' then
        if ob_type ob \<noteq> OUTBOUND_DIRECT then None
        else if ob_ip_prefer_set ob then None
        else
          (case parse_ip_prefer (args ! 1) of
             None \<Rightarrow> None
           | Some p \<Rightarrow> Some (ob\<lparr>ob_ip_prefer := p, ob_ip_prefer_set := True\<rparr>))
      else if length args = 2 \<and> conf_word (args ! 0) ''block'' then
        if ob_block_set ob then None
        else
          (case parse_block (args ! 1) of
             None \<Rightarrow> None
           | Some b \<Rightarrow>
               if ob_type ob = OUTBOUND_SOCKS5 \<and> b = BLOCK_ALL then None
               else Some (ob\<lparr>ob_block := b, ob_block_set := True\<rparr>))
      else None)"

definition text_len :: "cptr \<Rightarrow> nat" where
  "text_len p = (case p of None \<Rightarrow> 0 | Some s \<Rightarrow> length s)"

definition socks5_complete :: "outbound \<Rightarrow> outbound option" where
  "socks5_complete ob =
     (if ob_socks5_server ob = None then None
      else if text_len (ob_socks5_password ob) \<noteq> 0 \<and> text_len (ob_socks5_username ob) = 0 then None
      else if text_len (ob_socks5_username ob) \<noteq> 0 \<and> ob_socks5_password ob = None then None
      else Some ob)"

definition push_outbound :: "srv_conf \<Rightarrow> outbound \<Rightarrow> srv_conf" where
  "push_outbound c ob =
     c\<lparr>sc_outbounds := Some ((case sc_outbounds c of None \<Rightarrow> [] | Some obs \<Rightarrow> obs) @ [ob])\<rparr>"

text \<open>\<open>args\<close> is the line of the directive, \<open>block\<close> the directives of its block.\<close>

definition outbounds_directive ::
    "(bytes \<Rightarrow> nat \<Rightarrow> sockaddr list option) \<Rightarrow> bytes list \<Rightarrow> bytes list list \<Rightarrow> srv_conf \<Rightarrow> srv_conf option" where
  "outbounds_directive parse_url args block c =
     (if \<not> conf_word (args ! 1) ''socks5'' then None
      else
        (case each (outbounds_block parse_url) (outbound_init OUTBOUND_SOCKS5) block of
           None \<Rightarrow> None
         | Some ob \<Rightarrow> map_option (push_outbound c) (socks5_complete ob)))"

definition outbound_tagged :: "outbound \<Rightarrow> bytes list \<Rightarrow> outbound option" where
  "outbound_tagged ob args = (if length args = 2 then outbound_set_tag ob (args ! 1) else Some ob)"

definition outbound_direct_directive ::
    "(bytes \<Rightarrow> nat \<Rightarrow> sockaddr list option) \<Rightarrow> bytes list \<Rightarrow> bytes list list \<Rightarrow> srv_conf \<Rightarrow> srv_conf option" where
  "outbound_direct_directive parse_url args block c =
     (case outbound_tagged (outbound_init OUTBOUND_DIRECT) args of
        None \<Rightarrow> None
      | Some ob \<Rightarrow> map_option (push_outbound c) (each (outbounds_block parse_url) ob block))"

definition outbound_socks5_directive ::
    "(bytes \<Rightarrow> nat \<Rightarrow> sockaddr list option) \<Rightarrow> bytes list \<Rightarrow> bytes list list \<Rightarrow> srv_conf \<Rightarrow> srv_conf option" where
  "outbound_socks5_directive parse_url args block c =
     (case outbound_tagged (outbound_init OUTBOUND_SOCKS5) args of
        None \<Rightarrow> None
      | Some ob \<Rightarrow>
          (case each (outbounds_block parse_url) ob block of
             None \<Rightarrow> None
           | Some ob \<Rightarrow> map_option (push_outbound c) (socks5_complete ob)))"

subsection \<open>The table of directives\<close>

text \<open>What the directives take from nginx: number parsing, the slots of flags, times and sizes (old
  value and word give the new value or an error), addresses, and for the rules the included files,
  regular expressions and CIDR texts; and the uninitialised block of the password hash.\<close>

record conf_env =
  ce_atoi :: "bytes \<Rightarrow> int"
  ce_ip_address :: "bytes \<Rightarrow> bool"
  ce_parse_url :: "bytes \<Rightarrow> nat \<Rightarrow> sockaddr list option"
  ce_flag :: "bool option \<Rightarrow> bytes \<Rightarrow> bool option"
  ce_msec :: "nat option \<Rightarrow> bytes \<Rightarrow> nat option"
  ce_size :: "nat option \<Rightarrow> bytes \<Rightarrow> nat option"
  ce_include :: "route_rules \<Rightarrow> bytes list \<Rightarrow> route_rules option"
  ce_regex :: "bytes \<Rightarrow> (bytes \<Rightarrow> bool) option"
  ce_ptocidr :: "bytes \<Rightarrow> cidr option"
  ce_stack :: bytes

text \<open>One directive of a server: its words and, for a block, the directives of the block. The number
  of words is checked before the handler is called.\<close>

definition srv_directive :: "conf_env \<Rightarrow> srv_conf \<Rightarrow> bytes list \<times> bytes list list option \<Rightarrow> srv_conf option" where
  "srv_directive env c line =
     (let (args, block) = line;
          takes = (\<lambda>word. args ! 0 = ascii word \<and> length args = 2 \<and> block = None);
          opens = (\<lambda>word. args ! 0 = ascii word \<and> block \<noteq> None) in
      if args = [] then None
      else if takes ''trojan'' then mtrojan_on (ce_flag env) args c
      else if takes ''socks5'' then socks5_on (ce_flag env) args c
      else if takes ''http_proxy'' then http_proxy_on (ce_flag env) args c
      else if takes ''socks5_udp'' then socks5_udp_on (ce_flag env) args c
      else if takes ''trojan_server'' then trojan_server (ce_atoi env) (ce_ip_address env) args c
      else if args ! 0 = ascii ''trojan_password'' \<and> length args \<ge> 2 \<and> block = None
      then password_directive (ce_stack env) args c
      else if takes ''trojan_fallback'' then fallback_directive (ce_parse_url env) args c
      else if takes ''trojan_connect_timeout''
      then map_option (\<lambda>v. c\<lparr>sc_connect_timeout := Some v\<rparr>) (ce_msec env (sc_connect_timeout c) (args ! 1))
      else if takes ''trojan_timeout''
      then map_option (\<lambda>v. c\<lparr>sc_timeout := Some v\<rparr>) (ce_msec env (sc_timeout c) (args ! 1))
      else if takes ''trojan_udp_timeout''
      then map_option (\<lambda>v. c\<lparr>sc_udp_timeout := Some v\<rparr>) (ce_msec env (sc_udp_timeout c) (args ! 1))
      else if takes ''trojan_buffer_size''
      then map_option (\<lambda>v. c\<lparr>sc_buffer_size := Some v\<rparr>) (ce_size env (sc_buffer_size c) (args ! 1))
      else if opens ''outbounds'' \<and> length args = 2
      then outbounds_directive (ce_parse_url env) args (the block) c
      else if opens ''outbounds_direct'' \<and> length args \<le> 2
      then outbound_direct_directive (ce_parse_url env) args (the block) c
      else if opens ''outbounds_socks5'' \<and> length args \<le> 2
      then outbound_socks5_directive (ce_parse_url env) args (the block) c
      else if opens ''route_rules'' \<and> length args = 2
      then map_option (\<lambda>groups. c\<lparr>sc_rules := Some groups\<rparr>)
             (route_rules_block (ce_include env) (ce_regex env) (ce_ptocidr env) (Some (sc_rules c)) args (the block))
      else if takes ''route_cache'' then route_cache_directive (ce_atoi env) args c
      else if takes ''route_resolve'' then route_resolve_directive args c
      else if takes ''route_drain'' then route_drain_directive args c
      else None)"

text \<open>The block of a server (the directives of this module in it).\<close>

definition server_block :: "conf_env \<Rightarrow> (bytes list \<times> bytes list list option) list \<Rightarrow> srv_conf option" where
  "server_block env lines = each (srv_directive env) create_srv_conf lines"

subsection \<open>Merging\<close>

definition merged :: "'a option \<Rightarrow> 'a option \<Rightarrow> 'a \<Rightarrow> 'a option" where
  "merged child parent dflt =
     (case child of Some v \<Rightarrow> Some v | None \<Rightarrow> (case parent of Some v \<Rightarrow> Some v | None \<Rightarrow> Some dflt))"

definition DEFAULT_BUFFER_SIZE :: nat where "DEFAULT_BUFFER_SIZE = 32768"
definition DEFAULT_ROUTE_CACHE_SIZE :: nat where "DEFAULT_ROUTE_CACHE_SIZE = 1024"

text \<open>\<open>self\<close> is the index of the server.\<close>

definition merge_srv_conf :: "nat \<Rightarrow> srv_conf \<Rightarrow> srv_conf \<Rightarrow> srv_conf option" where
  "merge_srv_conf self prev c =
     (let c = c\<lparr>sc_enable := merged (sc_enable c) (sc_enable prev) False,
            sc_socks5_enable := merged (sc_socks5_enable c) (sc_socks5_enable prev) False,
            sc_http_proxy_enable := merged (sc_http_proxy_enable c) (sc_http_proxy_enable prev) False,
            sc_socks5_udp_enable := merged (sc_socks5_udp_enable c) (sc_socks5_udp_enable prev) False,
            sc_local_proxy_type := merged (sc_local_proxy_type c) (sc_local_proxy_type prev) LOCAL_PROXY_NONE,
            sc_connect_timeout := merged (sc_connect_timeout c) (sc_connect_timeout prev) 60000,
            sc_timeout := merged (sc_timeout c) (sc_timeout prev) 600000,
            sc_udp_timeout := merged (sc_udp_timeout c) (sc_udp_timeout prev) 600000,
            sc_buffer_size := merged (sc_buffer_size c) (sc_buffer_size prev) DEFAULT_BUFFER_SIZE,
            sc_route_cache_size :=
              merged (sc_route_cache_size c) (sc_route_cache_size prev) DEFAULT_ROUTE_CACHE_SIZE,
            sc_route_resolve := merged (sc_route_resolve c) (sc_route_resolve prev) RESOLVE_OFF,
            sc_route_drain := merged (sc_route_drain c) (sc_route_drain prev) DRAIN_IDLE\<rparr>;
          c = (if sc_keys c = None then c\<lparr>sc_keys := sc_keys prev\<rparr> else c);
          c = (if sc_fallback c = None then c\<lparr>sc_fallback := sc_fallback prev\<rparr> else c);
          c = (if sc_outbounds c = None \<and> sc_outbounds prev \<noteq> None
               then c\<lparr>sc_outbounds := sc_outbounds prev\<rparr> else c);
          c = c\<lparr>sc_effective := (if sc_enable c = Some True then Some self else None)\<rparr> in
      if sc_enable c = Some True \<and> (sc_keys c = None \<or> sc_keys c = Some []) then None
      else if sc_socks5_udp_enable c = Some True \<and> sc_socks5_enable c \<noteq> Some True then None
      else Some c)"

subsection \<open>After all servers are read\<close>

text \<open>\<open>main_rules\<close>: the groups of the enclosing level (\<open>None\<close>: no such configuration); \<open>file\<close>:
  \<open>resolv.conf\<close>; \<open>core_resolver\<close>: the number of name servers of the resolver of the server, if it
  has one. The result of \<open>ngx_resolver_create\<close> is its number of name servers.\<close>

definition create_internal_route_resolver ::
    "bytes list option \<Rightarrow> (bytes list \<Rightarrow> nat option) \<Rightarrow> nat option \<Rightarrow> srv_conf \<Rightarrow> srv_conf option" where
  "create_internal_route_resolver file resolver_create core_resolver c =
     (if \<not> needs_internal_resolver (sc_route_enabled c)
           (case sc_route_resolve c of None \<Rightarrow> RESOLVE_OFF | Some r \<Rightarrow> r) (sc_outbounds c)
      then Some c
      else if (case core_resolver of None \<Rightarrow> False | Some n \<Rightarrow> n \<noteq> 0) then Some c
      else if sc_route_resolver c \<noteq> None then Some c
      else
        (case read_system_nameservers file [] of
           None \<Rightarrow> Some c
         | Some [] \<Rightarrow> Some c
         | Some (name # names) \<Rightarrow>
             (case resolver_create (name # names) of
                None \<Rightarrow> None
              | Some n \<Rightarrow> Some (c\<lparr>sc_route_resolver := Some n, sc_internal_resolver := True\<rparr>))))"

text \<open>The loop stops at the first outbound that takes everything. The result tells whether an
  outbound with rules was met.\<close>

fun bind_matchers :: "route_rules list option \<Rightarrow> route_rules list option \<Rightarrow> bool \<Rightarrow> outbound list \<Rightarrow> bool \<times> outbound list" where
  "bind_matchers rules main_rules enabled [] = (enabled, [])"
| "bind_matchers rules main_rules enabled (ob # obs) =
     (let ob = ob\<lparr>ob_matcher := None\<rparr> in
      if ob_match_all ob \<or> \<not> ob_has_rules ob then (enabled, ob # obs)
      else
        let matcher = (case rules_find rules (ob_tag ob) of
               None \<Rightarrow> rules_find main_rules (ob_tag ob)
             | Some g \<Rightarrow> Some g);
            (enabled, obs) = bind_matchers rules main_rules True obs in
        (enabled, ob\<lparr>ob_matcher := matcher\<rparr> # obs))"

definition bind_outbound_matchers ::
    "bytes list option \<Rightarrow> (bytes list \<Rightarrow> nat option) \<Rightarrow> nat option \<Rightarrow> route_rules list option option \<Rightarrow>
     srv_conf \<Rightarrow> srv_conf option" where
  "bind_outbound_matchers file resolver_create core_resolver main_conf c =
     (if sc_outbounds c = None \<or> sc_outbounds c = Some [] then
        create_internal_route_resolver file resolver_create core_resolver (c\<lparr>sc_route_enabled := False\<rparr>)
      else
        (case main_conf of
           None \<Rightarrow> None
         | Some main_rules \<Rightarrow>
             let (enabled, obs) = bind_matchers (sc_rules c) main_rules False (the (sc_outbounds c));
                 c = c\<lparr>sc_outbounds := Some obs, sc_route_enabled := enabled\<rparr>;
                 c = (if enabled \<and> sc_route_cache_size c \<noteq> Some 0 \<and> sc_route_cache c = None
                      then c\<lparr>sc_route_cache := Some (route_cache_init (the (sc_route_cache_size c)))\<rparr>
                      else c) in
             create_internal_route_resolver file resolver_create core_resolver c))"

subsection \<open>Listen sockets\<close>

text \<open>A listen address: its socket address, whether it is an SSL listen, and the servers behind it. The
  servers are indices; \<open>names\<close> are the names of a server, \<open>None\<close> as its configuration means that the
  module has none.\<close>

record listen_addr =
  la_sockaddr :: sockaddr
  la_ssl :: bool
  la_servers :: "nat list"

record listen_port =
  lp_port :: u16
  lp_tcp :: bool
  lp_addrs :: "listen_addr list"

record server =
  sv_names :: "bytes list"
  sv_conf :: "srv_conf option"
  sv_resolver :: "nat option"

definition INADDR_LOOPBACK :: u32 where "INADDR_LOOPBACK = 0x7f000001"

definition loopback_sockaddr :: "sockaddr \<Rightarrow> bool" where
  "loopback_sockaddr sa =
     (case sa of
        SA4 addr port \<Rightarrow> addr = INADDR_LOOPBACK
      | SA6 addr port \<Rightarrow> addr = replicate 15 0 @ [1]
      | SA_other \<Rightarrow> False)"

text \<open>The checks of one address that has the server behind it.\<close>

definition check_listen :: "bool \<Rightarrow> listen_addr \<Rightarrow> bool" where
  "check_listen tcp a =
     (length (la_servers a) = 1 \<and> tcp \<and> \<not> la_ssl a \<and> loopback_sockaddr (la_sockaddr a))"

definition local_proxy_check_listens :: "listen_port list option \<Rightarrow> nat \<Rightarrow> bool" where
  "local_proxy_check_listens ports s =
     (case ports of
        None \<Rightarrow> False
      | Some ps \<Rightarrow>
          list_all (\<lambda>p. list_all (\<lambda>a. s \<in> set (la_servers a) \<longrightarrow> check_listen (lp_tcp p) a) (lp_addrs p)) ps
          \<and> list_ex (\<lambda>p. list_ex (\<lambda>a. s \<in> set (la_servers a)) (lp_addrs p)) ps)"

definition default_server_name :: "bytes list \<Rightarrow> bool" where
  "default_server_name names =
     (if length names = 0 then True
      else if length names \<noteq> 1 then False
      else length (names ! 0) = 0)"

definition enabled_server :: "server \<Rightarrow> bool" where
  "enabled_server sv = (case sv_conf sv of None \<Rightarrow> False | Some c \<Rightarrow> sc_enable c = Some True)"

definition server_matches :: "server_ref \<Rightarrow> server \<Rightarrow> bool" where
  "server_matches r sv =
     (if \<not> enabled_server sv then False
      else if sr_localhost r then default_server_name (sv_names sv)
      else list_ex (\<lambda>n. length n = length (sr_host r) \<and> strncmp n (sr_host r) (length (sr_host r)) = 0)
             (sv_names sv))"

text \<open>The servers that match, once for each listen address they are behind.\<close>

definition trojan_server_matches :: "listen_port list \<Rightarrow> server list \<Rightarrow> server_ref \<Rightarrow> nat list" where
  "trojan_server_matches ports servers r =
     filter (\<lambda>s. server_matches r (servers ! s))
       (concat (map (\<lambda>p. if lp_port p \<noteq> sr_port r \<or> \<not> lp_tcp p then []
          else concat (map la_servers (lp_addrs p))) ports))"

definition find_trojan_server :: "listen_port list option \<Rightarrow> server list \<Rightarrow> server_ref \<Rightarrow> nat option" where
  "find_trojan_server ports servers r =
     (case ports of
        None \<Rightarrow> None
      | Some ps \<Rightarrow>
          (case trojan_server_matches ps servers r of
             [s] \<Rightarrow> Some s
           | _ \<Rightarrow> None))"

subsection \<open>Postconfiguration\<close>

definition proxy_server :: "srv_conf \<Rightarrow> bool" where
  "proxy_server c \<longleftrightarrow> sc_socks5_enable c = Some True \<or> sc_http_proxy_enable c = Some True"

text \<open>The first pass: rules are compiled and outbounds bound.\<close>

definition bind_server ::
    "bytes list option \<Rightarrow> (bytes list \<Rightarrow> nat option) \<Rightarrow> route_rules list option option \<Rightarrow> server \<Rightarrow> server option" where
  "bind_server file resolver_create main_conf sv =
     (case sv_conf sv of
        None \<Rightarrow> Some sv
      | Some c \<Rightarrow>
          (case rules_compile (sc_rules c) of
             None \<Rightarrow> None
           | Some rules \<Rightarrow>
               let c = c\<lparr>sc_rules := rules\<rparr> in
               if sc_enable c = Some True then
                 (case bind_outbound_matchers file resolver_create (sv_resolver sv) main_conf c of
                    None \<Rightarrow> None
                  | Some c \<Rightarrow> Some (sv\<lparr>sv_conf := Some c\<rparr>))
               else Some (sv\<lparr>sv_conf := Some c\<rparr>)))"

text \<open>The second pass, for one server: its listens are checked and its trojan server is found.\<close>

definition link_proxy :: "listen_port list option \<Rightarrow> server list \<Rightarrow> nat \<Rightarrow> server list option" where
  "link_proxy ports servers s =
     (case sv_conf (servers ! s) of
        None \<Rightarrow> Some servers
      | Some c \<Rightarrow>
          let set_effective = (\<lambda>e. servers[s := (servers ! s)\<lparr>sv_conf := Some (c\<lparr>sc_effective := e\<rparr>)\<rparr>]);
              trojans = filter (\<lambda>t. enabled_server (servers ! t)) [0 ..< length servers] in
          if \<not> proxy_server c then Some servers
          else if \<not> local_proxy_check_listens ports s then None
          else if sc_enable c = Some True then Some (set_effective (Some s))
          else if sc_socks5_ref_set c then
            Some (set_effective (find_trojan_server ports servers (sc_socks5_ref c)))
          else if length trojans = 1 then Some (set_effective (Some (last trojans)))
          else None)"

text \<open>\<open>None\<close> is \<open>NGX_ERROR\<close>; the rules of the enclosing level are compiled first.\<close>

definition postconfiguration ::
    "bytes list option \<Rightarrow> (bytes list \<Rightarrow> nat option) \<Rightarrow> route_rules list option option \<Rightarrow>
     listen_port list option \<Rightarrow> server list \<Rightarrow> server list option" where
  "postconfiguration file resolver_create main_conf ports servers =
     (if servers = [] then Some servers
      else
        let compiled = (case main_conf of
              None \<Rightarrow> Some None
            | Some rules \<Rightarrow> map_option Some (rules_compile rules)) in
        (case compiled of
           None \<Rightarrow> None
         | Some main_conf \<Rightarrow>
             (case each (\<lambda>acc sv. map_option (\<lambda>sv. acc @ [sv]) (bind_server file resolver_create main_conf sv))
                  [] servers of
                None \<Rightarrow> None
              | Some servers \<Rightarrow> each (link_proxy ports) servers [0 ..< length servers])))"

end
