(* ===== verification/Mt_Conf_Props.thy ===== *)
theory Mt_Conf_Props
  imports Mt_Conf Mt_Compile Mt_Socks5
begin

text \<open>
  What an accepted configuration guarantees: outbounds that the handshakes can use, keys that are
  digests, rules that are ready to compile; and local proxies that are reachable only from the
  machine itself.
\<close>

subsection \<open>Outbounds\<close>

definition valid_outbound :: "outbound \<Rightarrow> bool" where
  "valid_outbound ob \<longleftrightarrow>
     (case ob_type ob of
        OUTBOUND_DIRECT \<Rightarrow>
          ob_socks5_server ob = None \<and> ob_socks5_username ob = None \<and> ob_socks5_password ob = None
      | OUTBOUND_SOCKS5 \<Rightarrow>
          ob_socks5_server ob \<noteq> None \<and> ob_block ob \<noteq> BLOCK_ALL \<and> ob_ip_prefer ob = IP_PREFER_AUTO) \<and>
     (ob_socks5_username ob \<noteq> None \<longrightarrow> ob_socks5_password ob \<noteq> None) \<and>
     (text_len (ob_socks5_password ob) \<noteq> 0 \<longrightarrow> ob_socks5_username ob \<noteq> None) \<and>
     (\<forall>u. ob_socks5_username ob = Some u \<longrightarrow> u \<noteq> [] \<and> length u \<le> 255) \<and>
     text_len (ob_socks5_password ob) \<le> 255 \<and>
     ob_matcher ob = None \<and> (ob_has_rules ob \<longleftrightarrow> \<not> ob_match_all ob) \<and>
     (ob_has_rules ob \<longrightarrow> ob_tag ob \<noteq> [] \<and> \<not> rule_reserved_value (ob_tag ob))"

text \<open>What holds while the block of an outbound is read.\<close>

definition open_outbound :: "outbound_type \<Rightarrow> outbound \<Rightarrow> bool" where
  "open_outbound t ob \<longleftrightarrow> ob_type ob = t \<and>
     (t = OUTBOUND_DIRECT \<longrightarrow>
        ob_socks5_server ob = None \<and> ob_socks5_username ob = None \<and> ob_socks5_password ob = None) \<and>
     (t = OUTBOUND_SOCKS5 \<longrightarrow> ob_block ob \<noteq> BLOCK_ALL \<and> ob_ip_prefer ob = IP_PREFER_AUTO) \<and>
     (\<forall>u. ob_socks5_username ob = Some u \<longrightarrow> u \<noteq> [] \<and> length u \<le> 255) \<and>
     text_len (ob_socks5_password ob) \<le> 255 \<and>
     ob_matcher ob = None \<and> (ob_has_rules ob \<longleftrightarrow> \<not> ob_match_all ob) \<and>
     (ob_has_rules ob \<longrightarrow> ob_tag ob \<noteq> [] \<and> \<not> rule_reserved_value (ob_tag ob))"

lemma open_outbound_init: "open_outbound t (outbound_init t)"
  by (cases t) (simp_all add: open_outbound_def outbound_init_def text_len_def)

lemma open_outbound_tag:
  "outbound_tagged (outbound_init t) args = Some ob \<Longrightarrow> open_outbound t ob"
  by (auto simp: outbound_tagged_def outbound_set_tag_def open_outbound_def outbound_init_def
      text_len_def split: if_splits)

lemma outbounds_block_cases:
  assumes "outbounds_block pu ob args = Some ob'"
  obtains
    (server) a where "ob_type ob = OUTBOUND_SOCKS5" "ob' = ob\<lparr>ob_socks5_server := Some a\<rparr>"
  | (username) "ob_type ob = OUTBOUND_SOCKS5" "args ! 1 \<noteq> []" "length (args ! 1) \<le> 255"
      "ob' = ob\<lparr>ob_socks5_username := Some (args ! 1)\<rparr>"
  | (password) "ob_type ob = OUTBOUND_SOCKS5" "length (args ! 1) \<le> 255"
      "ob' = ob\<lparr>ob_socks5_password := Some (args ! 1)\<rparr>"
  | (ip_prefer) v where "ob_type ob = OUTBOUND_DIRECT" "ob' = ob\<lparr>ob_ip_prefer := v, ob_ip_prefer_set := True\<rparr>"
  | (block) b where "ob_type ob = OUTBOUND_SOCKS5 \<longrightarrow> b \<noteq> BLOCK_ALL"
      "ob' = ob\<lparr>ob_block := b, ob_block_set := True\<rparr>"
proof -
  define word where "word w \<longleftrightarrow> length args = 2 \<and> conf_word (args ! 0) w" for w
  note e = assms [unfolded outbounds_block_def, folded word_def]
  consider "word ''server''" | "\<not> word ''server''" "word ''username''"
    | "\<not> word ''server''" "\<not> word ''username''" "word ''password''"
    | "\<not> word ''server''" "\<not> word ''username''" "\<not> word ''password''" "word ''ip_prefer''"
    | "\<not> word ''server''" "\<not> word ''username''" "\<not> word ''password''" "\<not> word ''ip_prefer''"
      "word ''block''"
    using e by (metis option.distinct(1))
  then show ?thesis
  proof cases
    case 1
    then show ?thesis using e server by (auto simp del: One_nat_def split: if_splits option.splits list.splits)
  next
    case 2
    then show ?thesis using e username by (simp split: if_splits)
  next
    case 3
    then show ?thesis using e password by (simp split: if_splits)
  next
    case 4
    then show ?thesis using e ip_prefer by (auto simp del: One_nat_def split: if_splits option.splits)
  next
    case 5
    then show ?thesis using e block by (auto simp del: One_nat_def split: if_splits option.splits)
  qed
qed

lemma open_outbound_block:
  assumes "open_outbound t ob" "outbounds_block pu ob args = Some ob'"
  shows "open_outbound t ob'"
  using assms(2)
proof (cases rule: outbounds_block_cases)
qed (use assms(1) in \<open>simp_all add: open_outbound_def text_len_def\<close>)

lemma open_outbound_lines:
  assumes "open_outbound t ob" "each (outbounds_block pu) ob block = Some ob'"
  shows "open_outbound t ob'"
  by (rule each_inv [where I = "open_outbound t", OF open_outbound_block assms])

lemma open_outbound_direct: "open_outbound OUTBOUND_DIRECT ob \<Longrightarrow> valid_outbound ob"
  by (auto simp: open_outbound_def valid_outbound_def text_len_def)

lemma open_outbound_socks5:
  "open_outbound OUTBOUND_SOCKS5 ob \<Longrightarrow> socks5_complete ob = Some ob' \<Longrightarrow> valid_outbound ob'"
  by (auto simp: open_outbound_def valid_outbound_def socks5_complete_def text_len_def
      split: if_splits option.splits)

abbreviation outbounds_of :: "srv_conf \<Rightarrow> outbound list" where
  "outbounds_of c \<equiv> (case sc_outbounds c of None \<Rightarrow> [] | Some obs \<Rightarrow> obs)"

lemma outbound_directives_push:
  assumes "outbounds_directive pu args block c = Some c' \<or>
    outbound_direct_directive pu args block c = Some c' \<or> outbound_socks5_directive pu args block c = Some c'"
  shows "\<exists>ob. c' = push_outbound c ob \<and> valid_outbound ob"
  using assms
proof (elim disjE)
  assume "outbounds_directive pu args block c = Some c'"
  then obtain ob ob' where "each (outbounds_block pu) (outbound_init OUTBOUND_SOCKS5) block = Some ob"
      "socks5_complete ob = Some ob'" "c' = push_outbound c ob'"
    by (auto simp: outbounds_directive_def split: if_splits option.splits)
  then show ?thesis
    using open_outbound_socks5 open_outbound_lines [OF open_outbound_init] by blast
next
  assume "outbound_direct_directive pu args block c = Some c'"
  then obtain ob ob' where "outbound_tagged (outbound_init OUTBOUND_DIRECT) args = Some ob"
      "each (outbounds_block pu) ob block = Some ob'" "c' = push_outbound c ob'"
    by (auto simp: outbound_direct_directive_def split: option.splits)
  then show ?thesis
    using open_outbound_direct open_outbound_lines [OF open_outbound_tag] by blast
next
  assume "outbound_socks5_directive pu args block c = Some c'"
  then obtain ob ob' ob'' where "outbound_tagged (outbound_init OUTBOUND_SOCKS5) args = Some ob"
      "each (outbounds_block pu) ob block = Some ob'" "socks5_complete ob' = Some ob''"
      "c' = push_outbound c ob''"
    by (auto simp: outbound_socks5_directive_def split: option.splits)
  then show ?thesis
    using open_outbound_socks5 open_outbound_lines [OF open_outbound_tag] by blast
qed

text \<open>A valid outbound with a name gets its authentication message into any buffer of 513 bytes.\<close>

lemma valid_outbound_auth:
  assumes "valid_outbound ob" "ob_socks5_username ob = Some u" "length d \<ge> 513"
  shows "\<exists>p d'. ob_socks5_password ob = Some p \<and>
    socks5_build_auth (Some u) (length u) (Some p) (length p) (Some d) = (Some (3 + length u + length p), d')"
proof -
  obtain p where p: "ob_socks5_password ob = Some p"
    using assms(1,2) by (auto simp: valid_outbound_def)
  have "length p \<le> 255" "u \<noteq> []" "length u \<le> 255"
    using assms(1,2) p by (auto simp: valid_outbound_def text_len_def)
  with assms(3) p show ?thesis by (simp add: socks5_build_auth_def Let_def)
qed

subsection \<open>The invariant of a server block\<close>

definition key_text :: "bytes \<Rightarrow> bool" where
  "key_text k \<longleftrightarrow> length k = KEY_LEN \<and> set k \<subseteq> set hex"

definition conf_inv :: "srv_conf \<Rightarrow> bool" where
  "conf_inv c \<longleftrightarrow>
     sc_outbounds c \<noteq> Some [] \<and> list_all valid_outbound (outbounds_of c) \<and>
     (\<forall>ks. sc_keys c = Some ks \<longrightarrow> ks \<noteq> [] \<and> list_all key_text ks) \<and>
     groups_wf (case sc_rules c of None \<Rightarrow> [] | Some gs \<Rightarrow> gs) \<and>
     (sc_socks5_ref_set c \<longrightarrow> sr_set (sc_socks5_ref c) \<and> sr_host (sc_socks5_ref c) \<noteq> [] \<and>
        sr_port (sc_socks5_ref c) \<noteq> 0) \<and>
     (sc_socks5_enable c = Some True \<or> sc_http_proxy_enable c = Some True \<longrightarrow>
        sc_local_proxy_type c \<noteq> None) \<and>
     sc_local_proxy_type c \<noteq> Some LOCAL_PROXY_NONE"

lemma conf_inv_create: "conf_inv create_srv_conf"
  by (simp add: conf_inv_def create_srv_conf_def groups_wf_def)

lemma conf_inv_push: "conf_inv c \<Longrightarrow> valid_outbound ob \<Longrightarrow> conf_inv (push_outbound c ob)"
  by (auto simp: conf_inv_def push_outbound_def split: option.splits)

text \<open>The fields it does not look at, and the flags.\<close>

lemma conf_inv_other [simp]:
  "conf_inv (c\<lparr>sc_enable := x1\<rparr>) = conf_inv c"
  "conf_inv (c\<lparr>sc_socks5_udp_enable := x2\<rparr>) = conf_inv c"
  "conf_inv (c\<lparr>sc_fallback := x3\<rparr>) = conf_inv c"
  "conf_inv (c\<lparr>sc_connect_timeout := x4\<rparr>) = conf_inv c"
  "conf_inv (c\<lparr>sc_timeout := x5\<rparr>) = conf_inv c"
  "conf_inv (c\<lparr>sc_udp_timeout := x6\<rparr>) = conf_inv c"
  "conf_inv (c\<lparr>sc_buffer_size := x7\<rparr>) = conf_inv c"
  "conf_inv (c\<lparr>sc_route_cache_size := x8\<rparr>) = conf_inv c"
  "conf_inv (c\<lparr>sc_route_resolve := x9\<rparr>) = conf_inv c"
  "conf_inv (c\<lparr>sc_route_drain := x10\<rparr>) = conf_inv c"
  by (simp_all add: conf_inv_def)

lemma conf_inv_local:
  assumes "conf_inv c"
  shows "t \<noteq> LOCAL_PROXY_NONE \<Longrightarrow> conf_inv (c\<lparr>sc_socks5_enable := b, sc_local_proxy_type := Some t\<rparr>)"
    "t \<noteq> LOCAL_PROXY_NONE \<Longrightarrow> conf_inv (c\<lparr>sc_http_proxy_enable := b, sc_local_proxy_type := Some t\<rparr>)"
    "b = Some True \<longrightarrow> sc_local_proxy_type c \<noteq> None \<Longrightarrow> conf_inv (c\<lparr>sc_socks5_enable := b\<rparr>)"
    "b = Some True \<longrightarrow> sc_local_proxy_type c \<noteq> None \<Longrightarrow> conf_inv (c\<lparr>sc_http_proxy_enable := b\<rparr>)"
  using assms by (simp_all add: conf_inv_def)

lemma conf_inv_flags:
  assumes "conf_inv c"
  shows "mtrojan_on slot args c = Some c' \<Longrightarrow> conf_inv c'"
    "socks5_on slot args c = Some c' \<Longrightarrow> conf_inv c'"
    "http_proxy_on slot args c = Some c' \<Longrightarrow> conf_inv c'"
    "socks5_udp_on slot args c = Some c' \<Longrightarrow> conf_inv c'"
  using assms
  by (auto simp: mtrojan_on_def socks5_on_def http_proxy_on_def socks5_udp_on_def Let_def
      conf_inv_local split: option.splits if_splits)

lemma conf_inv_words:
  assumes "conf_inv c"
  shows "route_cache_directive atoi args c = Some c' \<Longrightarrow> conf_inv c'"
    "route_resolve_directive args c = Some c' \<Longrightarrow> conf_inv c'"
    "route_drain_directive args c = Some c' \<Longrightarrow> conf_inv c'"
    "fallback_directive pu args c = Some c' \<Longrightarrow> conf_inv c'"
  using assms
  by (auto simp: route_cache_directive_def route_resolve_directive_def
      route_drain_directive_def fallback_directive_def Let_def
      split: option.splits if_splits list.splits)

lemma word_of_port: "0 < i \<Longrightarrow> i \<le> 65535 \<Longrightarrow> (word_of_int i :: u16) \<noteq> 0"
  by (simp add: word_of_int_eq_0_iff zdvd_not_zless)

lemma parse_server_ref_ok:
  assumes "parse_server_ref atoi ip v r = (True, r', v')"
  shows "sr_set r' \<and> sr_host r' \<noteq> [] \<and> sr_port r' \<noteq> 0"
proof -
  obtain colon where c: "strlchr v (of_char (CHR '':'')) = Some colon" "colon \<noteq> 0" "v \<noteq> []"
    using assms by (auto simp: parse_server_ref_def split: if_splits option.splits)
  then have "take colon v \<noteq> []" by simp
  with assms c show ?thesis
    by (auto simp: parse_server_ref_def Let_def word_of_port split: if_splits)
qed

lemma conf_inv_server:
  assumes "conf_inv c" "trojan_server atoi ip args c = Some c'"
  shows "conf_inv c'"
proof -
  obtain r v where "parse_server_ref atoi ip (args ! 1) (sc_socks5_ref c) = (True, r, v)"
      "c' = c\<lparr>sc_socks5_ref := r, sc_socks5_ref_set := True\<rparr>"
    using assms(2) by (auto simp: trojan_server_def split: if_splits prod.splits)
  with assms(1) parse_server_ref_ok show ?thesis by (simp add: conf_inv_def)
qed

lemma set_hex_pairs: "set (concat (map hex_pair bs)) \<subseteq> set hex"
  by (auto simp: hex_pair_def nibbles nibble_lt length_hex intro!: nth_mem)

lemma key_text_made: "length stack = 64 \<Longrightarrow> make_key_len stack (Some pw) = Some k \<Longrightarrow> key_text k"
  using set_hex_pairs [of "fips_sha224 pw"]
  by (auto simp: make_key_len_hex key_text_def KEY_LEN_def)

lemma conf_inv_password:
  assumes "conf_inv c" "password_directive stack args c = Some c'" "length stack = 64" "length args \<ge> 2"
  shows "conf_inv c'"
proof -
  define old where "old = (case sc_keys c of None \<Rightarrow> [] | Some ks \<Rightarrow> ks)"
  let ?f = "\<lambda>ks v. map_option (\<lambda>k. ks @ [k]) (make_key_len stack (Some v))"
  obtain keys where keys: "each ?f old (drop 1 args) = Some keys" and c': "c' = c\<lparr>sc_keys := Some keys\<rparr>"
    using assms(2) by (auto simp: password_directive_def old_def Let_def split: option.splits)
  have "list_all key_text old" using assms(1) by (auto simp: old_def conf_inv_def split: option.splits)
  then have "list_all key_text keys"
    using each_inv [where I = "list_all key_text", OF _ _ keys] key_text_made [OF assms(3)] by fastforce
  moreover have "keys \<noteq> []"
  proof -
    obtain a vs where d: "drop 1 args = a # vs" using assms(4) by (cases "drop 1 args") simp_all
    then obtain k where k: "make_key_len stack (Some a) = Some k" "each ?f (old @ [k]) vs = Some keys"
      using keys by (auto split: option.splits)
    show ?thesis
      by (rule each_inv [where I = "\<lambda>ks. ks \<noteq> []", OF _ _ k(2)]) auto
  qed
  ultimately show ?thesis using assms(1) by (simp add: conf_inv_def c')
qed

lemma conf_inv_rules:
  assumes "conf_inv c" "route_rules_block inc rc pc (Some (sc_rules c)) args block = Some groups"
    and "\<And>g args g'. inc g args = Some g' \<Longrightarrow> group_wf g \<Longrightarrow> group_wf g' \<and> rr_tag g' = rr_tag g"
  shows "conf_inv (c\<lparr>sc_rules := Some groups\<rparr>)"
  using route_rules_block_wf' [OF assms(3,2)] assms(1) by (simp add: conf_inv_def)

definition env_ok :: "conf_env \<Rightarrow> bool" where
  "env_ok env \<longleftrightarrow> length (ce_stack env) = 64 \<and>
     (\<forall>g args g'. ce_include env g args = Some g' \<longrightarrow> group_wf g \<longrightarrow> group_wf g' \<and> rr_tag g' = rr_tag g)"

lemma conf_inv_directive:
  assumes "env_ok env" "conf_inv c" "srv_directive env c line = Some c'"
  shows "conf_inv c'"
proof -
  obtain args block where line: "line = (args, block)" by (cases line)
  define t where "t word \<longleftrightarrow> args ! 0 = ascii word \<and> length args = 2 \<and> block = None" for word
  define o' where "o' word \<longleftrightarrow> args ! 0 = ascii word \<and> block \<noteq> None" for word
  define pw where "pw \<longleftrightarrow> args ! 0 = ascii ''trojan_password'' \<and> length args \<ge> 2 \<and> block = None"
  have d: "srv_directive env c line =
    (if args = [] then None
      else if t ''trojan'' then mtrojan_on (ce_flag env) args c
      else if t ''socks5'' then socks5_on (ce_flag env) args c
      else if t ''http_proxy'' then http_proxy_on (ce_flag env) args c
      else if t ''socks5_udp'' then socks5_udp_on (ce_flag env) args c
      else if t ''trojan_server'' then trojan_server (ce_atoi env) (ce_ip_address env) args c
      else if pw then password_directive (ce_stack env) args c
      else if t ''trojan_fallback'' then fallback_directive (ce_parse_url env) args c
      else if t ''trojan_connect_timeout''
      then map_option (\<lambda>v. c\<lparr>sc_connect_timeout := Some v\<rparr>) (ce_msec env (sc_connect_timeout c) (args ! 1))
      else if t ''trojan_timeout''
      then map_option (\<lambda>v. c\<lparr>sc_timeout := Some v\<rparr>) (ce_msec env (sc_timeout c) (args ! 1))
      else if t ''trojan_udp_timeout''
      then map_option (\<lambda>v. c\<lparr>sc_udp_timeout := Some v\<rparr>) (ce_msec env (sc_udp_timeout c) (args ! 1))
      else if t ''trojan_buffer_size''
      then map_option (\<lambda>v. c\<lparr>sc_buffer_size := Some v\<rparr>) (ce_size env (sc_buffer_size c) (args ! 1))
      else if o' ''outbounds'' \<and> length args = 2
      then outbounds_directive (ce_parse_url env) args (the block) c
      else if o' ''outbounds_direct'' \<and> length args \<le> 2
      then outbound_direct_directive (ce_parse_url env) args (the block) c
      else if o' ''outbounds_socks5'' \<and> length args \<le> 2
      then outbound_socks5_directive (ce_parse_url env) args (the block) c
      else if o' ''route_rules'' \<and> length args = 2
      then map_option (\<lambda>groups. c\<lparr>sc_rules := Some groups\<rparr>)
             (route_rules_block (ce_include env) (ce_regex env) (ce_ptocidr env) (Some (sc_rules c)) args (the block))
      else if t ''route_cache'' then route_cache_directive (ce_atoi env) args c
      else if t ''route_resolve'' then route_resolve_directive args c
      else if t ''route_drain'' then route_drain_directive args c
      else None)"
    unfolding srv_directive_def line Let_def prod.case t_def o'_def pw_def ..
  have stack: "length (ce_stack env) = 64"
    and inc: "\<And>g args g'. ce_include env g args = Some g' \<Longrightarrow> group_wf g \<Longrightarrow> group_wf g' \<and> rr_tag g' = rr_tag g"
    using assms(1) by (auto simp: env_ok_def)
  have len: "pw \<Longrightarrow> length args \<ge> 2" by (simp add: pw_def)
  have push: "conf_inv (push_outbound c ob)" if "valid_outbound ob" for ob
    using conf_inv_push assms(2) that .
  have outs: "outbounds_directive pu args b c = Some c' \<Longrightarrow> conf_inv c'"
    "outbound_direct_directive pu args b c = Some c' \<Longrightarrow> conf_inv c'"
    "outbound_socks5_directive pu args b c = Some c' \<Longrightarrow> conf_inv c'" for pu b
    using outbound_directives_push [of pu args b c c'] push by blast+
  show ?thesis
    using assms(3) unfolding d
    by (auto split: if_split_asm simp del: One_nat_def
        dest: conf_inv_flags [OF assms(2)] conf_inv_words [OF assms(2)] conf_inv_server [OF assms(2)]
          conf_inv_password [OF assms(2) _ stack len] outs
        intro: conf_inv_rules [OF assms(2) _ inc] simp: assms(2))
qed

lemma conf_inv_block:
  assumes "env_ok env" "server_block env lines = Some c"
  shows "conf_inv c"
  by (rule each_inv [where I = conf_inv, OF conf_inv_directive [OF assms(1)] conf_inv_create
        assms(2) [unfolded server_block_def]])

text \<open>C19: a server block that is accepted and merged with the enclosing level (which has no directive of
  its own) leaves every outbound usable: SOCKS5 outbounds have a server and never block everything,
  direct ones carry no credentials, a user name comes with a password, and the authentication message
  fits a buffer of 513 bytes. An enabled server has at least one key, each 56 hexadecimal digits; a
  local proxy knows its protocol.\<close>

theorem server_block_valid:
  assumes "env_ok env" and "server_block env lines = Some c"
    and "merge_srv_conf self create_srv_conf c = Some m"
  shows "list_all valid_outbound (outbounds_of m) \<and>
    (\<forall>ob u d. ob \<in> set (outbounds_of m) \<and> ob_socks5_username ob = Some u \<and> length d \<ge> 513 \<longrightarrow>
       (\<exists>p d'. ob_socks5_password ob = Some p \<and>
          socks5_build_auth (Some u) (length u) (Some p) (length p) (Some d) =
            (Some (3 + length u + length p), d'))) \<and>
    (sc_enable m = Some True \<longrightarrow>
       (\<exists>k ks. sc_keys m = Some (k # ks) \<and> list_all key_text (k # ks)) \<and> sc_effective m = Some self) \<and>
    (sc_enable m \<noteq> Some True \<longrightarrow> sc_effective m = None) \<and>
    (proxy_server m \<longrightarrow> sc_local_proxy_type m \<in> {Some LOCAL_PROXY_SOCKS5, Some LOCAL_PROXY_HTTP}) \<and>
    (sc_socks5_udp_enable m = Some True \<longrightarrow> sc_socks5_enable m = Some True) \<and>
    groups_wf (case sc_rules m of None \<Rightarrow> [] | Some gs \<Rightarrow> gs)"
proof -
  have I: "conf_inv c" using conf_inv_block [OF assms(1,2)] .
  have m: "sc_outbounds m = sc_outbounds c" "sc_keys m = sc_keys c" "sc_rules m = sc_rules c"
    "sc_local_proxy_type m = merged (sc_local_proxy_type c) None LOCAL_PROXY_NONE"
    "sc_socks5_enable m = merged (sc_socks5_enable c) None False"
    "sc_http_proxy_enable m = merged (sc_http_proxy_enable c) None False"
    "sc_effective m = (if sc_enable m = Some True then Some self else None)"
    "sc_enable m = Some True \<longrightarrow> sc_keys c \<noteq> None \<and> sc_keys c \<noteq> Some []"
    "sc_socks5_udp_enable m = Some True \<longrightarrow> sc_socks5_enable m = Some True"
    using assms(3) by (auto simp: merge_srv_conf_def create_srv_conf_def Let_def split: if_splits)
  have "sc_local_proxy_type c \<noteq> None \<longrightarrow>
      sc_local_proxy_type m \<in> {Some LOCAL_PROXY_SOCKS5, Some LOCAL_PROXY_HTTP}"
  proof -
    have "sc_local_proxy_type c \<noteq> Some LOCAL_PROXY_NONE" using I by (simp add: conf_inv_def)
    then show ?thesis
      by (cases "sc_local_proxy_type c") (auto simp: m(4) merged_def intro: local_proxy.exhaust)
  qed
  moreover have "proxy_server m \<longrightarrow> sc_local_proxy_type c \<noteq> None"
    using I by (auto simp: m(5,6) merged_def conf_inv_def proxy_server_def split: option.splits)
  moreover have "sc_enable m = Some True \<longrightarrow> (\<exists>k ks. sc_keys m = Some (k # ks) \<and> list_all key_text (k # ks))"
  proof
    assume "sc_enable m = Some True"
    then obtain ks where "sc_keys c = Some ks" "ks \<noteq> []" using m(8) by auto
    then show "\<exists>k ks. sc_keys m = Some (k # ks) \<and> list_all key_text (k # ks)"
      using I by (cases ks) (auto simp: m(2) conf_inv_def)
  qed
  moreover have "list_all valid_outbound (outbounds_of m)" using I by (simp add: m(1) conf_inv_def)
  moreover have "groups_wf (case sc_rules m of None \<Rightarrow> [] | Some gs \<Rightarrow> gs)"
    using I by (simp add: m(3) conf_inv_def)
  ultimately show ?thesis using m(7,9) valid_outbound_auth by (auto simp: list_all_iff)
qed

definition sample_conf_env :: conf_env where
  "sample_conf_env = \<lparr>ce_atoi = (\<lambda>v. -1), ce_ip_address = (\<lambda>v. False), ce_parse_url = (\<lambda>u p. Some [SA4 1 1080]),
     ce_flag = (\<lambda>old v. if old = None then Some True else None), ce_msec = (\<lambda>old v. None),
     ce_size = (\<lambda>old v. None), ce_include = (\<lambda>g args. None), ce_regex = (\<lambda>p. None),
     ce_ptocidr = (\<lambda>v. None), ce_stack = replicate 64 0\<rparr>"

definition sample_lines :: "(bytes list \<times> bytes list list option) list" where
  "sample_lines = [([ascii ''trojan'', ascii ''on''], None),
     ([ascii ''trojan_password'', ascii ''secret''], None),
     ([ascii ''outbounds_socks5''], Some [[ascii ''server'', ascii ''127.0.0.1''],
        [ascii ''username'', ascii ''me''], [ascii ''password'', ascii ''pw'']])]"

theorem server_block_valid_witness:
  "\<exists>m. merge_srv_conf 0 create_srv_conf (the (server_block sample_conf_env sample_lines)) = Some m \<and>
     length (outbounds_of m) = 1 \<and> (\<exists>k ks. sc_keys m = Some (k # ks))"
proof -
  have ok: "env_ok sample_conf_env" by (simp add: env_ok_def sample_conf_env_def)
  obtain k where k: "make_key_len (replicate 64 0) (Some (ascii ''secret'')) = Some k"
    by (simp add: make_key_len_hex)
  define ob where "ob = (outbound_init OUTBOUND_SOCKS5)\<lparr>ob_socks5_server := Some (SA4 1 1080),
    ob_socks5_username := Some (ascii ''me''), ob_socks5_password := Some (ascii ''pw'')\<rparr>"
  define c where "c = create_srv_conf\<lparr>sc_enable := Some True, sc_keys := Some [k], sc_outbounds := Some [ob]\<rparr>"
  have b: "server_block sample_conf_env sample_lines = Some c"
    using k by (simp add: server_block_def sample_lines_def srv_directive_def sample_conf_env_def c_def ob_def
        mtrojan_on_def password_directive_def outbound_socks5_directive_def outbound_tagged_def
        outbounds_block_def conf_word_def cstr_def socks5_complete_def text_len_def push_outbound_def
        create_srv_conf_def outbound_init_def Let_def)
  obtain m where m: "merge_srv_conf 0 create_srv_conf c = Some m" "sc_enable m = Some True"
      "outbounds_of m = [ob]"
    by (simp add: merge_srv_conf_def c_def create_srv_conf_def merged_def Let_def)
  show ?thesis
    using server_block_valid [OF ok b m(1)] m by (auto simp: b)
qed

subsection \<open>Local proxies\<close>

lemma each_upt:
  assumes "\<And>i s s'. i < n \<Longrightarrow> I i s \<Longrightarrow> f s i = Some s' \<Longrightarrow> I (Suc i) s'"
    and "I 0 s" "each f s [0 ..< n] = Some s'"
  shows "I n s'"
  using assms
proof (induction n arbitrary: s')
  case (Suc n)
  obtain t where t: "each f s [0 ..< n] = Some t" "f t n = Some s'"
    using Suc.prems(3) by (auto simp: each_append split: option.splits)
  have "I n t" using Suc.IH [OF _ Suc.prems(2) t(1)] Suc.prems(1) by (meson less_SucI)
  then show ?case using Suc.prems(1) [OF _ _ t(2)] by simp
qed simp

text \<open>What is promised of server \<open>s\<close> among \<open>servers\<close>.\<close>

definition proxy_safe :: "listen_port list option \<Rightarrow> server list \<Rightarrow> nat \<Rightarrow> bool" where
  "proxy_safe ports servers s \<longleftrightarrow>
     (\<forall>c. sv_conf (servers ! s) = Some c \<longrightarrow> proxy_server c \<longrightarrow>
        (\<exists>ps. ports = Some ps \<and>
           (\<forall>p \<in> set ps. \<forall>a \<in> set (lp_addrs p). s \<in> set (la_servers a) \<longrightarrow>
              la_servers a = [s] \<and> lp_tcp p \<and> \<not> la_ssl a \<and> loopback_sockaddr (la_sockaddr a)) \<and>
           (\<exists>p \<in> set ps. \<exists>a \<in> set (lp_addrs p). s \<in> set (la_servers a))) \<and>
        (\<forall>e. sc_effective c = Some e \<longrightarrow> e < length servers \<and> enabled_server (servers ! e)))"

text \<open>The second pass changes nothing but \<open>effective\<close>.\<close>

definition same_servers :: "server list \<Rightarrow> server list \<Rightarrow> bool" where
  "same_servers old new \<longleftrightarrow> length new = length old \<and>
     (\<forall>i. enabled_server (new ! i) = enabled_server (old ! i))"

lemma same_servers_refl [simp]: "same_servers x x"
  by (simp add: same_servers_def)

lemma same_servers_effective:
  assumes "sv_conf (servers ! s) = Some c" "s < length servers"
  shows "same_servers servers (servers[s := (servers ! s)\<lparr>sv_conf := Some (c\<lparr>sc_effective := e\<rparr>)\<rparr>])"
  using assms by (auto simp: same_servers_def nth_list_update enabled_server_def)

lemma check_listens_safe:
  assumes "local_proxy_check_listens ports s"
  shows "\<exists>ps. ports = Some ps \<and>
    (\<forall>p \<in> set ps. \<forall>a \<in> set (lp_addrs p). s \<in> set (la_servers a) \<longrightarrow>
       la_servers a = [s] \<and> lp_tcp p \<and> \<not> la_ssl a \<and> loopback_sockaddr (la_sockaddr a)) \<and>
    (\<exists>p \<in> set ps. \<exists>a \<in> set (lp_addrs p). s \<in> set (la_servers a))"
proof -
  obtain ps where ps: "ports = Some ps"
    using assms by (auto simp: local_proxy_check_listens_def split: option.splits)
  have one: "s \<in> set xs \<Longrightarrow> length xs = 1 \<Longrightarrow> xs = [s]" for xs
    by (cases xs) auto
  show ?thesis
    using assms one by (auto simp: ps local_proxy_check_listens_def list_all_iff list_ex_iff check_listen_def)
qed

lemma find_trojan_server_enabled:
  assumes "find_trojan_server ports servers r = Some e"
    and "\<And>ps p a. ports = Some ps \<Longrightarrow> p \<in> set ps \<Longrightarrow> a \<in> set (lp_addrs p) \<Longrightarrow> set (la_servers a) \<subseteq> {..< n}"
  shows "e < n \<and> enabled_server (servers ! e)"
proof -
  obtain ps where ps: "ports = Some ps" "trojan_server_matches ps servers r = [e]"
    using assms(1) by (auto simp: find_trojan_server_def split: option.splits list.splits)
  then have "e \<in> set (trojan_server_matches ps servers r)" by simp
  then have "server_matches r (servers ! e)"
    and "\<exists>p \<in> set ps. \<exists>a \<in> set (lp_addrs p). e \<in> set (la_servers a)"
    by (auto simp: trojan_server_matches_def split: if_splits)
  then show ?thesis using assms(2) [OF ps(1)] by (auto simp: server_matches_def split: if_splits)
qed

lemma link_proxy_result:
  assumes "link_proxy ports servers s = Some servers'" "s < length servers"
    and "\<And>ps p a. ports = Some ps \<Longrightarrow> p \<in> set ps \<Longrightarrow> a \<in> set (lp_addrs p) \<Longrightarrow>
      set (la_servers a) \<subseteq> {..< length servers}"
  shows "same_servers servers servers' \<and> proxy_safe ports servers' s \<and>
    (\<forall>i. i \<noteq> s \<longrightarrow> servers' ! i = servers ! i)"
proof (cases "\<exists>c. sv_conf (servers ! s) = Some c \<and> proxy_server c")
  case False
  then have "servers' = servers" using assms(1) by (auto simp: link_proxy_def Let_def split: option.splits)
  with False show ?thesis by (auto simp: proxy_safe_def)
next
  case True
  then obtain c where c: "sv_conf (servers ! s) = Some c" "proxy_server c" by blast
  define upd where "upd e = servers[s := (servers ! s)\<lparr>sv_conf := Some (c\<lparr>sc_effective := e\<rparr>)\<rparr>]" for e
  define trojans where "trojans = filter (\<lambda>t. enabled_server (servers ! t)) [0 ..< length servers]"
  have L: "local_proxy_check_listens ports s"
    using assms(1) c by (auto simp: link_proxy_def Let_def split: if_splits)
  have "\<exists>e. servers' = upd e \<and> (\<forall>t. e = Some t \<longrightarrow> t < length servers \<and> enabled_server (servers ! t))"
  proof (cases "sc_enable c = Some True")
    case True
    then have "servers' = upd (Some s)" using assms(1) c L by (simp add: link_proxy_def upd_def Let_def)
    moreover have "enabled_server (servers ! s)" using True c(1) by (simp add: enabled_server_def)
    ultimately show ?thesis using assms(2) by blast
  next
    case off: False
    show ?thesis
    proof (cases "sc_socks5_ref_set c")
      case True
      then have "servers' = upd (find_trojan_server ports servers (sc_socks5_ref c))"
        using assms(1) c L off by (simp add: link_proxy_def upd_def Let_def)
      moreover have "t < length servers \<and> enabled_server (servers ! t)"
        if "find_trojan_server ports servers (sc_socks5_ref c) = Some t" for t
        by (rule find_trojan_server_enabled [OF that assms(3)])
      ultimately show ?thesis by blast
    next
      case False
      then have one: "length trojans = 1" and s': "servers' = upd (Some (last trojans))"
        using assms(1) c L off by (auto simp: link_proxy_def upd_def trojans_def Let_def split: if_splits)
      have "last trojans \<in> set trojans" using one by (intro last_in_set) auto
      then show ?thesis using s' by (auto simp: trojans_def)
    qed
  qed
  then obtain e where s': "servers' = upd e"
    and e: "\<forall>t. e = Some t \<longrightarrow> t < length servers \<and> enabled_server (servers ! t)" by blast
  have same: "same_servers servers servers'"
    unfolding s' upd_def by (rule same_servers_effective [OF c(1) assms(2)])
  have "sv_conf (servers' ! s) = Some (c\<lparr>sc_effective := e\<rparr>)" using assms(2) by (simp add: s' upd_def)
  then have "proxy_safe ports servers' s"
    using check_listens_safe [OF L] e same by (simp add: proxy_safe_def same_servers_def)
  then show ?thesis using same by (simp add: s' upd_def)
qed

lemma proxy_safe_kept:
  assumes "proxy_safe ports servers i" "same_servers servers servers'" "servers' ! i = servers ! i"
  shows "proxy_safe ports servers' i"
  using assms by (simp add: proxy_safe_def same_servers_def)

lemma link_proxies:
  assumes "each (link_proxy ports) servers [0 ..< length servers] = Some servers'"
    and "\<And>ps p a. ports = Some ps \<Longrightarrow> p \<in> set ps \<Longrightarrow> a \<in> set (lp_addrs p) \<Longrightarrow>
      set (la_servers a) \<subseteq> {..< length servers}"
  shows "length servers' = length servers \<and> (\<forall>i < length servers. proxy_safe ports servers' i)"
proof -
  define I where "I k t \<longleftrightarrow> length t = length servers \<and> (\<forall>i < k. proxy_safe ports t i)" for k t
  have "I (length servers) servers'"
  proof (rule each_upt [where I = I, OF _ _ assms(1)])
    fix i t t'
    assume i: "i < length servers" and t: "I i t" and l: "link_proxy ports t i = Some t'"
    then have len: "length t = length servers" by (simp add: I_def)
    have R: "same_servers t t'" "proxy_safe ports t' i" "\<And>j. j \<noteq> i \<Longrightarrow> t' ! j = t ! j"
      using link_proxy_result [OF l] assms(2) i by (auto simp: len)
    have "proxy_safe ports t' j" if "j < Suc i" for j
      using that t R proxy_safe_kept [of ports t j t'] by (cases "j = i") (auto simp: I_def)
    then show "I (Suc i) t'" using R(1) len by (simp add: I_def same_servers_def)
  qed (simp add: I_def)
  then show ?thesis by (simp add: I_def)
qed

lemma bind_servers_length:
  assumes "each (\<lambda>acc sv. map_option (\<lambda>sv. acc @ [sv]) (g sv)) acc servers = Some r"
  shows "length r = length acc + length servers"
  using assms by (induction servers arbitrary: acc) (auto split: option.splits)

text \<open>The listen addresses name existing servers.\<close>

definition listens_in_range :: "listen_port list option \<Rightarrow> nat \<Rightarrow> bool" where
  "listens_in_range ports n \<longleftrightarrow>
     (\<forall>ps. ports = Some ps \<longrightarrow> (\<forall>p \<in> set ps. \<forall>a \<in> set (lp_addrs p). set (la_servers a) \<subseteq> {..< n}))"

text \<open>C20: when the configuration is accepted, every SOCKS5 or HTTP proxy server is behind at least one
  listen address, and each address it is behind is a TCP socket without SSL on 127.0.0.1 or [::1] that
  no other server shares; the Trojan server it uses, if it got one, is an enabled server.\<close>

theorem postconfiguration_loopback:
  assumes "postconfiguration file resolver_create main_conf ports servers = Some servers'"
    and "listens_in_range ports (length servers)"
    and "s < length servers" "sv_conf (servers' ! s) = Some c" "proxy_server c"
  shows "\<exists>ps. ports = Some ps \<and>
    (\<forall>p \<in> set ps. \<forall>a \<in> set (lp_addrs p). s \<in> set (la_servers a) \<longrightarrow>
       la_servers a = [s] \<and> lp_tcp p \<and> \<not> la_ssl a \<and> loopback_sockaddr (la_sockaddr a)) \<and>
    (\<exists>p \<in> set ps. \<exists>a \<in> set (lp_addrs p). s \<in> set (la_servers a)) \<and>
    (\<forall>e. sc_effective c = Some e \<longrightarrow> e < length servers' \<and> enabled_server (servers' ! e))"
proof -
  obtain conf bound where
    b: "each (\<lambda>acc sv. map_option (\<lambda>sv. acc @ [sv]) (bind_server file resolver_create conf sv)) [] servers =
      Some bound"
    and l: "each (link_proxy ports) bound [0 ..< length bound] = Some servers'"
    using assms(1,3) by (auto simp: postconfiguration_def Let_def split: if_splits option.splits)
  have len: "length bound = length servers" using bind_servers_length [OF b] by simp
  have "proxy_safe ports servers' s"
    using link_proxies [OF l] assms(2,3) by (auto simp: len listens_in_range_def)
  then show ?thesis using assms(4,5) by (auto simp: proxy_safe_def)
qed

definition sample_servers :: "server list" where
  "sample_servers =
     [\<lparr>sv_names = [], sv_conf = Some (create_srv_conf\<lparr>sc_enable := Some True, sc_effective := Some 0,
         sc_route_resolve := Some RESOLVE_OFF\<rparr>), sv_resolver = Some 1\<rparr>,
      \<lparr>sv_names = [], sv_conf = Some (create_srv_conf\<lparr>sc_socks5_enable := Some True,
         sc_local_proxy_type := Some LOCAL_PROXY_SOCKS5\<rparr>), sv_resolver = None\<rparr>]"

definition sample_ports :: "listen_port list" where
  "sample_ports =
     [\<lparr>lp_port = 443, lp_tcp = True, lp_addrs = [\<lparr>la_sockaddr = SA4 0 443, la_ssl = True, la_servers = [0]\<rparr>]\<rparr>,
      \<lparr>lp_port = 1080, lp_tcp = True,
       lp_addrs = [\<lparr>la_sockaddr = SA4 INADDR_LOOPBACK 1080, la_ssl = False, la_servers = [1]\<rparr>]\<rparr>]"

theorem postconfiguration_loopback_witness:
  "\<exists>c. sv_conf (the (postconfiguration None (\<lambda>n. None) (Some None) (Some sample_ports) sample_servers) ! 1) = Some c \<and>
     sc_effective c = Some 0 \<and>
     (\<exists>p \<in> set sample_ports. \<exists>a \<in> set (lp_addrs p). 1 \<in> set (la_servers a) \<and> loopback_sockaddr (la_sockaddr a))"
proof -
  obtain servers' c where p: "postconfiguration None (\<lambda>n. None) (Some None) (Some sample_ports) sample_servers = Some servers'"
    and c: "sv_conf (servers' ! 1) = Some c" "proxy_server c" "sc_effective c = Some 0"
    by (simp add: postconfiguration_def sample_servers_def sample_ports_def rules_compile_def bind_server_def
        bind_outbound_matchers_def create_internal_route_resolver_def needs_internal_resolver_def
        create_srv_conf_def link_proxy_def proxy_server_def local_proxy_check_listens_def check_listen_def
        loopback_sockaddr_def enabled_server_def Let_def upt_rec)
  have range: "listens_in_range (Some sample_ports) (length sample_servers)"
    by (auto simp: listens_in_range_def sample_ports_def sample_servers_def)
  have "\<exists>p \<in> set sample_ports. \<exists>a \<in> set (lp_addrs p). 1 \<in> set (la_servers a) \<and>
      loopback_sockaddr (la_sockaddr a)"
    using postconfiguration_loopback [OF p range _ c(1,2)] by (auto simp: sample_servers_def)
  then show ?thesis using c by (simp add: p)
qed

end
