(* ===== verification/Mt_Io.thy ===== *)
theory Mt_Io
  imports Mt_Relay_Props Mt_Incremental
begin

text \<open>
  Reading and writing of handshake messages (\<open>ngx_stream_mtrojan_module.c\<close>): the loops that read
  until a buffer holds so many bytes (\<open>socks5_in_read\<close>, \<open>socks5_read\<close>) or send all it holds
  (\<open>socks5_in_flush\<close>, \<open>http_in_flush\<close>, \<open>socks5_flush\<close>, \<open>flush_default_fallback\<close>), over the connections
  of \<open>Mt_Relay\<close>. \<open>ngx_handle_read_event\<close> and \<open>ngx_handle_write_event\<close> succeed.
\<close>

datatype io = IO_OK | IO_AGAIN | IO_ERROR

subsection \<open>One read\<close>

datatype received = GOT bytes | REC_AGAIN | REC_CLOSED

text \<open>\<open>n == 0\<close> and \<open>NGX_ERROR\<close> have the same effect in every handshake: \<open>REC_CLOSED\<close>.\<close>

definition conn_recv :: "nat \<Rightarrow> conn \<Rightarrow> received \<times> conn" where
  "conn_recv room c =
     (case cn_recvs c of
        [] \<Rightarrow> (REC_AGAIN, c)
      | ev # evs \<Rightarrow>
          let c = c\<lparr>cn_recvs := evs\<rparr> in
          (case ev of
             RECVD n \<Rightarrow>
               let m = min n (min room (length (cn_in c))) in
               if m = 0 then (REC_AGAIN, c)
               else (GOT (take m (cn_in c)), c\<lparr>cn_in := drop m (cn_in c)\<rparr>)
           | RECV_EOF \<Rightarrow> (REC_CLOSED, c)
           | RECV_ERROR \<Rightarrow> (REC_CLOSED, c)
           | _ \<Rightarrow> (REC_AGAIN, c)))"

lemma conn_recv_stream:
  "conn_recv room c = (r, c') \<Longrightarrow>
     (case r of GOT bs \<Rightarrow> bs | _ \<Rightarrow> []) @ cn_in c' = cn_in c \<and> cn_out c' = cn_out c \<and>
     cn_sends c' = cn_sends c \<and> (\<forall>bs. r = GOT bs \<longrightarrow> bs \<noteq> [] \<and> length bs \<le> room \<and>
       length (cn_recvs c') < length (cn_recvs c)) \<and> length (cn_recvs c') \<le> length (cn_recvs c)"
  by (auto simp: conn_recv_def Let_def min_def split: list.splits recv_event.splits if_splits)

subsection \<open>Reading up to a length\<close>

fun fill_loop :: "nat \<Rightarrow> nbuf \<Rightarrow> bytes \<Rightarrow> recv_event list \<Rightarrow> io \<times> nbuf \<times> bytes \<times> recv_event list" where
  "fill_loop needed b inp [] = (if nb_last b - nb_pos b < needed then IO_AGAIN else IO_OK, b, inp, [])"
| "fill_loop needed b inp (ev # evs) =
     (if nb_last b - nb_pos b < needed then
        (case ev of
           RECVD n \<Rightarrow>
             let m = min n (min (needed - (nb_last b - nb_pos b)) (length inp)) in
             if m = 0 then (IO_AGAIN, b, inp, evs)
             else fill_loop needed (b\<lparr>nb_last := nb_last b + m,
                 nb_data := poke (nb_data b) (nb_last b) (take m inp)\<rparr>) (drop m inp) evs
         | RECV_EOF \<Rightarrow> (IO_ERROR, b, inp, evs)
         | RECV_ERROR \<Rightarrow> (IO_ERROR, b, inp, evs)
         | _ \<Rightarrow> (IO_AGAIN, b, inp, evs))
      else (IO_OK, b, inp, ev # evs))"

definition fill :: "nat \<Rightarrow> nbuf \<Rightarrow> conn \<Rightarrow> io \<times> nbuf \<times> conn" where
  "fill needed b c =
     (if needed > length (nb_data b) then (IO_ERROR, b, c)
      else
        let (r, b, inp, evs) = fill_loop needed b (cn_in c) (cn_recvs c) in
        (r, b, c\<lparr>cn_in := inp, cn_recvs := evs\<rparr>))"

lemma length_unsent: "buf_ok b \<Longrightarrow> length (unsent b) = nb_last b - nb_pos b"
  by (auto simp: buf_ok_def unsent_def)

lemma unsent_grown:
  assumes "buf_ok b" "nb_last b + length bs \<le> length (nb_data b)"
  shows "unsent (b\<lparr>nb_last := nb_last b + length bs, nb_data := poke (nb_data b) (nb_last b) bs\<rparr>) =
      unsent b @ bs"
    "buf_ok (b\<lparr>nb_last := nb_last b + length bs, nb_data := poke (nb_data b) (nb_last b) bs\<rparr>)"
proof -
  let ?d = "nb_data b" and ?p = "nb_pos b" and ?l = "nb_last b"
  have pl: "?p \<le> ?l" "?l \<le> length ?d" using assms(1) by (simp_all add: buf_ok_def)
  have "drop ?p (poke ?d ?l bs) = drop ?p (take ?l ?d) @ bs @ drop (?l + length bs) ?d"
    using pl by (simp add: poke_def)
  moreover have "drop ?p (take ?l ?d) = take (?l - ?p) (drop ?p ?d)" by (simp add: drop_take)
  moreover have "length (take (?l - ?p) (drop ?p ?d)) = ?l - ?p" using pl by simp
  moreover have "?l + length bs - ?p = (?l - ?p) + length bs" using pl by simp
  ultimately show "unsent (b\<lparr>nb_last := nb_last b + length bs, nb_data := poke (nb_data b) (nb_last b) bs\<rparr>) =
      unsent b @ bs"
    by (simp add: unsent_def take_add)
  show "buf_ok (b\<lparr>nb_last := nb_last b + length bs, nb_data := poke (nb_data b) (nb_last b) bs\<rparr>)"
    using assms pl by (simp add: buf_ok_def length_poke)
qed

text \<open>What a fill keeps: nothing is lost, the buffer does not move, at most what is needed is read.\<close>

lemma fill_loop_facts:
  assumes "fill_loop needed b inp evs = (r, b', inp', evs')" "buf_ok b" "nb_pos b + needed \<le> length (nb_data b)"
  shows "unsent b' @ inp' = unsent b @ inp \<and> buf_ok b' \<and> nb_pos b' = nb_pos b \<and>
    length (nb_data b') = length (nb_data b) \<and> length (unsent b) \<le> length (unsent b') \<and>
    length (unsent b') \<le> max needed (length (unsent b)) \<and> (r = IO_OK \<longrightarrow> needed \<le> length (unsent b'))"
  using assms
proof (induction needed b inp evs rule: fill_loop.induct)
  case (1 needed b inp)
  then show ?case by (auto simp: length_unsent split: if_splits)
next
  case (2 needed b inp ev evs)
  define m where "m n = min n (min (needed - (nb_last b - nb_pos b)) (length inp))" for n
  show ?case
  proof (cases "nb_last b - nb_pos b < needed \<and> (\<exists>n. ev = RECVD n \<and> m n \<noteq> 0)")
    case True
    then obtain n where n: "nb_last b - nb_pos b < needed" "ev = RECVD n" "m n \<noteq> 0" by blast
    have l: "length (take (m n) inp) = m n" by (simp add: m_def)
    have room: "nb_last b + length (take (m n) inp) \<le> length (nb_data b)"
      using "2.prems"(2,3) n(1) unfolding l by (simp add: m_def buf_ok_def)
    define c where "c = b\<lparr>nb_last := nb_last b + m n, nb_data := poke (nb_data b) (nb_last b) (take (m n) inp)\<rparr>"
    have G: "unsent c = unsent b @ take (m n) inp" "buf_ok c" "length (nb_data c) = length (nb_data b)"
      "nb_pos c = nb_pos b"
      using unsent_grown [OF "2.prems"(2) room] length_poke [OF room] unfolding l c_def by simp_all
    have "fill_loop needed b inp (RECVD n # evs) =
        (if nb_last b - nb_pos b < needed then
           if m n = 0 then (IO_AGAIN, b, inp, evs) else fill_loop needed c (drop (m n) inp) evs
         else (IO_OK, b, inp, RECVD n # evs))"
      unfolding c_def m_def by (simp only: fill_loop.simps recv_event.case Let_def)
    then have "fill_loop needed c (drop (m n) inp) evs = (r, b', inp', evs')"
      using "2.prems"(1) n by simp
    moreover have "nb_pos c + needed \<le> length (nb_data c)" using "2.prems"(3) G by simp
    ultimately have "unsent b' @ inp' = unsent c @ drop (m n) inp \<and> buf_ok b' \<and> nb_pos b' = nb_pos c \<and>
        length (nb_data b') = length (nb_data c) \<and> length (unsent c) \<le> length (unsent b') \<and>
        length (unsent b') \<le> max needed (length (unsent c)) \<and> (r = IO_OK \<longrightarrow> needed \<le> length (unsent b'))"
      using "2.IH" [OF n(1,2) m_def [of n]] n(3) G(2) unfolding c_def by blast
    moreover have "length (unsent c) \<le> needed"
      using G(1) l n(1) "2.prems"(2) by (simp add: length_unsent m_def)
    ultimately show ?thesis using G by simp
  next
    case False
    then show ?thesis using "2.prems"
      by (auto simp: m_def length_unsent Let_def split: if_splits recv_event.splits)
  qed
qed

lemma fill_facts:
  assumes "fill needed b c = (r, b', c')" "buf_ok b" "nb_pos b = 0"
  shows "unsent b' @ cn_in c' = unsent b @ cn_in c \<and> buf_ok b' \<and> nb_pos b' = 0 \<and>
    length (nb_data b') = length (nb_data b) \<and> length (unsent b) \<le> length (unsent b') \<and>
    length (unsent b') \<le> max needed (length (unsent b)) \<and>
    (r = IO_OK \<longrightarrow> needed \<le> length (unsent b') \<and> needed \<le> length (nb_data b)) \<and>
    cn_out c' = cn_out c \<and> cn_sends c' = cn_sends c"
proof (cases "needed > length (nb_data b)")
  case True
  then show ?thesis using assms by (simp add: fill_def)
next
  case False
  obtain r0 b0 inp evs where f: "fill_loop needed b (cn_in c) (cn_recvs c) = (r0, b0, inp, evs)"
    by (metis prod_cases4)
  have "r = r0" "b' = b0" "c' = c\<lparr>cn_in := inp, cn_recvs := evs\<rparr>"
    using assms(1) False f by (simp_all add: fill_def)
  with fill_loop_facts [OF f assms(2)] False assms(3) show ?thesis by simp
qed

subsection \<open>Sending all of a buffer\<close>

definition flush :: "nbuf \<Rightarrow> conn \<Rightarrow> io \<times> nbuf \<times> conn" where
  "flush b c =
     (let (r, b, out, evs, touched) = send_loop b (cn_out c) (cn_sends c) False in
      (case r of FLUSHED \<Rightarrow> IO_OK | BLOCKED \<Rightarrow> IO_AGAIN | FAILED \<Rightarrow> IO_ERROR, b,
       c\<lparr>cn_out := out, cn_sends := evs\<rparr>))"

lemma flush_facts:
  assumes "flush b c = (r, b', c')" "buf_ok b"
  shows "cn_out c' @ unsent b' = cn_out c @ unsent b \<and> buf_ok b' \<and> nb_data b' = nb_data b \<and>
    nb_last b' = nb_last b \<and> (r = IO_OK \<longrightarrow> unsent b' = []) \<and> cn_in c' = cn_in c \<and> cn_recvs c' = cn_recvs c"
proof -
  obtain r0 b0 out evs t where s: "send_loop b (cn_out c) (cn_sends c) False = (r0, b0, out, evs, t)"
    by (metis prod_cases5)
  have e: "b' = b0" "c' = c\<lparr>cn_out := out, cn_sends := evs\<rparr>" "r = IO_OK \<longleftrightarrow> r0 = FLUSHED"
    using assms(1) s by (auto simp: flush_def split: flushed.splits)
  show ?thesis
    using send_loop_out [OF s] assms(2) unsent_empty [of b0] by (auto simp: e buf_ok_def)
qed

end
