(* ===== verification/Mt_Handshake.thy ===== *)
theory Mt_Handshake
  imports Mt_Io Mt_Conf_Props
begin

text \<open>
  The handshake with a SOCKS5 outbound (\<open>ngx_stream_mtrojan_module.c\<close>, \<open>process_socks5\<close> and the
  \<open>socks5_prepare_*\<close> functions): greeting, optional authentication, request. The buffer is the
  1024-byte one of the session; the connection is the upstream one.
\<close>

subsection \<open>State\<close>

datatype status = S_OK | S_BAD_REQUEST | S_FORBIDDEN | S_INTERNAL_SERVER_ERROR | S_BAD_GATEWAY

datatype socks5_step = GREETING_WRITE | METHOD_READ | AUTH_WRITE | AUTH_READ | REQUEST_WRITE | RESPONSE_READ

definition SOCKS5_BUFFER_SIZE :: nat where "SOCKS5_BUFFER_SIZE = 1024"

record handshake =
  hs_step :: socks5_step
  hs_buf :: nbuf
  hs_peer :: conn
  hs_udp :: bool
  hs_outbound :: outbound
  hs_target :: addr_t

text \<open>What happens to the session: it waits, is finalized, becomes a relay (\<open>init_proxy\<close>), or has the
  address of a UDP relay.\<close>

datatype hs_result = HS_WAIT | HS_FINALIZE status | HS_PROXY | HS_RELAY addr_t

subsection \<open>The messages\<close>

definition empty_buf :: "nbuf \<Rightarrow> nbuf" where
  "empty_buf b = b\<lparr>nb_pos := 0, nb_last := 0\<rparr>"

text \<open>A builder has been given the whole buffer.\<close>

definition built :: "nat option \<times> cptr \<Rightarrow> nbuf option" where
  "built r =
     (case r of
        (Some n, Some d) \<Rightarrow> Some \<lparr>nb_pos = 0, nb_last = n, nb_data = d\<rparr>
      | _ \<Rightarrow> None)"

definition socks5_prepare_greeting :: "handshake \<Rightarrow> nbuf option" where
  "socks5_prepare_greeting h =
     built (socks5_build_greeting (Some (nb_data (hs_buf h))) (text_len (ob_socks5_username (hs_outbound h)) \<noteq> 0))"

definition socks5_prepare_auth :: "handshake \<Rightarrow> nbuf option" where
  "socks5_prepare_auth h =
     (let ob = hs_outbound h in
      built (socks5_build_auth (ob_socks5_username ob) (text_len (ob_socks5_username ob))
        (ob_socks5_password ob) (text_len (ob_socks5_password ob)) (Some (nb_data (hs_buf h)))))"

definition zero_bind_addr :: addr_t where
  "zero_bind_addr = addr_zero\<lparr>addr_type := ADDR_IPV4, addr_host_len := 4, addr_host := poke (replicate 255 0) 0 [0, 0, 0, 0],
     addr_port := 0, addr_wire_len := 1 + 4 + 2\<rparr>"

definition socks5_prepare_request :: "handshake \<Rightarrow> nbuf option" where
  "socks5_prepare_request h =
     (if \<not> hs_udp h
      then built (socks5_build_request SOCKS5_CMD_CONNECT (Some (hs_target h)) (Some (nb_data (hs_buf h))))
      else built (socks5_build_request SOCKS5_CMD_UDP_ASSOCIATE (Some zero_bind_addr) (Some (nb_data (hs_buf h)))))"

subsection \<open>One turn of the loop\<close>

datatype hs_turn = HS_RETURN hs_result handshake | HS_CONTINUE handshake

text \<open>The three steps that write.\<close>

definition hs_write :: "socks5_step \<Rightarrow> handshake \<Rightarrow> hs_turn" where
  "hs_write next h =
     (let (r, b, c) = flush (hs_buf h) (hs_peer h);
          h = h\<lparr>hs_buf := b, hs_peer := c\<rparr> in
      case r of
        IO_AGAIN \<Rightarrow> HS_RETURN HS_WAIT h
      | IO_ERROR \<Rightarrow> HS_RETURN (HS_FINALIZE S_BAD_GATEWAY) h
      | IO_OK \<Rightarrow> HS_CONTINUE (h\<lparr>hs_step := next, hs_buf := empty_buf b\<rparr>))"

text \<open>Reading, then \<open>k\<close>.\<close>

definition hs_read :: "nat \<Rightarrow> (handshake \<Rightarrow> hs_turn) \<Rightarrow> handshake \<Rightarrow> hs_turn" where
  "hs_read needed k h =
     (let (r, b, c) = fill needed (hs_buf h) (hs_peer h);
          h = h\<lparr>hs_buf := b, hs_peer := c\<rparr> in
      case r of
        IO_AGAIN \<Rightarrow> HS_RETURN HS_WAIT h
      | IO_ERROR \<Rightarrow> HS_RETURN (HS_FINALIZE S_BAD_GATEWAY) h
      | IO_OK \<Rightarrow> k h)"

definition hs_send :: "socks5_step \<Rightarrow> status \<Rightarrow> nbuf option \<Rightarrow> handshake \<Rightarrow> hs_turn" where
  "hs_send next failure b h =
     (case b of
        None \<Rightarrow> HS_RETURN (HS_FINALIZE failure) h
      | Some b \<Rightarrow> HS_CONTINUE (h\<lparr>hs_step := next, hs_buf := b\<rparr>))"

definition hs_method :: "handshake \<Rightarrow> hs_turn" where
  "hs_method h =
     (case socks5_parse_method_response (Some (take 2 (drop (nb_pos (hs_buf h)) (nb_data (hs_buf h)))))
             (text_len (ob_socks5_username (hs_outbound h)) \<noteq> 0) of
        Some True \<Rightarrow> hs_send AUTH_WRITE S_INTERNAL_SERVER_ERROR (socks5_prepare_auth h) h
      | None \<Rightarrow> HS_RETURN (HS_FINALIZE S_BAD_GATEWAY) h
      | Some False \<Rightarrow> hs_send REQUEST_WRITE S_BAD_GATEWAY (socks5_prepare_request h) h)"

definition hs_auth_reply :: "handshake \<Rightarrow> hs_turn" where
  "hs_auth_reply h =
     (if \<not> socks5_parse_auth_response (Some (take 2 (drop (nb_pos (hs_buf h)) (nb_data (hs_buf h)))))
      then HS_RETURN (HS_FINALIZE S_BAD_GATEWAY) h
      else hs_send REQUEST_WRITE S_BAD_GATEWAY (socks5_prepare_request h) h)"

definition hs_response :: "handshake \<Rightarrow> hs_turn" where
  "hs_response h =
     (case socks5_response_len (Some (unsent (hs_buf h))) of
        Need needed \<Rightarrow> hs_read needed HS_CONTINUE h
      | Malformed \<Rightarrow> HS_RETURN (HS_FINALIZE S_BAD_GATEWAY) h
      | Complete n \<Rightarrow>
          (case socks5_parse_response (Some (unsent (hs_buf h))) of
             None \<Rightarrow> HS_RETURN (HS_FINALIZE S_BAD_GATEWAY) h
           | Some bind_addr \<Rightarrow> HS_RETURN (if hs_udp h then HS_RELAY bind_addr else HS_PROXY) h))"

definition process_socks5_turn :: "handshake \<Rightarrow> hs_turn" where
  "process_socks5_turn h =
     (case hs_step h of
        GREETING_WRITE \<Rightarrow> hs_write METHOD_READ h
      | METHOD_READ \<Rightarrow> hs_read 2 hs_method h
      | AUTH_WRITE \<Rightarrow> hs_write AUTH_READ h
      | AUTH_READ \<Rightarrow> hs_read 2 hs_auth_reply h
      | REQUEST_WRITE \<Rightarrow> hs_write RESPONSE_READ h
      | RESPONSE_READ \<Rightarrow> hs_response h)"

text \<open>The loop; \<open>None\<close> when the fuel is used up.\<close>

fun process_socks5 :: "nat \<Rightarrow> handshake \<Rightarrow> (hs_result \<times> handshake) option" where
  "process_socks5 0 h = None"
| "process_socks5 (Suc fuel) h =
     (case process_socks5_turn h of
        HS_RETURN r h \<Rightarrow> Some (r, h)
      | HS_CONTINUE h \<Rightarrow> process_socks5 fuel h)"

text \<open>\<open>socks5_connect\<close> up to the connection, which \<open>peer\<close> stands for.\<close>

definition socks5_connect :: "bool \<Rightarrow> outbound option \<Rightarrow> addr_t \<Rightarrow> conn \<Rightarrow> status + handshake" where
  "socks5_connect udp outbound target peer =
     (case outbound of
        None \<Rightarrow> Inl S_BAD_GATEWAY
      | Some ob \<Rightarrow>
          if ob_socks5_server ob = None then Inl S_BAD_GATEWAY
          else
            let h = \<lparr>hs_step = GREETING_WRITE, hs_buf = temp_buf SOCKS5_BUFFER_SIZE, hs_peer = peer,
                     hs_udp = udp, hs_outbound = ob, hs_target = target\<rparr> in
            (case socks5_prepare_greeting h of
               None \<Rightarrow> Inl S_INTERNAL_SERVER_ERROR
             | Some b \<Rightarrow> Inr (h\<lparr>hs_buf := b\<rparr>)))"

end
