(* ===== verification/Mt_Resolve.thy ===== *)
theory Mt_Resolve
  imports Mt_Select Mt_Socks5 Mt_Literal
begin

text \<open>
  From a target to a socket address (\<open>ngx_stream_mtrojan_module.c\<close>): \<open>addr_to_ngx_addr\<close> and its inverse
  \<open>sockaddr_to_addr\<close>, the choice among the addresses of \<open>getaddrinfo\<close> or of the nginx resolver by the
  preferred family, and the address of a SOCKS5 UDP relay. Pool allocations succeed.

  What \<open>getaddrinfo\<close> gives for an entry are its socket address, whose family is that of the entry. A
  socket address that is too short for its family is \<open>SA_other\<close>.
\<close>

subsection \<open>Addresses\<close>

definition addr_to_ngx_addr :: "addr_t \<Rightarrow> sockaddr_result" where
  "addr_to_ngx_addr a =
     (if addr_type a = ADDR_IPV4 then SOCKADDR_OK (SA4 (read_u32 (addr_host a)) (addr_port a))
      else if addr_type a = ADDR_IPV6 then SOCKADDR_OK (SA6 (take 16 (addr_host a)) (addr_port a))
      else if addr_type a = ADDR_DOMAIN then SOCKADDR_DECLINED
      else SOCKADDR_ERROR)"

definition sockaddr_to_addr :: "sockaddr \<Rightarrow> addr_t option" where
  "sockaddr_to_addr sa =
     (case sa of
        SA4 a p \<Rightarrow> Some (addr_zero\<lparr>addr_type := ADDR_IPV4, addr_host_len := 4,
            addr_host := poke (addr_host addr_zero) 0 (u32_bytes a), addr_port := p, addr_wire_len := 1 + 4 + 2\<rparr>)
      | SA6 a p \<Rightarrow> Some (addr_zero\<lparr>addr_type := ADDR_IPV6, addr_host_len := 16,
            addr_host := poke (addr_host addr_zero) 0 a, addr_port := p, addr_wire_len := 1 + 16 + 2\<rparr>)
      | SA_other \<Rightarrow> None)"

subsection \<open>The choice by family\<close>

text \<open>The loop of \<open>resolve_addr_prefer\<close>; the second argument is \<open>selected\<close>.\<close>

fun prefer_addrinfo :: "nat \<Rightarrow> sockaddr option \<Rightarrow> addrinfo list \<Rightarrow> sockaddr option" where
  "prefer_addrinfo pref selected [] = selected"
| "prefer_addrinfo pref selected (ai # ais) =
     (case ai_addr ai of
        Some (SA4 a p) \<Rightarrow>
          if pref = IP_PREFER_IPV4 then Some (SA4 a p)
          else prefer_addrinfo pref (if selected = None then Some (SA4 a p) else selected) ais
      | Some (SA6 a p) \<Rightarrow>
          if pref = IP_PREFER_IPV6 then Some (SA6 a p)
          else prefer_addrinfo pref (if selected = None then Some (SA6 a p) else selected) ais
      | _ \<Rightarrow> prefer_addrinfo pref selected ais)"

definition resolve_addr_prefer :: "route_env \<Rightarrow> addr_t \<Rightarrow> nat \<Rightarrow> sockaddr option" where
  "resolve_addr_prefer env a pref =
     (if addr_type a \<noteq> ADDR_DOMAIN then
        (case addr_to_ngx_addr a of SOCKADDR_OK sa \<Rightarrow> Some sa | _ \<Rightarrow> None)
      else if addr_host_len a = 0 \<or> addr_host_len a \<ge> 256 then None
      else
        (case en_getaddrinfo env (cstr (host_bytes a @ [0])) (addr_port a) of
           None \<Rightarrow> None
         | Some ais \<Rightarrow> prefer_addrinfo pref None ais))"

definition resolve_addr :: "route_env \<Rightarrow> addr_t \<Rightarrow> sockaddr option" where
  "resolve_addr env a = resolve_addr_prefer env a IP_PREFER_AUTO"

text \<open>Addresses of the nginx resolver; the result is an index.\<close>

definition is_inet :: "sockaddr option \<Rightarrow> bool" where
  "is_inet sa = (case sa of Some (SA4 a p) \<Rightarrow> True | _ \<Rightarrow> False)"

definition is_inet6 :: "sockaddr option \<Rightarrow> bool" where
  "is_inet6 sa = (case sa of Some (SA6 a p) \<Rightarrow> True | _ \<Rightarrow> False)"

fun first_addr :: "(sockaddr option \<Rightarrow> bool) \<Rightarrow> sockaddr option list \<Rightarrow> nat \<Rightarrow> nat option" where
  "first_addr P [] i = None"
| "first_addr P (a # as) i = (if P a then Some i else first_addr P as (i + 1))"

definition resolver_pick_addr :: "sockaddr option list \<Rightarrow> nat \<Rightarrow> nat option" where
  "resolver_pick_addr addrs pref =
     (if addrs = [] then None
      else
        (case (if pref = IP_PREFER_IPV4 then first_addr is_inet addrs 0 else None) of
           Some i \<Rightarrow> Some i
         | None \<Rightarrow>
             (case (if pref = IP_PREFER_IPV6 then first_addr is_inet6 addrs 0 else None) of
                Some i \<Rightarrow> Some i
              | None \<Rightarrow> Some 0)))"

text \<open>\<open>ngx_inet_set_port\<close> sets the port of an IPv4 or IPv6 address.\<close>

definition set_port :: "sockaddr \<Rightarrow> u16 \<Rightarrow> sockaddr" where
  "set_port sa port =
     (case sa of SA4 a p \<Rightarrow> SA4 a port | SA6 a p \<Rightarrow> SA6 a port | SA_other \<Rightarrow> SA_other)"

definition resolver_addr_to_ngx_addr :: "sockaddr option \<Rightarrow> u16 \<Rightarrow> sockaddr option" where
  "resolver_addr_to_ngx_addr resolved port = map_option (\<lambda>sa. set_port sa port) resolved"

text \<open>The address that a session connects to or sends to when its addresses have come.\<close>

definition resolved_addr :: "sockaddr option list \<Rightarrow> nat \<Rightarrow> u16 \<Rightarrow> sockaddr option" where
  "resolved_addr addrs pref port =
     (case resolver_pick_addr addrs pref of
        None \<Rightarrow> None
      | Some i \<Rightarrow> resolver_addr_to_ngx_addr (addrs ! i) port)"

text \<open>The loops of \<open>send_udp_frame_routed\<close>.\<close>

fun find_addrinfo :: "(sockaddr option \<Rightarrow> bool) \<Rightarrow> addrinfo list \<Rightarrow> sockaddr option" where
  "find_addrinfo P [] = None"
| "find_addrinfo P (ai # ais) = (if P (ai_addr ai) then ai_addr ai else find_addrinfo P ais)"

definition udp_addrinfo :: "nat \<Rightarrow> addrinfo list \<Rightarrow> sockaddr option" where
  "udp_addrinfo pref ais =
     (let rp = (if pref = IP_PREFER_IPV4 then find_addrinfo is_inet ais else None);
          rp = (if rp = None \<and> pref = IP_PREFER_IPV6 then find_addrinfo is_inet6 ais else rp);
          rp = (if rp = None then find_addrinfo (\<lambda>sa. is_inet sa \<or> is_inet6 sa) ais else rp) in
      rp)"

subsection \<open>The relay of a SOCKS5 server\<close>

definition socks5_response_to_ngx_addr :: "route_env \<Rightarrow> sockaddr \<Rightarrow> addr_t \<Rightarrow> sockaddr option" where
  "socks5_response_to_ngx_addr env server a =
     (case (case addr_to_ngx_addr a of
              SOCKADDR_OK sa \<Rightarrow> Some sa
            | SOCKADDR_DECLINED \<Rightarrow> resolve_addr env a
            | SOCKADDR_ERROR \<Rightarrow> None) of
        None \<Rightarrow> None
      | Some sa \<Rightarrow>
          Some (case (sa, server) of
                  (SA4 a p, SA4 b q) \<Rightarrow> if a = 0 then SA4 b p else sa
                | (SA6 a p, SA6 b q) \<Rightarrow> if a = replicate 16 0 then SA6 b p else sa
                | _ \<Rightarrow> sa))"

subsection \<open>Lemmas\<close>

lemma sockaddr_to_addr_ok:
  assumes "sockaddr_to_addr sa = Some a" "\<And>b p. sa = SA6 b p \<Longrightarrow> length b = 16"
  shows "trojan_addr_ok a \<and> addr_to_ngx_addr a = SOCKADDR_OK sa"
  using assms
  by (cases sa)
    (auto simp: sockaddr_to_addr_def addr_to_ngx_addr_def trojan_addr_ok_def trojan_addr_len_def addr_zero_def
      valid_addr_cases wire_defs)

lemma is_inet_simps [simp]:
  "is_inet (Some (SA4 a p))" "\<not> is_inet (Some (SA6 b p))" "\<not> is_inet (Some SA_other)" "\<not> is_inet None"
  "is_inet6 (Some (SA6 b p))" "\<not> is_inet6 (Some (SA4 a p))" "\<not> is_inet6 (Some SA_other)" "\<not> is_inet6 None"
  by (simp_all add: is_inet_def is_inet6_def)

lemma prefer_addrinfo_find:
  "prefer_addrinfo pref selected ais =
     (case (if pref = IP_PREFER_IPV4 then find_addrinfo is_inet ais
            else if pref = IP_PREFER_IPV6 then find_addrinfo is_inet6 ais else None) of
        Some sa \<Rightarrow> Some sa
      | None \<Rightarrow> if selected \<noteq> None then selected else find_addrinfo (\<lambda>sa. is_inet sa \<or> is_inet6 sa) ais)"
proof (induction ais arbitrary: selected)
  case (Cons ai ais)
  consider a p where "ai_addr ai = Some (SA4 a p)" | a p where "ai_addr ai = Some (SA6 a p)"
    | "ai_addr ai = None" | "ai_addr ai = Some SA_other"
    by (cases "ai_addr ai"; cases "the (ai_addr ai)") auto
  then show ?case
    by cases (auto simp: Cons IP_PREFER_IPV4_def IP_PREFER_IPV6_def split: option.split)
qed simp

lemma first_addr_ge: "first_addr P as k = Some i \<Longrightarrow> k \<le> i"
  by (induction as arbitrary: k) (auto split: if_splits dest: Suc_leD)

lemma find_addrinfo_conv:
  "find_addrinfo P ais = (case first_addr P (map ai_addr ais) 0 of None \<Rightarrow> None | Some i \<Rightarrow> ai_addr (ais ! i))"
proof -
  have "find_addrinfo P ais =
      (case first_addr P (map ai_addr ais) k of None \<Rightarrow> None | Some i \<Rightarrow> ai_addr (ais ! (i - k)))" for k
  proof (induction ais arbitrary: k)
    case (Cons a ais)
    show ?case
      using Cons [of "Suc k"] first_addr_ge [of P "map ai_addr ais" "Suc k"]
      by (cases "first_addr P (map ai_addr ais) (Suc k)") (auto simp: nth_Cons' Suc_le_eq)
  qed simp
  from this [of 0] show ?thesis by (simp cong: option.case_cong)
qed

subsection \<open>One choice\<close>

text \<open>The addresses of either family, and the family as the number the socket address carries.\<close>

definition inet_addrs :: "addrinfo list \<Rightarrow> sockaddr option list" where
  "inet_addrs ais = filter (\<lambda>sa. is_inet sa \<or> is_inet6 sa) (map ai_addr ais)"

definition family :: "sockaddr option \<Rightarrow> int" where
  "family sa = (if is_inet sa then 2 else if is_inet6 sa then 10 else 0)"

lemma is_inet_excl: "is_inet sa \<Longrightarrow> \<not> is_inet6 sa"
  by (simp add: is_inet_def is_inet6_def split: option.splits sockaddr.splits)

lemma first_addr_family:
  "first_addr is_inet as k = first_family (map family as) 2 k"
  "first_addr is_inet6 as k = first_family (map family as) 10 k"
  by (induction as arbitrary: k) (auto simp: family_def dest: is_inet_excl)

lemma pick_select:
  "as \<noteq> [] \<Longrightarrow> resolver_pick_addr as pref = Some (ip_prefer_select (Some (map family as)) (length as) pref 2 10)"
  by (auto simp: resolver_pick_addr_def ip_prefer_select_def first_addr_family split: option.split)

lemma first_addr_nth: "first_addr P as k = Some i \<Longrightarrow> i - k < length as \<and> P (as ! (i - k))"
proof (induction as arbitrary: k)
  case (Cons a as)
  show ?case
  proof (cases "P a")
    case False
    then have "first_addr P as (k + 1) = Some i" using Cons.prems by simp
    from Cons.IH [OF this] first_addr_ge [OF this] show ?thesis
      by (cases "i - k") (auto simp: Suc_diff_le nth_Cons' diff_Suc split: nat.splits)
  qed (use Cons.prems in simp)
qed simp

lemma find_addrinfo_filter:
  assumes "\<And>sa. P sa \<Longrightarrow> is_inet sa \<or> is_inet6 sa"
  shows "find_addrinfo P ais =
    (case first_addr P (inet_addrs ais) k of None \<Rightarrow> None | Some i \<Rightarrow> inet_addrs ais ! (i - k))"
proof (induction ais arbitrary: k)
  case (Cons a ais)
  show ?case
  proof (cases "is_inet (ai_addr a) \<or> is_inet6 (ai_addr a)")
    case True
    then show ?thesis
      using Cons [of "Suc k"] first_addr_ge [of P "inet_addrs ais" "Suc k"]
      by (cases "first_addr P (inet_addrs ais) (Suc k)") (auto simp: inet_addrs_def nth_Cons' Suc_le_eq)
  next
    case False
    then have "\<not> P (ai_addr a)" using assms by blast
    have e: "inet_addrs (a # ais) = inet_addrs ais" using False by (simp add: inet_addrs_def)
    show ?thesis unfolding e using Cons [of k] \<open>\<not> P (ai_addr a)\<close> by simp
  qed
qed (simp add: inet_addrs_def)

lemma udp_addrinfo_pick:
  "udp_addrinfo pref ais =
     (case resolver_pick_addr (inet_addrs ais) pref of None \<Rightarrow> None | Some i \<Rightarrow> inet_addrs ais ! i)"
proof -
  let ?I = "\<lambda>sa. is_inet sa \<or> is_inet6 sa"
  have any: "find_addrinfo ?I ais = (if inet_addrs ais = [] then None else inet_addrs ais ! 0)"
    using find_addrinfo_filter [of ?I ais 0]
    by (cases "inet_addrs ais") (auto simp: inet_addrs_def dest: filter_eq_ConsD)
  have some: "\<And>P i. first_addr P (inet_addrs ais) 0 = Some i \<Longrightarrow> inet_addrs ais ! i \<noteq> None"
  proof -
    fix P i assume "first_addr P (inet_addrs ais) 0 = Some i"
    then have "inet_addrs ais ! i \<in> set (inet_addrs ais)" using first_addr_nth by fastforce
    then have "is_inet (inet_addrs ais ! i) \<or> is_inet6 (inet_addrs ais ! i)" by (simp add: inet_addrs_def)
    then show "inet_addrs ais ! i \<noteq> None" by (cases "inet_addrs ais ! i") simp_all
  qed
  have 4: "find_addrinfo is_inet ais = (case first_addr is_inet (inet_addrs ais) 0 of None \<Rightarrow> None | Some i \<Rightarrow> inet_addrs ais ! i)"
    using find_addrinfo_filter [of is_inet ais 0] by (simp cong: option.case_cong)
  have 6: "find_addrinfo is_inet6 ais = (case first_addr is_inet6 (inet_addrs ais) 0 of None \<Rightarrow> None | Some i \<Rightarrow> inet_addrs ais ! i)"
    using find_addrinfo_filter [of is_inet6 ais 0] by (simp cong: option.case_cong)
  show ?thesis
    using some [of is_inet] some [of is_inet6]
    by (cases "inet_addrs ais = []")
      (auto simp: udp_addrinfo_def resolver_pick_addr_def Let_def any 4 6 IP_PREFER_IPV4_def IP_PREFER_IPV6_def
        split: option.splits)
qed

lemma prefer_addrinfo_udp: "prefer_addrinfo pref None ais = udp_addrinfo pref ais"
  by (auto simp: prefer_addrinfo_find udp_addrinfo_def Let_def IP_PREFER_IPV4_def IP_PREFER_IPV6_def split: option.splits)

text \<open>C30: One choice of address. The family preference is written out four times: over the list of
  \<open>getaddrinfo\<close> for TCP (one loop that may overwrite its candidate) and for UDP (up to three loops),
  over the addresses of the nginx resolver, and as a routine of its own. All of them take the same
  address: the first of the preferred family, else the first.\<close>

theorem address_choice_agrees:
  assumes "addr_type t = ADDR_DOMAIN" "0 < addr_host_len t" "addr_host_len t < 256" "addrs \<noteq> []"
  shows "resolve_addr_prefer env t pref =
     (case en_getaddrinfo env (cstr (host_bytes t @ [0])) (addr_port t) of
        None \<Rightarrow> None | Some ais \<Rightarrow> udp_addrinfo pref ais) \<and>
   udp_addrinfo pref ais =
     (case resolver_pick_addr (inet_addrs ais) pref of None \<Rightarrow> None | Some i \<Rightarrow> inet_addrs ais ! i) \<and>
   resolver_pick_addr addrs pref =
     Some (ip_prefer_select (Some (map family addrs)) (length addrs) pref 2 10)"
proof (intro conjI)
  show "resolve_addr_prefer env t pref =
     (case en_getaddrinfo env (cstr (host_bytes t @ [0])) (addr_port t) of
        None \<Rightarrow> None | Some ais \<Rightarrow> udp_addrinfo pref ais)"
    using assms by (simp add: resolve_addr_prefer_def prefer_addrinfo_udp cong: option.case_cong)
qed (rule udp_addrinfo_pick, rule pick_select [OF assms(4)])

theorem address_choice_agrees_witness:
  "resolver_pick_addr [Some (SA6 [] 0), Some (SA4 1 0)] IP_PREFER_IPV4 =
     Some (ip_prefer_select (Some [10, 2]) 2 IP_PREFER_IPV4 2 10)"
  using address_choice_agrees [of "addr_of ADDR_DOMAIN [97] 80 5" "[Some (SA6 [] 0), Some (SA4 1 0)]"]
  by (simp add: family_def numeral_2_eq_2)

end
