(* ===== verification/Mt_Session.thy ===== *)
theory Mt_Session
  imports Mt_Handshake Mt_Resolve
begin

text \<open>
  What the handlers of a session share (\<open>ngx_stream_mtrojan_module.c\<close>): the fields of the session
  context, its outbound, the start of a resolver, what is pending for the other side, and the ways a
  handler can end. \<open>start_tcp\<close> and \<open>start_udp\<close> are the last steps of every front end.

  A handler ends in an \<open>outcome\<close>: it waits for an event, finalizes the session, or hands over to the
  part named there (a connection that is opened, a SOCKS5 handshake, UDP frames, a resolver).
\<close>

subsection \<open>The context of a session\<close>

datatype sess_state =
  ST_PREFIX | ST_INBOUND_CLASSIFY | ST_SOCKS5_IN_GREETING | ST_SOCKS5_IN_REQUEST | ST_SOCKS5_IN_RESPONSE
  | ST_SOCKS5_IN_UDP_CONTROL | ST_HTTP_IN_REQUEST | ST_HTTP_IN_RESPONSE | ST_REQUEST | ST_DEFAULT_FALLBACK
  | ST_RESOLVING | ST_CONNECTING | ST_SOCKS5_TCP | ST_SOCKS5_UDP | ST_PROXY | ST_UDP

datatype peer_kind = PEER_NONE | PEER_FALLBACK | PEER_TCP

datatype in_socks5_step = IN_GREETING | IN_METHOD_WRITE | IN_REQUEST | IN_RESPONSE_WRITE

text \<open>\<open>ss_prefix\<close> and \<open>ss_request\<close> are the bytes read into the two arrays of the context.\<close>

record session =
  ss_state :: sess_state
  ss_peer_kind :: peer_kind
  ss_client :: conn
  ss_prefix :: bytes
  ss_request :: bytes
  ss_command :: byte
  ss_target :: addr_t
  ss_pending_to_upstream :: "nbuf option"
  ss_pending_to_client :: "nbuf option"
  ss_refresh :: "refresh option"
  ss_socks5_buffer :: "nbuf option"
  ss_http_buffer :: "nbuf option"
  ss_in_step :: in_socks5_step
  ss_in_status :: byte
  ss_http_status :: nat
  ss_in_socks5 :: bool
  ss_in_http :: bool
  ss_in_udp :: bool

definition zero_session :: "conn \<Rightarrow> session" where
  "zero_session c =
     \<lparr>ss_state = ST_PREFIX, ss_peer_kind = PEER_NONE, ss_client = c, ss_prefix = [], ss_request = [],
      ss_command = 0, ss_target = addr_zero, ss_pending_to_upstream = None, ss_pending_to_client = None,
      ss_refresh = None, ss_socks5_buffer = None, ss_http_buffer = None, ss_in_step = IN_GREETING,
      ss_in_status = 0, ss_http_status = 0, ss_in_socks5 = False, ss_in_http = False, ss_in_udp = False\<rparr>"

text \<open>What the handlers look at outside of the session: the environment of the route, the server the
  session belongs to (for a local proxy, the one it is bound to, if any), and the number of the session
  in the state of the route cache. \<open>fr_local\<close> is the address the client connected to; \<open>fr_bound v6\<close> what
  \<open>getsockname\<close> tells of the UDP socket of the local proxy, \<open>None\<close> when it cannot be made.\<close>

record front =
  fr_env :: route_env
  fr_srv :: route_srv
  fr_keys :: "bytes list"
  fr_fallback :: "sockaddr option"
  fr_effective :: bool
  fr_id :: nat
  fr_local :: "sockaddr option"
  fr_bound :: "bool \<Rightarrow> sockaddr option"

datatype outcome =
  OUT_WAIT | OUT_FINALIZE status | OUT_CONNECT sockaddr | OUT_SOCKS5 bool | OUT_UDP | OUT_UDP_CONTROL
  | OUT_ROUTE_LATER | OUT_RESOLVE_LATER | OUT_USE_AFTER_FREE

definition session_outbound :: "front \<Rightarrow> world \<Rightarrow> outbound option" where
  "session_outbound fr w =
     (case (t_outbound (w_tcp w (fr_id fr)), rs_outbounds (fr_srv fr)) of
        (Some i, Some obs) \<Rightarrow> Some (obs ! i)
      | _ \<Rightarrow> None)"

subsection \<open>Pending bytes\<close>

text \<open>A buffer of one byte when there is nothing.\<close>

definition set_pending :: "bytes \<Rightarrow> session \<Rightarrow> session" where
  "set_pending bs s =
     s\<lparr>ss_pending_to_upstream := Some (let b = temp_buf (if bs \<noteq> [] then length bs else 1) in
         if bs \<noteq> [] then b\<lparr>nb_data := poke (nb_data b) (nb_last b) bs, nb_last := nb_last b + length bs\<rparr> else b)\<rparr>"

definition ensure_pending :: "session \<Rightarrow> session" where
  "ensure_pending s = (if ss_pending_to_upstream s \<noteq> None then s else set_pending [] s)"

subsection \<open>Starting a resolver\<close>

definition start_resolver :: "front \<Rightarrow> addr_t \<Rightarrow> resolve_call" where
  "start_resolver fr a =
     (if addr_type a \<noteq> ADDR_DOMAIN \<or> addr_host_len a = 0 \<or> addr_host_len a > 255 then RESOLVE_FAILS
      else if route_resolver (fr_srv fr) = None then RESOLVE_FAILS
      else en_resolve_name (fr_env fr) (host_bytes a))"

subsection \<open>Starting TCP and UDP\<close>

definition connect :: "sockaddr \<Rightarrow> session \<Rightarrow> outcome \<times> session" where
  "connect sa s = (OUT_CONNECT sa, s\<lparr>ss_state := ST_CONNECTING\<rparr>)"

text \<open>\<open>resolve_handler\<close> for a TCP target.\<close>

definition resolve_tcp_handler :: "nat \<Rightarrow> resolved \<Rightarrow> session \<Rightarrow> outcome \<times> session" where
  "resolve_tcp_handler pref rv s =
     (if rv_state rv \<noteq> 0 then (OUT_FINALIZE S_BAD_GATEWAY, s)
      else
        (case resolved_addr (rv_addrs rv) pref (addr_port (ss_target s)) of
           None \<Rightarrow> (OUT_FINALIZE S_BAD_GATEWAY, s)
         | Some sa \<Rightarrow> connect sa s))"

definition start_tcp :: "front \<Rightarrow> session \<Rightarrow> world \<Rightarrow> outcome \<times> session" where
  "start_tcp fr s w =
     (let ob = session_outbound fr w in
      if outbound_type_of ob = OUTBOUND_SOCKS5 then
        (OUT_SOCKS5 False, (ensure_pending s)\<lparr>ss_peer_kind := PEER_TCP, ss_state := ST_SOCKS5_TCP\<rparr>)
      else if use_nginx_resolver (addr_type (ss_target s)) (route_resolver (fr_srv fr) \<noteq> None) then
        let s = (ensure_pending s)\<lparr>ss_peer_kind := PEER_TCP\<rparr> in
        (case start_resolver fr (ss_target s) of
           RESOLVE_FAILS \<Rightarrow> (OUT_FINALIZE S_BAD_GATEWAY, s)
         | RESOLVE_LATER \<Rightarrow> (OUT_RESOLVE_LATER, s\<lparr>ss_state := ST_RESOLVING\<rparr>)
         | RESOLVE_NOW rv \<Rightarrow> resolve_tcp_handler (current_ip_prefer ob) rv (s\<lparr>ss_state := ST_RESOLVING\<rparr>))
      else
        (case resolve_addr_prefer (fr_env fr) (ss_target s) (current_ip_prefer ob) of
           None \<Rightarrow> (OUT_FINALIZE S_BAD_GATEWAY, s)
         | Some sa \<Rightarrow> connect sa ((ensure_pending s)\<lparr>ss_peer_kind := PEER_TCP\<rparr>)))"

definition start_udp :: "front \<Rightarrow> session \<Rightarrow> world \<Rightarrow> outcome \<times> session" where
  "start_udp fr s w =
     (if outbound_type_of (session_outbound fr w) = OUTBOUND_SOCKS5
      then (OUT_SOCKS5 True, s\<lparr>ss_state := ST_SOCKS5_UDP\<rparr>)
      else (OUT_UDP, s\<lparr>ss_state := ST_UDP\<rparr>))"

subsection \<open>Selecting the outbound\<close>

text \<open>\<open>select_outbound\<close> and, when the addresses of the target are needed, \<open>start_route_resolver\<close>; \<open>k\<close> is
  what follows (\<open>route_resume\<close> when the addresses come later).\<close>

definition route_arrived ::
    "front \<Rightarrow> resolved \<Rightarrow> (session \<Rightarrow> world \<Rightarrow> outcome \<times> session) \<Rightarrow> session \<Rightarrow> world \<Rightarrow> outcome \<times> session \<times> world" where
  "route_arrived fr rv k s w =
     (case route_resolved (fr_env fr) (fr_srv fr) (fr_id fr) (ss_target s) rv w of
        None \<Rightarrow> (OUT_FINALIZE S_BAD_GATEWAY, s, w)
      | Some w \<Rightarrow> let (out, s) = k s w in (out, s, w))"

definition with_route ::
    "front \<Rightarrow> (session \<Rightarrow> world \<Rightarrow> outcome \<times> session) \<Rightarrow> session \<Rightarrow> world \<Rightarrow> outcome \<times> session \<times> world" where
  "with_route fr k s w =
     (let (rc, target, rf, w) = select_outbound (fr_env fr) (fr_srv fr) (fr_id fr) (ss_target s) w;
          s = s\<lparr>ss_target := target, ss_refresh := rf\<rparr> in
      if rc = ROUTE_OK then let (out, s) = k s w in (out, s, w)
      else if route_resolver_kind (fr_srv fr) \<noteq> RESOLVER_NGINX then (OUT_FINALIZE S_BAD_GATEWAY, s, w)
      else
        (case start_resolver fr target of
           RESOLVE_FAILS \<Rightarrow> (OUT_FINALIZE S_BAD_GATEWAY, s, w)
         | RESOLVE_LATER \<Rightarrow> (OUT_ROUTE_LATER, s\<lparr>ss_state := ST_RESOLVING\<rparr>, w)
         | RESOLVE_NOW rv \<Rightarrow> route_arrived fr rv k (s\<lparr>ss_state := ST_RESOLVING\<rparr>) w))"

end
