(* ===== verification/Mt_Front.thy ===== *)
theory Mt_Front
  imports Mt_Session Mt_Sha224
begin

text \<open>
  The Trojan front end (\<open>ngx_stream_mtrojan_module.c\<close>): the password line, the request, and the fallback
  for everything else: \<open>process_prefix\<close>, \<open>process_request\<close>, \<open>start_fallback\<close> and what they call.
\<close>

subsection \<open>Constants\<close>

definition CR :: byte where "CR = 0x0d"
definition LF :: byte where "LF = 0x0a"
definition PREFIX_LEN :: nat where "PREFIX_LEN = KEY_LEN + 2"
definition REQUEST_SIZE :: nat where "REQUEST_SIZE = 1 + MAX_ADDR_LEN + 2"
definition CMD_CONNECT :: byte where "CMD_CONNECT = 0x01"

subsection \<open>The password line\<close>

definition key_valid :: "bytes list \<Rightarrow> bytes \<Rightarrow> bool" where
  "key_valid keys key = list_ex (\<lambda>k. key_equal (Some key) (Some k)) keys"

datatype prefix_read = PREFIX_FULL | PREFIX_EARLY_LF | PREFIX_AGAIN | PREFIX_CLOSED

text \<open>The loop of \<open>process_prefix\<close>: a line feed before its place ends it.\<close>

function read_prefix :: "session \<Rightarrow> prefix_read \<times> session" where
  "read_prefix s =
     (let len = length (ss_prefix s) in
      if len = PREFIX_LEN then (PREFIX_FULL, s)
      else
        (case conn_recv (PREFIX_LEN - len) (ss_client s) of
           (REC_AGAIN, c) \<Rightarrow> (PREFIX_AGAIN, s\<lparr>ss_client := c\<rparr>)
         | (REC_CLOSED, c) \<Rightarrow> (PREFIX_CLOSED, s\<lparr>ss_client := c\<rparr>)
         | (GOT bs, c) \<Rightarrow>
             let s = s\<lparr>ss_client := c, ss_prefix := ss_prefix s @ bs\<rparr> in
             if list_ex (\<lambda>i. ss_prefix s ! i = LF \<and> i < KEY_LEN + 1) [len ..< len + length bs]
             then (PREFIX_EARLY_LF, s)
             else read_prefix s))"
  by pat_completeness auto
termination
  by (relation "measure (\<lambda>s. length (cn_recvs (ss_client s)))") (auto dest: conn_recv_stream [OF sym])

declare read_prefix.simps [simp del]

subsection \<open>The request\<close>

definition request_needed :: "bytes \<Rightarrow> need" where
  "request_needed buf =
     (if length buf < 2 then Need 2
      else if buf ! 0 \<noteq> CMD_CONNECT \<and> buf ! 0 \<noteq> CMD_UDP_ASSOCIATE then Malformed
      else
        let finish = (\<lambda>addr_len. let needed = 1 + addr_len + 2 in
              if length buf < needed then Need needed else Complete needed) in
        if buf ! 1 = ADDR_IPV4 then finish (1 + 4 + 2)
        else if buf ! 1 = ADDR_DOMAIN then
          if length buf < 3 then Need 3 else finish (1 + 1 + unat (buf ! 2) + 2)
        else if buf ! 1 = ADDR_IPV6 then finish (1 + 16 + 2)
        else Malformed)"

lemma request_needed_gt: "request_needed buf = Need n \<Longrightarrow> length buf < n"
  by (auto simp: request_needed_def Let_def split: if_splits)

datatype request_read = REQUEST_READ nat | REQUEST_BAD | REQUEST_AGAIN | REQUEST_CLOSED

function read_request :: "session \<Rightarrow> request_read \<times> session" where
  "read_request s =
     (case request_needed (ss_request s) of
        Malformed \<Rightarrow> (REQUEST_BAD, s)
      | Complete needed \<Rightarrow> (REQUEST_READ needed, s)
      | Need needed \<Rightarrow>
          if needed > REQUEST_SIZE then (REQUEST_BAD, s)
          else
            (case conn_recv (needed - length (ss_request s)) (ss_client s) of
               (REC_AGAIN, c) \<Rightarrow> (REQUEST_AGAIN, s\<lparr>ss_client := c\<rparr>)
             | (REC_CLOSED, c) \<Rightarrow> (REQUEST_CLOSED, s\<lparr>ss_client := c\<rparr>)
             | (GOT bs, c) \<Rightarrow> read_request (s\<lparr>ss_client := c, ss_request := ss_request s @ bs\<rparr>)))"
  by pat_completeness auto
termination
  by (relation "measure (\<lambda>s. length (cn_recvs (ss_client s)))") (auto dest: conn_recv_stream [OF sym])

declare read_request.simps [simp del]

definition request_after_route :: "front \<Rightarrow> session \<Rightarrow> world \<Rightarrow> outcome \<times> session" where
  "request_after_route fr s w =
     (if request_blocked \<lparr>rq_outbound = session_outbound fr w, rq_command = ss_command s, rq_target = ss_target s\<rparr>
      then (OUT_FINALIZE S_FORBIDDEN, s)
      else if ss_command s = CMD_CONNECT then start_tcp fr s w
      else start_udp fr s w)"

text \<open>What the complete request says: its command and target.\<close>

definition parse_request :: "nat \<Rightarrow> bytes \<Rightarrow> (byte \<times> addr_t) option" where
  "parse_request needed req =
     (if req ! (needed - 2) \<noteq> CR \<or> req ! (needed - 1) \<noteq> LF then None
      else
        (case trojan_parse_addr (Some (take (needed - 3) (drop 1 req))) of
           None \<Rightarrow> None
         | Some target \<Rightarrow> Some (req ! 0, target)))"

definition process_request :: "front \<Rightarrow> session \<Rightarrow> world \<Rightarrow> outcome \<times> session \<times> world" where
  "process_request fr s w =
     (case read_request s of
        (REQUEST_BAD, s) \<Rightarrow> (OUT_FINALIZE S_BAD_REQUEST, s, w)
      | (REQUEST_AGAIN, s) \<Rightarrow> (OUT_WAIT, s, w)
      | (REQUEST_CLOSED, s) \<Rightarrow> (OUT_FINALIZE S_OK, s, w)
      | (REQUEST_READ needed, s) \<Rightarrow>
          (case parse_request needed (ss_request s) of
             None \<Rightarrow> (OUT_FINALIZE S_BAD_REQUEST, s, w)
           | Some (command, target) \<Rightarrow>
               with_route fr (request_after_route fr) (s\<lparr>ss_target := target, ss_command := command\<rparr>) w))"

subsection \<open>Fallback\<close>

definition default_fallback_write :: "session \<Rightarrow> outcome \<times> session" where
  "default_fallback_write s =
     (case ss_pending_to_client s of
        None \<Rightarrow> (OUT_FINALIZE S_OK, s)
      | Some b \<Rightarrow>
          let (r, b, c) = flush b (ss_client s);
              s = s\<lparr>ss_pending_to_client := Some b, ss_client := c\<rparr> in
          (case r of
             IO_OK \<Rightarrow> (OUT_FINALIZE S_OK, s)
           | IO_AGAIN \<Rightarrow> (OUT_WAIT, s)
           | IO_ERROR \<Rightarrow> (OUT_FINALIZE S_BAD_GATEWAY, s)))"

definition start_default_fallback :: "session \<Rightarrow> outcome \<times> session" where
  "start_default_fallback s =
     (let b = temp_buf (length default_fallback_response);
          b = b\<lparr>nb_data := poke (nb_data b) (nb_last b) default_fallback_response,
                nb_last := nb_last b + length default_fallback_response\<rparr> in
      default_fallback_write (s\<lparr>ss_pending_to_client := Some b, ss_state := ST_DEFAULT_FALLBACK\<rparr>))"

definition start_fallback :: "front \<Rightarrow> bytes \<Rightarrow> session \<Rightarrow> outcome \<times> session" where
  "start_fallback fr bs s =
     (case fr_fallback fr of
        None \<Rightarrow> start_default_fallback s
      | Some sa \<Rightarrow> connect sa ((set_pending bs s)\<lparr>ss_peer_kind := PEER_FALLBACK\<rparr>))"

definition process_prefix :: "front \<Rightarrow> session \<Rightarrow> world \<Rightarrow> outcome \<times> session \<times> world" where
  "process_prefix fr s w =
     (case read_prefix s of
        (PREFIX_AGAIN, s) \<Rightarrow> (OUT_WAIT, s, w)
      | (PREFIX_CLOSED, s) \<Rightarrow> (OUT_FINALIZE S_OK, s, w)
      | (PREFIX_EARLY_LF, s) \<Rightarrow> let (out, s) = start_fallback fr (ss_prefix s) s in (out, s, w)
      | (PREFIX_FULL, s) \<Rightarrow>
          if ss_prefix s ! KEY_LEN \<noteq> CR \<or> ss_prefix s ! (KEY_LEN + 1) \<noteq> LF \<or> \<not> key_valid (fr_keys fr) (ss_prefix s)
          then let (out, s) = start_fallback fr (ss_prefix s) s in (out, s, w)
          else process_request fr (s\<lparr>ss_state := ST_REQUEST\<rparr>) w)"

text \<open>\<open>read_client\<close>, in the states of this front end.\<close>

definition front_event :: "front \<Rightarrow> session \<Rightarrow> world \<Rightarrow> outcome \<times> session \<times> world" where
  "front_event fr s w =
     (if ss_state s = ST_PREFIX then process_prefix fr s w
      else if ss_state s = ST_REQUEST then process_request fr s w
      else if ss_state s = ST_DEFAULT_FALLBACK then
        let (out, s) = default_fallback_write s in (out, s, w)
      else (OUT_WAIT, s, w))"

subsection \<open>The connection is there\<close>

text \<open>\<open>init_proxy\<close>: the buffers of the relay, which \<open>process_proxy\<close> of \<open>Mt_Relay\<close> then runs, and the session
  on the list of its cache entry.\<close>

definition init_proxy :: "front \<Rightarrow> nat \<Rightarrow> conn \<Rightarrow> session \<Rightarrow> world \<Rightarrow> proxy \<times> world" where
  "init_proxy fr buffer_size upstream s w =
     (\<lparr>px_client = ss_client s, px_upstream = upstream, px_pending = ss_pending_to_upstream s,
       px_client_buffer = temp_buf buffer_size, px_upstream_buffer = temp_buf buffer_size, px_touched = False\<rparr>,
      route_track_tcp (fr_id fr) (t_route_entry (w_tcp w (fr_id fr))) w)"

end
