(* ===== verification/Mt_Inbound.thy ===== *)
theory Mt_Inbound
  imports Mt_Front
begin

text \<open>
  The local proxies (\<open>ngx_stream_mtrojan_module.c\<close>): classification of a new connection and the server
  side of SOCKS5 and HTTP CONNECT: \<open>process_inbound_classify\<close>, \<open>process_socks5_in\<close>, \<open>process_http_in\<close> and
  what they call.

  When \<open>socks5_in_after_route\<close> or \<open>http_in_after_route\<close> cannot prepare the answer it finalizes the session,
  which frees its context; its callers then look at \<open>ctx->state\<close>. That outcome is \<open>OUT_USE_AFTER_FREE\<close>.
\<close>

subsection \<open>Buffers\<close>

definition in_buffer :: "nbuf option \<Rightarrow> nbuf" where
  "in_buffer b = (case b of Some b \<Rightarrow> b | None \<Rightarrow> temp_buf SOCKS5_BUFFER_SIZE)"

definition socks5_in_read :: "nat \<Rightarrow> session \<Rightarrow> io \<times> session" where
  "socks5_in_read needed s =
     (let (r, b, c) = fill needed (in_buffer (ss_socks5_buffer s)) (ss_client s) in
      (r, s\<lparr>ss_socks5_buffer := Some b, ss_client := c\<rparr>))"

definition socks5_in_flush :: "session \<Rightarrow> io \<times> session" where
  "socks5_in_flush s =
     (let (r, b, c) = flush (in_buffer (ss_socks5_buffer s)) (ss_client s) in
      (r, s\<lparr>ss_socks5_buffer := Some b, ss_client := c\<rparr>))"

definition http_in_flush :: "session \<Rightarrow> io \<times> session" where
  "http_in_flush s =
     (let (r, b, c) = flush (in_buffer (ss_http_buffer s)) (ss_client s) in
      (r, s\<lparr>ss_http_buffer := Some b, ss_client := c\<rparr>))"

text \<open>One \<open>recv\<close> into what is left of the buffer.\<close>

definition http_in_read :: "session \<Rightarrow> io \<times> session" where
  "http_in_read s =
     (let b = in_buffer (ss_http_buffer s) in
      if nb_last b = length (nb_data b) then (IO_ERROR, s)
      else
        (case conn_recv (length (nb_data b) - nb_last b) (ss_client s) of
           (REC_AGAIN, c) \<Rightarrow> (IO_AGAIN, s\<lparr>ss_client := c\<rparr>)
         | (REC_CLOSED, c) \<Rightarrow> (IO_ERROR, s\<lparr>ss_client := c\<rparr>)
         | (GOT bs, c) \<Rightarrow>
             (IO_OK, s\<lparr>ss_client := c, ss_http_buffer := Some (b\<lparr>nb_last := nb_last b + length bs,
                nb_data := poke (nb_data b) (nb_last b) bs\<rparr>)\<rparr>)))"

subsection \<open>The answers of the SOCKS5 proxy\<close>

text \<open>The method answer is built for \<open>NO_AUTH\<close>; the caller overwrites its second byte.\<close>

definition socks5_in_prepare_method :: "session \<Rightarrow> session option" where
  "socks5_in_prepare_method s =
     (let b = in_buffer (ss_socks5_buffer s) in
      case socks5_build_method_response METHOD_NO_AUTH (Some (take 2 (nb_data b))) of
        (True, Some d) \<Rightarrow>
          Some (s\<lparr>ss_socks5_buffer := Some (b\<lparr>nb_pos := 0, nb_last := 2, nb_data := poke (nb_data b) 0 d\<rparr>)\<rparr>)
      | _ \<Rightarrow> None)"

definition set_byte_1 :: "byte \<Rightarrow> session \<Rightarrow> session" where
  "set_byte_1 v s =
     (let b = in_buffer (ss_socks5_buffer s) in
      s\<lparr>ss_socks5_buffer := Some (b\<lparr>nb_data := (nb_data b)[1 := v]\<rparr>)\<rparr>)"

text \<open>The address of the UDP socket of the proxy, of the family of the client's connection.\<close>

definition socks5_udp_bind_addr :: "front \<Rightarrow> addr_t option" where
  "socks5_udp_bind_addr fr =
     (case fr_local fr of
        Some (SA4 a p) \<Rightarrow> (case fr_bound fr False of Some (SA4 b q) \<Rightarrow> sockaddr_to_addr (SA4 b q) | _ \<Rightarrow> None)
      | Some (SA6 a p) \<Rightarrow> (case fr_bound fr True of Some (SA6 b q) \<Rightarrow> sockaddr_to_addr (SA6 b q) | _ \<Rightarrow> None)
      | _ \<Rightarrow> None)"

definition SOCKS5_STATUS_OK :: byte where "SOCKS5_STATUS_OK = 0x00"
definition SOCKS5_STATUS_GENERAL_FAILURE :: byte where "SOCKS5_STATUS_GENERAL_FAILURE = 0x01"

definition socks5_in_prepare_response :: "front \<Rightarrow> byte \<Rightarrow> session \<Rightarrow> session option" where
  "socks5_in_prepare_response fr status s =
     (let s = s\<lparr>ss_in_status := status\<rparr>;
          b = in_buffer (ss_socks5_buffer s) in
      case (if status = SOCKS5_STATUS_OK \<and> ss_command s = CMD_UDP_ASSOCIATE
            then socks5_udp_bind_addr fr else Some zero_bind_addr) of
        None \<Rightarrow> None
      | Some bind_addr \<Rightarrow>
          (case built (socks5_build_response status (Some bind_addr) (Some (nb_data b))) of
             None \<Rightarrow> None
           | Some b \<Rightarrow> Some (s\<lparr>ss_socks5_buffer := Some b\<rparr>)))"

definition respond :: "session \<Rightarrow> session" where
  "respond s = s\<lparr>ss_state := ST_SOCKS5_IN_RESPONSE, ss_in_step := IN_RESPONSE_WRITE\<rparr>"

text \<open>\<open>None\<close>: the session has been finalized.\<close>

definition socks5_in_after_route :: "front \<Rightarrow> session \<Rightarrow> world \<Rightarrow> session option" where
  "socks5_in_after_route fr s w =
     map_option respond
       (if ss_command s = CMD_UDP_ASSOCIATE \<and> \<not> ss_in_udp s then socks5_in_prepare_response fr 0x07 s
        else if request_blocked \<lparr>rq_outbound = session_outbound fr w, rq_command = ss_command s, rq_target = ss_target s\<rparr>
        then socks5_in_prepare_response fr 0x02 s
        else socks5_in_prepare_response fr SOCKS5_STATUS_OK s)"

subsection \<open>The SOCKS5 proxy\<close>

text \<open>After the answer to the request has been written.\<close>

definition socks5_in_done :: "front \<Rightarrow> session \<Rightarrow> world \<Rightarrow> outcome \<times> session" where
  "socks5_in_done fr s w =
     (if ss_in_status s \<noteq> SOCKS5_STATUS_OK then (OUT_FINALIZE S_OK, s)
      else if ss_command s = CMD_CONNECT then start_tcp fr s w
      else if outbound_type_of (session_outbound fr w) = OUTBOUND_SOCKS5
      then (OUT_SOCKS5 True, s\<lparr>ss_state := ST_SOCKS5_UDP\<rparr>)
      else (OUT_UDP_CONTROL, s\<lparr>ss_state := ST_SOCKS5_IN_UDP_CONTROL\<rparr>))"

datatype in_turn = IN_RETURN outcome session world | IN_CONTINUE session

definition in_return :: "(outcome \<times> session) \<Rightarrow> world \<Rightarrow> in_turn" where
  "in_return r w = (case r of (out, s) \<Rightarrow> IN_RETURN out s w)"

definition socks5_in_response :: "front \<Rightarrow> session \<Rightarrow> world \<Rightarrow> in_turn" where
  "socks5_in_response fr s w =
     (case socks5_in_flush s of
        (IO_AGAIN, s) \<Rightarrow> IN_RETURN OUT_WAIT s w
      | (IO_ERROR, s) \<Rightarrow> IN_RETURN (OUT_FINALIZE S_BAD_GATEWAY) s w
      | (IO_OK, s) \<Rightarrow>
          if ss_in_step s = IN_RESPONSE_WRITE then in_return (socks5_in_done fr s w) w
          else if nb_data (in_buffer (ss_socks5_buffer s)) ! 1 = METHOD_NONE
          then IN_RETURN (OUT_FINALIZE S_FORBIDDEN) s w
          else IN_CONTINUE (s\<lparr>ss_socks5_buffer := map_option empty_buf (ss_socks5_buffer s),
                 ss_state := ST_SOCKS5_IN_REQUEST\<rparr>))"

text \<open>The two reading states: \<open>k\<close> follows when the message is complete.\<close>

definition socks5_in_message :: "(cptr \<Rightarrow> need) \<Rightarrow> (session \<Rightarrow> world \<Rightarrow> in_turn) \<Rightarrow> session \<Rightarrow> world \<Rightarrow> in_turn" where
  "socks5_in_message len k s w =
     (case len (Some (unsent (in_buffer (ss_socks5_buffer s)))) of
        Need needed \<Rightarrow>
          (case socks5_in_read needed s of
             (IO_AGAIN, s) \<Rightarrow> IN_RETURN OUT_WAIT s w
           | (IO_ERROR, s) \<Rightarrow> IN_RETURN (OUT_FINALIZE S_BAD_REQUEST) s w
           | (IO_OK, s) \<Rightarrow> IN_CONTINUE s)
      | Malformed \<Rightarrow> IN_RETURN (OUT_FINALIZE S_BAD_REQUEST) s w
      | Complete n \<Rightarrow> k s w)"

definition socks5_in_greeted :: "session \<Rightarrow> world \<Rightarrow> in_turn" where
  "socks5_in_greeted s w =
     (let method = socks5_select_method (Some (unsent (in_buffer (ss_socks5_buffer s)))) in
      case socks5_in_prepare_method s of
        None \<Rightarrow> IN_RETURN (OUT_FINALIZE S_INTERNAL_SERVER_ERROR) s w
      | Some s \<Rightarrow>
          if method \<noteq> Some METHOD_NO_AUTH
          then IN_CONTINUE ((set_byte_1 METHOD_NONE s)\<lparr>ss_state := ST_SOCKS5_IN_RESPONSE\<rparr>)
          else IN_CONTINUE (s\<lparr>ss_state := ST_SOCKS5_IN_RESPONSE, ss_in_step := IN_METHOD_WRITE\<rparr>))"

definition socks5_in_greeting :: "session \<Rightarrow> world \<Rightarrow> in_turn" where
  "socks5_in_greeting = socks5_in_message socks5_greeting_len socks5_in_greeted"

text \<open>After the route: the loop goes on with the answer, whose turn always returns.\<close>

definition socks5_in_routed :: "front \<Rightarrow> session \<Rightarrow> world \<Rightarrow> outcome \<times> session" where
  "socks5_in_routed fr s w =
     (case socks5_in_after_route fr s w of
        None \<Rightarrow> (OUT_USE_AFTER_FREE, s)
      | Some s \<Rightarrow>
          (case socks5_in_flush s of
             (IO_AGAIN, s) \<Rightarrow> (OUT_WAIT, s)
           | (IO_ERROR, s) \<Rightarrow> (OUT_FINALIZE S_BAD_GATEWAY, s)
           | (IO_OK, s) \<Rightarrow> socks5_in_done fr s w))"

definition socks5_in_requested :: "front \<Rightarrow> session \<Rightarrow> world \<Rightarrow> in_turn" where
  "socks5_in_requested fr s w =
     (case socks5_parse_request (Some (unsent (in_buffer (ss_socks5_buffer s)))) of
        None \<Rightarrow> IN_RETURN (OUT_FINALIZE S_BAD_REQUEST) s w
      | Some (command, target) \<Rightarrow>
          let s = s\<lparr>ss_target := target\<rparr> in
          if \<not> fr_effective fr then
            (case socks5_in_prepare_response fr SOCKS5_STATUS_GENERAL_FAILURE s of
               None \<Rightarrow> IN_RETURN (OUT_FINALIZE S_INTERNAL_SERVER_ERROR) s w
             | Some s \<Rightarrow> IN_CONTINUE (respond s))
          else
            let s = s\<lparr>ss_command := if command = SOCKS5_CMD_CONNECT then CMD_CONNECT else CMD_UDP_ASSOCIATE\<rparr>;
                (out, s, w) = with_route fr (socks5_in_routed fr) s w in
            IN_RETURN out s w)"

definition socks5_in_request :: "front \<Rightarrow> session \<Rightarrow> world \<Rightarrow> in_turn" where
  "socks5_in_request fr = socks5_in_message socks5_request_len (socks5_in_requested fr)"

definition process_socks5_in_turn :: "front \<Rightarrow> session \<Rightarrow> world \<Rightarrow> in_turn" where
  "process_socks5_in_turn fr s w =
     (if ss_state s = ST_SOCKS5_IN_GREETING then socks5_in_greeting s w
      else if ss_state s = ST_SOCKS5_IN_RESPONSE then socks5_in_response fr s w
      else if ss_state s = ST_SOCKS5_IN_REQUEST then socks5_in_request fr s w
      else IN_RETURN OUT_WAIT s w)"

text \<open>The loop; \<open>None\<close> when the fuel is used up.\<close>

fun process_socks5_in :: "nat \<Rightarrow> front \<Rightarrow> session \<Rightarrow> world \<Rightarrow> (outcome \<times> session \<times> world) option" where
  "process_socks5_in 0 fr s w = None"
| "process_socks5_in (Suc fuel) fr s w =
     (case process_socks5_in_turn fr s w of
        IN_RETURN out s w \<Rightarrow> Some (out, s, w)
      | IN_CONTINUE s \<Rightarrow> process_socks5_in fuel fr s w)"

subsection \<open>The HTTP proxy\<close>

definition http_in_prepare_response :: "nat \<Rightarrow> session \<Rightarrow> session option" where
  "http_in_prepare_response status s =
     (let s = s\<lparr>ss_http_status := status\<rparr>;
          b = in_buffer (ss_http_buffer s) in
      case built (http_build_response status (Some (nb_data b))) of
        None \<Rightarrow> None
      | Some b \<Rightarrow> Some (s\<lparr>ss_http_buffer := Some b, ss_state := ST_HTTP_IN_RESPONSE\<rparr>))"

definition http_in_after_route :: "front \<Rightarrow> session \<Rightarrow> world \<Rightarrow> session option" where
  "http_in_after_route fr s w =
     (if request_blocked \<lparr>rq_outbound = session_outbound fr w, rq_command = ss_command s, rq_target = ss_target s\<rparr>
      then http_in_prepare_response 403 s
      else http_in_prepare_response 200 s)"

definition http_in_response :: "front \<Rightarrow> session \<Rightarrow> world \<Rightarrow> outcome \<times> session" where
  "http_in_response fr s w =
     (case http_in_flush s of
        (IO_AGAIN, s) \<Rightarrow> (OUT_WAIT, s)
      | (IO_ERROR, s) \<Rightarrow> (OUT_FINALIZE S_BAD_GATEWAY, s)
      | (IO_OK, s) \<Rightarrow>
          if ss_http_status s \<noteq> 200 then (OUT_FINALIZE S_OK, s) else start_tcp fr s w)"

definition http_in_routed :: "front \<Rightarrow> session \<Rightarrow> world \<Rightarrow> outcome \<times> session" where
  "http_in_routed fr s w =
     (case http_in_after_route fr s w of
        None \<Rightarrow> (OUT_USE_AFTER_FREE, s)
      | Some s \<Rightarrow> http_in_response fr s w)"

text \<open>An answer that is given before the route is looked up.\<close>

definition http_in_answer :: "front \<Rightarrow> nat \<Rightarrow> session \<Rightarrow> world \<Rightarrow> outcome \<times> session \<times> world" where
  "http_in_answer fr status s w =
     (case http_in_prepare_response status s of
        None \<Rightarrow> (OUT_FINALIZE S_INTERNAL_SERVER_ERROR, s, w)
      | Some s \<Rightarrow> let (out, s) = http_in_response fr s w in (out, s, w))"

text \<open>The request is complete; what has been read behind it goes upstream first.\<close>

definition http_in_accept :: "front \<Rightarrow> nat \<Rightarrow> addr_t \<Rightarrow> session \<Rightarrow> world \<Rightarrow> outcome \<times> session \<times> world" where
  "http_in_accept fr needed target s w =
     (let s = s\<lparr>ss_target := target\<rparr>;
          b = in_buffer (ss_http_buffer s) in
      if \<not> fr_effective fr then http_in_answer fr 502 s w
      else
        let s = s\<lparr>ss_command := CMD_CONNECT\<rparr>;
            s = (if nb_last b > nb_pos b + needed then set_pending (drop needed (unsent b)) s else s) in
        with_route fr (http_in_routed fr) s w)"

function http_in_request :: "front \<Rightarrow> session \<Rightarrow> world \<Rightarrow> outcome \<times> session \<times> world" where
  "http_in_request fr s w =
     (case http_parse_connect (en_pton4 (fr_env fr)) (en_pton6 (fr_env fr))
             (Some (unsent (in_buffer (ss_http_buffer s)))) (ss_target s) of
        HTTP_NEED_MORE needed \<Rightarrow>
          (case http_in_read s of
             (IO_AGAIN, s) \<Rightarrow> (OUT_WAIT, s, w)
           | (IO_ERROR, s) \<Rightarrow> (OUT_FINALIZE S_BAD_REQUEST, s, w)
           | (IO_OK, s) \<Rightarrow> http_in_request fr s w)
      | HTTP_METHOD_NOT_ALLOWED \<Rightarrow> http_in_answer fr 405 s w
      | HTTP_ERROR \<Rightarrow> http_in_answer fr 400 s w
      | HTTP_OK needed target \<Rightarrow> http_in_accept fr needed target s w)"
  by pat_completeness auto
termination
  by (relation "measure (\<lambda>(fr, s, w). length (cn_recvs (ss_client s)))")
    (auto simp: http_in_read_def Let_def split: if_splits prod.splits received.splits dest: conn_recv_stream)

declare http_in_request.simps [simp del]

definition process_http_in :: "front \<Rightarrow> session \<Rightarrow> world \<Rightarrow> outcome \<times> session \<times> world" where
  "process_http_in fr s w =
     (if ss_state s = ST_HTTP_IN_REQUEST then http_in_request fr s w
      else if ss_state s = ST_HTTP_IN_RESPONSE then
        let (out, s) = http_in_response fr s w in (out, s, w)
      else (OUT_WAIT, s, w))"

subsection \<open>Classification\<close>

text \<open>The session of a server that is a local proxy.\<close>

definition inbound_session :: "bool \<Rightarrow> bool \<Rightarrow> bool \<Rightarrow> conn \<Rightarrow> session" where
  "inbound_session socks5 http udp c =
     (zero_session c)\<lparr>ss_state := ST_INBOUND_CLASSIFY, ss_in_socks5 := socks5, ss_in_http := http, ss_in_udp := udp\<rparr>"

text \<open>At least one byte, and three of what may be TLS: \<open>Inl\<close> when the handler returns.\<close>

definition classify_read :: "session \<Rightarrow> (outcome \<times> session) + session" where
  "classify_read s =
     (let read = (\<lambda>n s. case socks5_in_read n s of
            (IO_AGAIN, s) \<Rightarrow> Inl (OUT_WAIT, s)
          | (IO_ERROR, s) \<Rightarrow> Inl (OUT_FINALIZE S_OK, s)
          | (IO_OK, s) \<Rightarrow> Inr s);
          held = (\<lambda>s. unsent (in_buffer (ss_socks5_buffer s))) in
      case (if held s = [] then read 1 s else Inr s) of
        Inl r \<Rightarrow> Inl r
      | Inr s \<Rightarrow> if length (held s) < 3 \<and> held s ! 0 = 0x16 then read 3 s else Inr s)"

definition process_inbound_classify :: "nat \<Rightarrow> front \<Rightarrow> session \<Rightarrow> world \<Rightarrow> (outcome \<times> session \<times> world) option" where
  "process_inbound_classify fuel fr s w =
     (case classify_read (s\<lparr>ss_socks5_buffer := Some (in_buffer (ss_socks5_buffer s))\<rparr>) of
        Inl (out, s) \<Rightarrow> Some (out, s, w)
      | Inr s \<Rightarrow>
          (case classify_inbound (Some (unsent (in_buffer (ss_socks5_buffer s)))) (ss_in_socks5 s) (ss_in_http s) False of
             inbound_socks5 \<Rightarrow> process_socks5_in fuel fr (s\<lparr>ss_state := ST_SOCKS5_IN_GREETING\<rparr>) w
           | inbound_http \<Rightarrow>
               Some (process_http_in fr (s\<lparr>ss_http_buffer := ss_socks5_buffer s, ss_socks5_buffer := None,
                 ss_state := ST_HTTP_IN_REQUEST\<rparr>) w)
           | _ \<Rightarrow> Some (OUT_FINALIZE S_OK, s, w)))"

text \<open>\<open>read_client\<close>, in the states of the local proxies.\<close>

definition inbound_event :: "nat \<Rightarrow> front \<Rightarrow> session \<Rightarrow> world \<Rightarrow> (outcome \<times> session \<times> world) option" where
  "inbound_event fuel fr s w =
     (if ss_state s = ST_INBOUND_CLASSIFY then process_inbound_classify fuel fr s w
      else if ss_state s \<in> {ST_SOCKS5_IN_GREETING, ST_SOCKS5_IN_REQUEST, ST_SOCKS5_IN_RESPONSE}
      then process_socks5_in fuel fr s w
      else if ss_state s \<in> {ST_HTTP_IN_REQUEST, ST_HTTP_IN_RESPONSE} then Some (process_http_in fr s w)
      else Some (OUT_WAIT, s, w))"

end
