(* ===== verification/Mt_Front_Props.thy ===== *)
theory Mt_Front_Props
  imports Mt_Front Mt_Select_Props
begin

text \<open>
  The Trojan front end decides by the bytes of the client alone, however they are split, and neither
  loses nor takes a byte too many: what it hands over is what the client sent.
\<close>

subsection \<open>What a stream of bytes is\<close>

datatype verdict = V_MORE | V_FALLBACK | V_BAD | V_REQUEST byte addr_t bytes

text \<open>The password line of a client with one of the keys, and the first part of the line that does not
  have a line feed too early.\<close>

definition no_early_lf :: "bytes \<Rightarrow> bool" where
  "no_early_lf s \<longleftrightarrow> LF \<notin> set (take (KEY_LEN + 1) s)"

definition key_line :: "bytes list \<Rightarrow> bytes \<Rightarrow> bool" where
  "key_line keys s \<longleftrightarrow> s ! KEY_LEN = CR \<and> s ! (KEY_LEN + 1) = LF \<and> key_valid keys s"

definition request_verdict :: "bytes \<Rightarrow> verdict" where
  "request_verdict s =
     (case request_needed s of
        Need n \<Rightarrow> V_MORE
      | Malformed \<Rightarrow> V_BAD
      | Complete n \<Rightarrow>
          (case parse_request n (take n s) of
             None \<Rightarrow> V_BAD
           | Some (cmd, a) \<Rightarrow> V_REQUEST cmd a (drop n s)))"

definition trojan_verdict :: "bytes list \<Rightarrow> bytes \<Rightarrow> verdict" where
  "trojan_verdict keys s =
     (if \<not> no_early_lf s then V_FALLBACK
      else if length s < PREFIX_LEN then V_MORE
      else if \<not> key_line keys (take PREFIX_LEN s) then V_FALLBACK
      else request_verdict (drop PREFIX_LEN s))"

subsection \<open>The length of a request\<close>

text \<open>The length of a request, from its first bytes.\<close>

definition request_size :: "byte \<Rightarrow> byte \<Rightarrow> bytes \<Rightarrow> need" where
  "request_size cmd t r =
     (if cmd \<noteq> CMD_CONNECT \<and> cmd \<noteq> CMD_UDP_ASSOCIATE then Malformed
      else if t = ADDR_IPV4 then Complete 10
      else if t = ADDR_DOMAIN then (case r of [] \<Rightarrow> Need 3 | h # _ \<Rightarrow> Complete (7 + unat h))
      else if t = ADDR_IPV6 then Complete 22
      else Malformed)"

lemma request_needed_Cons:
  "request_needed (cmd # t # r) =
     (case request_size cmd t r of
        Complete n \<Rightarrow> if length r + 2 < n then Need n else Complete n
      | x \<Rightarrow> x)"
  by (cases r) (auto simp: request_needed_def request_size_def Let_def wire_defs)

lemma two_cases:
  obtains "length s < 2" | a b r where "s = a # b # r"
  by (cases s; cases "tl s") auto

lemma request_size_append:
  "request_size cmd t r = Complete n \<Longrightarrow> request_size cmd t (r @ r') = Complete n"
  "request_size cmd t r = Complete n \<Longrightarrow> request_size cmd t (take (n - 2) r @ r') = Complete n"
  "request_size cmd t r = Need n \<Longrightarrow> n = 3 \<and> r = []"
  "request_size cmd t r = Malformed \<Longrightarrow> request_size cmd t (r @ r') = Malformed"
  "request_size cmd t r = Complete n \<Longrightarrow> 3 \<le> n"
proof -
  show "request_size cmd t r = Complete n \<Longrightarrow> request_size cmd t (r @ r') = Complete n"
    by (cases r) (auto simp: request_size_def split: if_splits)
  show "request_size cmd t r = Need n \<Longrightarrow> n = 3 \<and> r = []"
    by (cases r) (auto simp: request_size_def split: if_splits)
  show "request_size cmd t r = Malformed \<Longrightarrow> request_size cmd t (r @ r') = Malformed"
    by (cases r) (auto simp: request_size_def split: if_splits)
  show n: "request_size cmd t r = Complete n \<Longrightarrow> 3 \<le> n"
    by (cases r) (auto simp: request_size_def split: if_splits)
  assume c: "request_size cmd t r = Complete n"
  show "request_size cmd t (take (n - 2) r @ r') = Complete n"
  proof (cases r)
    case (Cons h q)
    have "take (n - 2) r = h # take (n - 3) q"
      using n [OF c] by (simp add: Cons take_Cons')
    then show ?thesis using c by (auto simp: Cons request_size_def split: if_splits)
  qed (use c in \<open>auto simp: request_size_def split: if_splits\<close>)
qed

lemma request_needed_short: "length s < 2 \<Longrightarrow> request_needed s = Need 2"
  by (simp add: request_needed_def)

lemma request_needed_complete:
  assumes "request_needed s = Complete n"
  obtains a b r where "s = a # b # r" "request_size a b r = Complete n" "3 \<le> n" "n \<le> length r + 2"
proof (rule two_cases [of s])
  fix a b r assume s: "s = a # b # r"
  show thesis
    using assms request_size_append(5) [of a b r n]
    by (intro that [OF s]) (auto simp: s request_needed_Cons split: need.splits if_splits)
qed (use assms in \<open>simp add: request_needed_short\<close>)

interpretation trojan_request: incremental request_needed
proof unfold_locales
  fix s t :: bytes and n m
  show "n \<le> length s" if "request_needed s = Complete n"
    using that by (rule request_needed_complete) simp
  show "request_needed (take n s @ t) = Complete n" if "request_needed s = Complete n"
    using that
  proof (rule request_needed_complete)
    fix a b r assume s: "s = a # b # r" and r: "request_size a b r = Complete n" "3 \<le> n" "n \<le> length r + 2"
    have n: "n = Suc (Suc (n - 2))" using r by simp
    have "take n s = a # b # take (n - 2) r" by (subst n) (simp add: s)
    then show "request_needed (take n s @ t) = Complete n"
      using request_size_append(2) [OF r(1), of t] r(3) by (simp add: request_needed_Cons)
  qed
  show "request_needed s = Need n \<Longrightarrow> length s < n" by (rule request_needed_gt)
  show "n \<le> m" if "request_needed s = Need n" "request_needed (s @ t) = Complete m"
  proof (rule two_cases [of s])
    have "3 \<le> m" using that(2) by (rule request_needed_complete)
    moreover assume "length s < 2"
    ultimately show ?thesis using that(1) by (simp add: request_needed_short)
  next
    fix a b r assume s: "s = a # b # r"
    note need = that(1)
    consider k where "request_size a b r = Complete k" "n = k" | "n = 3"
      using need request_size_append(3) [of a b r n]
      by (cases "request_size a b r") (auto simp: s request_needed_Cons split: if_splits)
    then show ?thesis
    proof cases
      case 1
      then have "request_size a b (r @ t) = Complete k" by (simp add: request_size_append(1))
      then show ?thesis using that(2) 1 by (auto simp: s request_needed_Cons split: if_splits)
    next
      case 2
      then show ?thesis using request_needed_complete [OF that(2)] by metis
    qed
  qed
  show "request_needed (s @ t) = Malformed" if "request_needed s = Malformed"
  proof (rule two_cases [of s])
    fix a b r assume s: "s = a # b # r"
    have "request_size a b r = Malformed" using that by (auto simp: s request_needed_Cons split: need.splits if_splits)
    then show ?thesis using request_size_append(4) [of a b r t] by (simp add: s request_needed_Cons)
  qed (use that in \<open>simp add: request_needed_short\<close>)
qed

lemma request_needed_size: "request_needed s = Need n \<Longrightarrow> n \<le> REQUEST_SIZE"
  proof (rule two_cases [of s])
  fix a b r assume "request_needed s = Need n" "s = a # b # r"
  then show "n \<le> REQUEST_SIZE"
    using unat_byte_le
    by (cases r) (auto simp: request_needed_Cons request_size_def REQUEST_SIZE_def wire_defs split: if_splits)
qed (simp add: request_needed_def REQUEST_SIZE_def)

subsection \<open>Reading\<close>

lemma early_lf_iff:
  assumes "no_early_lf p"
  shows "list_ex (\<lambda>i. (p @ bs) ! i = LF \<and> i < KEY_LEN + 1) [length p ..< length p + length bs] \<longleftrightarrow>
    \<not> no_early_lf (p @ bs)"
proof
  assume "list_ex (\<lambda>i. (p @ bs) ! i = LF \<and> i < KEY_LEN + 1) [length p ..< length p + length bs]"
  then obtain i where i: "(p @ bs) ! i = LF" "i < KEY_LEN + 1" "i < length (p @ bs)" by (auto simp: list_ex_iff)
  then have "take (KEY_LEN + 1) (p @ bs) ! i = LF" "i < length (take (KEY_LEN + 1) (p @ bs))"
    by (simp_all del: take_append)
  then show "\<not> no_early_lf (p @ bs)" unfolding no_early_lf_def by (metis nth_mem)
next
  assume "\<not> no_early_lf (p @ bs)"
  then obtain i where i: "i < length (take (KEY_LEN + 1) (p @ bs))" "take (KEY_LEN + 1) (p @ bs) ! i = LF"
    unfolding no_early_lf_def by (metis in_set_conv_nth)
  have "\<not> i < length p"
  proof
    assume "i < length p"
    then have "take (KEY_LEN + 1) p ! i = LF" "i < length (take (KEY_LEN + 1) p)"
      using i by (simp_all add: nth_append del: take_append)
    then show False using assms unfolding no_early_lf_def by (metis nth_mem)
  qed
  then show "list_ex (\<lambda>i. (p @ bs) ! i = LF \<and> i < KEY_LEN + 1) [length p ..< length p + length bs]"
    using i unfolding list_ex_iff by (intro bexI [of _ i]) (simp_all del: take_append)
qed

lemma read_prefix_facts:
  assumes "read_prefix s = (r, s')" "length (ss_prefix s) \<le> PREFIX_LEN" "no_early_lf (ss_prefix s)"
  shows "\<exists>pre c. s' = s\<lparr>ss_client := c, ss_prefix := pre\<rparr> \<and>
    pre @ cn_in c = ss_prefix s @ cn_in (ss_client s) \<and> cn_out c = cn_out (ss_client s) \<and>
    cn_sends c = cn_sends (ss_client s) \<and> length pre \<le> PREFIX_LEN \<and>
    (case r of PREFIX_FULL \<Rightarrow> length pre = PREFIX_LEN \<and> no_early_lf pre
     | PREFIX_EARLY_LF \<Rightarrow> \<not> no_early_lf pre
     | _ \<Rightarrow> length pre < PREFIX_LEN \<and> no_early_lf pre)"
  using assms
proof (induction s rule: read_prefix.induct)
  case (1 s)
  let ?len = "length (ss_prefix s)"
  show ?case
  proof (cases "?len = PREFIX_LEN")
    case True
    then have "r = PREFIX_FULL" "s' = s" using "1.prems"(1) by (simp_all add: read_prefix.simps [of s] Let_def)
    then show ?thesis using True "1.prems"
      by (intro exI [of _ "ss_prefix s"] exI [of _ "ss_client s"]) simp
  next
    case False
    obtain a c where rc: "conn_recv (PREFIX_LEN - ?len) (ss_client s) = (a, c)" by (metis surj_pair)
    note C = conn_recv_stream [OF rc]
    show ?thesis
    proof (cases a)
      case (GOT bs)
      let ?pre = "ss_prefix s @ bs"
      note lf = early_lf_iff [OF "1.prems"(3), of bs]
      define t where "t = s\<lparr>ss_client := c, ss_prefix := ?pre\<rparr>"
      have step: "read_prefix s = (if \<not> no_early_lf ?pre then (PREFIX_EARLY_LF, t) else read_prefix t)"
        using False lf by (simp add: read_prefix.simps [of s] rc GOT Let_def t_def)
      have bs: "length bs \<le> PREFIX_LEN - ?len" "bs @ cn_in c = cn_in (ss_client s)" using C GOT by simp_all
      have len: "length ?pre \<le> PREFIX_LEN" using bs(1) "1.prems"(2) by simp
      show ?thesis
      proof (cases "no_early_lf ?pre")
        case True
        have IH: "\<exists>pre d. s' = t\<lparr>ss_client := d, ss_prefix := pre\<rparr> \<and>
          pre @ cn_in d = ss_prefix t @ cn_in (ss_client t) \<and> cn_out d = cn_out (ss_client t) \<and>
          cn_sends d = cn_sends (ss_client t) \<and> length pre \<le> PREFIX_LEN \<and>
          (case r of PREFIX_FULL \<Rightarrow> length pre = PREFIX_LEN \<and> no_early_lf pre
           | PREFIX_EARLY_LF \<Rightarrow> \<not> no_early_lf pre
           | _ \<Rightarrow> length pre < PREFIX_LEN \<and> no_early_lf pre)"
          unfolding t_def
        proof (rule "1.IH" [OF refl False rc [symmetric] GOT refl])
          show "\<not> list_ex (\<lambda>i. ss_prefix (s\<lparr>ss_client := c, ss_prefix := ?pre\<rparr>) ! i = LF \<and> i < KEY_LEN + 1)
              [?len ..< ?len + length bs]"
            using lf True by simp
        qed (use step True "1.prems"(1) len in \<open>simp_all add: t_def\<close>)
        then show ?thesis using bs(2) C by (auto simp: t_def)
      next
        case early: False
        then have "r = PREFIX_EARLY_LF" "s' = t" using step "1.prems"(1) by simp_all
        then show ?thesis using early bs(2) C len
          by (intro exI [of _ ?pre] exI [of _ c]) (auto simp: t_def)
      qed
    next
      case REC_AGAIN
      then have "r = PREFIX_AGAIN" "s' = s\<lparr>ss_client := c\<rparr>"
        using False rc "1.prems"(1) by (simp_all add: read_prefix.simps [of s] Let_def)
      then show ?thesis using False C REC_AGAIN "1.prems"
        by (intro exI [of _ "ss_prefix s"] exI [of _ c]) auto
    next
      case REC_CLOSED
      then have "r = PREFIX_CLOSED" "s' = s\<lparr>ss_client := c\<rparr>"
        using False rc "1.prems"(1) by (simp_all add: read_prefix.simps [of s] Let_def)
      then show ?thesis using False C REC_CLOSED "1.prems"
        by (intro exI [of _ "ss_prefix s"] exI [of _ c]) auto
    qed
  qed
qed

lemma read_request_facts:
  assumes "read_request s = (r, s')" "\<forall>n. request_needed (ss_request s) = Complete n \<longrightarrow> length (ss_request s) = n"
  shows "\<exists>req c. s' = s\<lparr>ss_client := c, ss_request := req\<rparr> \<and>
    req @ cn_in c = ss_request s @ cn_in (ss_client s) \<and> cn_out c = cn_out (ss_client s) \<and>
    cn_sends c = cn_sends (ss_client s) \<and>
    (\<forall>n. request_needed req = Complete n \<longrightarrow> length req = n) \<and>
    (case r of REQUEST_READ n \<Rightarrow> request_needed req = Complete n
     | REQUEST_BAD \<Rightarrow> request_needed req = Malformed
     | _ \<Rightarrow> \<exists>n. request_needed req = Need n)"
  using assms
proof (induction s rule: read_request.induct)
  case (1 s)
  let ?req = "ss_request s"
  have self: ?case if "s' = s" "case r of REQUEST_READ n \<Rightarrow> request_needed ?req = Complete n
     | REQUEST_BAD \<Rightarrow> request_needed ?req = Malformed | _ \<Rightarrow> \<exists>n. request_needed ?req = Need n"
    using that "1.prems"(2) by (intro exI [of _ ?req] exI [of _ "ss_client s"]) simp
  show ?case
  proof (cases "request_needed ?req")
    case (Need n)
    have n: "\<not> n > REQUEST_SIZE" "length ?req < n"
      using request_needed_size [OF Need] request_needed_gt [OF Need] by simp_all
    obtain a c where rc: "conn_recv (n - length ?req) (ss_client s) = (a, c)" by (metis surj_pair)
    note C = conn_recv_stream [OF rc]
    show ?thesis
    proof (cases a)
      case (GOT bs)
      define t where "t = s\<lparr>ss_client := c, ss_request := ?req @ bs\<rparr>"
      have step: "read_request t = (r, s')"
        using "1.prems"(1) n by (simp add: read_request.simps [of s] Need rc GOT t_def)
      have bs: "length bs \<le> n - length ?req" "bs @ cn_in c = cn_in (ss_client s)" using C GOT by simp_all
      have "\<forall>m. request_needed (?req @ bs) = Complete m \<longrightarrow> length (?req @ bs) = m"
      proof (intro allI impI)
        fix m assume m: "request_needed (?req @ bs) = Complete m"
        show "length (?req @ bs) = m"
          using trojan_request.need_le [OF Need m] trojan_request.complete_le [OF m] bs(1) n(2) by simp
      qed
      then have "\<exists>req d. s' = t\<lparr>ss_client := d, ss_request := req\<rparr> \<and>
          req @ cn_in d = ss_request t @ cn_in (ss_client t) \<and> cn_out d = cn_out (ss_client t) \<and>
          cn_sends d = cn_sends (ss_client t) \<and>
          (\<forall>n. request_needed req = Complete n \<longrightarrow> length req = n) \<and>
          (case r of REQUEST_READ n \<Rightarrow> request_needed req = Complete n
           | REQUEST_BAD \<Rightarrow> request_needed req = Malformed
           | _ \<Rightarrow> \<exists>n. request_needed req = Need n)"
        using "1.IH" [OF Need n(1) rc [symmetric] GOT] step by (simp add: t_def)
      then show ?thesis using bs(2) C by (auto simp: t_def)
    next
      case REC_AGAIN
      then have "r = REQUEST_AGAIN" "s' = s\<lparr>ss_client := c\<rparr>"
        using n rc "1.prems"(1) Need by (simp_all add: read_request.simps [of s])
      then show ?thesis using C REC_AGAIN Need by (intro exI [of _ ?req] exI [of _ c]) auto
    next
      case REC_CLOSED
      then have "r = REQUEST_CLOSED" "s' = s\<lparr>ss_client := c\<rparr>"
        using n rc "1.prems"(1) Need by (simp_all add: read_request.simps [of s])
      then show ?thesis using C REC_CLOSED Need by (intro exI [of _ ?req] exI [of _ c]) auto
    qed
  qed (use "1.prems"(1) self in \<open>auto simp: read_request.simps [of s]\<close>)
qed

subsection \<open>Routing keeps the bytes\<close>

text \<open>What selecting an outbound and starting the session may change.\<close>

definition routed :: "session \<Rightarrow> outcome \<Rightarrow> session \<Rightarrow> bool" where
  "routed s out s' \<longleftrightarrow>
     ss_client s' = ss_client s \<and> ss_command s' = ss_command s \<and> ss_prefix s' = ss_prefix s \<and>
     ss_request s' = ss_request s \<and> ss_pending_to_client s' = ss_pending_to_client s \<and>
     ss_peer_kind s' \<in> {ss_peer_kind s, PEER_TCP} \<and>
     ss_pending_to_upstream s' \<in> {ss_pending_to_upstream s, Some (temp_buf 1)} \<and>
     out \<notin> {OUT_WAIT, OUT_FINALIZE S_OK, OUT_FINALIZE S_BAD_REQUEST, OUT_USE_AFTER_FREE} \<and>
     (\<forall>sa. out = OUT_CONNECT sa \<longrightarrow> ss_peer_kind s' = PEER_TCP \<and> ss_pending_to_upstream s' \<noteq> None)"

lemma routed_trans:
  assumes "ss_client t = ss_client s" "ss_command t = ss_command s" "ss_prefix t = ss_prefix s"
    and "ss_request t = ss_request s" "ss_pending_to_client t = ss_pending_to_client s"
    and "ss_peer_kind t = ss_peer_kind s" "ss_pending_to_upstream t = ss_pending_to_upstream s"
  shows "routed t = routed s"
  using assms by (simp add: routed_def fun_eq_iff)

lemma ensure_pending_cases:
  "ensure_pending s = s \<and> ss_pending_to_upstream s \<noteq> None \<or>
   ensure_pending s = s\<lparr>ss_pending_to_upstream := Some (temp_buf 1)\<rparr>"
  by (auto simp: ensure_pending_def set_pending_def)

lemma connect_routed:
  "ss_peer_kind t = PEER_TCP \<Longrightarrow> connect sa t = (out, s') \<Longrightarrow> s' = t\<lparr>ss_state := ST_CONNECTING\<rparr> \<and> out = OUT_CONNECT sa"
  by (auto simp: connect_def)

lemma start_tcp_routed:
  assumes "start_tcp fr s w = (out, s')"
  shows "routed s out s' \<and> ss_target s' = ss_target s"
proof -
  note [simp] = routed_def connect_def
  show ?thesis
    using assms ensure_pending_cases [of s]
    by (auto simp: start_tcp_def Let_def resolve_tcp_handler_def
        split: if_splits resolve_call.splits option.splits)
qed

lemma start_udp_routed: "start_udp fr s w = (out, s') \<Longrightarrow> routed s out s' \<and> ss_target s' = ss_target s"
  by (auto simp: start_udp_def routed_def split: if_splits)

lemma request_after_route_routed:
  "request_after_route fr s w = (out, s') \<Longrightarrow> routed s out s' \<and> ss_target s' = ss_target s"
  by (auto simp: request_after_route_def routed_def [of s] split: if_splits
      dest: start_tcp_routed start_udp_routed)

text \<open>\<open>select_outbound\<close> replaces the target by its literal address, or leaves it (\<open>RESOLVE_OFF\<close>).\<close>

definition resolved_target :: "route_env \<Rightarrow> addr_t \<Rightarrow> addr_t \<Rightarrow> bool" where
  "resolved_target env a b \<longleftrightarrow> (\<exists>resolve. b = route_resolve_target env resolve a)"

lemma resolved_target_refl: "resolved_target env a a"
  unfolding resolved_target_def by (intro exI [of _ RESOLVE_OFF]) (simp add: route_resolve_target_def)

lemma select_outbound_target:
  "select_outbound env srv i a w = (rc, b, rf, w') \<Longrightarrow> resolved_target env a b"
proof -
  assume e: "select_outbound env srv i a w = (rc, b, rf, w')"
  have "b = a \<or> b = route_resolve_target env (cf_resolve (w_conf w)) a"
    using e unfolding select_outbound_def Let_def
    by (simp split: option.splits list.splits if_splits prod.splits)
  then show ?thesis using resolved_target_refl unfolding resolved_target_def by metis
qed

lemma with_route_cases:
  assumes "with_route fr k s w = (out, s', w')"
  obtains (routed) st b rf w2 where "resolved_target (fr_env fr) (ss_target s) b"
      "k (s\<lparr>ss_target := b, ss_refresh := rf, ss_state := st\<rparr>) w2 = (out, s')"
  | (stopped) "out \<in> {OUT_FINALIZE S_BAD_GATEWAY, OUT_ROUTE_LATER}"
      "\<exists>st b rf. resolved_target (fr_env fr) (ss_target s) b \<and>
         s' = s\<lparr>ss_target := b, ss_refresh := rf, ss_state := st\<rparr>"
proof -
  obtain rc b rf w1 where so: "select_outbound (fr_env fr) (fr_srv fr) (fr_id fr) (ss_target s) w = (rc, b, rf, w1)"
    by (metis prod_cases4)
  have b: "resolved_target (fr_env fr) (ss_target s) b" by (rule select_outbound_target [OF so])
  define t where "t st = s\<lparr>ss_target := b, ss_refresh := rf, ss_state := st\<rparr>" for st
  have s: "s\<lparr>ss_target := b, ss_refresh := rf\<rparr> = t (ss_state s)" by (simp add: t_def)
  have f: "(t x)\<lparr>ss_state := y\<rparr> = t y" for x y by (simp add: t_def)
  have e: "(if rc = ROUTE_OK then let (out, s) = k (t (ss_state s)) w1 in (out, s, w1)
      else if route_resolver_kind (fr_srv fr) \<noteq> RESOLVER_NGINX then (OUT_FINALIZE S_BAD_GATEWAY, t (ss_state s), w1)
      else
        (case start_resolver fr b of
           RESOLVE_FAILS \<Rightarrow> (OUT_FINALIZE S_BAD_GATEWAY, t (ss_state s), w1)
         | RESOLVE_LATER \<Rightarrow> (OUT_ROUTE_LATER, t ST_RESOLVING, w1)
         | RESOLVE_NOW rv \<Rightarrow> route_arrived fr rv k (t ST_RESOLVING) w1)) = (out, s', w')"
    using assms unfolding with_route_def so Let_def prod.case s f .
  have arrived: "(\<exists>w2. k (t ST_RESOLVING) w2 = (out, s')) \<or>
      s' = t ST_RESOLVING \<and> out = OUT_FINALIZE S_BAD_GATEWAY"
    if "route_arrived fr rv k (t ST_RESOLVING) w1 = (out, s', w')" for rv
    using that by (auto simp: route_arrived_def split: option.splits prod.splits)
  consider w2 st where "k (t st) w2 = (out, s')" | st where "s' = t st"
      "out \<in> {OUT_FINALIZE S_BAD_GATEWAY, OUT_ROUTE_LATER}"
    using e arrived by (fastforce split: if_splits resolve_call.splits prod.splits)
  then show thesis
  proof cases
    case 1
    then show thesis using routed [OF b] by (simp add: t_def)
  next
    case 2
    then show thesis using stopped b by (auto simp: t_def)
  qed
qed

lemma with_route_routed:
  assumes "with_route fr (request_after_route fr) s w = (out, s', w')"
  shows "routed s out s' \<and> resolved_target (fr_env fr) (ss_target s) (ss_target s')"
  using assms
proof (cases rule: with_route_cases)
  case (routed st b rf w2)
  have "routed (s\<lparr>ss_target := b, ss_refresh := rf, ss_state := st\<rparr>) = routed s"
    by (rule routed_trans) simp_all
  then show ?thesis using request_after_route_routed [OF routed(2)] routed(1) by simp
qed (auto simp: routed_def)

subsection \<open>The decision\<close>

text \<open>What it means that a handler has decided as the verdict on the stream \<open>in0\<close> of the client says.\<close>

definition bounced :: "bytes \<Rightarrow> outcome \<Rightarrow> session \<Rightarrow> bool" where
  "bounced in0 out s \<longleftrightarrow> ss_state s = ST_DEFAULT_FALLBACK \<and>
     out \<in> {OUT_WAIT, OUT_FINALIZE S_OK, OUT_FINALIZE S_BAD_GATEWAY} \<and>
     (\<exists>b. ss_pending_to_client s = Some b \<and> buf_ok b \<and>
        cn_out (ss_client s) @ unsent b = default_fallback_response \<and> (out = OUT_FINALIZE S_OK \<longrightarrow> unsent b = []))"

definition diverted :: "sockaddr \<Rightarrow> bytes \<Rightarrow> outcome \<Rightarrow> session \<Rightarrow> bool" where
  "diverted sa in0 out s \<longleftrightarrow> out = OUT_CONNECT sa \<and> ss_peer_kind s = PEER_FALLBACK \<and>
     (\<exists>b. ss_pending_to_upstream s = Some b \<and> buf_ok b \<and> unsent b @ cn_in (ss_client s) = in0)"

definition served :: "front \<Rightarrow> byte \<Rightarrow> addr_t \<Rightarrow> bytes \<Rightarrow> outcome \<Rightarrow> session \<Rightarrow> bool" where
  "served fr cmd a rest out s \<longleftrightarrow>
     ss_command s = cmd \<and> resolved_target (fr_env fr) a (ss_target s) \<and> cn_in (ss_client s) = rest \<and>
     cn_out (ss_client s) = [] \<and> ss_peer_kind s \<noteq> PEER_FALLBACK \<and> ss_pending_to_upstream s \<in> {None, Some (temp_buf 1)} \<and>
     out \<notin> {OUT_WAIT, OUT_FINALIZE S_OK, OUT_FINALIZE S_BAD_REQUEST, OUT_USE_AFTER_FREE} \<and>
     (\<forall>sa. out = OUT_CONNECT sa \<longrightarrow> ss_peer_kind s = PEER_TCP \<and> ss_pending_to_upstream s \<noteq> None)"

fun decided :: "front \<Rightarrow> bytes \<Rightarrow> verdict \<Rightarrow> outcome \<Rightarrow> session \<Rightarrow> bool" where
  "decided fr in0 V_MORE out s = False"
| "decided fr in0 V_BAD out s = (out = OUT_FINALIZE S_BAD_REQUEST)"
| "decided fr in0 V_FALLBACK out s =
     (case fr_fallback fr of None \<Rightarrow> bounced in0 out s | Some sa \<Rightarrow> diverted sa in0 out s)"
| "decided fr in0 (V_REQUEST cmd a rest) out s = served fr cmd a rest out s"

text \<open>The verdict from what has been read.\<close>

lemma no_early_lf_append: "\<not> no_early_lf s \<Longrightarrow> \<not> no_early_lf (s @ t)"
  by (auto simp: no_early_lf_def)

lemma no_early_lf_full: "length s = PREFIX_LEN \<Longrightarrow> no_early_lf (s @ t) = no_early_lf s"
  by (simp add: no_early_lf_def PREFIX_LEN_def)

lemma trojan_verdict_full:
  "length s = PREFIX_LEN \<Longrightarrow> no_early_lf s \<Longrightarrow>
     trojan_verdict keys (s @ t) = (if key_line keys s then request_verdict t else V_FALLBACK)"
  by (simp add: trojan_verdict_def no_early_lf_full)

lemma request_verdict_complete:
  assumes "request_needed r = Complete n" "length r = n"
  shows "request_verdict (r @ t) =
    (case parse_request n r of None \<Rightarrow> V_BAD | Some (cmd, a) \<Rightarrow> V_REQUEST cmd a t)"
  using trojan_request.complete_extend [OF assms(1), of t] assms(2)
  by (simp add: request_verdict_def cong: option.case_cong)

lemma request_verdict_malformed: "request_needed r = Malformed \<Longrightarrow> request_verdict (r @ t) = V_BAD"
  using trojan_request.malformed_mono [of r t] by (simp add: request_verdict_def)

subsection \<open>The invariant\<close>

definition front_reading :: "front \<Rightarrow> bytes \<Rightarrow> session \<Rightarrow> bool" where
  "front_reading fr in0 s \<longleftrightarrow>
     ss_peer_kind s = PEER_NONE \<and> ss_pending_to_upstream s = None \<and> cn_out (ss_client s) = [] \<and>
     no_early_lf (ss_prefix s) \<and> ss_prefix s @ ss_request s @ cn_in (ss_client s) = in0 \<and>
     (\<forall>n. request_needed (ss_request s) = Complete n \<longrightarrow> length (ss_request s) = n) \<and>
     (ss_state s = ST_PREFIX \<and> ss_request s = [] \<and> length (ss_prefix s) \<le> PREFIX_LEN \<or>
      ss_state s = ST_REQUEST \<and> length (ss_prefix s) = PREFIX_LEN \<and> key_line (fr_keys fr) (ss_prefix s))"

definition front_inv :: "front \<Rightarrow> bytes \<Rightarrow> session \<Rightarrow> bool" where
  "front_inv fr in0 s \<longleftrightarrow> front_reading fr in0 s \<or>
     fr_fallback fr = None \<and> trojan_verdict (fr_keys fr) in0 = V_FALLBACK \<and> bounced in0 OUT_WAIT s"

text \<open>What an event leads to.\<close>

definition front_good :: "front \<Rightarrow> bytes \<Rightarrow> outcome \<Rightarrow> session \<Rightarrow> bool" where
  "front_good fr in0 out s \<longleftrightarrow>
     out \<in> {OUT_WAIT, OUT_FINALIZE S_OK} \<and> front_reading fr in0 s \<or>
     decided fr in0 (trojan_verdict (fr_keys fr) in0) out s"

lemma unsent_full: "unsent \<lparr>nb_pos = 0, nb_last = length d, nb_data = d\<rparr> = d"
  by (simp add: unsent_def)

lemma default_fallback_write_bounced:
  assumes "default_fallback_write s = (out, s')" "bounced in0 OUT_WAIT s"
  shows "bounced in0 out s'"
proof -
  obtain b where b: "ss_pending_to_client s = Some b" "buf_ok b"
      "cn_out (ss_client s) @ unsent b = default_fallback_response" "ss_state s = ST_DEFAULT_FALLBACK"
    using assms(2) by (auto simp: bounced_def)
  obtain r b' c where f: "flush b (ss_client s) = (r, b', c)" by (metis prod_cases3)
  note F = flush_facts [OF f b(2)]
  have "s' = s\<lparr>ss_pending_to_client := Some b', ss_client := c\<rparr>" "out = OUT_FINALIZE S_OK \<longrightarrow> r = IO_OK"
    "out \<in> {OUT_WAIT, OUT_FINALIZE S_OK, OUT_FINALIZE S_BAD_GATEWAY}"
    using assms(1) by (auto simp: default_fallback_write_def b(1) f Let_def split: io.splits)
  then show ?thesis using F b by (auto simp: bounced_def)
qed

lemma start_fallback_decided:
  assumes "start_fallback fr bs s = (out, s')" "cn_out (ss_client s) = []" "bs @ cn_in (ss_client s) = in0"
  shows "decided fr in0 V_FALLBACK out s'"
proof (cases "fr_fallback fr")
  case None
  define b where "b = \<lparr>nb_pos = 0, nb_last = length default_fallback_response, nb_data = default_fallback_response\<rparr>"
  define t where "t = s\<lparr>ss_pending_to_client := Some b, ss_state := ST_DEFAULT_FALLBACK\<rparr>"
  have "default_fallback_write t = (out, s')"
    using assms(1) by (simp add: start_fallback_def None start_default_fallback_def temp_buf_def t_def b_def)
  moreover have "bounced in0 OUT_WAIT t"
    using assms(2) unsent_full [of default_fallback_response] by (simp add: bounced_def t_def b_def buf_ok_def)
  ultimately show ?thesis using default_fallback_write_bounced by (simp add: None)
next
  case (Some sa)
  have "unsent \<lparr>nb_pos = 0, nb_last = length bs, nb_data = bs\<rparr> = bs" by (rule unsent_full)
  moreover have "unsent (temp_buf 1) = []" by (simp add: unsent_def temp_buf_def)
  ultimately show ?thesis
    using assms by (auto simp: start_fallback_def Some connect_def set_pending_def diverted_def temp_buf_def
        buf_ok_def Let_def)
qed

lemma start_fallback_state: "start_fallback fr bs s = (out, s') \<Longrightarrow> ss_state s' \<in> {ST_DEFAULT_FALLBACK, ST_CONNECTING}"
  by (auto simp: start_fallback_def start_default_fallback_def default_fallback_write_def connect_def Let_def
      split: option.splits prod.splits io.splits)

lemma process_request_good:
  assumes "process_request fr s w = (out, s', w')" "front_reading fr in0 s" "ss_state s = ST_REQUEST"
  shows "front_good fr in0 out s'"
proof -
  note I = assms(2,3) [unfolded front_reading_def]
  obtain r t where rr: "read_request s = (r, t)" by (metis surj_pair)
  obtain req c where t: "t = s\<lparr>ss_client := c, ss_request := req\<rparr>"
      "req @ cn_in c = ss_request s @ cn_in (ss_client s)" "cn_out c = cn_out (ss_client s)"
      "\<forall>n. request_needed req = Complete n \<longrightarrow> length req = n"
      "case r of REQUEST_READ n \<Rightarrow> request_needed req = Complete n
       | REQUEST_BAD \<Rightarrow> request_needed req = Malformed | _ \<Rightarrow> \<exists>n. request_needed req = Need n"
    using read_request_facts [OF rr] I by auto
  have in0: "in0 = ss_prefix s @ req @ cn_in c" using I t(2) by auto
  have v: "trojan_verdict (fr_keys fr) in0 = request_verdict (req @ cn_in c)"
    using I trojan_verdict_full [of "ss_prefix s" "fr_keys fr" "req @ cn_in c"] by (auto simp: in0)
  have reading: "front_reading fr in0 t" using I t by (auto simp: front_reading_def in0)
  show ?thesis
  proof (cases r)
    case (REQUEST_READ n)
    then have n: "request_needed req = Complete n" "length req = n" using t(4,5) by simp_all
    note V = request_verdict_complete [OF n, of "cn_in c"]
    show ?thesis
    proof (cases "parse_request n req")
      case None
      then have "out = OUT_FINALIZE S_BAD_REQUEST"
        using assms(1) rr REQUEST_READ t(1) by (simp add: process_request_def)
      then show ?thesis using V None by (simp add: front_good_def v)
    next
      case (Some ca)
      obtain cmd a where ca: "ca = (cmd, a)" by fastforce
      define u where "u = t\<lparr>ss_target := a, ss_command := cmd\<rparr>"
      have "with_route fr (request_after_route fr) u w = (out, s', w')"
        using assms(1) rr REQUEST_READ t(1) Some ca by (simp add: process_request_def u_def)
      note R = with_route_routed [OF this]
      have "cn_out c = []" "ss_client u = c" "ss_command u = cmd" "ss_target u = a" "ss_peer_kind u = PEER_NONE"
        "ss_pending_to_upstream u = None"
        using I t(3) by (auto simp: u_def t(1))
      then have "served fr cmd a (cn_in c) out s'" using R by (auto simp: served_def routed_def)
      then show ?thesis using V Some ca by (simp add: front_good_def v)
    qed
  next
    case REQUEST_BAD
    then have "out = OUT_FINALIZE S_BAD_REQUEST" using assms(1) rr by (simp add: process_request_def)
    moreover have "request_verdict (req @ cn_in c) = V_BAD"
      using request_verdict_malformed t(5) REQUEST_BAD by simp
    ultimately show ?thesis by (simp add: front_good_def v)
  next
    case REQUEST_AGAIN
    then have "out = OUT_WAIT" "s' = t" using assms(1) rr by (simp_all add: process_request_def)
    then show ?thesis using reading by (simp add: front_good_def)
  next
    case REQUEST_CLOSED
    then have "out = OUT_FINALIZE S_OK" "s' = t" using assms(1) rr by (simp_all add: process_request_def)
    then show ?thesis using reading by (simp add: front_good_def)
  qed
qed

lemma process_prefix_good:
  assumes "process_prefix fr s w = (out, s', w')" "front_reading fr in0 s" "ss_state s = ST_PREFIX"
  shows "front_good fr in0 out s'"
proof -
  note I = assms(2,3) [unfolded front_reading_def]
  have len: "length (ss_prefix s) \<le> PREFIX_LEN" "no_early_lf (ss_prefix s)" "ss_request s = []"
    using I by auto
  obtain r t where rp: "read_prefix s = (r, t)" by (metis surj_pair)
  obtain pre c where t: "t = s\<lparr>ss_client := c, ss_prefix := pre\<rparr>"
      "pre @ cn_in c = ss_prefix s @ cn_in (ss_client s)" "cn_out c = cn_out (ss_client s)"
      "length pre \<le> PREFIX_LEN"
      "case r of PREFIX_FULL \<Rightarrow> length pre = PREFIX_LEN \<and> no_early_lf pre
       | PREFIX_EARLY_LF \<Rightarrow> \<not> no_early_lf pre | _ \<Rightarrow> length pre < PREFIX_LEN \<and> no_early_lf pre"
    using read_prefix_facts [OF rp len(1,2)] by auto
  have in0: "in0 = pre @ cn_in c" using I len(3) t(2) by auto
  have out0: "cn_out c = []" using I t(3) by simp
  have reading: "front_reading fr in0 t" if "no_early_lf pre"
    using that I t len(3) by (auto simp: front_reading_def in0)
  have fall: "front_good fr in0 out s'"
    if "start_fallback fr pre t = (out, s')" "trojan_verdict (fr_keys fr) in0 = V_FALLBACK"
    using start_fallback_decided [OF that(1), of in0] out0 that(2)
    by (simp add: front_good_def in0 t(1) del: decided.simps)
  show ?thesis
  proof (cases r)
    case PREFIX_FULL
    then have p: "length pre = PREFIX_LEN" "no_early_lf pre" using t(5) by simp_all
    show ?thesis
    proof (cases "key_line (fr_keys fr) pre")
      case True
      define u where "u = t\<lparr>ss_state := ST_REQUEST\<rparr>"
      have "process_request fr u w = (out, s', w')"
        using assms(1) rp PREFIX_FULL True by (simp add: process_prefix_def u_def t(1) key_line_def)
      moreover have "front_reading fr in0 u"
        using reading [OF p(2)] p True len(3) by (simp add: front_reading_def u_def t(1))
      ultimately show ?thesis by (rule process_request_good) (simp add: u_def)
    next
      case False
      have "start_fallback fr pre t = (out, s')"
        using assms(1) rp PREFIX_FULL False
        by (auto simp: process_prefix_def t(1) key_line_def split: prod.splits if_splits)
      moreover have "trojan_verdict (fr_keys fr) in0 = V_FALLBACK"
        using trojan_verdict_full [OF p] False by (simp add: in0)
      ultimately show ?thesis by (rule fall)
    qed
  next
    case PREFIX_EARLY_LF
    have "start_fallback fr pre t = (out, s')"
      using assms(1) rp PREFIX_EARLY_LF by (auto simp: process_prefix_def t(1) split: prod.splits)
    moreover have "trojan_verdict (fr_keys fr) in0 = V_FALLBACK"
      using no_early_lf_append t(5) PREFIX_EARLY_LF by (simp add: trojan_verdict_def in0)
    ultimately show ?thesis by (rule fall)
  next
    case PREFIX_AGAIN
    then have "out = OUT_WAIT" "s' = t" using assms(1) rp by (simp_all add: process_prefix_def)
    then show ?thesis using reading t(5) PREFIX_AGAIN by (simp add: front_good_def)
  next
    case PREFIX_CLOSED
    then have "out = OUT_FINALIZE S_OK" "s' = t" using assms(1) rp by (simp_all add: process_prefix_def)
    then show ?thesis using reading t(5) PREFIX_CLOSED by (simp add: front_good_def)
  qed
qed

lemma front_event_good:
  assumes "front_event fr s w = (out, s', w')" "front_inv fr in0 s"
  shows "front_good fr in0 out s'"
proof (cases "front_reading fr in0 s")
  case True
  then consider "ss_state s = ST_PREFIX" | "ss_state s = ST_REQUEST" by (auto simp: front_reading_def)
  then show ?thesis
    using assms(1) True by cases (simp_all add: front_event_def process_prefix_good process_request_good)
next
  case False
  then have b: "fr_fallback fr = None" "trojan_verdict (fr_keys fr) in0 = V_FALLBACK" "bounced in0 OUT_WAIT s"
    using assms(2) by (auto simp: front_inv_def)
  then have "ss_state s = ST_DEFAULT_FALLBACK" by (auto simp: bounced_def)
  then have "default_fallback_write s = (out, s')"
    using assms(1) by (auto simp: front_event_def split: prod.splits)
  then show ?thesis using default_fallback_write_bounced b by (simp add: front_good_def)
qed

subsection \<open>All events of a client\<close>

text \<open>The session between the events: before each the socket may behave in any way, and other sessions
  may have changed the route cache.\<close>

definition scripted :: "recv_event list \<Rightarrow> send_event list \<Rightarrow> session \<Rightarrow> session" where
  "scripted recvs sends s = s\<lparr>ss_client := (ss_client s)\<lparr>cn_recvs := recvs, cn_sends := sends\<rparr>\<rparr>"

inductive front_run :: "front \<Rightarrow> conn \<Rightarrow> session \<Rightarrow> bool" for fr c0 where
  front_start: "front_run fr c0 (zero_session c0)"
| front_wait: "front_run fr c0 s \<Longrightarrow>
    front_event fr (scripted recvs sends s) w = (OUT_WAIT, s', w') \<Longrightarrow> front_run fr c0 s'"

lemma front_inv_scripted: "front_inv fr in0 s \<Longrightarrow> front_inv fr in0 (scripted recvs sends s)"
  by (simp add: front_inv_def front_reading_def bounced_def scripted_def)

lemma front_good_wait: "front_good fr in0 OUT_WAIT s \<Longrightarrow> front_inv fr in0 s"
  by (cases "trojan_verdict (fr_keys fr) in0")
    (auto simp: front_good_def front_inv_def served_def diverted_def split: option.splits)

lemma front_run_inv:
  assumes "front_run fr c0 s" "cn_out c0 = []"
  shows "front_inv fr (cn_in c0) s"
  using assms
proof (induction rule: front_run.induct)
  case front_start
  have "no_early_lf []" "request_needed [] = Need 2" by (simp_all add: no_early_lf_def request_needed_def)
  then show ?case using front_start by (simp add: front_inv_def front_reading_def zero_session_def)
next
  case (front_wait s recvs sends w s' w')
  then show ?case
    using front_event_good [OF front_wait.hyps(2) front_inv_scripted] front_good_wait by blast
qed

subsection \<open>Progress\<close>

text \<open>A socket that gives at least one byte at every call, as long as there are bytes.\<close>

definition all_recv :: "recv_event list \<Rightarrow> bool" where
  "all_recv evs \<longleftrightarrow> (\<forall>e\<in>set evs. \<exists>n. e = RECVD (Suc n))"

lemma conn_recv_progress:
  assumes "conn_recv room c = (r, c')" "all_recv (cn_recvs c)" "cn_recvs c \<noteq> []" "0 < room"
  shows "all_recv (cn_recvs c') \<and> length (cn_recvs c) = Suc (length (cn_recvs c')) \<and> r \<noteq> REC_CLOSED \<and>
    (r = REC_AGAIN \<longrightarrow> cn_in c' = [])"
proof -
  obtain n evs where e: "cn_recvs c = RECVD (Suc n) # evs"
    using assms(2,3) by (cases "cn_recvs c") (auto simp: all_recv_def)
  then show ?thesis
    using assms by (auto simp: conn_recv_def Let_def all_recv_def min_def split: if_splits)
qed

lemma read_prefix_progress:
  assumes "read_prefix s = (r, s')" "length (ss_prefix s) \<le> PREFIX_LEN" "all_recv (cn_recvs (ss_client s))"
    and "PREFIX_LEN + k \<le> length (cn_recvs (ss_client s)) + length (ss_prefix s)"
  shows "r \<noteq> PREFIX_CLOSED \<and> (r = PREFIX_AGAIN \<longrightarrow> cn_in (ss_client s') = []) \<and>
    (r = PREFIX_FULL \<longrightarrow> all_recv (cn_recvs (ss_client s')) \<and> k \<le> length (cn_recvs (ss_client s')))"
  using assms
proof (induction s rule: read_prefix.induct)
  case (1 s)
  let ?len = "length (ss_prefix s)"
  show ?case
  proof (cases "?len = PREFIX_LEN")
    case True
    then show ?thesis using "1.prems" by (auto simp: read_prefix.simps [of s] Let_def)
  next
    case False
    obtain a c where rc: "conn_recv (PREFIX_LEN - ?len) (ss_client s) = (a, c)" by (metis surj_pair)
    have ne: "cn_recvs (ss_client s) \<noteq> []" "0 < PREFIX_LEN - ?len" using "1.prems"(2,4) False by auto
    note P = conn_recv_progress [OF rc "1.prems"(3) ne]
    show ?thesis
    proof (cases a)
      case (GOT bs)
      define t where "t = s\<lparr>ss_client := c, ss_prefix := ss_prefix s @ bs\<rparr>"
      have bs: "bs \<noteq> []" "length bs \<le> PREFIX_LEN - ?len" using conn_recv_stream [OF rc] GOT by simp_all
      let ?lf = "list_ex (\<lambda>i. ss_prefix t ! i = LF \<and> i < KEY_LEN + 1) [?len ..< ?len + length bs]"
      have step: "read_prefix s = (if ?lf then (PREFIX_EARLY_LF, t) else read_prefix t)"
        using False by (simp add: read_prefix.simps [of s] rc GOT Let_def t_def)
      show ?thesis
      proof (cases ?lf)
        case False
        then have "read_prefix t = (r, s')" using step "1.prems"(1) by simp
        moreover have "length (ss_prefix t) \<le> PREFIX_LEN" using bs "1.prems"(2) by (simp add: t_def)
        moreover have "PREFIX_LEN + k \<le> length (cn_recvs (ss_client t)) + length (ss_prefix t)"
          using "1.prems"(4) P bs by (cases bs) (simp_all add: t_def)
        ultimately show ?thesis
          using "1.IH" [OF refl \<open>?len \<noteq> PREFIX_LEN\<close> rc [symmetric] GOT refl] False P by (simp add: t_def)
      qed (use step "1.prems"(1) in auto)
    qed (use False rc P "1.prems"(1) in \<open>auto simp: read_prefix.simps [of s] Let_def\<close>)
  qed
qed

lemma read_request_progress:
  assumes "read_request s = (r, s')" "all_recv (cn_recvs (ss_client s))"
    and "REQUEST_SIZE \<le> length (cn_recvs (ss_client s)) + length (ss_request s)"
  shows "r \<noteq> REQUEST_CLOSED \<and> (r = REQUEST_AGAIN \<longrightarrow> cn_in (ss_client s') = [])"
  using assms
proof (induction s rule: read_request.induct)
  case (1 s)
  show ?case
  proof (cases "request_needed (ss_request s)")
    case (Need n)
    have n: "\<not> n > REQUEST_SIZE" "length (ss_request s) < n"
      using request_needed_size [OF Need] request_needed_gt [OF Need] by simp_all
    obtain a c where rc: "conn_recv (n - length (ss_request s)) (ss_client s) = (a, c)" by (metis surj_pair)
    have ne: "cn_recvs (ss_client s) \<noteq> []" "0 < n - length (ss_request s)" using "1.prems"(3) n by auto
    note P = conn_recv_progress [OF rc "1.prems"(2) ne]
    show ?thesis
    proof (cases a)
      case (GOT bs)
      define t where "t = s\<lparr>ss_client := c, ss_request := ss_request s @ bs\<rparr>"
      have "bs \<noteq> []" using conn_recv_stream [OF rc] GOT by simp
      then have "REQUEST_SIZE \<le> length (cn_recvs (ss_client t)) + length (ss_request t)"
        using "1.prems"(3) P by (cases bs) (simp_all add: t_def)
      moreover have "read_request t = (r, s')"
        using "1.prems"(1) n by (simp add: read_request.simps [of s] Need rc GOT t_def)
      ultimately show ?thesis using "1.IH" [OF Need n(1) rc [symmetric] GOT] P by (simp add: t_def)
    qed (use n rc P Need "1.prems"(1) in \<open>auto simp: read_request.simps [of s]\<close>)
  qed (use "1.prems"(1) in \<open>auto simp: read_request.simps [of s]\<close>)
qed

text \<open>A session that waits for bytes that the client has not sent.\<close>

lemma reading_more:
  assumes "front_reading fr in0 t" "cn_in (ss_client t) = []"
    and "ss_state t = ST_PREFIX \<Longrightarrow> length (ss_prefix t) < PREFIX_LEN"
    and "ss_state t = ST_REQUEST \<Longrightarrow> \<exists>n. request_needed (ss_request t) = Need n"
  shows "trojan_verdict (fr_keys fr) in0 = V_MORE"
proof (cases "ss_state t = ST_REQUEST")
  case True
  have "in0 = ss_prefix t @ ss_request t" using assms(1,2) by (simp add: front_reading_def)
  then have "trojan_verdict (fr_keys fr) in0 = request_verdict (ss_request t)"
    using assms(1) True trojan_verdict_full [of "ss_prefix t" "fr_keys fr" "ss_request t"]
    by (auto simp: front_reading_def)
  then show ?thesis using assms(4) [OF True] by (auto simp: request_verdict_def)
next
  case False
  then show ?thesis using assms(1-3) by (auto simp: trojan_verdict_def front_reading_def)
qed

lemma process_request_more:
  assumes "process_request fr t w = (out, s', w')" "front_reading fr in0 t"
    and "ss_state t = ST_REQUEST" "all_recv (cn_recvs (ss_client t))" "REQUEST_SIZE \<le> length (cn_recvs (ss_client t))"
    and "out \<in> {OUT_WAIT, OUT_FINALIZE S_OK}" "front_reading fr in0 s'"
  shows "trojan_verdict (fr_keys fr) in0 = V_MORE"
proof -
  obtain r u where rr: "read_request t = (r, u)" by (metis surj_pair)
  have P: "r \<noteq> REQUEST_CLOSED" "r = REQUEST_AGAIN \<longrightarrow> cn_in (ss_client u) = []"
    using read_request_progress [OF rr assms(4)] assms(5) by simp_all
  have "\<forall>n. request_needed (ss_request t) = Complete n \<longrightarrow> length (ss_request t) = n"
    using assms(2) by (simp add: front_reading_def)
  from read_request_facts [OF rr this] obtain req c where u: "u = t\<lparr>ss_client := c, ss_request := req\<rparr>"
      "case r of REQUEST_READ n \<Rightarrow> request_needed req = Complete n
       | REQUEST_BAD \<Rightarrow> request_needed req = Malformed | _ \<Rightarrow> \<exists>n. request_needed req = Need n"
    by blast
  have r: "r = REQUEST_AGAIN"
  proof (cases r)
    case (REQUEST_READ n)
    obtain cmd a where "with_route fr (request_after_route fr) (u\<lparr>ss_target := a, ss_command := cmd\<rparr>) w = (out, s', w')"
      using assms(1,6) rr REQUEST_READ by (auto simp: process_request_def split: option.splits prod.splits)
    from with_route_routed [OF this] assms(6) show ?thesis by (auto simp: routed_def)
  qed (use assms(1,6) rr P in \<open>auto simp: process_request_def\<close>)
  then have "s' = u" using assms(1) rr by (simp add: process_request_def)
  then show ?thesis using reading_more [OF assms(7)] P u r assms(3) by auto
qed

lemma process_prefix_more:
  assumes "process_prefix fr s w = (out, s', w')" "front_reading fr in0 s"
    and "ss_state s = ST_PREFIX" "all_recv (cn_recvs (ss_client s))"
    and "PREFIX_LEN + REQUEST_SIZE \<le> length (cn_recvs (ss_client s))"
    and "out \<in> {OUT_WAIT, OUT_FINALIZE S_OK}" "front_reading fr in0 s'"
  shows "trojan_verdict (fr_keys fr) in0 = V_MORE"
proof -
  obtain r t where rp: "read_prefix s = (r, t)" by (metis surj_pair)
  have len: "length (ss_prefix s) \<le> PREFIX_LEN" "no_early_lf (ss_prefix s)" "ss_request s = []"
    using assms(2,3) by (auto simp: front_reading_def)
  have P: "r \<noteq> PREFIX_CLOSED" "r = PREFIX_AGAIN \<longrightarrow> cn_in (ss_client t) = []"
    "r = PREFIX_FULL \<longrightarrow> all_recv (cn_recvs (ss_client t)) \<and> REQUEST_SIZE \<le> length (cn_recvs (ss_client t))"
    using read_prefix_progress [OF rp len(1), of REQUEST_SIZE] assms(4,5) by simp_all
  obtain pre c where t: "t = s\<lparr>ss_client := c, ss_prefix := pre\<rparr>"
      "pre @ cn_in c = ss_prefix s @ cn_in (ss_client s)" "cn_out c = cn_out (ss_client s)"
      "case r of PREFIX_FULL \<Rightarrow> length pre = PREFIX_LEN \<and> no_early_lf pre
       | PREFIX_EARLY_LF \<Rightarrow> \<not> no_early_lf pre | _ \<Rightarrow> length pre < PREFIX_LEN \<and> no_early_lf pre"
    using read_prefix_facts [OF rp len(1,2)] by auto
  have fall: "start_fallback fr bs u \<noteq> (out, s')" for bs u
  proof
    assume "start_fallback fr bs u = (out, s')"
    from start_fallback_state [OF this] show False using assms(7) by (auto simp: front_reading_def)
  qed
  show ?thesis
  proof (cases r)
    case PREFIX_FULL
    have key: "key_line (fr_keys fr) pre"
    proof (rule ccontr)
      assume "\<not> key_line (fr_keys fr) pre"
      then have "start_fallback fr pre t = (out, s')"
        using assms(1) rp PREFIX_FULL
        by (auto simp: process_prefix_def t(1) key_line_def split: prod.splits if_splits)
      then show False using fall by simp
    qed
    define u where "u = t\<lparr>ss_state := ST_REQUEST\<rparr>"
    have "process_request fr u w = (out, s', w')"
      using assms(1) rp PREFIX_FULL key by (simp add: process_prefix_def u_def t(1) key_line_def)
    moreover have "front_reading fr in0 u"
      using assms(2) t PREFIX_FULL key len(3) by (auto simp: front_reading_def u_def)
    ultimately show ?thesis
      using process_request_more [of fr u w out s' w' in0] P(3) PREFIX_FULL assms(6,7) by (simp add: u_def)
  next
    case PREFIX_AGAIN
    then have "s' = t" using assms(1) rp by (simp add: process_prefix_def)
    then show ?thesis using reading_more [OF assms(7)] P(2) t PREFIX_AGAIN assms(3) by auto
  next
    case PREFIX_EARLY_LF
    then have "start_fallback fr (ss_prefix t) t = (out, s')"
      using assms(1) rp by (auto simp: process_prefix_def split: prod.splits)
    then show ?thesis using fall by simp
  qed (use P(1) in simp)
qed

text \<open>A client with the key \<open>aa...a\<close> that asks for 127.0.0.1:80, and the byte behind its request.\<close>

definition sample_stream :: bytes where
  "sample_stream = replicate 56 97 @ [13, 10, 1, 1, 127, 0, 0, 1, 0, 80, 13, 10, 71]"

definition sample_front :: front where
  "sample_front =
     \<lparr>fr_env = sample_env 0 0,
      fr_srv = \<lparr>rs_outbounds = None, rs_route_enabled = False, rs_cache = False, rs_core_resolver = None,
                rs_route_resolver = None\<rparr>,
      fr_keys = [replicate 56 98, replicate 56 97], fr_fallback = Some (SA4 1 443), fr_effective = False,
      fr_id = 0, fr_local = None, fr_bound = (\<lambda>_. None)\<rparr>"

definition sample_client :: conn where
  "sample_client = sample_conn sample_stream [] [] False"

definition sample_world :: world where
  "sample_world = start_world \<lparr>cf_resolve = RESOLVE_OFF, cf_drain = DRAIN_IDLE, cf_udp_timeout = 0\<rparr> 1 0"

definition sample_event :: "recv_event list \<Rightarrow> outcome \<times> session \<times> world" where
  "sample_event recvs =
     front_event sample_front (scripted recvs [] (zero_session sample_client)) sample_world"

lemma sample_verdict:
  "trojan_verdict (fr_keys sample_front) (cn_in sample_client) =
     V_REQUEST 1 (addr_of ADDR_IPV4 [127, 0, 0, 1] 80 7) [71]"
  by code_simp

lemma read_prefix_full:
  assumes "ss_prefix s = []" "conn_recv PREFIX_LEN (ss_client s) = (GOT bs, c)" "length bs = PREFIX_LEN"
    and "no_early_lf bs"
  shows "read_prefix s = (PREFIX_FULL, s\<lparr>ss_client := c, ss_prefix := bs\<rparr>)"
proof -
  define t where "t = s\<lparr>ss_client := c, ss_prefix := bs\<rparr>"
  have lf: "\<not> list_ex (\<lambda>i. bs ! i = LF \<and> i < KEY_LEN + 1) [0 ..< PREFIX_LEN]"
    using early_lf_iff [of "[]" bs] assms(3,4) by (simp add: no_early_lf_def [of "[]"])
  have "PREFIX_LEN \<noteq> 0" by (simp add: PREFIX_LEN_def)
  then have "read_prefix s = read_prefix t"
    using lf by (subst read_prefix.simps) (simp add: assms(1-3) Let_def t_def)
  moreover have "read_prefix t = (PREFIX_FULL, t)"
    by (subst read_prefix.simps) (simp add: t_def assms(3) Let_def)
  ultimately show ?thesis by (simp add: t_def)
qed

lemma sample_prefix:
  "read_prefix (scripted [RECVD 60, RECVD 60, RECVD 60] [] (zero_session sample_client)) =
     (PREFIX_FULL, (zero_session sample_client)\<lparr>
        ss_client := sample_conn (drop 58 sample_stream) [RECVD 60, RECVD 60] [] False,
        ss_prefix := take 58 sample_stream\<rparr>)"
proof -
  let ?s = "scripted [RECVD 60, RECVD 60, RECVD 60] [] (zero_session sample_client)"
  have n: "PREFIX_LEN = 58" "length sample_stream = 69" by (simp_all add: PREFIX_LEN_def KEY_LEN_def sample_stream_def)
  have "conn_recv PREFIX_LEN (ss_client ?s) =
      (GOT (take 58 sample_stream), sample_conn (drop 58 sample_stream) [RECVD 60, RECVD 60] [] False)"
    by (simp add: conn_recv_def scripted_def zero_session_def sample_client_def sample_conn_def n)
  moreover have "no_early_lf (take 58 sample_stream)" by code_simp
  ultimately have "read_prefix ?s = (PREFIX_FULL, ?s\<lparr>
      ss_client := sample_conn (drop 58 sample_stream) [RECVD 60, RECVD 60] [] False,
      ss_prefix := take 58 sample_stream\<rparr>)"
    by (intro read_prefix_full) (simp_all add: n scripted_def zero_session_def)
  then show ?thesis by (simp add: scripted_def)
qed

text \<open>The session after the password line.\<close>

definition sample_request :: session where
  "sample_request = (zero_session sample_client)\<lparr>
     ss_client := sample_conn (drop 58 sample_stream) [RECVD 60, RECVD 60] [] False,
     ss_prefix := take 58 sample_stream, ss_state := ST_REQUEST\<rparr>"

lemma sample_connects:
  "\<exists>s w. sample_event [RECVD 60, RECVD 60, RECVD 60] = (OUT_CONNECT (SA4 0x7f000001 80), s, w)"
proof -
  let ?fr = sample_front
  have rr: "case read_request sample_request of
      (REQUEST_READ n, t) \<Rightarrow> parse_request n (ss_request t) = Some (1, addr_of ADDR_IPV4 [127, 0, 0, 1] 80 7) | _ \<Rightarrow> False"
    by code_simp
  then obtain n t where t: "read_request sample_request = (REQUEST_READ n, t)"
      "parse_request n (ss_request t) = Some (1, addr_of ADDR_IPV4 [127, 0, 0, 1] 80 7)"
    by (auto split: prod.splits request_read.splits)
  let ?u = "t\<lparr>ss_target := addr_of ADDR_IPV4 [127, 0, 0, 1] 80 7, ss_command := 1\<rparr>"
  have "\<exists>s w. with_route ?fr (request_after_route ?fr) ?u sample_world = (OUT_CONNECT (SA4 0x7f000001 80), s, w)"
    by (simp add: with_route_def select_outbound_def sample_front_def request_after_route_def session_outbound_def
        request_blocked_def current_block_def CMD_CONNECT_def start_tcp_def outbound_type_of_def Let_def
        use_nginx_resolver_def resolve_addr_prefer_def addr_to_ngx_addr_def wire_defs set_route_def set_tcp_def
        connect_def read_u32_def bytes_u32_def)
  then have "\<exists>s w. process_request ?fr sample_request sample_world = (OUT_CONNECT (SA4 0x7f000001 80), s, w)"
    using t by (simp add: process_request_def)
  moreover have "key_line (fr_keys sample_front) (take 58 sample_stream)" by code_simp
  moreover have "ss_state (scripted r [] (zero_session sample_client)) = ST_PREFIX" for r
    by (simp add: scripted_def zero_session_def)
  ultimately show ?thesis
    by (simp add: sample_event_def front_event_def process_prefix_def sample_prefix key_line_def sample_request_def)
qed

text \<open>The relay that follows, call by call.\<close>

inductive proxy_run :: "nat \<Rightarrow> proxy \<Rightarrow> proxy \<Rightarrow> bool" for buffer_size p0 where
  proxy_start: "proxy_run buffer_size p0 p0"
| proxy_wait: "proxy_run buffer_size p0 p \<Longrightarrow>
    process_proxy buffer_size (p\<lparr>px_client := (px_client p)\<lparr>cn_recvs := r1, cn_sends := s1\<rparr>,
      px_upstream := (px_upstream p)\<lparr>cn_recvs := r2, cn_sends := s2\<rparr>\<rparr>) = (rc, p') \<Longrightarrow> proxy_run buffer_size p0 p'"

lemma pending_sent_kept:
  assumes "process_proxy bs p = (rc, p')" "pending_sent p"
  shows "px_pending p' = px_pending p"
proof -
  have "pending_part p = (True, p)"
    using assms(2) by (auto simp: pending_part_def pending_sent_def split: option.splits)
  then show ?thesis
    using assms(1) by (auto simp: process_proxy_def client_part_def upstream_part_def Let_def
        split: prod.splits if_splits)
qed

lemma proxy_run_stream:
  assumes "proxy_run bs p0 p" "pending_sent p0"
  shows "pending_sent p \<and> up_stream p = up_stream p0 \<and> down_stream p = down_stream p0"
  using assms
proof (induction rule: proxy_run.induct)
  case (proxy_wait p s2 r2 s1 r1 rc p')
  let ?q = "p\<lparr>px_client := (px_client p)\<lparr>cn_recvs := r1, cn_sends := s1\<rparr>,
      px_upstream := (px_upstream p)\<lparr>cn_recvs := r2, cn_sends := s2\<rparr>\<rparr>"
  have q: "pending_sent ?q" "up_stream ?q = up_stream p" "down_stream ?q = down_stream p"
    using proxy_wait by (simp_all add: pending_sent_def up_stream_def down_stream_def pending_unsent_def)
  have "pending_sent p'"
    using pending_sent_kept [OF proxy_wait.hyps(2) q(1)] q(1) by (simp add: pending_sent_def)
  then show ?case using process_proxy_stream [OF proxy_wait.hyps(2)] q proxy_wait by simp
qed simp

subsection \<open>Properties\<close>

text \<open>C1: The front end decides by the bytes of the client, not by how they are split. Whatever the
  socket did before, when a handler stops waiting (and the client has not closed) its decision is the
  one that the verdict on the whole stream of the client says: a request that is malformed is refused; a
  client whose first line is not a password line, or comes with a wrong key, is sent to the fallback
  server with every byte it sent (or gets the answer of the module when there is none); a client with a
  key is served with the command and target of its request, and what is behind the request is still
  there. While it waits, nothing has been sent to the client.\<close>

theorem front_decides:
  assumes "front_run fr c0 s" "cn_out c0 = []"
    and "front_event fr (scripted recvs sends s) w = (out, s', w')"
  shows "out \<in> {OUT_WAIT, OUT_FINALIZE S_OK} \<and> ss_state s' \<in> {ST_PREFIX, ST_REQUEST} \<and> cn_out (ss_client s') = [] \<or>
    decided fr (cn_in c0) (trojan_verdict (fr_keys fr) (cn_in c0)) out s'"
  using front_event_good [OF assms(3) front_inv_scripted, OF front_run_inv [OF assms(1,2)]]
  by (auto simp: front_good_def front_reading_def)

theorem front_decides_witness:
  "\<exists>s w. sample_event [RECVD 60, RECVD 60, RECVD 60] = (OUT_CONNECT (SA4 0x7f000001 80), s, w) \<and>
     served sample_front 1 (addr_of ADDR_IPV4 [127, 0, 0, 1] 80 7) [71] (OUT_CONNECT (SA4 0x7f000001 80)) s"
proof -
  obtain s w where e: "sample_event [RECVD 60, RECVD 60, RECVD 60] = (OUT_CONNECT (SA4 0x7f000001 80), s, w)"
    using sample_connects by blast
  have "cn_out sample_client = []" by (simp add: sample_client_def sample_conn_def)
  from front_decides [OF front_start this e [unfolded sample_event_def]] sample_verdict e show ?thesis
    by auto
qed

text \<open>C23: A client whose line and request have arrived is not kept waiting: in one call the handler
  comes to the decision that the verdict names, provided the socket gives what it has, at least a byte
  at every call.\<close>

theorem front_progress:
  assumes "front_run fr c0 s" "cn_out c0 = []" "ss_state s \<in> {ST_PREFIX, ST_REQUEST}"
    and "trojan_verdict (fr_keys fr) (cn_in c0) \<noteq> V_MORE"
    and "all_recv recvs" "PREFIX_LEN + REQUEST_SIZE \<le> length recvs"
    and "front_event fr (scripted recvs sends s) w = (out, s', w')"
  shows "decided fr (cn_in c0) (trojan_verdict (fr_keys fr) (cn_in c0)) out s'"
proof -
  let ?s = "scripted recvs sends s"
  have S: "ss_state ?s = ss_state s" "cn_recvs (ss_client ?s) = recvs" by (simp_all add: scripted_def)
  have I: "front_inv fr (cn_in c0) ?s" by (rule front_inv_scripted [OF front_run_inv [OF assms(1,2)]])
  have R: "front_reading fr (cn_in c0) ?s" using I assms(3) by (auto simp: front_inv_def bounced_def S)
  have "\<not> (out \<in> {OUT_WAIT, OUT_FINALIZE S_OK} \<and> front_reading fr (cn_in c0) s')"
  proof
    assume "out \<in> {OUT_WAIT, OUT_FINALIZE S_OK} \<and> front_reading fr (cn_in c0) s'"
    then have W: "out \<in> {OUT_WAIT, OUT_FINALIZE S_OK}" "front_reading fr (cn_in c0) s'" by simp_all
    show False
    proof (cases "ss_state s = ST_REQUEST")
      case True
      then have "process_request fr ?s w = (out, s', w')" using assms(7) by (simp add: front_event_def S)
      from process_request_more [OF this R _ _ _ W] show False using True assms(4-6) by (simp add: S)
    next
      case False
      then have st: "ss_state ?s = ST_PREFIX" using assms(3) by (simp add: S)
      then have "process_prefix fr ?s w = (out, s', w')" using assms(7) by (simp add: front_event_def)
      from process_prefix_more [OF this R st _ _ W] show False using assms(4-6) by (simp add: S)
    qed
  qed
  then show ?thesis using front_event_good [OF assms(7) I] by (auto simp: front_good_def)
qed

theorem front_progress_witness:
  "\<exists>out s w. front_event sample_front (scripted (replicate 320 (RECVD 1)) [] (zero_session sample_client))
       sample_world = (out, s, w) \<and> served sample_front 1 (addr_of ADDR_IPV4 [127, 0, 0, 1] 80 7) [71] out s"
proof -
  obtain out s w where e: "front_event sample_front (scripted (replicate 320 (RECVD 1)) [] (zero_session sample_client))
       sample_world = (out, s, w)" by (metis prod_cases3)
  have c: "cn_out sample_client = []" "ss_state (zero_session sample_client) \<in> {ST_PREFIX, ST_REQUEST}"
    by (simp_all add: sample_client_def sample_conn_def zero_session_def)
  have r: "all_recv (replicate 320 (RECVD 1))" "PREFIX_LEN + REQUEST_SIZE \<le> length (replicate 320 (RECVD 1))"
    by (simp_all add: all_recv_def PREFIX_LEN_def REQUEST_SIZE_def KEY_LEN_def wire_defs)
  from front_progress [OF front_start c _ r e] e show ?thesis by (simp add: sample_verdict)
qed



end
