(* ===== verification/Mt_Handshake_Props.thy ===== *)
theory Mt_Handshake_Props
  imports Mt_Handshake
begin

text \<open>
  The SOCKS5 handshake always ends its turn, sends exactly the messages of the protocol in their order,
  and takes from the connection exactly the answers of the server.
\<close>

subsection \<open>The bytes of the messages\<close>

definition hs_greeting :: "outbound \<Rightarrow> bytes" where
  "hs_greeting ob = (if ob_socks5_username ob = None then [5, 1, 0] else [5, 2, 0, 2])"

definition hs_auth :: "outbound \<Rightarrow> bytes" where
  "hs_auth ob =
     (let u = the (ob_socks5_username ob); p = the (ob_socks5_password ob) in
      [1, to_byte (length u)] @ u @ [to_byte (length p)] @ p)"

definition hs_request :: "handshake \<Rightarrow> bytes" where
  "hs_request h =
     (let a = if hs_udp h then zero_bind_addr else hs_target h in
      [5, if hs_udp h then 3 else 1, 0] @ trojan_addr_wire (addr_type a) (host_bytes a) (addr_port a))"

text \<open>A message of \<open>bs\<close> is ready in a buffer of the size of the session's.\<close>

definition holds :: "nbuf \<Rightarrow> bytes \<Rightarrow> bool" where
  "holds b bs \<longleftrightarrow> buf_ok b \<and> length (nb_data b) = SOCKS5_BUFFER_SIZE \<and> unsent b = bs"

lemma holds_built:
  assumes "length bs = n" "n \<le> length d" "length d = SOCKS5_BUFFER_SIZE"
  shows "\<exists>b. built (Some n, Some (bs @ drop n d)) = Some b \<and> holds b bs"
  using assms by (simp add: built_def holds_def buf_ok_def unsent_def)

lemma text_len_username: "valid_outbound ob \<Longrightarrow> (text_len (ob_socks5_username ob) \<noteq> 0) = (ob_socks5_username ob \<noteq> None)"
  by (cases "ob_socks5_username ob") (auto simp: valid_outbound_def text_len_def)

lemma prepare_greeting:
  assumes "valid_outbound (hs_outbound h)" "length (nb_data (hs_buf h)) = SOCKS5_BUFFER_SIZE"
  shows "\<exists>b. socks5_prepare_greeting h = Some b \<and> holds b (hs_greeting (hs_outbound h))"
proof -
  let ?g = "hs_greeting (hs_outbound h)" and ?d = "nb_data (hs_buf h)"
  define u where "u = (ob_socks5_username (hs_outbound h) \<noteq> None)"
  have "socks5_prepare_greeting h = built (socks5_build_greeting (Some ?d) u)"
    unfolding socks5_prepare_greeting_def text_len_username [OF assms(1)] u_def ..
  also have "socks5_build_greeting (Some ?d) u = (Some (length ?g), Some (?g @ drop (length ?g) ?d))"
    using assms(2)
    by (cases u) (simp_all add: socks5_build_greeting_def hs_greeting_def SOCKS5_BUFFER_SIZE_def wire_defs
        u_def numeral_3_eq_3)
  finally have "socks5_prepare_greeting h = built (Some (length ?g), Some (?g @ drop (length ?g) ?d))" .
  then show ?thesis
    using holds_built [OF refl, of ?g ?d] assms(2) by (simp add: hs_greeting_def SOCKS5_BUFFER_SIZE_def)
qed

lemma build_auth_bytes:
  assumes "u \<noteq> []" "length u \<le> 255" "length p \<le> 255" "3 + length u + length p \<le> length d"
  shows "socks5_build_auth (Some u) (length u) (Some p) (length p) (Some d) =
    (Some (3 + length u + length p),
     Some (([1, to_byte (length u)] @ u @ [to_byte (length p)] @ p) @ drop (3 + length u + length p) d))"
proof -
  obtain d0 d1 d2 where d: "d = d0 # d1 # d2"
    using assms(4) by (cases d; cases "tl d") simp_all
  let ?l = "to_byte (length u)" and ?m = "to_byte (length p)"
  have 1: "poke (poke d 0 [1]) 1 [?l] = [1, ?l] @ d2" by (simp add: d)
  have 2: "poke ([1, ?l] @ d2) 2 u = ([1, ?l] @ u) @ drop (length u) d2"
    by (subst poke_append) simp_all
  have 3: "poke (([1, ?l] @ u) @ drop (length u) d2) (2 + length u) [?m] =
      ([1, ?l] @ u @ [?m]) @ drop (length u + 1) d2"
    by (subst poke_append) simp_all
  have 4: "poke (([1, ?l] @ u @ [?m]) @ drop (length u + 1) d2) (3 + length u) p =
      ([1, ?l] @ u @ [?m] @ p) @ drop (3 + length u + length p) d"
  proof -
    have "3 + length u + length p = Suc (Suc (1 + length u + length p))" by simp
    then have "drop (3 + length u + length p) d = drop (1 + length u + length p) d2"
      by (simp only: d drop_Suc_Cons)
    then show ?thesis by (subst poke_append) (simp_all add: add.commute)
  qed
  show ?thesis
  proof -
    have m: "mem (Some u) (length u) = u" "mem (Some p) (length p) = p" by simp_all
    have c: "(Some u = None \<or> Some p = None \<or> length u = 0 \<or> length u > 255 \<or> length p > 255 \<or>
        length d < 3 + length u + length p) = False" using assms by simp
    show ?thesis
      unfolding socks5_build_auth_def SOCKS5_AUTH_VERSION_def option.case Let_def m 1 2 3 4 c if_False ..
  qed
qed

lemma prepare_auth:
  assumes "valid_outbound (hs_outbound h)" "ob_socks5_username (hs_outbound h) \<noteq> None"
    and "length (nb_data (hs_buf h)) = SOCKS5_BUFFER_SIZE"
  shows "\<exists>b. socks5_prepare_auth h = Some b \<and> holds b (hs_auth (hs_outbound h))"
proof -
  note V = assms(1) [unfolded valid_outbound_def]
  obtain u where u: "ob_socks5_username (hs_outbound h) = Some u" using assms(2) by blast
  obtain p where p: "ob_socks5_password (hs_outbound h) = Some p" using V assms(2) by blast
  have up: "ob_socks5_username (hs_outbound h) = Some u" "ob_socks5_password (hs_outbound h) = Some p"
    "u \<noteq> []" "length u \<le> 255" "length p \<le> 255"
    using V u p by (simp_all add: text_len_def)
  let ?d = "nb_data (hs_buf h)"
  have len: "3 + length u + length p \<le> length ?d" using up assms(3) by (simp add: SOCKS5_BUFFER_SIZE_def)
  let ?n = "3 + length u + length p"
  have n: "length (hs_auth (hs_outbound h)) = ?n" by (simp add: hs_auth_def up)
  have "socks5_prepare_auth h = built (Some ?n, Some (hs_auth (hs_outbound h) @ drop ?n ?d))"
    using build_auth_bytes [OF up(3-5) len] by (simp add: socks5_prepare_auth_def up text_len_def hs_auth_def)
  then show ?thesis using holds_built [OF n len assms(3)] by simp
qed

lemma zero_bind_addr_ok: "trojan_addr_ok zero_bind_addr"
  by (simp add: trojan_addr_ok_def zero_bind_addr_def addr_zero_def valid_addr_cases trojan_addr_len_def wire_defs)

lemma addr_wire_len_le: "trojan_addr_ok a \<Longrightarrow> addr_wire_len a \<le> 259"
  using valid_addr_bounds [of "addr_type a" "addr_host_len a"]
  by (auto simp: trojan_addr_ok_def trojan_addr_len_def)

lemma prepare_request:
  assumes "trojan_addr_ok (hs_target h)" "length (nb_data (hs_buf h)) = SOCKS5_BUFFER_SIZE"
  shows "\<exists>b. socks5_prepare_request h = Some b \<and> holds b (hs_request h)"
proof -
  define a where "a = (if hs_udp h then zero_bind_addr else hs_target h)"
  define cmd where "cmd = (if hs_udp h then SOCKS5_CMD_UDP_ASSOCIATE else SOCKS5_CMD_CONNECT)"
  let ?d = "nb_data (hs_buf h)"
  have a: "trojan_addr_ok a" using assms(1) zero_bind_addr_ok by (simp add: a_def)
  have w: "3 + addr_wire_len a \<le> length ?d"
    using addr_wire_len_le [OF a] assms(2) by (simp add: SOCKS5_BUFFER_SIZE_def)
  have r: "hs_request h = [SOCKS5_VERSION, cmd, 0] @ trojan_addr_wire (addr_type a) (host_bytes a) (addr_port a)"
    by (simp add: hs_request_def a_def cmd_def wire_defs Let_def)
  have l: "length (hs_request h) = 3 + addr_wire_len a"
    using a host_bytes_len [OF a] by (simp add: r trojan_addr_ok_def)
  have "socks5_build_request cmd (Some a) (Some ?d) =
      (Some (length (hs_request h)), Some (hs_request h @ drop (3 + addr_wire_len a) ?d))"
    using socks5_build_request_ok [OF a _ w, of cmd] unfolding l by (simp add: r cmd_def)
  moreover have "socks5_prepare_request h = built (socks5_build_request cmd (Some a) (Some ?d))"
    by (simp add: socks5_prepare_request_def a_def cmd_def)
  ultimately show ?thesis
    using holds_built [OF l w assms(2)] l by simp
qed

subsection \<open>The invariant\<close>

text \<open>What has been sent (or is ready to be) and what has been taken from the server, at each step.\<close>

definition hs_stage :: "outbound \<Rightarrow> bytes \<Rightarrow> socks5_step \<Rightarrow> bytes \<Rightarrow> bytes \<Rightarrow> bool" where
  "hs_stage ob rq step s d \<longleftrightarrow>
     (if step \<in> {GREETING_WRITE, METHOD_READ} then s = hs_greeting ob \<and> d = []
      else if step \<in> {AUTH_WRITE, AUTH_READ} then
        ob_socks5_username ob \<noteq> None \<and> s = hs_greeting ob @ hs_auth ob \<and> d = [5, 2]
      else
        s = hs_greeting ob @ rq \<and> d = [5, 0] \<or>
        ob_socks5_username ob \<noteq> None \<and> s = hs_greeting ob @ hs_auth ob @ rq \<and> d = [5, 2, 1, 0])"

abbreviation writing :: "socks5_step \<Rightarrow> bool" where
  "writing step \<equiv> step \<in> {GREETING_WRITE, AUTH_WRITE, REQUEST_WRITE}"

text \<open>A step that reads has read no more than it needs.\<close>

definition read_ok :: "socks5_step \<Rightarrow> bytes \<Rightarrow> bool" where
  "read_ok step bs \<longleftrightarrow>
     (if step = RESPONSE_READ then \<forall>n. socks5_response_len (Some bs) = Complete n \<longrightarrow> n = length bs
      else length bs \<le> 2)"

definition hs_at :: "bytes \<Rightarrow> handshake \<Rightarrow> bytes \<Rightarrow> bytes \<Rightarrow> bool" where
  "hs_at in0 h s d \<longleftrightarrow>
     (if writing (hs_step h) then cn_out (hs_peer h) @ unsent (hs_buf h) = s \<and> d @ cn_in (hs_peer h) = in0
      else nb_pos (hs_buf h) = 0 \<and> cn_out (hs_peer h) = s \<and> d @ unsent (hs_buf h) @ cn_in (hs_peer h) = in0 \<and>
        read_ok (hs_step h) (unsent (hs_buf h)))"

definition hs_fit :: "handshake \<Rightarrow> bool" where
  "hs_fit h \<longleftrightarrow> buf_ok (hs_buf h) \<and> length (nb_data (hs_buf h)) = SOCKS5_BUFFER_SIZE \<and>
     valid_outbound (hs_outbound h) \<and> trojan_addr_ok (hs_target h)"

definition hs_inv :: "bytes \<Rightarrow> handshake \<Rightarrow> bool" where
  "hs_inv in0 h \<longleftrightarrow> hs_fit h \<and>
     (\<exists>s d. hs_stage (hs_outbound h) (hs_request h) (hs_step h) s d \<and> hs_at in0 h s d)"

text \<open>The end: all was sent, and \<open>resp\<close> is the response of the server.\<close>

definition hs_done :: "bytes \<Rightarrow> handshake \<Rightarrow> bool" where
  "hs_done in0 h \<longleftrightarrow>
     (\<exists>d resp. hs_stage (hs_outbound h) (hs_request h) RESPONSE_READ (cn_out (hs_peer h)) d \<and>
        in0 = d @ resp @ cn_in (hs_peer h) \<and> socks5_response_len (Some resp) = Complete (length resp) \<and>
        socks5_parse_response (Some resp) \<noteq> None)"

subsection \<open>Every turn keeps it\<close>

text \<open>The result of a turn: the session goes on or waits with the invariant, or it is done.\<close>

definition hs_good :: "bytes \<Rightarrow> hs_turn \<Rightarrow> bool" where
  "hs_good in0 t \<longleftrightarrow>
     (case t of
        HS_CONTINUE h \<Rightarrow> hs_inv in0 h
      | HS_RETURN HS_WAIT h \<Rightarrow> hs_inv in0 h
      | HS_RETURN (HS_FINALIZE s) h \<Rightarrow> True
      | HS_RETURN r h \<Rightarrow> hs_done in0 h)"

lemma hs_request_other [simp]:
  "hs_request (h\<lparr>hs_step := x\<rparr>) = hs_request h" "hs_request (h\<lparr>hs_buf := y\<rparr>) = hs_request h"
  "hs_request (h\<lparr>hs_peer := z\<rparr>) = hs_request h"
  by (simp_all add: hs_request_def)

lemma read_ok_empty: "step \<noteq> RESPONSE_READ \<Longrightarrow> read_ok step []" "read_ok RESPONSE_READ []"
  by (simp_all add: read_ok_def socks5_response_len_def)

lemma hs_write_good:
  assumes "hs_inv in0 h" "writing (hs_step h)" "\<not> writing nxt"
    and "\<And>s d. hs_stage (hs_outbound h) (hs_request h) (hs_step h) s d \<Longrightarrow>
      hs_stage (hs_outbound h) (hs_request h) nxt s d"
  shows "hs_good in0 (hs_write nxt h)"
proof -
  obtain r b c where f: "flush (hs_buf h) (hs_peer h) = (r, b, c)" by (metis prod_cases3)
  have fit: "hs_fit h" using assms(1) by (simp add: hs_inv_def)
  obtain s d where sd: "hs_stage (hs_outbound h) (hs_request h) (hs_step h) s d"
      "cn_out (hs_peer h) @ unsent (hs_buf h) = s" "d @ cn_in (hs_peer h) = in0"
    using assms(1,2) by (auto simp: hs_inv_def hs_at_def)
  note F = flush_facts [OF f]
  have ok: "buf_ok (hs_buf h)" using fit by (simp add: hs_fit_def)
  show ?thesis
  proof (cases r)
    case IO_OK
    have e: "unsent (empty_buf b) = []" "nb_pos (empty_buf b) = 0" "buf_ok (empty_buf b)"
      "length (nb_data (empty_buf b)) = length (nb_data (hs_buf h))"
      using F ok by (simp_all add: empty_buf_def unsent_def buf_ok_def)
    let ?h = "h\<lparr>hs_peer := c, hs_step := nxt, hs_buf := empty_buf b\<rparr>"
    have "hs_at in0 ?h s d"
      using F ok IO_OK sd(2,3) e assms(3) read_ok_empty(1) [of nxt] read_ok_empty(2)
      by (cases nxt) (auto simp: hs_at_def)
    moreover have "hs_stage (hs_outbound ?h) (hs_request ?h) (hs_step ?h) s d"
      using assms(4) [OF sd(1)] by simp
    moreover have "hs_fit ?h" using fit e by (simp add: hs_fit_def)
    ultimately have "hs_inv in0 ?h" unfolding hs_inv_def by blast
    then show ?thesis by (simp add: hs_write_def f IO_OK hs_good_def)
  next
    case IO_AGAIN
    let ?h = "h\<lparr>hs_buf := b, hs_peer := c\<rparr>"
    have "hs_at in0 ?h s d" using F ok sd(2,3) assms(2) by (simp add: hs_at_def)
    moreover have "hs_stage (hs_outbound ?h) (hs_request ?h) (hs_step ?h) s d"
      using sd(1) by simp
    moreover have "hs_fit ?h" using fit F ok by (simp add: hs_fit_def)
    ultimately have "hs_inv in0 ?h" unfolding hs_inv_def by blast
    then show ?thesis by (simp add: hs_write_def f IO_AGAIN hs_good_def)
  next
    case IO_ERROR
    then show ?thesis by (simp add: hs_write_def f hs_good_def)
  qed
qed

text \<open>A step that reads: the continuation gets a state with the invariant and enough bytes.\<close>

lemma hs_read_good:
  assumes "hs_inv in0 h" "\<not> writing (hs_step h)"
    and "\<And>bs. length bs \<le> max needed (length (unsent (hs_buf h))) \<Longrightarrow>
      length (unsent (hs_buf h)) \<le> length bs \<Longrightarrow> take (length (unsent (hs_buf h))) bs = unsent (hs_buf h) \<Longrightarrow>
      read_ok (hs_step h) bs"
    and "\<And>h'. hs_inv in0 h' \<Longrightarrow> hs_step h' = hs_step h \<Longrightarrow> needed \<le> length (unsent (hs_buf h')) \<Longrightarrow>
      hs_good in0 (k h')"
  shows "hs_good in0 (hs_read needed k h)"
proof -
  obtain r b c where f: "fill needed (hs_buf h) (hs_peer h) = (r, b, c)" by (metis prod_cases3)
  have fit: "hs_fit h" using assms(1) by (simp add: hs_inv_def)
  obtain s d where sd: "hs_stage (hs_outbound h) (hs_request h) (hs_step h) s d" "nb_pos (hs_buf h) = 0"
      "cn_out (hs_peer h) = s" "d @ unsent (hs_buf h) @ cn_in (hs_peer h) = in0"
    using assms(1,2) by (auto simp: hs_inv_def hs_at_def)
  have ok: "buf_ok (hs_buf h)" using fit by (simp add: hs_fit_def)
  note F = fill_facts [OF f ok sd(2)]
  let ?h = "h\<lparr>hs_buf := b, hs_peer := c\<rparr>"
  have "take (length (unsent (hs_buf h))) (unsent b) = unsent (hs_buf h)"
    using F by (metis append_eq_append_conv_if append_take_drop_id)
  then have "read_ok (hs_step h) (unsent b)" using assms(3) F by blast
  then have "hs_at in0 ?h s d" using F sd(3,4) assms(2) by (simp add: hs_at_def)
  moreover have "hs_stage (hs_outbound ?h) (hs_request ?h) (hs_step ?h) s d"
    using sd(1) by simp
  moreover have "hs_fit ?h" using fit F by (simp add: hs_fit_def)
  ultimately have I: "hs_inv in0 ?h" unfolding hs_inv_def by blast
  then show ?thesis
    using F assms(4) [OF I] by (cases r) (auto simp: hs_read_def f hs_good_def)
qed

lemma hs_send_good:
  assumes "hs_inv in0 h" "\<not> writing (hs_step h)" "writing nxt"
    and "\<exists>b. nb = Some b \<and> holds b msg"
    and "\<And>s d. hs_stage (hs_outbound h) (hs_request h) (hs_step h) s d \<Longrightarrow>
      hs_stage (hs_outbound h) (hs_request h) nxt (s @ msg) (d @ unsent (hs_buf h))"
  shows "hs_good in0 (hs_send nxt failure nb h)"
proof -
  obtain b where b: "nb = Some b" "holds b msg" using assms(4) by blast
  obtain s d where sd: "hs_stage (hs_outbound h) (hs_request h) (hs_step h) s d" "hs_at in0 h s d"
    using assms(1) by (auto simp: hs_inv_def)
  let ?h = "h\<lparr>hs_step := nxt, hs_buf := b\<rparr>"
  have "hs_at in0 ?h (s @ msg) (d @ unsent (hs_buf h))"
    using sd(2) assms(2,3) b(2) by (simp add: hs_at_def holds_def)
  moreover have "hs_stage (hs_outbound ?h) (hs_request ?h) (hs_step ?h) (s @ msg) (d @ unsent (hs_buf h))"
    using assms(5) [OF sd(1)] by simp
  moreover have "hs_fit ?h" using assms(1) b(2) by (simp add: hs_inv_def hs_fit_def holds_def)
  ultimately have "hs_inv in0 ?h" unfolding hs_inv_def by blast
  then show ?thesis by (simp add: hs_send_def b(1) hs_good_def)
qed

lemma two_bytes: "length bs = 2 \<Longrightarrow> bs = [bs ! 0, bs ! 1]"
  by (cases bs; cases "tl bs") auto

lemma unsent_0: "buf_ok b \<Longrightarrow> nb_pos b = 0 \<Longrightarrow> length (unsent b) = n \<Longrightarrow> take n (drop (nb_pos b) (nb_data b)) = unsent b"
  by (simp add: length_unsent) (simp add: unsent_def)

lemma hs_method_good:
  assumes "hs_inv in0 h" "hs_step h = METHOD_READ" "2 \<le> length (unsent (hs_buf h))"
  shows "hs_good in0 (hs_method h)"
proof -
  have fit: "hs_fit h" using assms(1) by (simp add: hs_inv_def)
  have at: "nb_pos (hs_buf h) = 0" "length (unsent (hs_buf h)) = 2"
    using assms by (auto simp: hs_inv_def hs_at_def read_ok_def)
  define bs where "bs = unsent (hs_buf h)"
  have bs: "take 2 (drop (nb_pos (hs_buf h)) (nb_data (hs_buf h))) = bs" "length bs = 2"
    using unsent_0 [OF _ at] fit at by (simp_all add: hs_fit_def bs_def)
  have V: "valid_outbound (hs_outbound h)" "length (nb_data (hs_buf h)) = SOCKS5_BUFFER_SIZE"
    "trojan_addr_ok (hs_target h)" using fit by (simp_all add: hs_fit_def)
  define u where "u = (ob_socks5_username (hs_outbound h) \<noteq> None)"
  have e: "hs_method h = (case socks5_parse_method_response (Some bs) u of
        Some True \<Rightarrow> hs_send AUTH_WRITE S_INTERNAL_SERVER_ERROR (socks5_prepare_auth h) h
      | None \<Rightarrow> HS_RETURN (HS_FINALIZE S_BAD_GATEWAY) h
      | Some False \<Rightarrow> hs_send REQUEST_WRITE S_BAD_GATEWAY (socks5_prepare_request h) h)"
    unfolding hs_method_def bs(1) text_len_username [OF V(1)] u_def ..
  show ?thesis
  proof (cases "socks5_parse_method_response (Some bs) u")
    case None
    then show ?thesis by (simp add: e hs_good_def)
  next
    case (Some auth)
    then have r: "bs ! 0 = 5" "bs ! 1 = (if auth then 2 else 0)" "auth \<longrightarrow> u"
      using bs(2) by (auto simp: socks5_parse_method_response_def wire_defs split: if_splits)
    show ?thesis
    proof (cases auth)
      case True
      have "bs = [5, 2]" using two_bytes [OF bs(2)] r True by simp
      moreover have "ob_socks5_username (hs_outbound h) \<noteq> None" using r True u_def by simp
      ultimately have "hs_good in0 (hs_send AUTH_WRITE S_INTERNAL_SERVER_ERROR (socks5_prepare_auth h) h)"
        using assms(2) prepare_auth [OF V(1) _ V(2)]
        by (intro hs_send_good [OF assms(1)]) (simp_all add: hs_stage_def bs_def)
      then show ?thesis using Some True by (simp add: e)
    next
      case False
      have "bs = [5, 0]" using two_bytes [OF bs(2)] r False by simp
      then have "hs_good in0 (hs_send REQUEST_WRITE S_BAD_GATEWAY (socks5_prepare_request h) h)"
        using assms(2) prepare_request [OF V(3,2)]
        by (intro hs_send_good [OF assms(1)]) (simp_all add: hs_stage_def bs_def)
      then show ?thesis using Some False by (simp add: e)
    qed
  qed
qed

lemma hs_auth_reply_good:
  assumes "hs_inv in0 h" "hs_step h = AUTH_READ" "2 \<le> length (unsent (hs_buf h))"
  shows "hs_good in0 (hs_auth_reply h)"
proof -
  have fit: "hs_fit h" using assms(1) by (simp add: hs_inv_def)
  have at: "nb_pos (hs_buf h) = 0" "length (unsent (hs_buf h)) = 2"
    using assms by (auto simp: hs_inv_def hs_at_def read_ok_def)
  define bs where "bs = unsent (hs_buf h)"
  have bs: "take 2 (drop (nb_pos (hs_buf h)) (nb_data (hs_buf h))) = bs" "length bs = 2"
    using unsent_0 [OF _ at] fit at by (simp_all add: hs_fit_def bs_def)
  show ?thesis
  proof (cases "socks5_parse_auth_response (Some bs)")
    case True
    then have "bs ! 0 = 1" "bs ! 1 = 0" by (simp_all add: socks5_parse_auth_response_def wire_defs)
    then have "bs = [1, 0]" using two_bytes [OF bs(2)] by simp
    then have "hs_good in0 (hs_send REQUEST_WRITE S_BAD_GATEWAY (socks5_prepare_request h) h)"
      using assms(2) prepare_request [of h] fit
      by (intro hs_send_good [OF assms(1)]) (simp_all add: hs_stage_def bs_def hs_fit_def)
    then show ?thesis using True by (simp add: hs_auth_reply_def bs(1))
  next
    case False
    then show ?thesis by (simp add: hs_auth_reply_def bs(1) hs_good_def)
  qed
qed

lemma response_read_ok:
  assumes "socks5_response_len (Some s) = Need needed" "length bs \<le> needed" "take (length s) bs = s"
  shows "read_ok RESPONSE_READ bs"
proof -
  have bs: "bs = s @ drop (length s) bs" using assms(3) by (metis append_take_drop_id)
  have "n = length bs" if "socks5_response_len (Some bs) = Complete n" for n
    using response_len.need_le [OF assms(1), of "drop (length s) bs" n] that bs
      response_len.complete_le [OF that] assms(2) by simp
  then show ?thesis by (simp add: read_ok_def)
qed

lemma hs_response_good:
  assumes "hs_inv in0 h" "hs_step h = RESPONSE_READ"
  shows "hs_good in0 (hs_response h)"
proof (cases "socks5_response_len (Some (unsent (hs_buf h)))")
  case Malformed
  then show ?thesis by (simp add: hs_response_def hs_good_def)
next
  case (Need needed)
  have lt: "length (unsent (hs_buf h)) < needed" using response_len.need_gt [OF Need] .
  have "hs_good in0 (hs_read needed HS_CONTINUE h)"
    using assms lt response_read_ok [OF Need]
    by (intro hs_read_good [OF assms(1)]) (auto simp: hs_good_def)
  then show ?thesis by (simp add: hs_response_def Need)
next
  case (Complete n)
  obtain s d where sd: "hs_stage (hs_outbound h) (hs_request h) RESPONSE_READ s d"
      "cn_out (hs_peer h) = s" "d @ unsent (hs_buf h) @ cn_in (hs_peer h) = in0"
      "read_ok RESPONSE_READ (unsent (hs_buf h))"
    using assms by (auto simp: hs_inv_def hs_at_def)
  have "n = length (unsent (hs_buf h))" using sd(4) Complete by (simp add: read_ok_def)
  then have "hs_done in0 h" if "socks5_parse_response (Some (unsent (hs_buf h))) \<noteq> None"
    using sd Complete that unfolding hs_done_def by metis
  then show ?thesis
    by (auto simp: hs_response_def Complete hs_good_def split: option.splits)
qed

lemma process_socks5_turn_good:
  assumes "hs_inv in0 h"
  shows "hs_good in0 (process_socks5_turn h)"
proof (cases "hs_step h")
  case GREETING_WRITE
  then show ?thesis
    using hs_write_good [OF assms, of METHOD_READ] by (simp add: process_socks5_turn_def hs_stage_def)
next
  case METHOD_READ
  have "length (unsent (hs_buf h)) \<le> 2" using METHOD_READ assms by (auto simp: hs_inv_def hs_at_def read_ok_def)
  then have "hs_good in0 (hs_read 2 hs_method h)"
    using METHOD_READ by (intro hs_read_good [OF assms] hs_method_good) (simp_all add: read_ok_def)
  then show ?thesis using METHOD_READ by (simp add: process_socks5_turn_def)
next
  case AUTH_WRITE
  then show ?thesis
    using hs_write_good [OF assms, of AUTH_READ] by (simp add: process_socks5_turn_def hs_stage_def)
next
  case AUTH_READ
  have "length (unsent (hs_buf h)) \<le> 2" using AUTH_READ assms by (auto simp: hs_inv_def hs_at_def read_ok_def)
  then have "hs_good in0 (hs_read 2 hs_auth_reply h)"
    using AUTH_READ by (intro hs_read_good [OF assms] hs_auth_reply_good) (simp_all add: read_ok_def)
  then show ?thesis using AUTH_READ by (simp add: process_socks5_turn_def)
next
  case REQUEST_WRITE
  then show ?thesis
    using hs_write_good [OF assms, of RESPONSE_READ] by (simp add: process_socks5_turn_def hs_stage_def)
next
  case RESPONSE_READ
  then show ?thesis using hs_response_good [OF assms] by (simp add: process_socks5_turn_def)
qed

lemma process_socks5_good:
  "hs_inv in0 h \<Longrightarrow> process_socks5 fuel h = Some (r, h') \<Longrightarrow> hs_good in0 (HS_RETURN r h')"
proof (induction fuel arbitrary: h)
  case (Suc fuel)
  then show ?case
    using process_socks5_turn_good [OF Suc.prems(1)]
    by (auto simp: hs_good_def split: hs_turn.splits)
qed simp

lemma socks5_connect_inv:
  assumes "socks5_connect udp (Some ob) target peer = Inr h" "valid_outbound ob" "trojan_addr_ok target"
    and "cn_out peer = []"
  shows "hs_inv (cn_in peer) h \<and> hs_outbound h = ob \<and> hs_target h = target \<and> hs_udp h = udp"
proof -
  define h0 where "h0 = \<lparr>hs_step = GREETING_WRITE, hs_buf = temp_buf SOCKS5_BUFFER_SIZE, hs_peer = peer,
    hs_udp = udp, hs_outbound = ob, hs_target = target\<rparr>"
  obtain b where b: "socks5_prepare_greeting h0 = Some b" "holds b (hs_greeting ob)"
    using prepare_greeting [of h0] assms(2) by (auto simp: h0_def temp_buf_def)
  have h: "h = h0\<lparr>hs_buf := b\<rparr>"
    using assms(1) b(1) by (auto simp: socks5_connect_def h0_def split: if_splits)
  have "hs_fit h" using b(2) assms(2,3) by (simp add: hs_fit_def h h0_def holds_def)
  moreover have "hs_at (cn_in peer) h (hs_greeting ob) []"
    using b(2) assms(4) by (simp add: hs_at_def h h0_def holds_def)
  ultimately show ?thesis by (auto simp: hs_inv_def h h0_def hs_stage_def)
qed

subsection \<open>The loop ends\<close>

text \<open>The turns that are left: at most four reads of the response, one for every step before.\<close>

definition turns_left :: "handshake \<Rightarrow> nat" where
  "turns_left h =
     (case hs_step h of
        GREETING_WRITE \<Rightarrow> 9 | METHOD_READ \<Rightarrow> 8 | AUTH_WRITE \<Rightarrow> 7 | AUTH_READ \<Rightarrow> 6 | REQUEST_WRITE \<Rightarrow> 5
      | RESPONSE_READ \<Rightarrow>
          (case socks5_response_len (Some (unsent (hs_buf h))) of
             Need n \<Rightarrow> if n \<le> 4 then 4 else if n = 5 then 3 else 2
           | _ \<Rightarrow> 1))"

lemma turns_left_bounds: "1 \<le> turns_left h" "turns_left h \<le> 9"
  by (simp_all add: turns_left_def split: socks5_step.split need.split)

lemma response_need:
  assumes "socks5_response_len (Some s) = Need n" "n \<le> length s'" "take (length s) s' = s"
  shows "\<forall>m. socks5_response_len (Some s') = Need m \<longrightarrow> n = 4 \<and> 5 \<le> m \<or> n = 5 \<and> 6 \<le> m"
proof -
  consider "length s < 4" | a b c d r where "s = a # b # c # d # r" by (rule four_cases)
  then show ?thesis
  proof cases
    case 1
    then have "n = 4" using assms(1) by (simp add: socks5_response_len_def)
    then show ?thesis using assms(2) response_len.need_gt [of s'] by fastforce
  next
    case 2
    then obtain r' where s': "s' = a # b # c # d # r'"
      using assms(3) by (metis append_Cons append_take_drop_id)
    have pre: "take (length r) r' = r" using assms(3) by (simp add: 2 s')
    show ?thesis
    proof (cases "d = ADDR_DOMAIN")
      case True
      then show ?thesis
        using assms(1,2) pre unfolding 2(1) s'
        by (cases r; cases r')
          (auto simp: socks5_response_len_def socks5_addr_len_def Let_def wire_defs split: if_splits need.splits)
    next
      case False
      then show ?thesis
        using assms(1,2) unfolding 2(1) s'
        by (auto simp: socks5_response_len_def socks5_addr_len_def Let_def wire_defs split: if_splits need.splits)
    qed
  qed
qed

lemma hs_read_continue:
  assumes "hs_read needed k h = HS_CONTINUE h'" "buf_ok (hs_buf h)" "nb_pos (hs_buf h) = 0"
  shows "\<exists>h1. k h1 = HS_CONTINUE h' \<and> hs_step h1 = hs_step h \<and> needed \<le> length (unsent (hs_buf h1)) \<and>
    take (length (unsent (hs_buf h))) (unsent (hs_buf h1)) = unsent (hs_buf h)"
proof -
  obtain r b c where f: "fill needed (hs_buf h) (hs_peer h) = (r, b, c)" by (metis prod_cases3)
  note F = fill_facts [OF f assms(2,3)]
  have r: "r = IO_OK" "k (h\<lparr>hs_buf := b, hs_peer := c\<rparr>) = HS_CONTINUE h'"
    using assms(1) by (auto simp: hs_read_def f Let_def split: io.splits)
  have "take (length (unsent (hs_buf h))) (unsent b) = unsent (hs_buf h)"
    using F by (metis append_eq_append_conv_if append_take_drop_id)
  then show ?thesis using r F by (intro exI [of _ "h\<lparr>hs_buf := b, hs_peer := c\<rparr>"]) simp
qed

lemma hs_send_step: "hs_send nxt s b h = HS_CONTINUE h' \<Longrightarrow> hs_step h' = nxt"
  by (auto simp: hs_send_def split: option.splits)

lemma hs_write_step: "hs_write nxt h = HS_CONTINUE h' \<Longrightarrow> hs_step h' = nxt \<and> unsent (hs_buf h') = []"
  by (auto simp: hs_write_def empty_buf_def unsent_def Let_def split: prod.splits io.splits)

lemma turns_left_step:
  assumes "hs_inv in0 h" "process_socks5_turn h = HS_CONTINUE h'"
  shows "turns_left h' < turns_left h"
proof -
  have ok: "buf_ok (hs_buf h)" using assms(1) by (simp add: hs_inv_def hs_fit_def)
  have pos: "\<not> writing (hs_step h) \<Longrightarrow> nb_pos (hs_buf h) = 0"
    using assms(1) by (auto simp: hs_inv_def hs_at_def)
  show ?thesis
  proof (cases "hs_step h")
    case GREETING_WRITE
    then show ?thesis
      using hs_write_step [of METHOD_READ h h'] assms(2) by (simp add: process_socks5_turn_def turns_left_def)
  next
    case METHOD_READ
    then obtain h1 where "hs_method h1 = HS_CONTINUE h'"
      using hs_read_continue [OF _ ok pos, of 2 hs_method h'] assms(2) by (auto simp: process_socks5_turn_def)
    then have "hs_step h' \<in> {AUTH_WRITE, REQUEST_WRITE}"
      by (auto simp: hs_method_def dest: hs_send_step split: option.splits bool.splits)
    with METHOD_READ show ?thesis by (auto simp: turns_left_def)
  next
    case AUTH_WRITE
    then show ?thesis
      using hs_write_step [of AUTH_READ h h'] assms(2) by (simp add: process_socks5_turn_def turns_left_def)
  next
    case AUTH_READ
    then obtain h1 where "hs_auth_reply h1 = HS_CONTINUE h'"
      using hs_read_continue [OF _ ok pos, of 2 hs_auth_reply h'] assms(2) by (auto simp: process_socks5_turn_def)
    then have "hs_step h' = REQUEST_WRITE"
      by (auto simp: hs_auth_reply_def dest: hs_send_step split: if_splits)
    with AUTH_READ show ?thesis by (simp add: turns_left_def)
  next
    case REQUEST_WRITE
    then have "hs_step h' = RESPONSE_READ \<and> unsent (hs_buf h') = []"
      using hs_write_step [of RESPONSE_READ h h'] assms(2) by (simp add: process_socks5_turn_def)
    with REQUEST_WRITE show ?thesis by (simp add: turns_left_def socks5_response_len_def)
  next
    case RESPONSE_READ
    then obtain n where n: "socks5_response_len (Some (unsent (hs_buf h))) = Need n"
        "hs_read n HS_CONTINUE h = HS_CONTINUE h'"
      using assms(2) by (auto simp: process_socks5_turn_def hs_response_def split: need.splits option.splits)
    have "hs_step h' = RESPONSE_READ" "n \<le> length (unsent (hs_buf h'))"
      "take (length (unsent (hs_buf h))) (unsent (hs_buf h')) = unsent (hs_buf h)"
      using hs_read_continue [OF n(2) ok pos] RESPONSE_READ by auto
    then show ?thesis
      using RESPONSE_READ response_need [OF n(1), of "unsent (hs_buf h')"] n(1)
      by (auto simp: turns_left_def split: need.splits)
  qed
qed

lemma process_socks5_ends:
  "hs_inv in0 h \<Longrightarrow> turns_left h \<le> fuel \<Longrightarrow> \<exists>r h'. process_socks5 fuel h = Some (r, h')"
proof (induction fuel arbitrary: h)
  case 0
  then show ?case using turns_left_bounds(1) [of h] by simp
next
  case (Suc fuel)
  show ?case
  proof (cases "process_socks5_turn h")
    case (HS_CONTINUE h')
    then have "hs_inv in0 h'" using process_socks5_turn_good [OF Suc.prems(1)] by (simp add: hs_good_def)
    moreover have "turns_left h' \<le> fuel" using turns_left_step [OF Suc.prems(1) HS_CONTINUE] Suc.prems(2) by simp
    ultimately show ?thesis using Suc.IH HS_CONTINUE by simp
  qed simp
qed

subsection \<open>All calls of a handshake\<close>

text \<open>The states between the calls of the handler. Before a call the sockets may behave in any way and
  more may have arrived: the stream \<open>in0\<close> holds all that ever arrives, the scripts say when.\<close>

inductive handshake_run :: "handshake \<Rightarrow> handshake \<Rightarrow> bool" for h0 where
  run_start: "handshake_run h0 h0"
| run_wait: "handshake_run h0 h \<Longrightarrow>
    process_socks5 9 (h\<lparr>hs_peer := (hs_peer h)\<lparr>cn_recvs := recvs, cn_sends := sends\<rparr>\<rparr>) = Some (HS_WAIT, h') \<Longrightarrow>
    handshake_run h0 h'"

lemma hs_inv_scripts:
  "hs_inv in0 h \<Longrightarrow> hs_inv in0 (h\<lparr>hs_peer := (hs_peer h)\<lparr>cn_recvs := recvs, cn_sends := sends\<rparr>\<rparr>)"
proof -
  let ?h = "h\<lparr>hs_peer := (hs_peer h)\<lparr>cn_recvs := recvs, cn_sends := sends\<rparr>\<rparr>"
  have "hs_fit ?h = hs_fit h" "hs_at in0 ?h = hs_at in0 h" by (simp_all add: hs_fit_def hs_at_def fun_eq_iff)
  then show "hs_inv in0 h \<Longrightarrow> hs_inv in0 ?h" by (simp add: hs_inv_def)
qed

lemma handshake_run_inv:
  assumes "handshake_run h0 h" "hs_inv in0 h0"
  shows "hs_inv in0 h"
  using assms
proof (induction rule: handshake_run.induct)
  case (run_wait h recvs sends h')
  then show ?case
    using process_socks5_good [OF hs_inv_scripts run_wait.hyps(2)] by (simp add: hs_good_def)
qed simp

text \<open>An outbound with a name, and a server that asks for it and accepts.\<close>

definition sample_outbound :: outbound where
  "sample_outbound = (outbound_init OUTBOUND_SOCKS5)\<lparr>ob_socks5_server := Some (SA4 1 1080),
     ob_socks5_username := Some [109], ob_socks5_password := Some [112]\<rparr>"

definition sample_peer :: conn where
  "sample_peer = \<lparr>cn_in = [5, 2, 1, 0, 5, 0, 0, 1, 127, 0, 0, 1, 0, 80, 71], cn_recvs = [], cn_out = [],
     cn_sends = [], cn_eof = False, cn_error = False\<rparr>"

definition sample_target :: addr_t where
  "sample_target = addr_of ADDR_DOMAIN [97, 98] 443 6"

lemma sample_ok: "valid_outbound sample_outbound" "trojan_addr_ok sample_target" "cn_out sample_peer = []"
  by (simp_all add: sample_outbound_def valid_outbound_def outbound_init_def text_len_def sample_target_def
      trojan_addr_ok_def valid_addr_cases trojan_addr_len_def wire_defs sample_peer_def)

definition sample_start :: handshake where
  "sample_start = (case socks5_connect False (Some sample_outbound) sample_target sample_peer of Inr h \<Rightarrow> h)"

lemma sample_connect: "socks5_connect False (Some sample_outbound) sample_target sample_peer = Inr sample_start"
proof -
  define h0 where "h0 = \<lparr>hs_step = GREETING_WRITE, hs_buf = temp_buf SOCKS5_BUFFER_SIZE, hs_peer = sample_peer,
    hs_udp = False, hs_outbound = sample_outbound, hs_target = sample_target\<rparr>"
  obtain b where "socks5_prepare_greeting h0 = Some b"
    using prepare_greeting [of h0] sample_ok(1) by (auto simp: h0_def temp_buf_def)
  moreover have "ob_socks5_server sample_outbound \<noteq> None" by (simp add: sample_outbound_def)
  ultimately have "socks5_connect False (Some sample_outbound) sample_target sample_peer = Inr (h0\<lparr>hs_buf := b\<rparr>)"
    by (simp add: socks5_connect_def h0_def)
  then show ?thesis by (simp add: sample_start_def)
qed

text \<open>C22: Every call of \<open>process_socks5\<close> returns: in every state that a handshake with a valid outbound
  and a well-formed target reaches, whatever the sockets did and do, at most nine turns of the
  loop are made.\<close>

theorem process_socks5_terminates:
  assumes "socks5_connect udp (Some ob) target peer = Inr h0" "valid_outbound ob" "trojan_addr_ok target"
    and "cn_out peer = []" "handshake_run h0 h"
  shows "\<exists>r h'. process_socks5 9 (h\<lparr>hs_peer := (hs_peer h)\<lparr>cn_recvs := recvs, cn_sends := sends\<rparr>\<rparr>) = Some (r, h')"
proof -
  have "hs_inv (cn_in peer) h"
    using handshake_run_inv [OF assms(5)] socks5_connect_inv [OF assms(1-4)] by blast
  then show ?thesis
    using process_socks5_ends [OF hs_inv_scripts turns_left_bounds(2)] by blast
qed

theorem process_socks5_terminates_witness:
  "\<exists>r h'. process_socks5 9 (sample_start\<lparr>hs_peer :=
     (hs_peer sample_start)\<lparr>cn_recvs := [RECVD 1, RECV_AGAIN], cn_sends := [SENT 2, SENT 9]\<rparr>\<rparr>) = Some (r, h')"
  by (rule process_socks5_terminates [OF sample_connect sample_ok run_start])

text \<open>C9: The handshake with a SOCKS5 server sends and takes exactly what the protocol asks for. When it
  ends well, the module has sent the greeting, the name and password only if the server chose that
  method (and a name is configured), and one request with the target; it has taken from the
  connection the answers and one complete response that the parser accepts, however the bytes were
  split, and not one byte behind it: those are left for the relay.\<close>

theorem handshake_exact:
  assumes "socks5_connect udp (Some ob) target peer = Inr h0" "valid_outbound ob" "trojan_addr_ok target"
    and "cn_out peer = []" "handshake_run h0 h"
    and "process_socks5 9 (h\<lparr>hs_peer := (hs_peer h)\<lparr>cn_recvs := recvs, cn_sends := sends\<rparr>\<rparr>) = Some (r, h')"
    and "r = HS_PROXY \<or> r = HS_RELAY bind_addr"
  shows "\<exists>d resp. cn_in peer = d @ resp @ cn_in (hs_peer h') \<and>
    socks5_response_len (Some resp) = Complete (length resp) \<and> socks5_parse_response (Some resp) \<noteq> None \<and>
    (d = [5, 0] \<and> cn_out (hs_peer h') = hs_greeting (hs_outbound h') @ hs_request h' \<or>
     d = [5, 2, 1, 0] \<and> ob_socks5_username (hs_outbound h') \<noteq> None \<and>
     cn_out (hs_peer h') = hs_greeting (hs_outbound h') @ hs_auth (hs_outbound h') @ hs_request h')"
proof -
  have "hs_inv (cn_in peer) h"
    using handshake_run_inv [OF assms(5)] socks5_connect_inv [OF assms(1-4)] by blast
  then have "hs_good (cn_in peer) (HS_RETURN r h')"
    using process_socks5_good [OF hs_inv_scripts assms(6)] by blast
  then have "hs_done (cn_in peer) h'" using assms(7) by (auto simp: hs_good_def)
  then show ?thesis by (auto simp: hs_done_def hs_stage_def)
qed

lemma sample_proxy_end:
  "case process_socks5 9 (sample_start\<lparr>hs_peer :=
      (hs_peer sample_start)\<lparr>cn_recvs := replicate 9 (RECVD 10), cn_sends := replicate 9 (SENT 50)\<rparr>\<rparr>) of
     Some (HS_PROXY, h') \<Rightarrow> True | _ \<Rightarrow> False"
  by code_simp

theorem handshake_exact_witness:
  "\<exists>h' d resp. process_socks5 9 (sample_start\<lparr>hs_peer :=
     (hs_peer sample_start)\<lparr>cn_recvs := replicate 9 (RECVD 10), cn_sends := replicate 9 (SENT 50)\<rparr>\<rparr>) =
       Some (HS_PROXY, h') \<and> cn_in sample_peer = d @ resp @ cn_in (hs_peer h') \<and>
     socks5_parse_response (Some resp) \<noteq> None"
proof -
  obtain h' where h': "process_socks5 9 (sample_start\<lparr>hs_peer :=
     (hs_peer sample_start)\<lparr>cn_recvs := replicate 9 (RECVD 10), cn_sends := replicate 9 (SENT 50)\<rparr>\<rparr>) =
       Some (HS_PROXY, h')"
    using sample_proxy_end by (auto split: option.splits hs_result.splits prod.splits)
  show ?thesis
    using handshake_exact [OF sample_connect sample_ok run_start h', of zero_bind_addr] h' by blast
qed

end
