(* ===== verification/Mt_Inbound_Props.thy ===== *)
theory Mt_Inbound_Props
  imports Mt_Inbound Mt_Front_Props Mt_Handshake_Props
begin

text \<open>
  The local proxies take from the client exactly its greeting and request, answer with exactly the
  messages of the protocol, and leave the rest for the relay; the one place where they look at a context
  that has been freed.
\<close>

subsection \<open>Buffers of a session\<close>

definition buf_good :: "nbuf \<Rightarrow> bool" where
  "buf_good b \<longleftrightarrow> buf_ok b \<and> length (nb_data b) = SOCKS5_BUFFER_SIZE"

lemma buf_good_temp: "buf_good (temp_buf SOCKS5_BUFFER_SIZE)" "unsent (temp_buf n) = []" "nb_pos (temp_buf n) = 0"
  by (simp_all add: buf_good_def temp_buf_def buf_ok_def unsent_def)

text \<open>What has been read and not yet used, and what is ready to be sent.\<close>

definition held :: "session \<Rightarrow> bytes" where
  "held s = unsent (in_buffer (ss_socks5_buffer s))"

text \<open>Reading a message of the format \<open>len\<close>: the client has sent \<open>rest\<close> behind what was taken before and
  has been sent \<open>sent\<close>; nothing behind the message is taken.\<close>

definition socks5_reading :: "(cptr \<Rightarrow> need) \<Rightarrow> bytes \<Rightarrow> bytes \<Rightarrow> session \<Rightarrow> bool" where
  "socks5_reading len rest sent s \<longleftrightarrow>
     buf_good (in_buffer (ss_socks5_buffer s)) \<and> nb_pos (in_buffer (ss_socks5_buffer s)) = 0 \<and>
     held s @ cn_in (ss_client s) = rest \<and> cn_out (ss_client s) = sent \<and>
     (\<forall>n. len (Some (held s)) = Complete n \<longrightarrow> length (held s) = n)"

text \<open>Sending: \<open>msg\<close> is what the client will have been sent in the end.\<close>

definition socks5_writing :: "bytes \<Rightarrow> bytes \<Rightarrow> session \<Rightarrow> bool" where
  "socks5_writing rest msg s \<longleftrightarrow>
     buf_good (in_buffer (ss_socks5_buffer s)) \<and> cn_in (ss_client s) = rest \<and>
     cn_out (ss_client s) @ held s = msg"

lemma socks5_in_read_facts:
  assumes "socks5_in_read n s = (r, s')" "buf_good (in_buffer (ss_socks5_buffer s))"
    and "nb_pos (in_buffer (ss_socks5_buffer s)) = 0"
  shows "\<exists>b c. s' = s\<lparr>ss_socks5_buffer := Some b, ss_client := c\<rparr> \<and> buf_good b \<and> nb_pos b = 0 \<and>
    unsent b @ cn_in c = held s @ cn_in (ss_client s) \<and> cn_out c = cn_out (ss_client s) \<and>
    length (held s) \<le> length (unsent b) \<and> length (unsent b) \<le> max n (length (held s)) \<and>
    (r = IO_OK \<longrightarrow> n \<le> length (unsent b))"
proof -
  obtain r0 b c where f: "fill n (in_buffer (ss_socks5_buffer s)) (ss_client s) = (r0, b, c)" by (metis prod_cases3)
  have "r = r0" "s' = s\<lparr>ss_socks5_buffer := Some b, ss_client := c\<rparr>"
    using assms(1) by (simp_all add: socks5_in_read_def f)
  then show ?thesis using fill_facts [OF f] assms(2,3) by (auto simp: buf_good_def held_def)
qed

lemma socks5_in_flush_facts:
  assumes "socks5_in_flush s = (r, s')" "socks5_writing rest msg s"
  shows "\<exists>b c. s' = s\<lparr>ss_socks5_buffer := Some b, ss_client := c\<rparr> \<and> socks5_writing rest msg s' \<and>
    nb_data b = nb_data (in_buffer (ss_socks5_buffer s)) \<and>
    (r = IO_OK \<longrightarrow> held s' = [] \<and> cn_out (ss_client s') = msg)"
proof -
  obtain r0 b c where f: "flush (in_buffer (ss_socks5_buffer s)) (ss_client s) = (r0, b, c)" by (metis prod_cases3)
  have "r = r0" "s' = s\<lparr>ss_socks5_buffer := Some b, ss_client := c\<rparr>"
    using assms(1) by (simp_all add: socks5_in_flush_def f)
  then show ?thesis using flush_facts [OF f] assms(2)
    by (auto simp: socks5_writing_def buf_good_def held_def in_buffer_def)
qed

text \<open>A turn of a reading state, for the formats of \<open>Mt_Socks5\<close>.\<close>

lemma socks5_in_message_cases:
  assumes "socks5_in_message len k s w = t" "socks5_reading len rest sent s" "incremental (\<lambda>s. len (Some s))"
  obtains (more) b c out where "socks5_reading len rest sent (s\<lparr>ss_socks5_buffer := Some b, ss_client := c\<rparr>)"
      "t = IN_CONTINUE (s\<lparr>ss_socks5_buffer := Some b, ss_client := c\<rparr>) \<or>
       out \<in> {OUT_WAIT, OUT_FINALIZE S_BAD_REQUEST} \<and>
       t = IN_RETURN out (s\<lparr>ss_socks5_buffer := Some b, ss_client := c\<rparr>) w"
  | (bad) "t = IN_RETURN (OUT_FINALIZE S_BAD_REQUEST) s w"
  | (complete) "len (Some (held s)) = Complete (length (held s))" "t = k s w"
proof (cases "len (Some (held s))")
  case (Complete n)
  then show thesis using assms(1,2) complete by (simp add: socks5_in_message_def socks5_reading_def held_def)
next
  case (Need n)
  note need_gt = incremental.need_gt [OF assms(3)] and need_le = incremental.need_le [OF assms(3)]
    and complete_le = incremental.complete_le [OF assms(3)]
  obtain r s1 where rd: "socks5_in_read n s = (r, s1)" by (metis surj_pair)
  obtain b c where F: "s1 = s\<lparr>ss_socks5_buffer := Some b, ss_client := c\<rparr>" "buf_good b" "nb_pos b = 0"
      "unsent b @ cn_in c = held s @ cn_in (ss_client s)" "cn_out c = cn_out (ss_client s)"
      "length (held s) \<le> length (unsent b)" "length (unsent b) \<le> max n (length (held s))"
    using socks5_in_read_facts [OF rd] assms(2) by (auto simp: socks5_reading_def)
  have n: "length (held s) < n" by (rule need_gt [OF Need])
  obtain e where e: "unsent b = held s @ e"
    using F(4,6) by (metis append_eq_append_conv_if append_take_drop_id)
  have "length (unsent b) = m" if "len (Some (unsent b)) = Complete m" for m
    using need_le [OF Need, of e m] complete_le [OF that] F(7) n that by (simp add: e)
  then have R: "socks5_reading len rest sent s1"
    using F assms(2) by (auto simp: socks5_reading_def held_def in_buffer_def)
  show thesis
    by (rule more [where b = b and c = c and out = "if r = IO_AGAIN then OUT_WAIT else OUT_FINALIZE S_BAD_REQUEST"])
      (use R assms(1) Need rd F(1) in \<open>auto simp: socks5_in_message_def held_def split: io.splits\<close>)
next
  case Malformed
  then show thesis using assms(1) bad by (simp add: socks5_in_message_def held_def)
qed

subsection \<open>The invariant of the SOCKS5 proxy\<close>

definition greeted :: "bytes \<Rightarrow> bool" where
  "greeted g \<longleftrightarrow> socks5_greeting_len (Some g) = Complete (length g) \<and>
     socks5_select_method (Some g) = Some METHOD_NO_AUTH"

definition requested :: "front \<Rightarrow> bytes \<Rightarrow> session \<Rightarrow> bool" where
  "requested fr r s \<longleftrightarrow> socks5_request_len (Some r) = Complete (length r) \<and>
     (\<exists>cmd t. socks5_parse_request (Some r) = Some (cmd, t) \<and> resolved_target (fr_env fr) t (ss_target s) \<and>
        ss_command s = (if cmd = SOCKS5_CMD_CONNECT then CMD_CONNECT else CMD_UDP_ASSOCIATE))"

definition method_reply :: bytes where
  "method_reply = [SOCKS5_VERSION, METHOD_NO_AUTH]"

definition reply :: "byte \<Rightarrow> addr_t \<Rightarrow> bytes" where
  "reply status a = [SOCKS5_VERSION, status, 0] @ trojan_addr_wire (addr_type a) (host_bytes a) (addr_port a)"

text \<open>The address in the answer: of the UDP socket for an association, else zero.\<close>

definition reply_addr :: "front \<Rightarrow> session \<Rightarrow> addr_t option" where
  "reply_addr fr s =
     (if ss_in_status s = SOCKS5_STATUS_OK \<and> ss_command s = CMD_UDP_ASSOCIATE then socks5_udp_bind_addr fr
      else Some zero_bind_addr)"

text \<open>IPv6 addresses have sixteen bytes.\<close>

definition bound_ok :: "front \<Rightarrow> bool" where
  "bound_ok fr \<longleftrightarrow> (\<forall>v6 a p. fr_bound fr v6 = Some (SA6 a p) \<longrightarrow> length a = 16)"

definition answering :: "front \<Rightarrow> bytes \<Rightarrow> session \<Rightarrow> bool" where
  "answering fr in0 s \<longleftrightarrow> ss_in_step s = IN_RESPONSE_WRITE \<and> buf_good (in_buffer (ss_socks5_buffer s)) \<and>
     (ss_in_status s = SOCKS5_STATUS_OK \<longrightarrow>
       (\<exists>g r a rest. in0 = g @ r @ rest \<and> greeted g \<and> requested fr r s \<and> reply_addr fr s = Some a \<and>
          socks5_writing rest (method_reply @ reply SOCKS5_STATUS_OK a) s))"

definition socks5_inv :: "front \<Rightarrow> bytes \<Rightarrow> session \<Rightarrow> bool" where
  "socks5_inv fr in0 s \<longleftrightarrow>
     ss_state s = ST_SOCKS5_IN_GREETING \<and> ss_in_step s = IN_GREETING \<and> socks5_reading socks5_greeting_len in0 [] s \<or>
     ss_state s = ST_SOCKS5_IN_REQUEST \<and>
       (\<exists>g rest. in0 = g @ rest \<and> greeted g \<and> socks5_reading socks5_request_len rest method_reply s) \<or>
     ss_state s = ST_SOCKS5_IN_RESPONSE \<and>
       (ss_in_step s = IN_METHOD_WRITE \<and> (\<exists>g rest. in0 = g @ rest \<and> greeted g \<and> socks5_writing rest method_reply s) \<or>
        ss_in_step s = IN_GREETING \<and> buf_good (in_buffer (ss_socks5_buffer s)) \<and>
          nb_data (in_buffer (ss_socks5_buffer s)) ! 1 = METHOD_NONE \<or>
        answering fr in0 s)"

definition socks5_accepted :: "front \<Rightarrow> bytes \<Rightarrow> session \<Rightarrow> bool" where
  "socks5_accepted fr in0 s \<longleftrightarrow>
     (\<exists>g r a. in0 = g @ r @ cn_in (ss_client s) \<and> greeted g \<and> requested fr r s \<and> reply_addr fr s = Some a \<and>
        cn_out (ss_client s) = method_reply @ reply SOCKS5_STATUS_OK a)"

text \<open>The session goes on: a connection, a handshake, a resolver or the UDP relay.\<close>

definition going :: "outcome \<Rightarrow> bool" where
  "going out \<longleftrightarrow> out \<notin> {OUT_WAIT, OUT_USE_AFTER_FREE, OUT_ROUTE_LATER} \<and> (\<forall>st. out \<noteq> OUT_FINALIZE st)"

definition socks5_good :: "front \<Rightarrow> bytes \<Rightarrow> outcome \<Rightarrow> session \<Rightarrow> bool" where
  "socks5_good fr in0 out s \<longleftrightarrow> (out = OUT_WAIT \<longrightarrow> socks5_inv fr in0 s) \<and> (going out \<longrightarrow> socks5_accepted fr in0 s) \<and>
     (out = OUT_USE_AFTER_FREE \<longrightarrow> socks5_udp_bind_addr fr = None)"

subsection \<open>Its steps\<close>

lemma reply_addr_ok:
  assumes "bound_ok fr" "reply_addr fr s = Some a"
  shows "trojan_addr_ok a"
proof -
  have "trojan_addr_ok b" if bind: "socks5_udp_bind_addr fr = Some b" for b
  proof -
    obtain v6 sa where sa: "fr_bound fr v6 = Some sa" "sockaddr_to_addr sa = Some b"
      using bind by (auto simp: socks5_udp_bind_addr_def split: option.splits sockaddr.splits)
    have "\<And>c p. sa = SA6 c p \<Longrightarrow> length c = 16" using assms(1) sa(1) unfolding bound_ok_def by blast
    then show ?thesis using sockaddr_to_addr_ok [OF sa(2)] by simp
  qed
  then show ?thesis using assms(2) zero_bind_addr_ok by (auto simp: reply_addr_def split: if_splits)
qed

lemma prepare_response:
  assumes "socks5_in_prepare_response fr status s = r" "buf_good (in_buffer (ss_socks5_buffer s))" "bound_ok fr"
  shows "case r of
      None \<Rightarrow> socks5_udp_bind_addr fr = None \<and> status = SOCKS5_STATUS_OK \<and> ss_command s = CMD_UDP_ASSOCIATE
    | Some s' \<Rightarrow> \<exists>b a. s' = s\<lparr>ss_in_status := status, ss_socks5_buffer := Some b\<rparr> \<and> buf_good b \<and>
        reply_addr fr s' = Some a \<and> unsent b = reply status a"
proof -
  let ?s = "s\<lparr>ss_in_status := status\<rparr>" and ?d = "nb_data (in_buffer (ss_socks5_buffer s))"
  have ra: "reply_addr fr ?s = (if status = SOCKS5_STATUS_OK \<and> ss_command s = CMD_UDP_ASSOCIATE
      then socks5_udp_bind_addr fr else Some zero_bind_addr)" by (simp add: reply_addr_def)
  show ?thesis
  proof (cases "reply_addr fr ?s")
    case None
    then show ?thesis using assms(1) ra by (auto simp: socks5_in_prepare_response_def Let_def split: if_splits)
  next
    case (Some a)
    have ok: "trojan_addr_ok a" by (rule reply_addr_ok [OF assms(3) Some])
    have d: "length ?d = SOCKS5_BUFFER_SIZE" using assms(2) by (simp add: buf_good_def)
    have w: "3 + addr_wire_len a \<le> length ?d" using addr_wire_len_le [OF ok] d by (simp add: SOCKS5_BUFFER_SIZE_def)
    have l: "length (reply status a) = 3 + addr_wire_len a"
      using ok host_bytes_len [OF ok] by (simp add: reply_def trojan_addr_ok_def)
    have "socks5_build_response status (Some a) (Some ?d) =
        (Some (3 + addr_wire_len a), Some (reply status a @ drop (3 + addr_wire_len a) ?d))"
      using socks5_build_response_ok [OF ok w] by (simp add: reply_def)
    then obtain b where b: "built (socks5_build_response status (Some a) (Some ?d)) = Some b" "holds b (reply status a)"
      using holds_built [OF l w d] by auto
    have "r = Some (?s\<lparr>ss_socks5_buffer := Some b\<rparr>)"
      using assms(1) b(1) Some ra by (simp add: socks5_in_prepare_response_def Let_def)
    then show ?thesis using b(2) Some
      by (auto simp: holds_def buf_good_def reply_addr_def)
  qed
qed

lemma start_tcp_status:
  "start_tcp fr s w = (out, s') \<Longrightarrow> ss_in_status s' = ss_in_status s \<and> ss_http_status s' = ss_http_status s \<and>
     ss_pending_to_upstream s' \<in> {ss_pending_to_upstream s, Some (temp_buf 1)} \<and>
     (ss_pending_to_upstream s \<noteq> None \<longrightarrow> ss_pending_to_upstream s' = ss_pending_to_upstream s)"
  using ensure_pending_cases [of s]
  by (auto simp: start_tcp_def Let_def resolve_tcp_handler_def connect_def ensure_pending_def set_pending_def
      split: if_splits resolve_call.splits option.splits)

lemma done_good:
  assumes "socks5_in_done fr s w = (out, s')" "answering fr in0 s" "held s = []"
  shows "going out \<longrightarrow> socks5_accepted fr in0 s'" "out \<noteq> OUT_USE_AFTER_FREE" "out \<noteq> OUT_WAIT"
proof -
  have acc: "socks5_accepted fr in0 t" if st: "ss_in_status s = SOCKS5_STATUS_OK" "ss_client t = ss_client s"
      "ss_command t = ss_command s" "ss_target t = ss_target s" "ss_in_status t = ss_in_status s" for t
  proof -
    obtain g r a rest where "in0 = g @ r @ rest" "greeted g" "requested fr r s" "reply_addr fr s = Some a"
        "socks5_writing rest (method_reply @ reply SOCKS5_STATUS_OK a) s"
      using assms(2) st(1) by (auto simp: answering_def)
    then show ?thesis using st assms(3)
      unfolding socks5_accepted_def socks5_writing_def requested_def reply_addr_def
      by (intro exI [of _ g] exI [of _ r] exI [of _ a]) simp
  qed
  have tcp: "start_tcp fr s w = (out, s') \<Longrightarrow> ss_client s' = ss_client s \<and> ss_command s' = ss_command s \<and>
      ss_target s' = ss_target s \<and> ss_in_status s' = ss_in_status s \<and> out \<noteq> OUT_USE_AFTER_FREE \<and> out \<noteq> OUT_WAIT"
    using start_tcp_routed [of fr s w out s'] start_tcp_status [of fr s w out s'] by (auto simp: routed_def)
  show "going out \<longrightarrow> socks5_accepted fr in0 s'" "out \<noteq> OUT_USE_AFTER_FREE" "out \<noteq> OUT_WAIT"
    using assms(1) tcp acc by (auto simp: socks5_in_done_def going_def split: if_splits)
qed

text \<open>The answer after the route: \<open>s\<close> holds a complete request, \<open>u\<close> is the session once it is routed.\<close>

lemma socks5_in_routed_good:
  assumes "socks5_in_routed fr u w = (out, s')" "bound_ok fr"
    and "in0 = g @ r @ cn_in (ss_client u)" "greeted g" "requested fr r u" "cn_out (ss_client u) = method_reply"
    and "buf_good (in_buffer (ss_socks5_buffer u))"
  shows "socks5_good fr in0 out s'"
proof (cases "socks5_in_after_route fr u w")
  case None
  then have "out = OUT_USE_AFTER_FREE" using assms(1) by (simp add: socks5_in_routed_def)
  moreover have "socks5_udp_bind_addr fr = None"
    using None prepare_response [where status = "0x07", OF refl assms(7,2)]
      prepare_response [where status = "0x02", OF refl assms(7,2)]
      prepare_response [where status = SOCKS5_STATUS_OK, OF refl assms(7,2)]
    by (auto simp: socks5_in_after_route_def split: if_splits option.splits)
  ultimately show ?thesis by (simp add: socks5_good_def going_def)
next
  case (Some v)
  then obtain status t where t: "v = respond t" "socks5_in_prepare_response fr status u = Some t"
    by (auto simp: socks5_in_after_route_def split: if_splits)
  obtain b a where b: "t = u\<lparr>ss_in_status := status, ss_socks5_buffer := Some b\<rparr>" "buf_good b"
      "reply_addr fr t = Some a" "unsent b = reply status a"
    using prepare_response [OF t(2) assms(7,2)] by auto
  have w: "socks5_writing (cn_in (ss_client u)) (method_reply @ reply status a) v"
    using b assms(6) by (simp add: socks5_writing_def held_def in_buffer_def t(1) respond_def)
  have ans: "answering fr in0 x" if "ss_in_step x = IN_RESPONSE_WRITE" "ss_in_status x = status"
      "socks5_writing (cn_in (ss_client u)) (method_reply @ reply status a) x"
      "ss_command x = ss_command u" "ss_target x = ss_target u" for x
  proof -
    have "requested fr r x" "reply_addr fr x = reply_addr fr t"
      using that assms(5) by (simp_all add: requested_def reply_addr_def b(1))
    then have "\<exists>g r a rest. in0 = g @ r @ rest \<and> greeted g \<and> requested fr r x \<and> reply_addr fr x = Some a \<and>
        socks5_writing rest (method_reply @ reply status a) x"
      using that assms(3,4) b(3)
      by (intro exI [of _ g] exI [of _ r] exI [of _ a] exI [of _ "cn_in (ss_client u)"]) simp
    moreover have "buf_good (in_buffer (ss_socks5_buffer x))" using that(3) by (simp add: socks5_writing_def)
    ultimately show ?thesis using that(1) unfolding answering_def that(2) by blast
  qed
  obtain io x where fl: "socks5_in_flush v = (io, x)" by (metis surj_pair)
  obtain b' c where x: "x = v\<lparr>ss_socks5_buffer := Some b', ss_client := c\<rparr>"
      "socks5_writing (cn_in (ss_client u)) (method_reply @ reply status a) x" "io = IO_OK \<longrightarrow> held x = []"
    using socks5_in_flush_facts [OF fl w] by auto
  have X: "answering fr in0 x" "ss_state x = ST_SOCKS5_IN_RESPONSE"
    using ans [of x] x by (simp_all add: t(1) b(1) respond_def)
  show ?thesis
  proof (cases io)
    case IO_OK
    then have "socks5_in_done fr x w = (out, s')" using assms(1) Some fl by (simp add: socks5_in_routed_def)
    from done_good [OF this X(1)] x(3) IO_OK show ?thesis by (auto simp: socks5_good_def)
  next
    case IO_AGAIN
    then have "out = OUT_WAIT" "s' = x" using assms(1) Some fl by (simp_all add: socks5_in_routed_def)
    then show ?thesis using X by (simp add: socks5_good_def socks5_inv_def going_def)
  next
    case IO_ERROR
    then have "out = OUT_FINALIZE S_BAD_GATEWAY" using assms(1) Some fl by (simp add: socks5_in_routed_def)
    then show ?thesis by (simp add: socks5_good_def going_def)
  qed
qed

definition turn_good :: "front \<Rightarrow> bytes \<Rightarrow> in_turn \<Rightarrow> bool" where
  "turn_good fr in0 t \<longleftrightarrow>
     (case t of IN_RETURN out s w \<Rightarrow> socks5_good fr in0 out s | IN_CONTINUE s \<Rightarrow> socks5_inv fr in0 s)"

lemma socks5_good_final [simp]: "socks5_good fr in0 (OUT_FINALIZE st) s"
  by (simp add: socks5_good_def going_def)

lemma turn_good_final [simp]: "turn_good fr in0 (IN_RETURN (OUT_FINALIZE st) s w)"
  by (simp add: turn_good_def)

text \<open>The greeting.\<close>

lemma greeting_good:
  assumes "socks5_reading socks5_greeting_len in0 [] s" "ss_state s = ST_SOCKS5_IN_GREETING" "ss_in_step s = IN_GREETING"
  shows "turn_good fr in0 (socks5_in_greeting s w)"
proof (cases rule: socks5_in_message_cases [OF refl assms(1) greeting_len.incremental_axioms,
      of "socks5_in_greeted" w, folded socks5_in_greeting_def, consumes 0, case_names more bad complete])
  case (more b c out)
  let ?s = "s\<lparr>ss_socks5_buffer := Some b, ss_client := c\<rparr>"
  have "socks5_inv fr in0 ?s" using more(1) assms(2,3) by (simp add: socks5_inv_def)
  then show ?thesis using more(2) by (auto simp: turn_good_def socks5_good_def going_def)
next
  case complete
  let ?b = "in_buffer (ss_socks5_buffer s)"
  have R: "buf_good ?b" "held s @ cn_in (ss_client s) = in0" "cn_out (ss_client s) = []"
    using assms(1) by (simp_all add: socks5_reading_def)
  obtain d0 d1 d where d: "nb_data ?b = d0 # d1 # d"
    using R(1) by (cases "nb_data ?b"; cases "tl (nb_data ?b)") (auto simp: buf_good_def SOCKS5_BUFFER_SIZE_def)
  let ?b' = "?b\<lparr>nb_pos := 0, nb_last := 2, nb_data := [SOCKS5_VERSION, METHOD_NO_AUTH] @ d\<rparr>"
  have p: "socks5_in_prepare_method s = Some (s\<lparr>ss_socks5_buffer := Some ?b'\<rparr>)"
    by (simp add: socks5_in_prepare_method_def d socks5_build_method_response_def)
  have b': "buf_good ?b'" "unsent ?b' = method_reply"
    using R(1) d by (simp_all add: buf_good_def buf_ok_def unsent_def method_reply_def)
  show ?thesis
  proof (cases "socks5_select_method (Some (held s)) = Some METHOD_NO_AUTH")
    case True
    then have g: "greeted (held s)" using complete(1) by (simp add: greeted_def)
    let ?t = "s\<lparr>ss_socks5_buffer := Some ?b', ss_state := ST_SOCKS5_IN_RESPONSE, ss_in_step := IN_METHOD_WRITE\<rparr>"
    have "socks5_writing (cn_in (ss_client s)) method_reply ?t"
      using R(3) b' by (simp add: socks5_writing_def held_def in_buffer_def)
    then have "socks5_inv fr in0 ?t"
      unfolding socks5_inv_def using g R(2) by auto
    then show ?thesis using complete(2) True p by (simp add: socks5_in_greeted_def turn_good_def held_def)
  next
    case False
    let ?c = "?b'\<lparr>nb_data := [SOCKS5_VERSION, METHOD_NONE] @ d\<rparr>"
    let ?t = "s\<lparr>ss_socks5_buffer := Some ?c, ss_state := ST_SOCKS5_IN_RESPONSE\<rparr>"
    have "buf_good ?c" using b'(1) by (simp add: buf_good_def buf_ok_def)
    then have "socks5_inv fr in0 ?t" using assms(3) by (simp add: socks5_inv_def in_buffer_def)
    then show ?thesis using complete(2) False p
      by (simp add: socks5_in_greeted_def turn_good_def held_def set_byte_1_def in_buffer_def)
  qed
qed simp

text \<open>The answers.\<close>

lemma response_good:
  assumes "socks5_inv fr in0 s" "ss_state s = ST_SOCKS5_IN_RESPONSE"
  shows "turn_good fr in0 (socks5_in_response fr s w)"
proof -
  let ?b = "in_buffer (ss_socks5_buffer s)"
  have good: "buf_good ?b" using assms by (auto simp: socks5_inv_def answering_def socks5_writing_def)
  obtain io x where fl: "socks5_in_flush s = (io, x)" by (metis surj_pair)
  have any: "socks5_writing (cn_in (ss_client s)) (cn_out (ss_client s) @ held s) s"
    using good by (simp add: socks5_writing_def)
  obtain b c where x: "x = s\<lparr>ss_socks5_buffer := Some b, ss_client := c\<rparr>" "nb_data b = nb_data ?b"
      "socks5_writing (cn_in (ss_client s)) (cn_out (ss_client s) @ held s) x"
      "io = IO_OK \<longrightarrow> held x = []"
    using socks5_in_flush_facts [OF fl any] by auto
  have W: "socks5_writing rest msg x" if "socks5_writing rest msg s" for rest msg
    using x(3) that by (simp add: socks5_writing_def)
  have gx: "buf_good b" using x(1,3) by (simp add: socks5_writing_def in_buffer_def)
  have ans: "answering fr in0 x" if "answering fr in0 s"
    using that W gx unfolding answering_def requested_def reply_addr_def
    by (fastforce simp: x(1) in_buffer_def)
  have inv: "socks5_inv fr in0 x"
    using assms W ans gx by (fastforce simp: socks5_inv_def x(1,2) in_buffer_def)
  show ?thesis
  proof (cases io)
    case IO_OK
    consider "ss_in_step s = IN_RESPONSE_WRITE" "answering fr in0 s"
      | g rest where "ss_in_step s = IN_METHOD_WRITE" "in0 = g @ rest" "greeted g" "socks5_writing rest method_reply s"
      | "ss_in_step s = IN_GREETING" "nb_data ?b ! 1 = METHOD_NONE"
      using assms by (auto simp: socks5_inv_def answering_def)
    then show ?thesis
    proof cases
      case 1
      then have "socks5_in_response fr s w = in_return (socks5_in_done fr x w) w"
        using fl IO_OK x(1) by (simp add: socks5_in_response_def)
      then show ?thesis
        using done_good [OF _ ans [OF 1(2)]] x(4) IO_OK
        by (cases "socks5_in_done fr x w") (auto simp: in_return_def turn_good_def socks5_good_def)
    next
      case 2
      let ?t = "s\<lparr>ss_client := c, ss_socks5_buffer := Some (empty_buf b), ss_state := ST_SOCKS5_IN_REQUEST\<rparr>"
      have "cn_out c = method_reply" "cn_in c = rest"
        using W [OF 2(4)] x(4) IO_OK by (simp_all add: socks5_writing_def x(1))
      moreover have e: "unsent (empty_buf b) = []" "nb_pos (empty_buf b) = 0" "buf_good (empty_buf b)"
        using gx by (simp_all add: unsent_def empty_buf_def buf_good_def buf_ok_def)
      ultimately have "socks5_reading socks5_request_len rest method_reply ?t"
        by (simp add: socks5_reading_def held_def in_buffer_def socks5_request_len_def)
      then have "socks5_inv fr in0 ?t" using 2 by (auto simp: socks5_inv_def)
      then show ?thesis
        using fl IO_OK x(1) 2(1) by (simp add: socks5_in_response_def turn_good_def)
    next
      case 3
      then show ?thesis using fl IO_OK x(1,2) by (simp add: socks5_in_response_def in_buffer_def)
    qed
  next
    case IO_AGAIN
    then show ?thesis using fl inv by (simp add: socks5_in_response_def turn_good_def socks5_good_def going_def)
  next
    case IO_ERROR
    then show ?thesis using fl by (simp add: socks5_in_response_def)
  qed
qed

text \<open>The request.\<close>

lemma request_good:
  assumes "socks5_inv fr in0 s" "ss_state s = ST_SOCKS5_IN_REQUEST" "bound_ok fr"
  shows "turn_good fr in0 (socks5_in_request fr s w)"
proof -
  obtain g rest where g: "in0 = g @ rest" "greeted g" "socks5_reading socks5_request_len rest method_reply s"
    using assms(1,2) by (auto simp: socks5_inv_def)
  show ?thesis
  proof (cases rule: socks5_in_message_cases [OF refl g(3) request_len.incremental_axioms,
        of "socks5_in_requested fr" w, folded socks5_in_request_def, consumes 0, case_names more bad complete])
    case (more b c out)
    let ?s = "s\<lparr>ss_socks5_buffer := Some b, ss_client := c\<rparr>"
    have "socks5_inv fr in0 ?s" using more(1) assms(2) g by (auto simp: socks5_inv_def)
    then show ?thesis using more(2) by (auto simp: turn_good_def socks5_good_def going_def)
  next
    case complete
    let ?b = "in_buffer (ss_socks5_buffer s)"
    have R: "buf_good ?b" "held s @ cn_in (ss_client s) = rest" "cn_out (ss_client s) = method_reply"
      using g(3) by (simp_all add: socks5_reading_def)
    show ?thesis
    proof (cases "socks5_parse_request (Some (held s))")
      case None
      then show ?thesis using complete(2) by (simp add: socks5_in_requested_def held_def)
    next
      case (Some ct)
      obtain cmd t where ct: "ct = (cmd, t)" by fastforce
      let ?s = "s\<lparr>ss_target := t\<rparr>"
      show ?thesis
      proof (cases "fr_effective fr")
        case False
        have "buf_good (in_buffer (ss_socks5_buffer ?s))" using R(1) by simp
        from prepare_response [OF refl this assms(3), of SOCKS5_STATUS_GENERAL_FAILURE]
        obtain v b where v: "socks5_in_prepare_response fr SOCKS5_STATUS_GENERAL_FAILURE ?s = Some v"
            "v = ?s\<lparr>ss_in_status := SOCKS5_STATUS_GENERAL_FAILURE, ss_socks5_buffer := Some b\<rparr>" "buf_good b"
          by (auto simp: SOCKS5_STATUS_OK_def SOCKS5_STATUS_GENERAL_FAILURE_def split: option.splits)
        then have "socks5_inv fr in0 (respond v)"
          by (simp add: socks5_inv_def answering_def respond_def in_buffer_def SOCKS5_STATUS_OK_def
              SOCKS5_STATUS_GENERAL_FAILURE_def)
        then show ?thesis using complete(2) Some ct False v(1)
          by (simp add: socks5_in_requested_def held_def turn_good_def)
      next
        case True
        let ?u = "?s\<lparr>ss_command := if cmd = SOCKS5_CMD_CONNECT then CMD_CONNECT else CMD_UDP_ASSOCIATE\<rparr>"
        obtain out s' w' where wr: "with_route fr (socks5_in_routed fr) ?u w = (out, s', w')" by (metis prod_cases3)
        have e: "socks5_in_request fr s w = IN_RETURN out s' w'"
          using complete(2) Some ct True wr by (simp add: socks5_in_requested_def held_def)
        from wr have "socks5_good fr in0 out s'"
        proof (cases rule: with_route_cases)
          case (routed st b rf w2)
          let ?v = "?u\<lparr>ss_target := b, ss_refresh := rf, ss_state := st\<rparr>"
          have "requested fr (held s) ?v"
            using complete(1) Some ct routed(1) by (simp add: requested_def)
          then show ?thesis
            using socks5_in_routed_good [OF routed(2) assms(3), of in0 g "held s"] g(1,2) R by simp
        qed (auto simp: socks5_good_def going_def)
        then show ?thesis by (simp add: e turn_good_def)
      qed
    qed
  qed simp
qed

lemma process_socks5_in_turn_good:
  assumes "socks5_inv fr in0 s" "bound_ok fr"
  shows "turn_good fr in0 (process_socks5_in_turn fr s w)"
proof -
  consider "ss_state s = ST_SOCKS5_IN_GREETING" | "ss_state s = ST_SOCKS5_IN_REQUEST" | "ss_state s = ST_SOCKS5_IN_RESPONSE"
    using assms(1) by (auto simp: socks5_inv_def)
  then show ?thesis
  proof cases
    case 1
    then show ?thesis using assms(1) greeting_good [of in0 s fr w]
      by (simp add: socks5_inv_def process_socks5_in_turn_def)
  next
    case 2
    then show ?thesis using request_good [OF assms(1) 2 assms(2)] by (simp add: process_socks5_in_turn_def)
  next
    case 3
    then show ?thesis using response_good [OF assms(1) 3] by (simp add: process_socks5_in_turn_def)
  qed
qed

lemma process_socks5_in_good:
  "process_socks5_in fuel fr s w = Some (out, s', w') \<Longrightarrow> socks5_inv fr in0 s \<Longrightarrow> bound_ok fr \<Longrightarrow>
     socks5_good fr in0 out s'"
proof (induction fuel arbitrary: s)
  case (Suc fuel)
  then show ?case
    using process_socks5_in_turn_good [OF Suc.prems(2,3), of w]
    by (auto simp: turn_good_def split: in_turn.splits)
qed simp

subsection \<open>The HTTP proxy\<close>

definition http_held :: "session \<Rightarrow> bytes" where
  "http_held s = unsent (in_buffer (ss_http_buffer s))"

definition pending :: "session \<Rightarrow> bytes" where
  "pending s = (case ss_pending_to_upstream s of None \<Rightarrow> [] | Some b \<Rightarrow> unsent b)"

text \<open>The stream starts with a CONNECT request; what is behind it is pending or still to be read.\<close>

definition http_taken :: "front \<Rightarrow> bytes \<Rightarrow> session \<Rightarrow> bool" where
  "http_taken fr in0 s \<longleftrightarrow>
     (\<exists>n a0 a. http_parse_connect (en_pton4 (fr_env fr)) (en_pton6 (fr_env fr)) (Some in0) a0 = HTTP_OK n a \<and>
        pending s @ cn_in (ss_client s) = drop n in0 \<and> resolved_target (fr_env fr) a (ss_target s) \<and>
        ss_command s = CMD_CONNECT)"

definition http_answering :: "front \<Rightarrow> bytes \<Rightarrow> session \<Rightarrow> bool" where
  "http_answering fr in0 s \<longleftrightarrow> buf_good (in_buffer (ss_http_buffer s)) \<and>
     cn_out (ss_client s) @ http_held s = http_response (ss_http_status s) \<and>
     (ss_http_status s = 200 \<longrightarrow> http_taken fr in0 s)"

definition http_reading :: "bytes \<Rightarrow> session \<Rightarrow> bool" where
  "http_reading in0 s \<longleftrightarrow> buf_good (in_buffer (ss_http_buffer s)) \<and> ss_pending_to_upstream s = None \<and>
     http_held s @ cn_in (ss_client s) = in0 \<and> cn_out (ss_client s) = []"

definition http_inv :: "front \<Rightarrow> bytes \<Rightarrow> session \<Rightarrow> bool" where
  "http_inv fr in0 s \<longleftrightarrow> ss_state s = ST_HTTP_IN_REQUEST \<and> http_reading in0 s \<or>
     ss_state s = ST_HTTP_IN_RESPONSE \<and> http_answering fr in0 s"

definition http_accepted :: "front \<Rightarrow> bytes \<Rightarrow> session \<Rightarrow> bool" where
  "http_accepted fr in0 s \<longleftrightarrow> http_taken fr in0 s \<and> cn_out (ss_client s) = http_response 200"

definition http_good :: "front \<Rightarrow> bytes \<Rightarrow> outcome \<Rightarrow> session \<Rightarrow> bool" where
  "http_good fr in0 out s \<longleftrightarrow> (out = OUT_WAIT \<longrightarrow> http_inv fr in0 s) \<and> (going out \<longrightarrow> http_accepted fr in0 s) \<and>
     out \<noteq> OUT_USE_AFTER_FREE"

lemma http_good_final [simp]: "http_good fr in0 (OUT_FINALIZE st) s"
  by (simp add: http_good_def going_def)

lemma http_response_fits: "length (http_response st) \<le> SOCKS5_BUFFER_SIZE"
  by (simp add: http_response_def SOCKS5_BUFFER_SIZE_def CRLF_def Let_def)

lemma http_prepare:
  assumes "buf_good (in_buffer (ss_http_buffer s))"
  shows "\<exists>b. http_in_prepare_response st s =
      Some (s\<lparr>ss_http_status := st, ss_http_buffer := Some b, ss_state := ST_HTTP_IN_RESPONSE\<rparr>) \<and>
    buf_good b \<and> unsent b = http_response st"
proof -
  let ?d = "nb_data (in_buffer (ss_http_buffer s))" and ?r = "http_response st"
  have d: "length ?d = SOCKS5_BUFFER_SIZE" using assms by (simp add: buf_good_def)
  then have l: "length ?r \<le> length ?d" using http_response_fits by simp
  have "http_build_response st (Some ?d) = (Some (length ?r), Some (?r @ drop (length ?r) ?d))"
    using l by (simp add: http_build_response_def Let_def)
  then show ?thesis using holds_built [OF refl l d]
    by (auto simp: http_in_prepare_response_def Let_def holds_def buf_good_def)
qed

lemma http_in_response_good:
  assumes "http_in_response fr s w = (out, s')" "http_answering fr in0 s" "ss_state s = ST_HTTP_IN_RESPONSE"
  shows "http_good fr in0 out s'"
proof -
  let ?b = "in_buffer (ss_http_buffer s)"
  obtain r b c where f: "flush ?b (ss_client s) = (r, b, c)" by (metis prod_cases3)
  define x where "x = s\<lparr>ss_http_buffer := Some b, ss_client := c\<rparr>"
  have fl: "http_in_flush s = (case r of IO_OK \<Rightarrow> IO_OK | IO_AGAIN \<Rightarrow> IO_AGAIN | IO_ERROR \<Rightarrow> IO_ERROR, x)"
    by (cases r) (simp_all add: http_in_flush_def f x_def)
  have ok: "buf_ok ?b" using assms(2) by (simp add: http_answering_def buf_good_def)
  note F = flush_facts [OF f ok]
  have taken: "http_taken fr in0 t = http_taken fr in0 s" if "ss_client t = c" "ss_target t = ss_target s"
      "ss_command t = ss_command s" "pending t = pending s" for t
    using that F by (simp add: http_taken_def)
  have A: "http_answering fr in0 x"
    using assms(2) F taken [of x] by (simp add: http_answering_def x_def http_held_def in_buffer_def buf_good_def pending_def)
  show ?thesis
  proof (cases r)
    case IO_OK
    show ?thesis
    proof (cases "ss_http_status s = 200")
      case True
      then have st: "start_tcp fr x w = (out, s')" using assms(1) fl IO_OK by (simp add: http_in_response_def x_def)
      have P: "pending s' = pending x"
        using start_tcp_status [OF st] buf_good_temp(2) [of 1] by (auto simp: pending_def split: option.splits)
      have "ss_client s' = c" "ss_target s' = ss_target s" "ss_command s' = ss_command s" "pending s' = pending s"
        using start_tcp_routed [OF st] P by (simp_all add: routed_def x_def pending_def)
      moreover have "cn_out c = http_response 200"
        using A F IO_OK True by (simp add: http_answering_def x_def http_held_def in_buffer_def)
      ultimately have "http_accepted fr in0 s'"
        using assms(2) True taken [of s'] by (simp add: http_accepted_def http_answering_def)
      then show ?thesis using start_tcp_routed [OF st] by (simp add: http_good_def routed_def)
    next
      case False
      then show ?thesis using assms(1) fl IO_OK by (auto simp: http_in_response_def x_def)
    qed
  next
    case IO_AGAIN
    then have "out = OUT_WAIT" "s' = x" using assms(1) fl by (simp_all add: http_in_response_def)
    then show ?thesis using A assms(3) by (simp add: http_good_def http_inv_def x_def going_def)
  next
    case IO_ERROR
    then show ?thesis using assms(1) fl by (auto simp: http_in_response_def)
  qed
qed

lemma http_in_answer_good:
  assumes "http_in_answer fr st s w = (out, s', w')" "buf_good (in_buffer (ss_http_buffer s))"
    and "cn_out (ss_client s) = []" "st \<noteq> 200"
  shows "http_good fr in0 out s'"
proof -
  obtain b where b: "http_in_prepare_response st s =
      Some (s\<lparr>ss_http_status := st, ss_http_buffer := Some b, ss_state := ST_HTTP_IN_RESPONSE\<rparr>)"
      "buf_good b" "unsent b = http_response st"
    using http_prepare [OF assms(2)] by blast
  let ?t = "s\<lparr>ss_http_status := st, ss_http_buffer := Some b, ss_state := ST_HTTP_IN_RESPONSE\<rparr>"
  have "http_in_response fr ?t w = (out, s')"
    using assms(1) b(1) by (auto simp: http_in_answer_def split: prod.splits)
  moreover have "http_answering fr in0 ?t"
    using b assms(3,4) by (simp add: http_answering_def http_held_def in_buffer_def)
  ultimately show ?thesis by (rule http_in_response_good) simp
qed

lemma http_in_routed_good:
  assumes "http_in_routed fr u w = (out, s')" "buf_good (in_buffer (ss_http_buffer u))"
    and "cn_out (ss_client u) = []" "http_taken fr in0 u"
  shows "http_good fr in0 out s'"
proof -
  define st where "st = (if request_blocked \<lparr>rq_outbound = session_outbound fr w, rq_command = ss_command u,
      rq_target = ss_target u\<rparr> then 403 else 200 :: nat)"
  obtain b where b: "http_in_prepare_response st u =
      Some (u\<lparr>ss_http_status := st, ss_http_buffer := Some b, ss_state := ST_HTTP_IN_RESPONSE\<rparr>)"
      "buf_good b" "unsent b = http_response st"
    using http_prepare [OF assms(2)] by blast
  let ?t = "u\<lparr>ss_http_status := st, ss_http_buffer := Some b, ss_state := ST_HTTP_IN_RESPONSE\<rparr>"
  have "http_in_after_route fr u w = http_in_prepare_response st u"
    by (simp add: http_in_after_route_def st_def)
  then have "http_in_after_route fr u w = Some ?t" using b(1) by (rule trans)
  then have "http_in_response fr ?t w = (out, s')" using assms(1) by (simp add: http_in_routed_def)
  moreover have "http_answering fr in0 ?t"
    using b assms(3,4) by (simp add: http_answering_def http_held_def in_buffer_def http_taken_def pending_def)
  ultimately show ?thesis by (rule http_in_response_good) simp
qed

lemma http_in_accept_good:
  assumes "http_in_accept fr n t s w = (out, s', w')" "http_reading in0 s"
    and "http_parse_connect (en_pton4 (fr_env fr)) (en_pton6 (fr_env fr)) (Some (http_held s)) (ss_target s) = HTTP_OK n t"
  shows "http_good fr in0 out s'"
proof (cases "fr_effective fr")
  case False
  then have "http_in_answer fr 502 (s\<lparr>ss_target := t\<rparr>) w = (out, s', w')"
    using assms(1) by (simp add: http_in_accept_def Let_def)
  then show ?thesis by (rule http_in_answer_good) (use assms(2) in \<open>simp_all add: http_reading_def\<close>)
next
  case True
  let ?b = "in_buffer (ss_http_buffer s)"
  have R: "buf_good ?b" "ss_pending_to_upstream s = None" "http_held s @ cn_in (ss_client s) = in0"
    "cn_out (ss_client s) = []"
    using assms(2) by (simp_all add: http_reading_def)
  have n: "n \<le> length (http_held s)"
    "http_parse_connect (en_pton4 (fr_env fr)) (en_pton6 (fr_env fr)) (Some in0) (ss_target s) = HTTP_OK n t"
    using http_connect_chunks' [OF assms(3)] R(3) by auto
  define u where "u = (let s = s\<lparr>ss_target := t, ss_command := CMD_CONNECT\<rparr> in
      if nb_last ?b > nb_pos ?b + n then set_pending (drop n (http_held s)) s else s)"
  have u: "with_route fr (http_in_routed fr) u w = (out, s', w')"
    using assms(1) True by (simp add: http_in_accept_def Let_def u_def http_held_def cong: if_cong)
  have len: "length (http_held s) = nb_last ?b - nb_pos ?b"
    using R(1) by (simp add: http_held_def buf_good_def length_unsent)
  have fields: "ss_client u = ss_client s" "ss_target u = t" "ss_command u = CMD_CONNECT"
    "ss_http_buffer u = ss_http_buffer s"
    by (simp_all add: u_def Let_def set_pending_def)
  have "pending u = drop n (http_held s)"
    using R(2) len unsent_full [of "drop n (http_held s)"]
    by (auto simp: u_def Let_def set_pending_def pending_def temp_buf_def http_held_def)
  then have "pending u @ cn_in (ss_client u) = drop n in0"
    using n(1) R(3) fields(1) by (metis append_same_eq drop_append diff_is_0_eq drop0)
  then have T: "http_taken fr in0 (u\<lparr>ss_target := b, ss_refresh := rf, ss_state := st\<rparr>)"
    if "resolved_target (fr_env fr) t b" for b rf st
    using n(2) that fields by (auto simp: http_taken_def pending_def)
  from u show ?thesis
  proof (cases rule: with_route_cases)
    case (routed st b rf w2)
    let ?v = "u\<lparr>ss_target := b, ss_refresh := rf, ss_state := st\<rparr>"
    show ?thesis
      using http_in_routed_good [OF routed(2), of in0] T [where b = b and rf = rf and st = st] routed(1) R fields by simp
  qed (auto simp: http_good_def going_def)
qed

lemma http_in_request_good:
  assumes "http_in_request fr s w = (out, s', w')" "http_reading in0 s" "ss_state s = ST_HTTP_IN_REQUEST"
  shows "http_good fr in0 out s'"
  using assms
proof (induction fr s w rule: http_in_request.induct)
  case (1 fr s w)
  let ?b = "in_buffer (ss_http_buffer s)"
  let ?p = "http_parse_connect (en_pton4 (fr_env fr)) (en_pton6 (fr_env fr)) (Some (unsent ?b)) (ss_target s)"
  have R: "buf_good ?b" "cn_out (ss_client s) = []" using "1.prems"(2) by (simp_all add: http_reading_def)
  show ?case
  proof (cases ?p)
    case (HTTP_NEED_MORE needed)
    obtain r t where rd: "http_in_read s = (r, t)" by (metis surj_pair)
    have T: "http_reading in0 t \<and> ss_state t = ST_HTTP_IN_REQUEST"
    proof (cases "nb_last ?b = length (nb_data ?b)")
      case True
      then show ?thesis using rd "1.prems" by (simp add: http_in_read_def Let_def)
    next
      case False
      obtain a c where rc: "conn_recv (length (nb_data ?b) - nb_last ?b) (ss_client s) = (a, c)" by (metis surj_pair)
      note C = conn_recv_stream [OF rc]
      show ?thesis
      proof (cases a)
        case (GOT bs)
        have room: "nb_last ?b + length bs \<le> length (nb_data ?b)"
          using C GOT R(1) by (auto simp: buf_good_def buf_ok_def)
        have ok: "buf_ok ?b" using R(1) by (simp add: buf_good_def)
        have "t = s\<lparr>ss_client := c, ss_http_buffer := Some (?b\<lparr>nb_last := nb_last ?b + length bs,
            nb_data := poke (nb_data ?b) (nb_last ?b) bs\<rparr>)\<rparr>"
          using rd False rc GOT by (simp add: http_in_read_def Let_def)
        then show ?thesis
          using unsent_grown [OF ok room] length_poke [OF room] C GOT "1.prems" R(1)
          by (auto simp: http_reading_def http_held_def in_buffer_def buf_good_def)
      qed (use rd False rc C "1.prems" in \<open>auto simp: http_in_read_def Let_def http_reading_def http_held_def\<close>)
    qed
    show ?thesis
    proof (cases r)
      case IO_OK
      then have "http_in_request fr t w = (out, s', w')"
        using "1.prems"(1) HTTP_NEED_MORE rd by (simp add: http_in_request.simps [of fr s])
      then show ?thesis using "1.IH" [OF HTTP_NEED_MORE rd [symmetric] IO_OK] T by simp
    next
      case IO_AGAIN
      then have "out = OUT_WAIT" "s' = t"
        using "1.prems"(1) HTTP_NEED_MORE rd by (simp_all add: http_in_request.simps [of fr s])
      then show ?thesis using T by (simp add: http_good_def http_inv_def going_def)
    next
      case IO_ERROR
      then show ?thesis using "1.prems"(1) HTTP_NEED_MORE rd by (auto simp: http_in_request.simps [of fr s])
    qed
  next
    case (HTTP_OK n t)
    then have "http_in_accept fr n t s w = (out, s', w')"
      using "1.prems"(1) by (simp add: http_in_request.simps [of fr s])
    then show ?thesis by (rule http_in_accept_good [OF _ "1.prems"(2)]) (use HTTP_OK in \<open>simp add: http_held_def\<close>)
  next
    case HTTP_ERROR
    then have "http_in_answer fr 400 s w = (out, s', w')"
      using "1.prems"(1) by (simp add: http_in_request.simps [of fr s])
    then show ?thesis by (rule http_in_answer_good) (use R in simp_all)
  next
    case HTTP_METHOD_NOT_ALLOWED
    then have "http_in_answer fr 405 s w = (out, s', w')"
      using "1.prems"(1) by (simp add: http_in_request.simps [of fr s])
    then show ?thesis by (rule http_in_answer_good) (use R in simp_all)
  qed
qed

subsection \<open>The loop of the SOCKS5 proxy ends\<close>

text \<open>The turns that are left: at most two reads of the greeting, the answer to it, three reads of the
  request, and the answer.\<close>

definition in_turns_left :: "session \<Rightarrow> nat" where
  "in_turns_left s =
     (if ss_state s = ST_SOCKS5_IN_GREETING then
        (case socks5_greeting_len (Some (held s)) of Need n \<Rightarrow> if n \<le> 2 then 9 else 8 | _ \<Rightarrow> 7)
      else if ss_state s = ST_SOCKS5_IN_REQUEST then
        (case socks5_request_len (Some (held s)) of
           Need n \<Rightarrow> if n \<le> 4 then 5 else if n = 5 then 4 else 3
         | _ \<Rightarrow> 2)
      else if ss_state s = ST_SOCKS5_IN_RESPONSE \<and> ss_in_step s \<noteq> IN_RESPONSE_WRITE then 6
      else 1)"

lemma in_turns_left_bounds: "1 \<le> in_turns_left s" "in_turns_left s \<le> 9"
  by (simp_all add: in_turns_left_def split: need.split)

lemma request_response_need:
  "socks5_request_len (Some s) = Need n \<Longrightarrow> socks5_response_len (Some s) = Need n"
  by (auto simp: socks5_request_len_def socks5_response_len_def split: if_splits)

lemma request_need:
  "socks5_request_len (Some s) = Need n \<Longrightarrow> n \<le> length s' \<Longrightarrow> take (length s) s' = s \<Longrightarrow>
     socks5_request_len (Some s') = Need m \<Longrightarrow> n = 4 \<and> 5 \<le> m \<or> n = 5 \<and> 6 \<le> m"
  using response_need [OF request_response_need] request_response_need by blast

lemma greeting_need:
  "socks5_greeting_len (Some s) = Need n \<Longrightarrow> n \<le> length s' \<Longrightarrow> take (length s) s' = s \<Longrightarrow>
     socks5_greeting_len (Some s') = Need m \<Longrightarrow> n = 2 \<and> 2 < m"
proof -
  assume a: "socks5_greeting_len (Some s) = Need n" "n \<le> length s'" "take (length s) s' = s"
    "socks5_greeting_len (Some s') = Need m"
  show ?thesis
  proof (cases "length s < 2")
    case True
    then have "n = 2" using a(1) by (simp add: socks5_greeting_len_def)
    then show ?thesis using greeting_len.need_gt [OF a(4)] a(2) by simp
  next
    case False
    then have "s' ! 0 = s ! 0" "s' ! 1 = s ! 1" "\<not> length s' < 2" using a(2) greeting_len.need_gt [OF a(1)]
      by (metis a(3) nth_take not_less less_2_cases_iff zero_less_two one_less_numeral_iff semiring_norm(76) order_less_le_trans, metis a(3) nth_take not_less one_less_numeral_iff semiring_norm(76) order_less_le_trans, simp)
    then show ?thesis using a(1,2,4) False by (auto simp: socks5_greeting_len_def Let_def split: if_splits)
  qed
qed

lemma in_message_continue:
  assumes "socks5_in_message len k s w = IN_CONTINUE s'" "socks5_reading len rest sent s"
  shows "(\<exists>n. len (Some (held s)) = Need n \<and> n \<le> length (held s') \<and> take (length (held s)) (held s') = held s \<and>
      ss_state s' = ss_state s) \<or> k s w = IN_CONTINUE s' \<and> (\<forall>n. len (Some (held s)) \<noteq> Need n)"
proof (cases "len (Some (held s))")
  case (Need n)
  obtain r s1 where rd: "socks5_in_read n s = (r, s1)" by (metis surj_pair)
  have r: "r = IO_OK" "s' = s1"
    using assms(1) Need rd by (auto simp: socks5_in_message_def held_def split: io.splits)
  obtain b c where F: "s1 = s\<lparr>ss_socks5_buffer := Some b, ss_client := c\<rparr>" "n \<le> length (unsent b)"
      "unsent b @ cn_in c = held s @ cn_in (ss_client s)" "length (held s) \<le> length (unsent b)"
    using socks5_in_read_facts [OF rd] assms(2) r(1) by (auto simp: socks5_reading_def)
  have "take (length (held s)) (unsent b) = held s"
    using F(3,4) by (metis append_eq_append_conv_if append_take_drop_id)
  moreover have "held s1 = unsent b" by (simp add: held_def F(1) in_buffer_def)
  ultimately show ?thesis using F Need r(2) by simp
qed (use assms(1) in \<open>simp_all add: socks5_in_message_def held_def\<close>)

lemma in_turns_left_step:
  assumes "socks5_inv fr in0 s" "process_socks5_in_turn fr s w = IN_CONTINUE s'"
  shows "in_turns_left s' < in_turns_left s"
proof -
  consider "ss_state s = ST_SOCKS5_IN_GREETING" | "ss_state s = ST_SOCKS5_IN_REQUEST" | "ss_state s = ST_SOCKS5_IN_RESPONSE"
    using assms(1) by (auto simp: socks5_inv_def)
  then show ?thesis
  proof cases
    case 1
    then have r: "socks5_reading socks5_greeting_len in0 [] s" and step: "ss_in_step s = IN_GREETING"
      using assms(1) by (auto simp: socks5_inv_def)
    have c: "socks5_in_message socks5_greeting_len socks5_in_greeted s w = IN_CONTINUE s'"
      using assms(2) 1 by (simp add: process_socks5_in_turn_def socks5_in_greeting_def)
    from in_message_continue [OF c r] show ?thesis
    proof
      assume "\<exists>n. socks5_greeting_len (Some (held s)) = Need n \<and> n \<le> length (held s') \<and>
        take (length (held s)) (held s') = held s \<and> ss_state s' = ss_state s"
      then obtain n where n: "socks5_greeting_len (Some (held s)) = Need n" "n \<le> length (held s')"
        "take (length (held s)) (held s') = held s" "ss_state s' = ss_state s" by blast
      show ?thesis using greeting_need [OF n(1-3)] n(1,4) 1
        by (fastforce simp: in_turns_left_def split: need.splits)
    next
      assume "socks5_in_greeted s w = IN_CONTINUE s' \<and> (\<forall>n. socks5_greeting_len (Some (held s)) \<noteq> Need n)"
      moreover from this have "ss_state s' = ST_SOCKS5_IN_RESPONSE"
        by (auto simp: socks5_in_greeted_def Let_def split: option.splits if_splits)
      ultimately show ?thesis using 1 by (auto simp: in_turns_left_def split: need.split)
    qed
  next
    case 2
    then obtain rest where r: "socks5_reading socks5_request_len rest method_reply s"
      using assms(1) by (auto simp: socks5_inv_def)
    have c: "socks5_in_message socks5_request_len (socks5_in_requested fr) s w = IN_CONTINUE s'"
      using assms(2) 2 by (simp add: process_socks5_in_turn_def socks5_in_request_def)
    from in_message_continue [OF c r] show ?thesis
    proof
      assume "\<exists>n. socks5_request_len (Some (held s)) = Need n \<and> n \<le> length (held s') \<and>
        take (length (held s)) (held s') = held s \<and> ss_state s' = ss_state s"
      then obtain n where n: "socks5_request_len (Some (held s)) = Need n" "n \<le> length (held s')"
        "take (length (held s)) (held s') = held s" "ss_state s' = ss_state s" by blast
      show ?thesis using request_need [OF n(1-3)] n(1,4) 2
        by (fastforce simp: in_turns_left_def split: need.splits)
    next
      assume "socks5_in_requested fr s w = IN_CONTINUE s' \<and> (\<forall>n. socks5_request_len (Some (held s)) \<noteq> Need n)"
      moreover from this have "ss_state s' = ST_SOCKS5_IN_RESPONSE" "ss_in_step s' = IN_RESPONSE_WRITE"
        by (auto simp: socks5_in_requested_def Let_def respond_def split: option.splits if_splits prod.splits)
      ultimately show ?thesis using 2 by (auto simp: in_turns_left_def split: need.split)
    qed
  next
    case 3
    then have "socks5_in_response fr s w = IN_CONTINUE s'"
      using assms(2) by (simp add: process_socks5_in_turn_def)
    then have "ss_state s' = ST_SOCKS5_IN_REQUEST" "ss_in_step s \<noteq> IN_RESPONSE_WRITE"
      by (auto simp: socks5_in_response_def socks5_in_flush_def in_return_def Let_def
          split: io.splits if_splits prod.splits)
    then show ?thesis using 3 by (simp add: in_turns_left_def split: need.split)
  qed
qed

lemma process_socks5_in_ends:
  "socks5_inv fr in0 s \<Longrightarrow> bound_ok fr \<Longrightarrow> in_turns_left s \<le> fuel \<Longrightarrow> \<exists>r. process_socks5_in fuel fr s w = Some r"
proof (induction fuel arbitrary: s)
  case 0
  then show ?case using in_turns_left_bounds(1) [of s] by simp
next
  case (Suc fuel)
  show ?case
  proof (cases "process_socks5_in_turn fr s w")
    case (IN_CONTINUE s')
    then have "socks5_inv fr in0 s'"
      using process_socks5_in_turn_good [OF Suc.prems(1,2), of w] by (simp add: turn_good_def)
    moreover have "in_turns_left s' \<le> fuel" using in_turns_left_step [OF Suc.prems(1) IN_CONTINUE] Suc.prems(3) by simp
    ultimately show ?thesis using Suc.IH Suc.prems(2) IN_CONTINUE by simp
  qed simp
qed

subsection \<open>Classification\<close>

definition classifying :: "bytes \<Rightarrow> session \<Rightarrow> bool" where
  "classifying in0 s \<longleftrightarrow>
     ss_in_step s = IN_GREETING \<and> ss_pending_to_upstream s = None \<and>
     buf_good (in_buffer (ss_socks5_buffer s)) \<and> nb_pos (in_buffer (ss_socks5_buffer s)) = 0 \<and>
     held s @ cn_in (ss_client s) = in0 \<and> cn_out (ss_client s) = [] \<and>
     (length (held s) \<le> 1 \<or> held s ! 0 = 0x16)"

lemma socks5_in_read_classifying:
  assumes "socks5_in_read n s = (r, s')" "classifying in0 s" "n \<le> 1 \<or> held s \<noteq> [] \<and> held s ! 0 = 0x16"
  shows "classifying in0 s' \<and> ss_state s' = ss_state s \<and> ss_in_socks5 s' = ss_in_socks5 s \<and> ss_in_http s' = ss_in_http s \<and>
    (held s \<noteq> [] \<longrightarrow> held s' \<noteq> []) \<and> (r = IO_OK \<and> n \<noteq> 0 \<longrightarrow> held s' \<noteq> [])"
proof -
  obtain b c where F: "s' = s\<lparr>ss_socks5_buffer := Some b, ss_client := c\<rparr>" "buf_good b" "nb_pos b = 0"
      "unsent b @ cn_in c = held s @ cn_in (ss_client s)" "cn_out c = cn_out (ss_client s)"
      "length (held s) \<le> length (unsent b)" "length (unsent b) \<le> max n (length (held s))"
      "r = IO_OK \<longrightarrow> n \<le> length (unsent b)"
    using socks5_in_read_facts [OF assms(1)] assms(2) by (auto simp: classifying_def)
  obtain e where e: "unsent b = held s @ e"
    using F(4,6) by (metis append_eq_append_conv_if append_take_drop_id)
  have "length (unsent b) \<le> 1 \<or> unsent b ! 0 = 0x16"
  proof (cases "held s = []")
    case True
    then show ?thesis using F(7) assms(3) by auto
  next
    case False
    then show ?thesis using F(7) assms(2,3) e by (cases "held s ! 0 = 0x16") (auto simp: nth_append classifying_def)
  qed
  then show ?thesis using F assms(2) e by (auto simp: classifying_def held_def in_buffer_def)
qed

lemma classify_read_good:
  assumes "classify_read s = r" "classifying in0 s"
  shows "case r of
      Inl (out, s') \<Rightarrow> out = OUT_WAIT \<and> classifying in0 s' \<and> ss_state s' = ss_state s \<or> out = OUT_FINALIZE S_OK
    | Inr s' \<Rightarrow> classifying in0 s' \<and> ss_in_socks5 s' = ss_in_socks5 s \<and> ss_in_http s' = ss_in_http s \<and> held s' \<noteq> []"
proof -
  obtain r1 s1 where rd1: "socks5_in_read 1 s = (r1, s1)" by (metis surj_pair)
  define t where "t = (if held s = [] then s1 else s)"
  obtain r3 s3 where rd3: "socks5_in_read 3 t = (r3, s3)" by (metis surj_pair)
  note A = socks5_in_read_classifying [OF rd1 assms(2)]
  have T: "classifying in0 t" "ss_state t = ss_state s" "ss_in_socks5 t = ss_in_socks5 s" "ss_in_http t = ss_in_http s"
    using A assms(2) by (simp_all add: t_def)
  note B = socks5_in_read_classifying [OF rd3 T(1)]
  show ?thesis
  proof (cases "held s = [] \<and> r1 \<noteq> IO_OK")
    case True
    then show ?thesis using assms(1) rd1 A by (cases r1) (auto simp: classify_read_def Let_def held_def)
  next
    case False
    have h: "held t \<noteq> []" using False A by (auto simp: t_def)
    have r: "r = (if length (held t) < 3 \<and> held t ! 0 = 0x16 then
        (case r3 of IO_AGAIN \<Rightarrow> Inl (OUT_WAIT, s3) | IO_ERROR \<Rightarrow> Inl (OUT_FINALIZE S_OK, s3) | IO_OK \<Rightarrow> Inr s3) else Inr t)"
      using False assms(1) rd1 rd3 by (cases r3) (auto simp: classify_read_def Let_def held_def t_def)
    show ?thesis using r T B h by (auto split: io.splits)
  qed
qed

lemma classify_inbound_head:
  "s \<noteq> [] \<Longrightarrow> classify_inbound (Some s) a b False = inbound_socks5 \<Longrightarrow> s ! 0 = SOCKS5_VERSION \<and> a"
  "classify_inbound (Some s) a b False = inbound_http \<Longrightarrow> b"
  by (auto simp: classify_inbound_def split: if_splits)

subsection \<open>The invariant of the local proxies\<close>

text \<open>All that is needed of a session at any time between two events.\<close>

definition inbound_inv :: "front \<Rightarrow> bytes \<Rightarrow> session \<Rightarrow> bool" where
  "inbound_inv fr in0 s \<longleftrightarrow> ss_state s = ST_INBOUND_CLASSIFY \<and> classifying in0 s \<or> socks5_inv fr in0 s \<or> http_inv fr in0 s"

definition inbound_good :: "front \<Rightarrow> bytes \<Rightarrow> outcome \<Rightarrow> session \<Rightarrow> bool" where
  "inbound_good fr in0 out s \<longleftrightarrow> (out = OUT_WAIT \<longrightarrow> inbound_inv fr in0 s) \<and>
     (going out \<longrightarrow> socks5_accepted fr in0 s \<or> http_accepted fr in0 s) \<and>
     (out = OUT_USE_AFTER_FREE \<longrightarrow> socks5_udp_bind_addr fr = None)"

lemma inbound_good_intro:
  "socks5_good fr in0 out s \<Longrightarrow> inbound_good fr in0 out s"
  "http_good fr in0 out s \<Longrightarrow> inbound_good fr in0 out s"
  "inbound_good fr in0 (OUT_FINALIZE st) s"
  by (simp_all add: inbound_good_def inbound_inv_def socks5_good_def http_good_def going_def)

lemma classified_socks5:
  assumes "classifying in0 s" "held s \<noteq> []" "classify_inbound (Some (held s)) a b False = inbound_socks5"
  shows "socks5_inv fr in0 (s\<lparr>ss_state := ST_SOCKS5_IN_GREETING\<rparr>)"
proof -
  let ?s = "s\<lparr>ss_state := ST_SOCKS5_IN_GREETING\<rparr>"
  have "held s ! 0 = SOCKS5_VERSION" using classify_inbound_head(1) [OF assms(2,3)] by simp
  then have "length (held s) = 1" using assms(1,2) by (auto simp: classifying_def wire_defs Suc_le_eq le_Suc_eq)
  then have "\<forall>n. socks5_greeting_len (Some (held ?s)) \<noteq> Complete n"
    by (simp add: held_def socks5_greeting_len_def)
  then show ?thesis
    using assms(1) by (simp add: socks5_inv_def socks5_reading_def classifying_def held_def)
qed

lemma process_inbound_classify_good:
  assumes "process_inbound_classify fuel fr s w = Some (out, s', w')" "classifying in0 s" "bound_ok fr"
    and "ss_state s = ST_INBOUND_CLASSIFY"
  shows "inbound_good fr in0 out s'"
proof -
  let ?s = "s\<lparr>ss_socks5_buffer := Some (in_buffer (ss_socks5_buffer s))\<rparr>"
  have c: "classifying in0 ?s"
    using assms(2) by (simp add: classifying_def held_def in_buffer_def)
  obtain r where r: "classify_read ?s = r" by blast
  note R = classify_read_good [OF r c]
  show ?thesis
  proof (cases r)
    case (Inl os)
    then show ?thesis using R assms(1,4) r
      by (auto simp: process_inbound_classify_def inbound_good_def inbound_inv_def going_def)
  next
    case (Inr t)
    then have T: "classifying in0 t" "held t \<noteq> []" using R by simp_all
    let ?k = "classify_inbound (Some (held t)) (ss_in_socks5 t) (ss_in_http t) False"
    show ?thesis
    proof (cases ?k)
      case inbound_socks5
      then have "process_socks5_in fuel fr (t\<lparr>ss_state := ST_SOCKS5_IN_GREETING\<rparr>) w = Some (out, s', w')"
        using assms(1) r Inr by (simp add: process_inbound_classify_def held_def)
      from process_socks5_in_good [OF this classified_socks5 [OF T inbound_socks5] assms(3)]
      show ?thesis by (rule inbound_good_intro)
    next
      case inbound_http
      let ?t = "t\<lparr>ss_http_buffer := ss_socks5_buffer t, ss_socks5_buffer := None, ss_state := ST_HTTP_IN_REQUEST\<rparr>"
      have "http_in_request fr ?t w = (out, s', w')"
        using assms(1) r Inr inbound_http by (simp add: process_inbound_classify_def held_def process_http_in_def)
      moreover have "http_reading in0 ?t"
        using T(1) by (simp add: http_reading_def http_held_def classifying_def held_def)
      ultimately have "http_good fr in0 out s'" by (rule http_in_request_good) simp
      then show ?thesis by (rule inbound_good_intro)
    qed (use assms(1) r Inr in \<open>auto simp: process_inbound_classify_def held_def intro: inbound_good_intro\<close>)
  qed
qed

lemma inbound_event_good:
  assumes "inbound_event fuel fr s w = Some (out, s', w')" "inbound_inv fr in0 s" "bound_ok fr"
  shows "inbound_good fr in0 out s'"
proof -
  consider (c) "ss_state s = ST_INBOUND_CLASSIFY" "classifying in0 s"
    | (s) "ss_state s \<in> {ST_SOCKS5_IN_GREETING, ST_SOCKS5_IN_REQUEST, ST_SOCKS5_IN_RESPONSE}" "socks5_inv fr in0 s"
    | (hq) "ss_state s = ST_HTTP_IN_REQUEST" "http_reading in0 s"
    | (hr) "ss_state s = ST_HTTP_IN_RESPONSE" "http_answering fr in0 s"
    using assms(2) by (auto simp: inbound_inv_def socks5_inv_def http_inv_def)
  then show ?thesis
  proof cases
    case c
    then show ?thesis using process_inbound_classify_good [OF _ c(2) assms(3)] assms(1)
      by (simp add: inbound_event_def)
  next
    case s
    have "process_socks5_in fuel fr s w = Some (out, s', w')"
      using s(1) assms(1) by (auto simp: inbound_event_def)
    from process_socks5_in_good [OF this s(2) assms(3)] show ?thesis by (rule inbound_good_intro)
  next
    case hq
    then have "http_in_request fr s w = (out, s', w')"
      using assms(1) by (simp add: inbound_event_def process_http_in_def)
    from http_in_request_good [OF this hq(2,1)] show ?thesis by (rule inbound_good_intro)
  next
    case hr
    then have "http_in_response fr s w = (out, s')"
      using assms(1) by (auto simp: inbound_event_def process_http_in_def split: prod.splits)
    from http_in_response_good [OF this hr(2,1)] show ?thesis by (rule inbound_good_intro)
  qed
qed

lemma inbound_event_ends:
  assumes "inbound_inv fr in0 s" "bound_ok fr"
  shows "\<exists>r. inbound_event 9 fr s w = Some r"
proof -
  have ends: "\<exists>r. process_socks5_in 9 fr t w = Some r" if "socks5_inv fr in0 t" for t
    by (rule process_socks5_in_ends [OF that assms(2) in_turns_left_bounds(2)])
  have cl: "\<exists>r. process_inbound_classify 9 fr s w = Some r" if "classifying in0 s"
  proof -
    let ?s = "s\<lparr>ss_socks5_buffer := Some (in_buffer (ss_socks5_buffer s))\<rparr>"
    have c: "classifying in0 ?s" using that by (simp add: classifying_def held_def in_buffer_def)
    show ?thesis
    proof (cases "classify_read ?s")
      case (Inr t)
      then have T: "classifying in0 t" "held t \<noteq> []" using classify_read_good [OF Inr c] by simp_all
      show ?thesis using ends [OF classified_socks5 [OF T]] Inr
        by (simp add: process_inbound_classify_def held_def del: split_paired_Ex split: inbound_e.split)
    qed (auto simp: process_inbound_classify_def)
  qed
  have "socks5_inv fr in0 s \<or> \<not> ss_state s \<in> {ST_SOCKS5_IN_GREETING, ST_SOCKS5_IN_REQUEST, ST_SOCKS5_IN_RESPONSE}"
    using assms(1) by (auto simp: inbound_inv_def http_inv_def)
  moreover have "classifying in0 s \<or> ss_state s \<noteq> ST_INBOUND_CLASSIFY"
    using assms(1) by (auto simp: inbound_inv_def http_inv_def socks5_inv_def)
  ultimately show ?thesis using ends [of s] cl
    by (auto simp: inbound_event_def simp del: split_paired_Ex)
qed

subsection \<open>All events of a connection\<close>

inductive inbound_run :: "front \<Rightarrow> session \<Rightarrow> session \<Rightarrow> bool" for fr s0 where
  inbound_start: "inbound_run fr s0 s0"
| inbound_wait: "inbound_run fr s0 s \<Longrightarrow>
    inbound_event 9 fr (scripted recvs sends s) w = Some (OUT_WAIT, s', w') \<Longrightarrow> inbound_run fr s0 s'"

lemma inbound_inv_scripted: "inbound_inv fr in0 s \<Longrightarrow> inbound_inv fr in0 (scripted recvs sends s)"
proof -
  let ?s = "scripted recvs sends s"
  have "held ?s = held s" "http_held ?s = http_held s" "pending ?s = pending s"
    by (simp_all add: held_def http_held_def pending_def scripted_def)
  moreover have "requested fr r ?s = requested fr r s" "reply_addr fr ?s = reply_addr fr s" for r
    by (simp_all add: requested_def reply_addr_def scripted_def)
  ultimately show "inbound_inv fr in0 s \<Longrightarrow> inbound_inv fr in0 ?s"
    unfolding inbound_inv_def socks5_inv_def http_inv_def socks5_reading_def socks5_writing_def answering_def
      classifying_def http_reading_def http_answering_def http_taken_def
    by (simp add: scripted_def)
qed

lemma inbound_run_inv:
  assumes "inbound_run fr (inbound_session s5 h u c0) s" "cn_out c0 = []" "bound_ok fr"
  shows "inbound_inv fr (cn_in c0) s"
  using assms(1)
proof (induction rule: inbound_run.induct)
  case inbound_start
  have "buf_good (in_buffer None)" "unsent (in_buffer None) = []" "nb_pos (in_buffer None) = 0"
    using buf_good_temp by (simp_all add: in_buffer_def)
  then show ?case using assms(2)
    by (simp add: inbound_inv_def classifying_def inbound_session_def zero_session_def held_def)
next
  case (inbound_wait s recvs sends w s' w')
  then show ?case
    using inbound_event_good [OF inbound_wait.hyps(2) inbound_inv_scripted assms(3)] by (simp add: inbound_good_def)
qed

text \<open>A SOCKS5 client that asks for a connection, and one that asks for an association with a server whose
  UDP socket cannot be made.\<close>

definition sample_inbound :: front where
  "sample_inbound = sample_front\<lparr>fr_effective := True, fr_local := Some (SA4 1 1080)\<rparr>"

definition idle_world :: "world \<Rightarrow> world" where
  "idle_world w = \<lparr>w_conf = w_conf w, w_cache = w_cache w, w_tcp = (\<lambda>_. new_track), w_udp = w_udp w, w_maps = w_maps w,
     w_next_mapping = w_next_mapping w, w_msec = w_msec w\<rparr>"

definition sample_socks5 :: session where
  "sample_socks5 = inbound_session True True True
     (sample_conn [5, 1, 0, 5, 1, 0, 1, 127, 0, 0, 1, 0, 80, 71] [] [] False)"

definition sample_associate :: session where
  "sample_associate = inbound_session True True True
     (sample_conn [5, 1, 0, 5, 3, 0, 1, 127, 0, 0, 1, 0, 80] [] [] False)"

definition sample_inbound_event :: "session \<Rightarrow> world \<Rightarrow> (outcome \<times> session \<times> world) option" where
  "sample_inbound_event s w = inbound_event 9 sample_inbound
     (scripted (replicate 9 (RECVD 300)) [SENT 300, SENT 300] s) w"

lemma sample_bound: "bound_ok sample_inbound"
  by (simp add: bound_ok_def sample_inbound_def sample_front_def)

lemma sample_socks5_connects:
  "\<exists>s w'. sample_inbound_event sample_socks5 (idle_world w) = Some (OUT_CONNECT (SA4 0x7f000001 80), s, w')"
proof -
  have "case sample_inbound_event sample_socks5 (idle_world w) of
      Some (out, s, w') \<Rightarrow> out = OUT_CONNECT (SA4 0x7f000001 80) | None \<Rightarrow> False" by code_simp
  then show ?thesis by (auto split: option.splits)
qed

subsection \<open>Properties\<close>



text \<open>C21: The handlers of the local proxies always return: in every state that the events of a connection
  lead to, nine turns of the loop of \<open>process_socks5_in\<close> are enough, whatever the sockets do.\<close>

theorem inbound_returns:
  assumes "inbound_run fr (inbound_session s5 http udp c0) s" "cn_out c0 = []" "bound_ok fr"
  shows "\<exists>out s' w'. inbound_event 9 fr (scripted recvs sends s) w = Some (out, s', w')"
  using inbound_event_ends [OF inbound_inv_scripted [OF inbound_run_inv [OF assms]] assms(3)] by fastforce

theorem inbound_returns_witness:
  "\<exists>out s' w'. inbound_event 9 sample_inbound (scripted [RECVD 1, RECVD 1] [] sample_associate) sample_world =
     Some (out, s', w')"
  unfolding sample_associate_def
  by (rule inbound_returns [OF inbound_start _ sample_bound]) (simp add: sample_conn_def)

text \<open>The freed context: the association is refused by finalizing the session, and the loop goes on with
  \<open>ctx->state\<close>.\<close>

lemma socks5_in_use_after_free:
  "\<exists>s w'. sample_inbound_event sample_associate (idle_world w) = Some (OUT_USE_AFTER_FREE, s, w')"
proof -
  have "case sample_inbound_event sample_associate (idle_world w) of
      Some (out, s, w') \<Rightarrow> out = OUT_USE_AFTER_FREE | None \<Rightarrow> False" by code_simp
  then show ?thesis by (auto split: option.splits)
qed

end
