(* ===== verification/Mt_Udp.thy ===== *)
theory Mt_Udp
  imports Mt_Inbound_Props
begin

text \<open>
  UDP (\<open>ngx_stream_mtrojan_module.c\<close>): the frames of a Trojan client and the datagrams of a SOCKS5 client
  on their way to a target or to the UDP relay of a SOCKS5 outbound (\<open>process_udp_client\<close>,
  \<open>send_udp_frame\<close>, \<open>send_udp_frame_routed\<close> and what they call), and the datagrams that come back.

  A frame whose outbound is a SOCKS5 server that is not connected yet waits in \<open>udp_payload\<close> until the
  handshake is done (\<open>ux_pending\<close>); one whose target must be resolved waits in the resolver
  (\<open>ux_resolver\<close>). \<open>ngx_resolve_name\<close> may call its handler at once, which then runs inside of the caller.

  A connection to a SOCKS5 server that is established at once makes its first call of \<open>process_socks5\<close>
  with the first event of the handshake.
\<close>

subsection \<open>State\<close>

definition UDP_BUFFER_SIZE :: nat where [wire_defs]: "UDP_BUFFER_SIZE = MAX_UDP_PAYLOAD + MAX_ADDR_LEN + 4"

text \<open>What \<open>sendto\<close> is asked to send, and how it answers.\<close>

datatype datagram = TO_TARGET sockaddr bytes | TO_RELAY sockaddr bytes | TO_CLIENT sockaddr bytes

datatype sendto_event = SENDTO_OK | SENDTO_AGAIN | SENDTO_ERROR

text \<open>What a resolver has been given to keep.\<close>

record resolve_data =
  rd_route :: bool
  rd_pref :: nat
  rd_target :: addr_t
  rd_payload :: bytes

text \<open>\<open>ux_in\<close> is the part of \<open>udp_in\<close> in use, \<open>ux_payload\<close> and \<open>ux_out\<close> are whole regions. \<open>ux_upstream\<close> is the
  connection to a SOCKS5 server with the state of its handshake; \<open>ux_lost\<close> those that nothing refers to
  any more. \<open>ux_sent\<close> has all calls of \<open>sendto\<close>, \<open>ux_sendto\<close> their results to come.\<close>

record udp_ctx =
  ux_state :: sess_state
  ux_client :: conn
  ux_command :: byte
  ux_target :: addr_t
  ux_in :: bytes
  ux_payload :: cptr
  ux_out :: bytes
  ux_to_client :: "nbuf option"
  ux_pending :: "(addr_t \<times> nat) option"
  ux_saved_outbound :: "nat option"
  ux_restore :: "nat option"
  ux_udp4 :: bool
  ux_udp6 :: bool
  ux_socks5_udp :: bool
  ux_relay :: "sockaddr option"
  ux_socks5_outbound :: "nat option"
  ux_upstream :: "handshake option"
  ux_lost :: "handshake list"
  ux_resolver :: "resolve_data option"
  ux_refresh :: "refresh option"
  ux_inbound :: bool
  ux_in_udp :: bool
  ux_udp_client :: "sockaddr option"
  ux_sendto :: "sendto_event list"
  ux_sent :: "datagram list"

text \<open>\<open>ue_open v6\<close>: a UDP socket can be made. \<open>ue_peer\<close>: the connection to a SOCKS5 server, if it can be begun.\<close>

record udp_env =
  ue_front :: front
  ue_open :: "bool \<Rightarrow> bool"
  ue_peer :: "outbound \<Rightarrow> conn option"

text \<open>How a handler ends. \<open>UO_FUEL\<close> is not an end of the program.\<close>

datatype udp_outcome = UO_WAIT | UO_FINALIZE status | UO_USE_AFTER_FREE | UO_FUEL

text \<open>\<open>NGX_OK\<close>, \<open>NGX_AGAIN\<close>, \<open>NGX_ERROR\<close>; \<open>URC_GONE\<close>: a handler called inside has ended the session.\<close>

datatype udp_rc = URC_OK | URC_AGAIN | URC_ERROR | URC_GONE udp_outcome

definition set_outbound :: "udp_env \<Rightarrow> nat option \<Rightarrow> world \<Rightarrow> world" where
  "set_outbound env ob w = set_tcp (fr_id (ue_front env)) (\<lambda>t. t\<lparr>t_outbound := ob\<rparr>) w"

definition get_outbound :: "udp_env \<Rightarrow> world \<Rightarrow> nat option" where
  "get_outbound env w = t_outbound (w_tcp w (fr_id (ue_front env)))"

definition rc_of :: "bool \<times> udp_ctx \<Rightarrow> world \<Rightarrow> udp_rc \<times> udp_ctx \<times> world" where
  "rc_of r w = (if fst r then URC_OK else URC_ERROR, snd r, w)"

subsection \<open>Sending\<close>

text \<open>A full socket buffer drops the datagram without an error.\<close>

definition udp_sendto :: "datagram \<Rightarrow> udp_ctx \<Rightarrow> bool \<times> udp_ctx" where
  "udp_sendto d ux =
     (case ux_sendto ux of
        [] \<Rightarrow> (True, ux\<lparr>ux_sent := ux_sent ux @ [d]\<rparr>)
      | ev # evs \<Rightarrow> (ev \<noteq> SENDTO_ERROR, ux\<lparr>ux_sendto := evs, ux_sent := ux_sent ux @ [d]\<rparr>))"

definition send_udp_sockaddr :: "udp_env \<Rightarrow> sockaddr \<Rightarrow> bytes \<Rightarrow> udp_ctx \<Rightarrow> bool \<times> udp_ctx" where
  "send_udp_sockaddr env sa payload ux =
     (case sa of
        SA4 a p \<Rightarrow>
          if \<not> ux_udp4 ux \<and> \<not> ue_open env False then (False, ux)
          else udp_sendto (TO_TARGET sa payload) (ux\<lparr>ux_udp4 := True\<rparr>)
      | SA6 a p \<Rightarrow>
          if \<not> ux_udp6 ux \<and> \<not> ue_open env True then (False, ux)
          else udp_sendto (TO_TARGET sa payload) (ux\<lparr>ux_udp6 := True\<rparr>)
      | SA_other \<Rightarrow> (False, ux))"

definition send_udp_resolved ::
    "udp_env \<Rightarrow> sockaddr option list \<Rightarrow> u16 \<Rightarrow> bytes \<Rightarrow> nat \<Rightarrow> udp_ctx \<Rightarrow> bool \<times> udp_ctx" where
  "send_udp_resolved env addrs port payload pref ux =
     (case resolved_addr addrs pref port of
        None \<Rightarrow> (False, ux)
      | Some sa \<Rightarrow> send_udp_sockaddr env sa payload ux)"

definition forward_socks5_udp_packet :: "bytes \<Rightarrow> udp_ctx \<Rightarrow> bool \<times> udp_ctx" where
  "forward_socks5_udp_packet packet ux =
     (if \<not> ux_socks5_udp ux then (False, ux)
      else
        (case ux_relay ux of
           None \<Rightarrow> (False, ux)
         | Some sa \<Rightarrow> udp_sendto (TO_RELAY sa packet) ux))"

text \<open>\<open>socks5_build_udp_packet\<close> when the payload lies in the output region itself, at \<open>off\<close>: the header is
  written first. An overlapping \<open>memcpy\<close> is taken to copy what is there before it.\<close>

definition build_udp_in_place :: "addr_t \<Rightarrow> nat \<Rightarrow> nat \<Rightarrow> bytes \<Rightarrow> nat option \<times> cptr" where
  "build_udp_in_place a off len d =
     (if length d < 3 + addr_wire_len a + len then (None, Some d)
      else
        let d = poke d 0 [0, 0, 0];
            d = poke d 3 [addr_type a] in
        (case socks5_put_addr a d of
           None \<Rightarrow> (None, Some d)
         | Some (d, req_len) \<Rightarrow>
             (Some (req_len + len), Some (if len \<noteq> 0 then poke d req_len (take len (drop off d)) else d))))"

text \<open>\<open>src\<close>: where in \<open>udp_out\<close> the payload is, if it is there.\<close>

definition send_socks5_udp_frame :: "nat option \<Rightarrow> udp_frame_t \<Rightarrow> udp_ctx \<Rightarrow> bool \<times> udp_ctx" where
  "send_socks5_udp_frame src f ux =
     (let region = take SOCKS5_MAX_PACKET (ux_out ux);
          r = (case src of
                 None \<Rightarrow> socks5_build_udp_packet (Some (uf_addr f)) (Some (uf_payload f)) (uf_payload_len f) (Some region)
               | Some off \<Rightarrow> build_udp_in_place (uf_addr f) off (unat (uf_payload_len f)) region) in
      (case r of
         (Some written, Some d) \<Rightarrow>
           forward_socks5_udp_packet (take written d) (ux\<lparr>ux_out := d @ drop SOCKS5_MAX_PACKET (ux_out ux)\<rparr>)
       | (_, d) \<Rightarrow> (False, ux\<lparr>ux_out := the d @ drop SOCKS5_MAX_PACKET (ux_out ux)\<rparr>)))"

subsection \<open>The connection to a SOCKS5 server\<close>

definition close_socks5_udp :: "udp_ctx \<Rightarrow> udp_ctx" where
  "close_socks5_udp ux =
     (let ux = ux\<lparr>ux_socks5_udp := False\<rparr>;
          ux = (if ux_upstream ux \<noteq> None \<and> ux_socks5_outbound ux \<noteq> None then ux\<lparr>ux_upstream := None\<rparr> else ux) in
      ux\<lparr>ux_relay := None, ux_socks5_outbound := None\<rparr>)"

text \<open>\<open>Inl\<close>: the session is finalized. A connection that \<open>upstream\<close> still named is lost.\<close>

definition start_socks5_udp :: "udp_env \<Rightarrow> udp_ctx \<Rightarrow> world \<Rightarrow> status + udp_ctx" where
  "start_socks5_udp env ux w =
     (case session_outbound (ue_front env) w of
        None \<Rightarrow> Inl S_BAD_GATEWAY
      | Some ob \<Rightarrow>
          if ob_socks5_server ob = None then Inl S_BAD_GATEWAY
          else
            (case ue_peer env ob of
               None \<Rightarrow> Inl S_BAD_GATEWAY
             | Some peer \<Rightarrow>
                 (case socks5_connect True (Some ob) (ux_target ux) peer of
                    Inl st \<Rightarrow> Inl st
                  | Inr h \<Rightarrow>
                      Inr (ux\<lparr>ux_state := ST_SOCKS5_UDP, ux_upstream := Some h,
                        ux_lost := ux_lost ux @ (case ux_upstream ux of None \<Rightarrow> [] | Some u \<Rightarrow> [u])\<rparr>))))"

text \<open>The connections that \<open>finalize\<close> closes (and the resolver it stops).\<close>

definition finalize_udp :: "udp_ctx \<Rightarrow> udp_ctx" where
  "finalize_udp ux = ux\<lparr>ux_resolver := None, ux_upstream := None, ux_udp4 := False, ux_socks5_udp := False,
     ux_in_udp := False, ux_udp6 := False\<rparr>"

subsection \<open>A resolver\<close>

text \<open>What follows when a waiting frame has been dealt with: the next frames, by \<open>k\<close>.\<close>

definition udp_resume ::
    "(udp_ctx \<Rightarrow> world \<Rightarrow> udp_outcome \<times> udp_ctx \<times> world) \<Rightarrow> udp_ctx \<Rightarrow> world \<Rightarrow> udp_outcome \<times> udp_ctx \<times> world" where
  "udp_resume k ux w =
     (if ux_inbound ux then (UO_WAIT, ux\<lparr>ux_state := ST_SOCKS5_IN_UDP_CONTROL\<rparr>, w)
      else k (ux\<lparr>ux_state := ST_UDP\<rparr>) w)"

text \<open>\<open>start_resolver\<close>; \<open>h\<close> is \<open>resolve_handler\<close>. A frame of the client's stream is taken off it.\<close>

definition start_udp_resolver ::
    "udp_env \<Rightarrow> (resolve_data \<Rightarrow> resolved \<Rightarrow> udp_ctx \<Rightarrow> world \<Rightarrow> udp_outcome \<times> udp_ctx \<times> world) \<Rightarrow> bool \<Rightarrow>
      udp_frame_t \<Rightarrow> udp_ctx \<Rightarrow> world \<Rightarrow> udp_rc \<times> udp_ctx \<times> world" where
  "start_udp_resolver env h route f ux w =
     (let a = uf_addr f; fr = ue_front env in
      if addr_type a \<noteq> ADDR_DOMAIN \<or> addr_host_len a = 0 \<or> addr_host_len a > 255 then (URC_ERROR, ux, w)
      else if route_resolver (fr_srv fr) = None then (URC_ERROR, ux, w)
      else
        let data = \<lparr>rd_route = route, rd_pref = current_ip_prefer (session_outbound fr w), rd_target = a,
                    rd_payload = uf_payload f\<rparr>;
            ux = ux\<lparr>ux_resolver := Some data, ux_state := ST_RESOLVING,
                    ux_in := (if uf_wire_len f \<le> length (ux_in ux) then drop (uf_wire_len f) (ux_in ux) else ux_in ux)\<rparr> in
        (case en_resolve_name (fr_env fr) (host_bytes a) of
           RESOLVE_FAILS \<Rightarrow> (URC_ERROR, ux\<lparr>ux_resolver := None\<rparr>, w)
         | RESOLVE_LATER \<Rightarrow> (URC_AGAIN, ux, w)
         | RESOLVE_NOW rv \<Rightarrow>
             (case h data rv ux w of
                (UO_WAIT, ux, w) \<Rightarrow> (URC_AGAIN, ux, w)
              | (out, ux, w) \<Rightarrow> (URC_GONE out, ux, w))))"

text \<open>\<open>resolve_handler\<close> for the target of a frame.\<close>

definition udp_resolved ::
    "udp_env \<Rightarrow> (udp_ctx \<Rightarrow> world \<Rightarrow> udp_outcome \<times> udp_ctx \<times> world) \<Rightarrow>
      resolve_data \<Rightarrow> resolved \<Rightarrow> udp_ctx \<Rightarrow> world \<Rightarrow> udp_outcome \<times> udp_ctx \<times> world" where
  "udp_resolved env k data rv ux w =
     (let ux = ux\<lparr>ux_resolver := None\<rparr> in
      if rv_state rv \<noteq> 0 then (UO_FINALIZE S_BAD_GATEWAY, ux, w)
      else
        (case send_udp_resolved env (rv_addrs rv) (addr_port (rd_target data)) (rd_payload data) (rd_pref data) ux of
           (False, ux) \<Rightarrow> (UO_FINALIZE S_BAD_GATEWAY, ux, w)
         | (True, ux) \<Rightarrow> udp_resume k ux w))"

subsection \<open>Sending a frame to its outbound\<close>

definition send_udp_frame_routed ::
    "udp_env \<Rightarrow> (udp_ctx \<Rightarrow> world \<Rightarrow> udp_outcome \<times> udp_ctx \<times> world) \<Rightarrow> nat option \<Rightarrow>
      udp_frame_t \<Rightarrow> udp_ctx \<Rightarrow> world \<Rightarrow> udp_rc \<times> udp_ctx \<times> world" where
  "send_udp_frame_routed env k src f ux w =
     (let fr = ue_front env; ob = session_outbound fr w; a = uf_addr f in
      if outbound_type_of ob = OUTBOUND_SOCKS5 then
        (if \<not> ux_socks5_udp ux \<or> ux_relay ux = None \<or> ux_socks5_outbound ux \<noteq> get_outbound env w then
           (case ux_payload ux of
              None \<Rightarrow> (URC_ERROR, ux, w)
            | Some p \<Rightarrow>
                let ux = ux\<lparr>ux_payload := Some (poke p 0 (uf_payload f)),
                       ux_pending := Some (a, unat (uf_payload_len f)), ux_saved_outbound := get_outbound env w,
                       ux_in := (if uf_wire_len f \<noteq> 0 \<and> uf_wire_len f \<le> length (ux_in ux)
                                 then drop (uf_wire_len f) (ux_in ux) else ux_in ux)\<rparr> in
                (case start_socks5_udp env (close_socks5_udp ux) w of
                   Inl st \<Rightarrow> (URC_GONE (UO_FINALIZE st), ux, w)
                 | Inr ux \<Rightarrow> (URC_AGAIN, ux, w)))
         else rc_of (send_socks5_udp_frame src f ux) w)
      else if addr_type a = ADDR_IPV4 \<or> addr_type a = ADDR_IPV6 then
        (case addr_to_ngx_addr a of
           SOCKADDR_OK sa \<Rightarrow> rc_of (send_udp_sockaddr env sa (uf_payload f) ux) w
         | _ \<Rightarrow> (URC_ERROR, ux, w))
      else if addr_type a = ADDR_DOMAIN then
        (if use_nginx_resolver (addr_type a) (route_resolver (fr_srv fr) \<noteq> None) then
           start_udp_resolver env (udp_resolved env k) False f ux w
         else if addr_host_len a = 0 \<or> addr_host_len a \<ge> 256 then (URC_ERROR, ux, w)
         else
           (case en_getaddrinfo (fr_env fr) (cstr (host_bytes a @ [0])) (addr_port a) of
              None \<Rightarrow> (URC_ERROR, ux, w)
            | Some ais \<Rightarrow>
                (case udp_addrinfo (current_ip_prefer ob) ais of
                   None \<Rightarrow> (URC_ERROR, ux, w)
                 | Some sa \<Rightarrow> rc_of (send_udp_sockaddr env sa (uf_payload f) ux) w)))
      else (URC_ERROR, ux, w))"

definition frame_blocked :: "udp_env \<Rightarrow> udp_frame_t \<Rightarrow> udp_ctx \<Rightarrow> world \<Rightarrow> bool" where
  "frame_blocked env f ux w =
     fst (udp_frame_blocked \<lparr>rq_outbound = session_outbound (ue_front env) w, rq_command = ux_command ux,
            rq_target = ux_target ux\<rparr> (Some f))"

text \<open>\<open>resolve_handler\<close> for the outbound of a frame.\<close>

definition udp_route_resolved ::
    "udp_env \<Rightarrow> (udp_ctx \<Rightarrow> world \<Rightarrow> udp_outcome \<times> udp_ctx \<times> world) \<Rightarrow>
      resolve_data \<Rightarrow> resolved \<Rightarrow> udp_ctx \<Rightarrow> world \<Rightarrow> udp_outcome \<times> udp_ctx \<times> world" where
  "udp_route_resolved env k data rv ux w =
     (let ux = ux\<lparr>ux_resolver := None\<rparr>; fr = ue_front env; a = rd_target data in
      if rv_state rv \<noteq> 0 then (UO_FINALIZE S_BAD_GATEWAY, ux, w)
      else
        (case select_outbound_now (fr_env fr) (fr_srv fr) (cf_resolve (w_conf w)) a (rv_addrs rv) True of
           SELECTED ob ttl \<Rightarrow>
             let saved = get_outbound env w;
                 w = set_outbound env (Some ob) w;
                 (cached, w) = cache_insert (fr_srv fr) a (Some ob) ttl (route_valid_time (fr_env fr) (rv_valid rv)) w;
                 (mapped, w) = udp_route_mapping_insert (fr_id fr) a (Some ob) cached w;
                 f = \<lparr>uf_addr = a, uf_payload_len = word_of_nat (length (rd_payload data)),
                      uf_payload = rd_payload data, uf_wire_len = 0\<rparr>;
                 ux = ux\<lparr>ux_restore := saved\<rparr> in
             if frame_blocked env f ux w then udp_resume k (ux\<lparr>ux_restore := None\<rparr>) (set_outbound env saved w)
             else
               (case send_udp_frame_routed env k None f ux w of
                  (URC_GONE out, ux, w) \<Rightarrow> (out, ux, w)
                | (URC_AGAIN, ux, w) \<Rightarrow> (UO_WAIT, ux, w)
                | (URC_ERROR, ux, w) \<Rightarrow>
                    (UO_FINALIZE S_BAD_GATEWAY, ux\<lparr>ux_restore := None\<rparr>, set_outbound env saved w)
                | (URC_OK, ux, w) \<Rightarrow> udp_resume k (ux\<lparr>ux_restore := None\<rparr>) (set_outbound env saved w))
         | _ \<Rightarrow> (UO_FINALIZE S_BAD_GATEWAY, ux, w)))"

definition start_udp_route_resolver ::
    "udp_env \<Rightarrow> (udp_ctx \<Rightarrow> world \<Rightarrow> udp_outcome \<times> udp_ctx \<times> world) \<Rightarrow>
      udp_frame_t \<Rightarrow> udp_ctx \<Rightarrow> world \<Rightarrow> udp_rc \<times> udp_ctx \<times> world" where
  "start_udp_route_resolver env k f ux w =
     (if route_resolver_kind (fr_srv (ue_front env)) \<noteq> RESOLVER_NGINX then (URC_ERROR, ux, w)
      else start_udp_resolver env (udp_route_resolved env k) True f ux w)"

text \<open>A caller that goes on with the context of a session that has ended.\<close>

definition used_after :: "udp_outcome \<Rightarrow> udp_outcome" where
  "used_after out = (if out = UO_FUEL then UO_FUEL else UO_USE_AFTER_FREE)"

text \<open>The end of every path of \<open>send_udp_frame\<close> that has an outbound: \<open>saved\<close> is put back unless the frame
  waits for a handshake, which is a look at the context.\<close>

definition send_and_restore ::
    "udp_env \<Rightarrow> (udp_ctx \<Rightarrow> world \<Rightarrow> udp_outcome \<times> udp_ctx \<times> world) \<Rightarrow> nat option \<Rightarrow>
      udp_frame_t \<Rightarrow> nat option \<Rightarrow> udp_ctx \<Rightarrow> world \<Rightarrow> udp_rc \<times> udp_ctx \<times> world" where
  "send_and_restore env k src f saved ux w =
     (let ux = ux\<lparr>ux_restore := saved\<rparr> in
      if frame_blocked env f ux w then (URC_OK, ux\<lparr>ux_restore := None\<rparr>, set_outbound env saved w)
      else
        (case send_udp_frame_routed env k src f ux w of
           (URC_GONE out, ux, w) \<Rightarrow> (URC_GONE (used_after out), ux, w)
         | (rc, ux, w) \<Rightarrow>
             if rc = URC_AGAIN \<and> ux_pending ux \<noteq> None then (rc, ux, w)
             else (rc, ux\<lparr>ux_restore := None\<rparr>, set_outbound env saved w)))"

text \<open>A mapping is inserted before the frame is sent.\<close>

definition map_and_send ::
    "udp_env \<Rightarrow> (udp_ctx \<Rightarrow> world \<Rightarrow> udp_outcome \<times> udp_ctx \<times> world) \<Rightarrow> nat option \<Rightarrow>
      udp_frame_t \<Rightarrow> nat option \<Rightarrow> nat option \<Rightarrow> udp_ctx \<Rightarrow> world \<Rightarrow> udp_rc \<times> udp_ctx \<times> world" where
  "map_and_send env k src f saved entry ux w =
     (let (mapped, w) = udp_route_mapping_insert (fr_id (ue_front env)) (uf_addr f) (get_outbound env w) entry w in
      send_and_restore env k src f saved ux w)"

text \<open>The label \<open>udp_route_cache_miss\<close>.\<close>

definition udp_route_cache_miss ::
    "udp_env \<Rightarrow> (udp_ctx \<Rightarrow> world \<Rightarrow> udp_outcome \<times> udp_ctx \<times> world) \<Rightarrow> nat option \<Rightarrow>
      udp_frame_t \<Rightarrow> nat option \<Rightarrow> udp_ctx \<Rightarrow> world \<Rightarrow> udp_rc \<times> udp_ctx \<times> world" where
  "udp_route_cache_miss env k src f saved ux w =
     (let fr = ue_front env; e = fr_env fr; srv = fr_srv fr; a = uf_addr f; resolve = cf_resolve (w_conf w);
          take_it = (\<lambda>ob ttl expires.
            let w = set_outbound env (Some ob) w;
                (cached, w) = cache_insert srv a (Some ob) ttl expires w in
            map_and_send env k src f saved cached ux w) in
      case select_outbound_now e srv resolve a [] False of
        SELECTED ob ttl \<Rightarrow> take_it ob ttl 0
      | NEEDS_RESOLVE \<Rightarrow>
          if route_resolver_kind srv \<noteq> RESOLVER_NGINX then
            (case route_system_resolve e a of
               None \<Rightarrow> (URC_OK, ux, set_outbound env saved w)
             | Some addrs \<Rightarrow>
                 (case select_outbound_now e srv resolve a addrs True of
                    SELECTED ob ttl \<Rightarrow> take_it ob ttl (en_time e + ROUTE_CACHE_TTL)
                  | _ \<Rightarrow> (URC_OK, ux, set_outbound env saved w)))
          else start_udp_route_resolver env k f ux w
      | NOT_SELECTED \<Rightarrow> send_and_restore env k src f saved ux w)"

definition send_udp_frame ::
    "udp_env \<Rightarrow> (udp_ctx \<Rightarrow> world \<Rightarrow> udp_outcome \<times> udp_ctx \<times> world) \<Rightarrow> nat option \<Rightarrow>
      udp_frame_t \<Rightarrow> udp_ctx \<Rightarrow> world \<Rightarrow> udp_rc \<times> udp_ctx \<times> world" where
  "send_udp_frame env k src f ux w =
     (let fr = ue_front env; e = fr_env fr; srv = fr_srv fr; saved = get_outbound env w;
          f = f\<lparr>uf_addr := route_resolve_target e (cf_resolve (w_conf w)) (uf_addr f)\<rparr>; a = uf_addr f in
      if \<not> rs_route_enabled srv then send_and_restore env k src f saved ux w
      else
        let (mapping, w) = udp_route_mapping_lookup (fr_id fr) a w in
        (case Option.bind mapping (\<lambda>m. m_outbound (w_udp w m)) of
           Some ob \<Rightarrow> send_and_restore env k src f saved ux (set_outbound env (Some ob) w)
         | None \<Rightarrow>
             let (cached, w) = cache_lookup srv a w in
             (case cached of
                None \<Rightarrow> udp_route_cache_miss env k src f saved ux w
              | Some i \<Rightarrow>
                  if ce_ttl (entry_of w i) \<and> ce_expires (entry_of w i) \<le> en_time e then
                    if route_resolver_kind srv \<noteq> RESOLVER_NGINX then udp_route_cache_miss env k src f saved ux w
                    else
                      let w = set_outbound env (ce_outbound (entry_of w i)) w;
                          (rf, w) = (if \<not> ce_refreshing (entry_of w i)
                            then route_cache_start_refresh e srv a i w else (ux_refresh ux, w)) in
                      map_and_send env k src f saved (Some i) (ux\<lparr>ux_refresh := rf\<rparr>) w
                  else
                    map_and_send env k src f saved (Some i) ux (set_outbound env (ce_outbound (entry_of w i)) w))))"

end
