(* ===== verification/Mt_Udp_Events.thy ===== *)
theory Mt_Udp_Events
  imports Mt_Udp
begin

text \<open>
  The handlers of a UDP session (\<open>ngx_stream_mtrojan_module.c\<close>): the loop over the frames of a Trojan client,
  the end of a SOCKS5 handshake, the resolver's answer, the UDP sockets, and the control connections of
  SOCKS5 associations.
\<close>

subsection \<open>The frames of the client\<close>

fun process_udp_client :: "nat \<Rightarrow> udp_env \<Rightarrow> udp_ctx \<Rightarrow> world \<Rightarrow> udp_outcome \<times> udp_ctx \<times> world" where
  "process_udp_client 0 env ux w = (UO_FUEL, ux, w)"
| "process_udp_client (Suc fuel) env ux w =
     (case trojan_parse_udp_frame (Some (ux_in ux)) of
        Some f \<Rightarrow>
          (case send_udp_frame env (process_udp_client fuel env) None f ux w of
             (URC_GONE out, ux, w) \<Rightarrow> (out, ux, w)
           | (URC_AGAIN, ux, w) \<Rightarrow> (UO_WAIT, ux, w)
           | (URC_ERROR, ux, w) \<Rightarrow> (UO_FINALIZE S_BAD_GATEWAY, ux, w)
           | (URC_OK, ux, w) \<Rightarrow> process_udp_client fuel env (ux\<lparr>ux_in := drop (uf_wire_len f) (ux_in ux)\<rparr>) w)
      | None \<Rightarrow>
          if length (ux_in ux) = UDP_BUFFER_SIZE then (UO_FINALIZE S_BAD_REQUEST, ux, w)
          else
            (case conn_recv (UDP_BUFFER_SIZE - length (ux_in ux)) (ux_client ux) of
               (REC_AGAIN, c) \<Rightarrow> (UO_WAIT, ux\<lparr>ux_client := c\<rparr>, w)
             | (REC_CLOSED, c) \<Rightarrow> (UO_FINALIZE S_OK, ux\<lparr>ux_client := c\<rparr>, w)
             | (GOT bs, c) \<Rightarrow> process_udp_client fuel env (ux\<lparr>ux_client := c, ux_in := ux_in ux @ bs\<rparr>) w))"

text \<open>Turns that are enough: every turn takes a frame off the buffer or an event off the socket.\<close>

definition udp_fuel :: "udp_ctx \<Rightarrow> nat" where
  "udp_fuel ux = Suc (length (ux_in ux) + length (cn_in (ux_client ux)) + length (cn_recvs (ux_client ux)))"

definition udp_client :: "udp_env \<Rightarrow> udp_ctx \<Rightarrow> world \<Rightarrow> udp_outcome \<times> udp_ctx \<times> world" where
  "udp_client env ux w = process_udp_client (udp_fuel ux) env ux w"

subsection \<open>The end of a handshake, the answer of a resolver\<close>

text \<open>The relay of the SOCKS5 server is known; a frame that has waited is sent first.\<close>

definition socks5_udp_ready :: "udp_env \<Rightarrow> addr_t \<Rightarrow> udp_ctx \<Rightarrow> world \<Rightarrow> udp_outcome \<times> udp_ctx \<times> world" where
  "socks5_udp_ready env bind_addr ux w =
     (case Option.bind (session_outbound (ue_front env) w) ob_socks5_server of
        None \<Rightarrow> (UO_FINALIZE S_BAD_GATEWAY, ux, w)
      | Some server \<Rightarrow>
          (case socks5_response_to_ngx_addr (fr_env (ue_front env)) server bind_addr of
             None \<Rightarrow> (UO_FINALIZE S_BAD_GATEWAY, ux, w)
           | Some sa \<Rightarrow>
               if \<not> ue_open env (is_inet6 (Some sa)) then (UO_FINALIZE S_BAD_GATEWAY, ux, w)
               else
                 let ux = ux\<lparr>ux_relay := Some sa, ux_socks5_udp := True, ux_socks5_outbound := get_outbound env w\<rparr> in
                 (case ux_pending ux of
                    None \<Rightarrow> udp_resume (udp_client env) ux w
                  | Some (a, len) \<Rightarrow>
                      let f = \<lparr>uf_addr = a, uf_payload_len = word_of_nat len,
                               uf_payload = mem (ux_payload ux) len, uf_wire_len = 0\<rparr>;
                          saved = get_outbound env w;
                          back = (\<lambda>ux. if ux_restore ux \<noteq> None then ux_restore ux else saved);
                          w = set_outbound env (ux_saved_outbound ux) w in
                      (case send_socks5_udp_frame None f (ux\<lparr>ux_pending := None\<rparr>) of
                         (False, ux) \<Rightarrow>
                           (UO_FINALIZE S_BAD_GATEWAY, ux\<lparr>ux_restore := None\<rparr>, set_outbound env (back ux) w)
                       | (True, ux) \<Rightarrow>
                           udp_resume (udp_client env) (ux\<lparr>ux_restore := None\<rparr>) (set_outbound env (back ux) w)))))"

text \<open>\<open>socks5_handler\<close>. A handshake for UDP never becomes a relay of two streams.\<close>

definition udp_handshake_event :: "udp_env \<Rightarrow> udp_ctx \<Rightarrow> world \<Rightarrow> udp_outcome \<times> udp_ctx \<times> world" where
  "udp_handshake_event env ux w =
     (case ux_upstream ux of
        None \<Rightarrow> (UO_WAIT, ux, w)
      | Some h \<Rightarrow>
          (case process_socks5 9 h of
             None \<Rightarrow> (UO_FUEL, ux, w)
           | Some (r, h) \<Rightarrow>
               let ux = ux\<lparr>ux_upstream := Some h\<rparr> in
               (case r of
                  HS_WAIT \<Rightarrow> (UO_WAIT, ux, w)
                | HS_FINALIZE st \<Rightarrow> (UO_FINALIZE st, ux, w)
                | HS_PROXY \<Rightarrow> (UO_FUEL, ux, w)
                | HS_RELAY a \<Rightarrow> socks5_udp_ready env a ux w)))"

definition udp_resolver_event :: "udp_env \<Rightarrow> resolved \<Rightarrow> udp_ctx \<Rightarrow> world \<Rightarrow> udp_outcome \<times> udp_ctx \<times> world" where
  "udp_resolver_event env rv ux w =
     (case ux_resolver ux of
        None \<Rightarrow> (UO_WAIT, ux, w)
      | Some data \<Rightarrow>
          if rd_route data then udp_route_resolved env (udp_client env) data rv ux w
          else udp_resolved env (udp_client env) data rv ux w)"

text \<open>\<open>read_client\<close> in a UDP session.\<close>

definition udp_client_event :: "udp_env \<Rightarrow> udp_ctx \<Rightarrow> world \<Rightarrow> udp_outcome \<times> udp_ctx \<times> world" where
  "udp_client_event env ux w = (if ux_state ux = ST_UDP then udp_client env ux w else (UO_WAIT, ux, w))"

subsection \<open>What comes back\<close>

text \<open>A full socket leaves the frame in the buffer.\<close>

definition flush_udp_client :: "udp_ctx \<Rightarrow> io \<times> udp_ctx" where
  "flush_udp_client ux =
     (case ux_to_client ux of
        None \<Rightarrow> (IO_OK, ux)
      | Some b \<Rightarrow>
          let (r, b, c) = flush b (ux_client ux) in
          (r, ux\<lparr>ux_client := c, ux_to_client := (if r = IO_OK then None else Some b)\<rparr>))"

definition udp_client_write_event :: "udp_ctx \<Rightarrow> udp_outcome \<times> udp_ctx" where
  "udp_client_write_event ux =
     (let (r, ux) = flush_udp_client ux in (if r = IO_ERROR then UO_FINALIZE S_OK else UO_WAIT, ux))"

text \<open>What \<open>recvfrom\<close> gives; \<open>EAGAIN\<close> at the end of the list.\<close>

datatype recvfrom_event = RECVFROM sockaddr bytes | RECVFROM_ERROR

datatype read_turn = RT_GO | RT_END udp_outcome

text \<open>A frame for the Trojan client, in a buffer of its own.\<close>

definition give_client :: "bytes \<Rightarrow> udp_ctx \<Rightarrow> read_turn \<times> udp_ctx" where
  "give_client bs ux =
     (let ux = ux\<lparr>ux_to_client := Some \<lparr>nb_pos = 0, nb_last = length bs, nb_data = bs\<rparr>\<rparr>;
          (r, ux) = flush_udp_client ux in
      (if r = IO_ERROR then RT_END (UO_FINALIZE S_BAD_GATEWAY) else RT_GO, ux))"

text \<open>A datagram for the SOCKS5 client, whose address is known once it has sent one.\<close>

definition give_socks5_client :: "bytes \<Rightarrow> udp_ctx \<Rightarrow> read_turn \<times> udp_ctx" where
  "give_socks5_client packet ux =
     (case ux_udp_client ux of
        None \<Rightarrow> (RT_GO, ux)
      | Some sa \<Rightarrow>
          if \<not> ux_in_udp ux then (RT_GO, ux)
          else
            (case udp_sendto (TO_CLIENT sa packet) ux of
               (False, ux) \<Rightarrow> (RT_END (UO_FINALIZE S_BAD_GATEWAY), ux)
             | (True, ux) \<Rightarrow> (RT_GO, ux)))"

text \<open>One datagram of a target.\<close>

definition udp_read_datagram :: "sockaddr \<Rightarrow> bytes \<Rightarrow> udp_ctx \<Rightarrow> read_turn \<times> udp_ctx" where
  "udp_read_datagram sa bs ux =
     (let bs = take MAX_UDP_PAYLOAD bs;
          ux = ux\<lparr>ux_payload := map_option (\<lambda>p. poke p 0 bs) (ux_payload ux)\<rparr>;
          n = word_of_nat (length bs) :: u16 in
      (case sockaddr_to_addr sa of
         None \<Rightarrow> (RT_GO, ux)
       | Some a \<Rightarrow>
           (case trojan_pack_udp_frame (Some a) (ux_payload ux) n (Some (ux_out ux)) of
              (Some written, Some d) \<Rightarrow>
                let ux = ux\<lparr>ux_out := d\<rparr> in
                if ux_inbound ux then
                  (if ux_udp_client ux = None \<or> \<not> ux_in_udp ux then (RT_GO, ux)
                   else
                     (case socks5_build_udp_packet (Some a) (ux_payload ux) n (Some (take SOCKS5_MAX_PACKET (ux_out ux))) of
                        (Some written, Some d) \<Rightarrow>
                          give_socks5_client (take written d)
                            (ux\<lparr>ux_out := d @ drop SOCKS5_MAX_PACKET (ux_out ux)\<rparr>)
                      | _ \<Rightarrow> (RT_GO, ux)))
                else give_client (take written d) ux
            | _ \<Rightarrow> (RT_GO, ux))))"

text \<open>One datagram of the relay of a SOCKS5 server.\<close>

definition socks5_read_datagram :: "bytes \<Rightarrow> udp_ctx \<Rightarrow> read_turn \<times> udp_ctx" where
  "socks5_read_datagram bs ux =
     (let bs = take SOCKS5_MAX_PACKET bs;
          ux = ux\<lparr>ux_out := poke (ux_out ux) 0 bs\<rparr> in
      (case socks5_parse_udp_packet (Some (take (length bs) (ux_out ux))) of
         None \<Rightarrow> (RT_GO, ux)
       | Some f \<Rightarrow>
           if ux_inbound ux then give_socks5_client (take (length bs) (ux_out ux)) ux
           else
             let ux = ux\<lparr>ux_payload := map_option (\<lambda>p. poke p 0 (uf_payload f)) (ux_payload ux)\<rparr> in
             (case trojan_pack_udp_frame (Some (uf_addr f)) (ux_payload ux) (uf_payload_len f) (Some (ux_out ux)) of
                (Some written, Some d) \<Rightarrow> give_client (take written d) (ux\<lparr>ux_out := d\<rparr>)
              | _ \<Rightarrow> (RT_GO, ux))))"

text \<open>The loop of both handlers, until the socket is empty, the client's is full or the session ends; the
  datagrams that are left stay in the socket.\<close>

fun udp_read_loop ::
    "(sockaddr \<Rightarrow> bytes \<Rightarrow> udp_ctx \<Rightarrow> read_turn \<times> udp_ctx) \<Rightarrow> recvfrom_event list \<Rightarrow> udp_ctx \<Rightarrow>
      udp_outcome \<times> udp_ctx \<times> recvfrom_event list" where
  "udp_read_loop turn [] ux = (UO_WAIT, snd (flush_udp_client ux), [])"
| "udp_read_loop turn (ev # evs) ux =
     (case flush_udp_client ux of
        (IO_OK, ux) \<Rightarrow>
          (case ev of
             RECVFROM_ERROR \<Rightarrow> (UO_FINALIZE S_BAD_GATEWAY, ux, evs)
           | RECVFROM sa bs \<Rightarrow>
               (case turn sa bs ux of
                  (RT_END out, ux) \<Rightarrow> (out, ux, evs)
                | (RT_GO, ux) \<Rightarrow> udp_read_loop turn evs ux))
      | (_, ux) \<Rightarrow> (UO_WAIT, ux, ev # evs))"

definition udp_read_handler :: "recvfrom_event list \<Rightarrow> udp_ctx \<Rightarrow> udp_outcome \<times> udp_ctx \<times> recvfrom_event list" where
  "udp_read_handler = udp_read_loop udp_read_datagram"

definition socks5_udp_read_handler :: "recvfrom_event list \<Rightarrow> udp_ctx \<Rightarrow> udp_outcome \<times> udp_ctx \<times> recvfrom_event list" where
  "socks5_udp_read_handler = udp_read_loop (\<lambda>sa. socks5_read_datagram)"

subsection \<open>The datagrams of a SOCKS5 client\<close>

text \<open>The first one fixes the address of the client. What \<open>send_udp_frame\<close> returns is not looked at.\<close>

definition socks5_in_datagram ::
    "udp_env \<Rightarrow> sockaddr \<Rightarrow> bytes \<Rightarrow> udp_ctx \<Rightarrow> world \<Rightarrow> udp_outcome \<times> udp_ctx \<times> world" where
  "socks5_in_datagram env sa bs ux w =
     (let bs = take SOCKS5_MAX_PACKET bs;
          ux = ux\<lparr>ux_out := poke (ux_out ux) 0 bs\<rparr>;
          fr = ue_front env in
      (case socks5_parse_udp_packet (Some (take (length bs) (ux_out ux))) of
         None \<Rightarrow> (UO_WAIT, ux, w)
       | Some f \<Rightarrow>
           if ux_resolver ux \<noteq> None then (UO_WAIT, ux, w)
           else if ux_udp_client ux \<noteq> None \<and> ux_udp_client ux \<noteq> Some sa then (UO_WAIT, ux, w)
           else
             let ux = ux\<lparr>ux_udp_client := Some sa\<rparr> in
             if \<not> rs_route_enabled (fr_srv fr) \<and> outbound_type_of (session_outbound fr w) = OUTBOUND_SOCKS5
             then (UO_WAIT, snd (forward_socks5_udp_packet (take (length bs) (ux_out ux)) ux), w)
             else
               (case send_udp_frame env (udp_client env) (Some (3 + addr_wire_len (uf_addr f))) f ux w of
                  (URC_GONE out, ux, w) \<Rightarrow> (used_after out, ux, w)
                | (_, ux, w) \<Rightarrow> (UO_WAIT, ux, w))))"

fun socks5_in_udp_read_handler ::
    "udp_env \<Rightarrow> recvfrom_event list \<Rightarrow> udp_ctx \<Rightarrow> world \<Rightarrow> udp_outcome \<times> udp_ctx \<times> world" where
  "socks5_in_udp_read_handler env [] ux w = (UO_WAIT, ux, w)"
| "socks5_in_udp_read_handler env (RECVFROM_ERROR # evs) ux w = (UO_WAIT, ux, w)"
| "socks5_in_udp_read_handler env (RECVFROM sa bs # evs) ux w =
     (case socks5_in_datagram env sa bs ux w of
        (UO_WAIT, ux, w) \<Rightarrow> socks5_in_udp_read_handler env evs ux w
      | r \<Rightarrow> r)"

subsection \<open>Control connections\<close>

text \<open>Everything that comes is read, 128 bytes at a time, and thrown away.\<close>

datatype control = CTL_WAIT | CTL_EOF | CTL_ERROR

fun control_read :: "bytes \<Rightarrow> recv_event list \<Rightarrow> control \<times> bytes \<times> recv_event list" where
  "control_read inp [] = (CTL_WAIT, inp, [])"
| "control_read inp (ev # evs) =
     (case ev of
        RECVD n \<Rightarrow>
          let m = min n (min 128 (length inp)) in
          if m = 0 then (CTL_WAIT, inp, evs) else control_read (drop m inp) evs
      | RECV_EOF \<Rightarrow> (CTL_EOF, inp, evs)
      | RECV_ERROR \<Rightarrow> (CTL_ERROR, inp, evs)
      | _ \<Rightarrow> (CTL_WAIT, inp, evs))"

definition control_conn :: "conn \<Rightarrow> control \<times> conn" where
  "control_conn c = (let (r, inp, evs) = control_read (cn_in c) (cn_recvs c) in (r, c\<lparr>cn_in := inp, cn_recvs := evs\<rparr>))"

text \<open>\<open>closed\<close>: \<open>eof\<close> or \<open>error\<close> of the connection is set.\<close>

definition socks5_udp_control_handler :: "bool \<Rightarrow> bool \<Rightarrow> udp_ctx \<Rightarrow> udp_outcome \<times> udp_ctx" where
  "socks5_udp_control_handler timedout closed ux =
     (if timedout then (UO_FINALIZE S_OK, ux)
      else if closed then (UO_FINALIZE S_BAD_GATEWAY, ux)
      else
        (case ux_upstream ux of
           None \<Rightarrow> (UO_WAIT, ux)
         | Some h \<Rightarrow>
             let (r, c) = control_conn (hs_peer h); ux = ux\<lparr>ux_upstream := Some (h\<lparr>hs_peer := c\<rparr>)\<rparr> in
             (case r of
                CTL_WAIT \<Rightarrow> UO_WAIT
              | CTL_EOF \<Rightarrow> UO_FINALIZE S_OK
              | CTL_ERROR \<Rightarrow> UO_FINALIZE S_BAD_GATEWAY, ux)))"

definition socks5_in_udp_control_handler :: "bool \<Rightarrow> bool \<Rightarrow> udp_ctx \<Rightarrow> udp_outcome \<times> udp_ctx" where
  "socks5_in_udp_control_handler timedout closed ux =
     (if timedout \<or> closed then (UO_FINALIZE S_OK, ux)
      else
        let (r, c) = control_conn (ux_client ux); ux = ux\<lparr>ux_client := c\<rparr> in
        (case r of CTL_WAIT \<Rightarrow> UO_WAIT | _ \<Rightarrow> UO_FINALIZE S_OK, ux))"

subsection \<open>The beginning\<close>

text \<open>\<open>init_udp_buffers\<close>: regions of the sizes the code asks for, with whatever they hold.\<close>

definition udp_start :: "bytes \<Rightarrow> bytes \<Rightarrow> session \<Rightarrow> udp_ctx" where
  "udp_start payload out s =
     \<lparr>ux_state = ST_UDP, ux_client = ss_client s, ux_command = ss_command s, ux_target = ss_target s, ux_in = [],
      ux_payload = Some payload, ux_out = out, ux_to_client = None, ux_pending = None, ux_saved_outbound = None,
      ux_restore = None, ux_udp4 = False, ux_udp6 = False, ux_socks5_udp = False, ux_relay = None,
      ux_socks5_outbound = None, ux_upstream = None, ux_lost = [], ux_resolver = None, ux_refresh = ss_refresh s,
      ux_inbound = ss_in_socks5 s, ux_in_udp = ss_in_socks5 s, ux_udp_client = None, ux_sendto = [], ux_sent = []\<rparr>"

text \<open>\<open>start_udp\<close>.\<close>

definition start_udp_session :: "udp_env \<Rightarrow> bytes \<Rightarrow> bytes \<Rightarrow> session \<Rightarrow> world \<Rightarrow> udp_outcome \<times> udp_ctx \<times> world" where
  "start_udp_session env payload out s w =
     (let ux = udp_start payload out s in
      if outbound_type_of (session_outbound (ue_front env) w) = OUTBOUND_SOCKS5 then
        (case start_socks5_udp env ux w of
           Inl st \<Rightarrow> (UO_FINALIZE st, ux, w)
         | Inr ux \<Rightarrow> (UO_WAIT, ux, w))
      else udp_client env ux w)"

end
