(* ===== verification/Mt_Udp_Replies.thy ===== *)
theory Mt_Udp_Replies
  imports Mt_Udp_Events
begin

text \<open>
  The datagrams that come back to a Trojan client: both read handlers run the same loop (a contract,
  \<open>udp_source\<close>, with one interpretation for the sockets of direct targets and one for the relay of a SOCKS5
  server), and what the client is sent is the frames of the datagrams taken, in their order.
\<close>

subsection \<open>What the loop keeps\<close>

definition sizes :: "udp_ctx \<Rightarrow> bool" where
  "sizes ux \<longleftrightarrow> (\<exists>p. ux_payload ux = Some p \<and> length p = MAX_UDP_PAYLOAD) \<and>
     length (ux_out ux) = UDP_BUFFER_SIZE \<and> length (ux_in ux) \<le> UDP_BUFFER_SIZE \<and> \<not> ux_inbound ux"

definition reply_ok :: "udp_ctx \<Rightarrow> bool" where
  "reply_ok ux \<longleftrightarrow> sizes ux \<and> (\<forall>b. ux_to_client ux = Some b \<longrightarrow> buf_ok b)"

text \<open>What the client has been sent and what waits for it.\<close>

definition client_view :: "udp_ctx \<Rightarrow> bytes" where
  "client_view ux = cn_out (ux_client ux) @ (case ux_to_client ux of None \<Rightarrow> [] | Some b \<Rightarrow> unsent b)"

definition same_frames :: "udp_ctx \<Rightarrow> udp_ctx \<Rightarrow> bool" where
  "same_frames ux ux' \<longleftrightarrow> ux_state ux' = ux_state ux \<and> ux_in ux' = ux_in ux \<and> ux_pending ux' = ux_pending ux \<and>
     ux_resolver ux' = ux_resolver ux \<and> ux_sent ux' = ux_sent ux \<and> cn_in (ux_client ux') = cn_in (ux_client ux) \<and>
     cn_recvs (ux_client ux') = cn_recvs (ux_client ux)"

lemma same_frames_refl: "same_frames ux ux" by (simp add: same_frames_def)

lemma same_frames_trans: "same_frames a b \<Longrightarrow> same_frames b c \<Longrightarrow> same_frames a c" by (simp add: same_frames_def)

lemma flush_client_facts:
  assumes "flush_udp_client ux = (r, ux')" "reply_ok ux"
  shows "reply_ok ux' \<and> same_frames ux ux' \<and> client_view ux' = client_view ux \<and>
     (r = IO_OK \<longleftrightarrow> ux_to_client ux' = None)"
proof (cases "ux_to_client ux")
  case None
  then show ?thesis using assms by (auto simp: flush_udp_client_def same_frames_refl)
next
  case (Some b)
  obtain r0 b' c where f: "flush b (ux_client ux) = (r0, b', c)" by (metis prod_cases3)
  have "buf_ok b" using assms(2) Some by (simp add: reply_ok_def)
  note F = flush_facts [OF f this]
  show ?thesis
    using assms F Some f
    by (auto simp: flush_udp_client_def reply_ok_def sizes_def same_frames_def client_view_def split: if_splits)
qed

lemma give_client_facts:
  assumes "give_client bs ux = (RT_GO, ux')" "reply_ok ux" "ux_to_client ux = None"
  shows "reply_ok ux' \<and> same_frames ux ux' \<and> client_view ux' = client_view ux @ bs"
proof -
  let ?u = "ux\<lparr>ux_to_client := Some \<lparr>nb_pos = 0, nb_last = length bs, nb_data = bs\<rparr>\<rparr>"
  have "reply_ok ?u" using assms(2) by (auto simp: reply_ok_def sizes_def buf_ok_def)
  moreover have "client_view ?u = client_view ux @ bs" "same_frames ux ?u"
    using assms(3) by (simp_all add: client_view_def unsent_def same_frames_def)
  moreover obtain r where "flush_udp_client ?u = (r, ux')"
    using assms(1) by (auto simp: give_client_def Let_def split: prod.splits)
  ultimately show ?thesis using flush_client_facts same_frames_trans by fastforce
qed

lemma give_client_ends: "give_client bs ux = (RT_END out, ux') \<Longrightarrow> out = UO_FINALIZE S_BAD_GATEWAY"
  by (auto simp: give_client_def Let_def split: prod.splits if_splits)

subsection \<open>The loop\<close>

text \<open>A turn takes a datagram that is \<open>good\<close> and gives the client \<open>reply\<close>.\<close>

locale udp_source =
  fixes turn :: "sockaddr \<Rightarrow> bytes \<Rightarrow> udp_ctx \<Rightarrow> read_turn \<times> udp_ctx"
    and reply :: "sockaddr \<Rightarrow> bytes \<Rightarrow> bytes"
    and good :: "sockaddr \<Rightarrow> bool"
  assumes turn_gives: "turn sa bs ux = (RT_GO, ux') \<Longrightarrow> reply_ok ux \<Longrightarrow> ux_to_client ux = None \<Longrightarrow> good sa \<Longrightarrow>
      reply_ok ux' \<and> same_frames ux ux' \<and> client_view ux' = client_view ux @ reply sa bs"
    and turn_ends: "turn sa bs ux = (RT_END out, ux') \<Longrightarrow> \<not> ux_inbound ux \<Longrightarrow> out \<noteq> UO_WAIT"
begin

lemma loop_gives:
  "udp_read_loop turn evs ux = (UO_WAIT, ux', rest) \<Longrightarrow> reply_ok ux \<Longrightarrow> \<forall>sa bs. RECVFROM sa bs \<in> set evs \<longrightarrow> good sa \<Longrightarrow>
     \<exists>taken. evs = map (\<lambda>(sa, bs). RECVFROM sa bs) taken @ rest \<and> reply_ok ux' \<and> same_frames ux ux' \<and>
       client_view ux' = client_view ux @ concat (map (\<lambda>(sa, bs). reply sa bs) taken) \<and>
       (rest = [] \<or> ux_to_client ux' \<noteq> None)"
proof (induction evs arbitrary: ux)
  case Nil
  obtain r u where f: "flush_udp_client ux = (r, u)" by (metis surj_pair)
  then have "ux' = u \<and> rest = []" using Nil.prems(1) by simp
  then show ?case using flush_client_facts [OF f Nil.prems(2)] by (intro exI [of _ "[]"]) simp
next
  case (Cons ev evs)
  obtain r u where f: "flush_udp_client ux = (r, u)" by (metis surj_pair)
  note F = flush_client_facts [OF f Cons.prems(2)]
  show ?case
  proof (cases "r = IO_OK")
    case False
    then have "ux' = u \<and> rest = ev # evs" using Cons.prems(1) f by (cases r) simp_all
    then show ?thesis using F False by (intro exI [of _ "[]"]) simp
  next
    case True
    then obtain sa bs where ev: "ev = RECVFROM sa bs" using Cons.prems(1) f by (cases ev) simp_all
    obtain rt v where t: "turn sa bs u = (rt, v)" by (metis surj_pair)
    have ni: "\<not> ux_inbound u" using F by (simp add: reply_ok_def sizes_def)
    have go: "rt = RT_GO" "udp_read_loop turn evs v = (UO_WAIT, ux', rest)"
      using Cons.prems(1) f True ev t turn_ends [OF _ ni, of sa bs] by (auto split: read_turn.splits)
    have T: "reply_ok v \<and> same_frames u v \<and> client_view v = client_view u @ reply sa bs"
      using turn_gives [OF t [unfolded go(1)]] F True Cons.prems(3) ev by auto
    obtain taken where tk: "evs = map (\<lambda>(sa, bs). RECVFROM sa bs) taken @ rest" "reply_ok ux'" "same_frames v ux'"
        "client_view ux' = client_view v @ concat (map (\<lambda>(sa, bs). reply sa bs) taken)"
        "rest = [] \<or> ux_to_client ux' \<noteq> None"
      using Cons.IH [OF go(2)] T Cons.prems(3) by auto
    show ?thesis
      using tk T F ev same_frames_trans by (intro exI [of _ "(sa, bs) # taken"]) (auto intro: same_frames_trans)
  qed
qed

end

subsection \<open>The two sockets\<close>

text \<open>The frame for a datagram of a target, and for a packet of the relay of a SOCKS5 server; datagrams that are
  no packets are skipped.\<close>

definition target_reply :: "sockaddr \<Rightarrow> bytes \<Rightarrow> bytes" where
  "target_reply sa bs =
     (case sockaddr_to_addr sa of
        None \<Rightarrow> []
      | Some a \<Rightarrow> trojan_wire (addr_type a) (host_bytes a) (addr_port a) (take MAX_UDP_PAYLOAD bs))"

definition relay_reply :: "bytes \<Rightarrow> bytes" where
  "relay_reply bs =
     (case socks5_parse_udp_packet (Some (take SOCKS5_MAX_PACKET bs)) of
        None \<Rightarrow> []
      | Some f \<Rightarrow> trojan_frame_enc f)"

definition wf_sockaddr :: "sockaddr \<Rightarrow> bool" where
  "wf_sockaddr sa \<longleftrightarrow> (case sa of SA6 b p \<Rightarrow> length b = 16 | _ \<Rightarrow> True)"

text \<open>Packing reads only so much of the region as the payload is long.\<close>

lemma pack_region:
  "trojan_pack_udp_frame (Some a) (Some p) n (Some d) = trojan_pack_udp_frame (Some a) (Some (take (unat n) p)) n (Some d)"
  unfolding trojan_pack_udp_frame_def mem_Some take_take min.idem by simp

lemma take_poked: "take (length bs) (poke d 0 bs) = (bs :: bytes)"
  by (simp add: poke_def)

lemma pack_client_frame:
  assumes "trojan_addr_ok a" "length p = MAX_UDP_PAYLOAD" "length d = UDP_BUFFER_SIZE" "length pl \<le> 65535"
  shows "\<exists>d'. trojan_pack_udp_frame (Some a) (Some (poke p 0 pl)) (word_of_nat (length pl)) (Some d) =
            (Some (length (trojan_wire (addr_type a) (host_bytes a) (addr_port a) pl)), Some d') \<and>
          length d' = UDP_BUFFER_SIZE \<and>
          take (length (trojan_wire (addr_type a) (host_bytes a) (addr_port a) pl)) d' =
            trojan_wire (addr_type a) (host_bytes a) (addr_port a) pl"
proof -
  let ?w = "trojan_wire (addr_type a) (host_bytes a) (addr_port a) pl"
  have u: "take (unat (word_of_nat (length pl) :: u16)) (poke p 0 pl) = pl"
    using assms(2,4) by (simp add: unat_of_nat poke_def wire_defs)
  have h: "length (host_bytes a) = addr_host_len a" using host_bytes_len [OF assms(1)] by simp
  have fit: "addr_wire_len a + 4 + length pl \<le> length d"
    using addr_wire_len_le [OF assms(1)] assms(3,4) by (simp add: wire_defs)
  have "length ?w = addr_wire_len a + 4 + length pl" using assms(1) h by (simp add: trojan_addr_ok_def)
  moreover have "trojan_pack_udp_frame (Some a) (Some pl) (word_of_nat (length pl)) (Some d) =
      (Some (length ?w), Some (?w @ drop (length ?w) d))"
    using trojan_pack_udp_frame_ok [OF _ h _ assms(4) fit] assms(1) by (simp add: trojan_addr_ok_def Let_def)
  moreover have "trojan_pack_udp_frame (Some a) (Some (poke p 0 pl)) (word_of_nat (length pl)) (Some d) =
      trojan_pack_udp_frame (Some a) (Some pl) (word_of_nat (length pl)) (Some d)"
    using pack_region [of a "poke p 0 pl" "word_of_nat (length pl)" d] by (simp only: u)
  ultimately show ?thesis
    using fit assms(3) by simp
qed

lemma regions_kept:
  assumes "reply_ok ux" "ux_to_client ux = None" "length p = MAX_UDP_PAYLOAD" "length d = UDP_BUFFER_SIZE"
  shows "reply_ok (ux\<lparr>ux_payload := Some p, ux_out := d\<rparr>)" "ux_to_client (ux\<lparr>ux_payload := Some p, ux_out := d\<rparr>) = None"
    "same_frames ux (ux\<lparr>ux_payload := Some p, ux_out := d\<rparr>)"
    "client_view (ux\<lparr>ux_payload := Some p, ux_out := d\<rparr>) = client_view ux"
  using assms by (auto simp: reply_ok_def sizes_def same_frames_def client_view_def)

interpretation target_source: udp_source udp_read_datagram target_reply wf_sockaddr
proof unfold_locales
  fix sa bs ux ux'
  assume run: "udp_read_datagram sa bs ux = (RT_GO, ux')" and ok: "reply_ok ux" "ux_to_client ux = None" and wf: "wf_sockaddr sa"
  show "reply_ok ux' \<and> same_frames ux ux' \<and> client_view ux' = client_view ux @ target_reply sa bs"
  proof (cases "sockaddr_to_addr sa")
    case None
    then show ?thesis using run ok by (auto simp: udp_read_datagram_def Let_def target_reply_def reply_ok_def sizes_def same_frames_def client_view_def)
  next
    case (Some a)
    let ?pl = "take MAX_UDP_PAYLOAD bs"
    obtain p where p: "ux_payload ux = Some p" "length p = MAX_UDP_PAYLOAD" "length (ux_out ux) = UDP_BUFFER_SIZE" "\<not> ux_inbound ux"
      using ok(1) by (auto simp: reply_ok_def sizes_def)
    have a: "trojan_addr_ok a" using sockaddr_to_addr_ok [OF Some] wf by (simp add: wf_sockaddr_def split: sockaddr.splits)
    obtain d where d: "trojan_pack_udp_frame (Some a) (Some (poke p 0 ?pl)) (word_of_nat (length ?pl)) (Some (ux_out ux)) =
          (Some (length (target_reply sa bs)), Some d)" "length d = UDP_BUFFER_SIZE"
        "take (length (target_reply sa bs)) d = target_reply sa bs"
      using pack_client_frame [OF a p(2,3), of ?pl] Some by (auto simp: target_reply_def wire_defs)
    have q: "length (poke p 0 ?pl) = MAX_UDP_PAYLOAD" using p(2) by (simp add: length_poke)
    have "give_client (target_reply sa bs) (ux\<lparr>ux_payload := Some (poke p 0 ?pl), ux_out := d\<rparr>) = (RT_GO, ux')"
      using run Some p d unfolding udp_read_datagram_def Let_def by simp
    then show ?thesis using give_client_facts regions_kept [OF ok q d(2)] same_frames_trans by fastforce
  qed
next
  fix sa bs ux out ux'
  assume "udp_read_datagram sa bs ux = (RT_END out, ux')" "\<not> ux_inbound ux"
  then show "out \<noteq> UO_WAIT"
    by (auto simp: udp_read_datagram_def Let_def dest: give_client_ends split: option.splits prod.splits)
qed

lemma socks5_packet_frame:
  assumes "socks5_parse_udp_packet (Some s) = Some f"
  shows "trojan_addr_ok (uf_addr f) \<and> length (uf_payload f) \<le> 65535 \<and> uf_payload_len f = word_of_nat (length (uf_payload f))"
proof -
  obtain a where a: "trojan_parse_addr (Some (drop 3 s)) = Some a" "length s - 3 - addr_wire_len a \<le> 65535"
      "f = \<lparr>uf_addr = a, uf_payload_len = word_of_nat (length s - 3 - addr_wire_len a),
            uf_payload = drop (3 + addr_wire_len a) s, uf_wire_len = length s\<rparr>"
    using assms by (auto simp: socks5_parse_udp_packet_def split: if_splits option.splits)
  show ?thesis
    using a by (auto elim!: trojan_parse_addr_inv simp: trojan_addr_ok_of)
qed

interpretation relay_source: udp_source "\<lambda>sa. socks5_read_datagram" "\<lambda>sa. relay_reply" "\<lambda>sa. True"
proof unfold_locales
  fix bs ux ux'
  assume run: "socks5_read_datagram bs ux = (RT_GO, ux')" and ok: "reply_ok ux" "ux_to_client ux = None"
  define b where "b = take SOCKS5_MAX_PACKET bs"
  obtain p where p: "ux_payload ux = Some p" "length p = MAX_UDP_PAYLOAD" "length (ux_out ux) = UDP_BUFFER_SIZE" "\<not> ux_inbound ux"
    using ok(1) by (auto simp: reply_ok_def sizes_def)
  have bl: "length b \<le> SOCKS5_MAX_PACKET" by (simp add: b_def)
  have o: "length (poke (ux_out ux) 0 b) = UDP_BUFFER_SIZE" "take (length b) (poke (ux_out ux) 0 b) = b"
    using p(3) bl by (simp_all add: length_poke take_poked wire_defs)
  show "reply_ok ux' \<and> same_frames ux ux' \<and> client_view ux' = client_view ux @ relay_reply bs"
  proof (cases "socks5_parse_udp_packet (Some b)")
    case None
    then have "ux' = ux\<lparr>ux_out := poke (ux_out ux) 0 b\<rparr>"
      using run unfolding socks5_read_datagram_def Let_def b_def [symmetric] by simp
    then show ?thesis using None ok o(1)
      by (auto simp: relay_reply_def b_def [symmetric] reply_ok_def sizes_def same_frames_def client_view_def)
  next
    case (Some f)
    note F = socks5_packet_frame [OF Some]
    obtain d where d: "trojan_pack_udp_frame (Some (uf_addr f)) (Some (poke p 0 (uf_payload f))) (uf_payload_len f)
          (Some (poke (ux_out ux) 0 b)) = (Some (length (relay_reply bs)), Some d)" "length d = UDP_BUFFER_SIZE"
        "take (length (relay_reply bs)) d = relay_reply bs"
      using pack_client_frame [OF _ p(2) o(1), of "uf_addr f" "uf_payload f"] F Some
      by (auto simp: relay_reply_def b_def [symmetric] trojan_frame_enc_def)
    have q: "length (poke p 0 (uf_payload f)) = MAX_UDP_PAYLOAD" using p(2) F by (simp add: length_poke wire_defs)
    have "give_client (relay_reply bs) (ux\<lparr>ux_payload := Some (poke p 0 (uf_payload f)), ux_out := d\<rparr>) = (RT_GO, ux')"
      using run Some p d unfolding socks5_read_datagram_def Let_def b_def [symmetric] by simp
    then show ?thesis using give_client_facts regions_kept [OF ok q d(2)] same_frames_trans by fastforce
  qed
next
  fix bs ux out ux'
  assume "socks5_read_datagram bs ux = (RT_END out, ux')" "\<not> ux_inbound ux"
  then show "out \<noteq> UO_WAIT"
    by (auto simp: socks5_read_datagram_def Let_def dest: give_client_ends split: option.splits prod.splits)
qed

subsection \<open>What the client gets\<close>

text \<open>
  C6: The replies of a UDP session reach the Trojan client exactly. Whatever datagrams the socket of the
  direct targets, or the one of the relay of a SOCKS5 server, has, and however little the client takes at a
  time: a call of its read handler that goes on takes the first datagrams in their order, and what the client
  was sent together with what is pending for it grows by exactly one frame for each (its source address and
  payload; nothing for a datagram that is not a SOCKS5 packet). A datagram is left in the socket only while
  a frame is pending. The frames of the client itself are not touched.
\<close>

theorem udp_replies_exact:
  assumes "handler = udp_read_handler \<and> answer = target_reply \<or>
      handler = socks5_udp_read_handler \<and> answer = (\<lambda>sa. relay_reply)"
    and "handler evs ux = (UO_WAIT, ux', rest)" "reply_ok ux" "\<forall>sa bs. RECVFROM sa bs \<in> set evs \<longrightarrow> wf_sockaddr sa"
  shows "\<exists>taken. evs = map (\<lambda>(sa, bs). RECVFROM sa bs) taken @ rest \<and>
      client_view ux' = client_view ux @ concat (map (\<lambda>(sa, bs). answer sa bs) taken) \<and>
      (rest = [] \<or> ux_to_client ux' \<noteq> None) \<and> reply_ok ux' \<and> same_frames ux ux'"
  using assms target_source.loop_gives [of evs ux ux' rest] relay_source.loop_gives [of evs ux ux' rest]
  unfolding udp_read_handler_def socks5_udp_read_handler_def by fastforce

definition reply_ctx :: udp_ctx where
  "reply_ctx = udp_start (replicate MAX_UDP_PAYLOAD 0) (replicate UDP_BUFFER_SIZE 0)
     (zero_session \<lparr>cn_in = [], cn_recvs = [], cn_out = [], cn_sends = [], cn_eof = False, cn_error = False\<rparr>)"

lemma reply_ctx_run:
  "\<exists>ux'. udp_read_handler [RECVFROM (SA4 0x01020304 53) [7, 8]] reply_ctx = (UO_WAIT, ux', [])"
proof -
  let ?sa = "SA4 0x01020304 53" and ?bs = "[7, 8] :: bytes"
  obtain a where a: "sockaddr_to_addr ?sa = Some a" by (simp add: sockaddr_to_addr_def)
  have ok: "trojan_addr_ok a" using sockaddr_to_addr_ok [OF a] by simp
  obtain d where d: "trojan_pack_udp_frame (Some a) (Some (poke (replicate MAX_UDP_PAYLOAD 0) 0 ?bs)) (word_of_nat (length ?bs))
      (Some (replicate UDP_BUFFER_SIZE 0)) = (Some (length (trojan_wire (addr_type a) (host_bytes a) (addr_port a) ?bs)), Some d)"
    using pack_client_frame [OF ok, of "replicate MAX_UDP_PAYLOAD 0" "replicate UDP_BUFFER_SIZE 0" ?bs] by auto
  have t: "take MAX_UDP_PAYLOAD ?bs = ?bs" by (simp add: wire_defs)
  define ux where "ux = reply_ctx"
  have ux: "ux_payload ux = Some (replicate MAX_UDP_PAYLOAD 0)" "ux_out ux = replicate UDP_BUFFER_SIZE 0" "\<not> ux_inbound ux"
      "ux_to_client ux = None" "cn_sends (ux_client ux) = []"
    by (simp_all add: ux_def reply_ctx_def udp_start_def zero_session_def)
  have "\<exists>v. udp_read_datagram ?sa ?bs ux = (RT_GO, v)"
    using d a ux unfolding udp_read_datagram_def Let_def t
    by (simp add: give_client_def flush_udp_client_def flush_def)
  moreover have "flush_udp_client ux = (IO_OK, ux)" using ux(4) by (simp add: flush_udp_client_def)
  ultimately show ?thesis unfolding ux_def udp_read_handler_def by auto
qed

theorem udp_replies_exact_witness:
  "\<exists>ux'. client_view ux' = trojan_wire ADDR_IPV4 [1, 2, 3, 4] 53 [7, 8] \<and> same_frames reply_ctx ux'"
proof -
  let ?evs = "[RECVFROM (SA4 0x01020304 53) [7, 8]]"
  obtain ux' where run: "udp_read_handler ?evs reply_ctx = (UO_WAIT, ux', [])" using reply_ctx_run by blast
  have ok: "reply_ok reply_ctx" by (simp add: reply_ctx_def reply_ok_def sizes_def udp_start_def zero_session_def)
  have b: "u32_bytes 0x01020304 = [1, 2, 3, 4]" by code_simp
  have r: "target_reply (SA4 0x01020304 53) [7, 8] = trojan_wire ADDR_IPV4 [1, 2, 3, 4] 53 [7, 8]"
    using b by (simp add: target_reply_def sockaddr_to_addr_def host_bytes_def wire_defs)
  have "client_view reply_ctx = []" by (simp add: client_view_def reply_ctx_def udp_start_def zero_session_def)
  then show ?thesis
    using udp_replies_exact [where handler = udp_read_handler and answer = target_reply, OF _ run ok] r
    by (auto simp: wf_sockaddr_def Cons_eq_append_conv Cons_eq_map_conv)
qed

end
