(* ===== verification/Mt_Udp_Props.thy ===== *)
theory Mt_Udp_Props
  imports Mt_Udp_Replies "HOL-Library.Sublist"
begin

text \<open>
  The frames of a Trojan client go out in their order, each at most once, with its payload and to its
  target, whatever resolvers, handshakes and sockets do; and the loop over them ends.
\<close>

subsection \<open>A frame and the datagram for it\<close>

definition pton_ok :: "udp_env \<Rightarrow> bool" where
  "pton_ok e \<longleftrightarrow> pton4_grammar (en_pton4 (fr_env (ue_front e))) \<and> pton6_grammar (en_pton6 (fr_env (ue_front e)))"

text \<open>Nothing is refused: there are no routes, and no outbound of a session blocks.\<close>

definition lossless :: "udp_env \<Rightarrow> bool" where
  "lossless e \<longleftrightarrow> \<not> rs_route_enabled (fr_srv (ue_front e)) \<and>
     (\<forall>w. current_block (session_outbound (ue_front e) w) = BLOCK_NONE)"

lemma lossless_never_blocks: "lossless e \<Longrightarrow> \<not> frame_blocked e f ux w"
  by (simp add: lossless_def frame_blocked_def udp_frame_blocked_def request_blocked_def)

abbreviation retargets :: "udp_env \<Rightarrow> addr_t \<Rightarrow> addr_t \<Rightarrow> bool" where
  "retargets e \<equiv> resolved_target (fr_env (ue_front e))"

text \<open>The datagram has the payload of the frame; it goes to the address of the frame (a literal counts as
  the address it spells), or, packed for the relay, names it.\<close>

definition carries :: "udp_env \<Rightarrow> udp_frame_t \<Rightarrow> datagram \<Rightarrow> bool" where
  "carries e f d \<longleftrightarrow> (\<exists>a. retargets e (uf_addr f) a \<and>
     (case d of
        TO_TARGET sa pl \<Rightarrow> pl = uf_payload f \<and> (\<forall>sa'. addr_to_ngx_addr a = SOCKADDR_OK sa' \<longrightarrow> sa = sa')
      | TO_RELAY sa packet \<Rightarrow>
          socks5_parse_udp_packet (Some packet) =
            Some \<lparr>uf_addr = addr_of (addr_type a) (host_bytes a) (addr_port a) (addr_wire_len a),
                  uf_payload_len = word_of_nat (length (uf_payload f)), uf_payload = uf_payload f,
                  uf_wire_len = length packet\<rparr>
      | TO_CLIENT sa packet \<Rightarrow> False))"

lemma normalized_ok:
  assumes "normalize_ip_literal pton4 pton6 (Some a) = (r, Some b)" "trojan_addr_ok a"
    and "pton4_grammar pton4" "pton6_grammar pton6"
  shows "trojan_addr_ok b"
proof -
  define t where "t = cstr (take (addr_host_len a) (addr_host a) @ [0])"
  have l: "pton4 t = Some ip \<Longrightarrow> length ip = 4" "pton6 t = Some ip \<Longrightarrow> length ip = 16" for ip
    using assms(3,4) by (auto simp: pton4_grammar_def pton6_grammar_def)
  have "b = a \<or> (\<exists>ip. pton4 t = Some ip \<and> b = a\<lparr>addr_type := ADDR_IPV4, addr_host := poke (addr_host a) 0 ip,
        addr_host_len := 4, addr_wire_len := 7\<rparr>) \<or>
      (\<exists>ip. pton6 t = Some ip \<and> b = a\<lparr>addr_type := ADDR_IPV6, addr_host := poke (addr_host a) 0 ip,
        addr_host_len := 16, addr_wire_len := 19\<rparr>)"
    using assms(1) unfolding normalize_ip_literal_def t_def
    by (auto simp: Let_def split: if_splits option.splits)
  then show ?thesis
    using assms(2) l by (auto simp: trojan_addr_ok_def trojan_addr_len_def valid_addr_cases wire_defs)
qed

lemma resolved_target_ok:
  assumes "retargets e a b" "trojan_addr_ok a" "pton_ok e"
  shows "trojan_addr_ok b"
proof -
  obtain r where r: "b = route_resolve_target (fr_env (ue_front e)) r a" using assms(1) by (auto simp: resolved_target_def)
  let ?e = "fr_env (ue_front e)"
  obtain x c where n: "normalize_ip_literal (en_pton4 ?e) (en_pton6 ?e) (Some a) = (x, Some c)"
  proof (cases "normalize_ip_literal (en_pton4 ?e) (en_pton6 ?e) (Some a)")
    case (Pair x c)
    then have "c \<noteq> None" by (auto simp: normalize_ip_literal_def Let_def split: option.splits if_splits)
    then show ?thesis using that Pair by auto
  qed
  have "b = a \<or> b = c" using n by (auto simp: r route_resolve_target_def)
  then show ?thesis using normalized_ok [OF n assms(2)] assms(2,3) by (auto simp: pton_ok_def)
qed

lemma frame_facts:
  "trojan_frame_ok f \<Longrightarrow> trojan_addr_ok (uf_addr f) \<and> length (uf_payload f) \<le> 65535 \<and>
     uf_payload_len f = word_of_nat (length (uf_payload f)) \<and> uf_wire_len f = length (trojan_frame_enc f) \<and> 0 < uf_wire_len f"
  by (auto simp: trojan_frame_ok_def trojan_addr_ok_of trojan_frame_enc_def)

lemma unat_len: "n \<le> 65535 \<Longrightarrow> unat (word_of_nat n :: u16) = n"
  by (simp add: unat_of_nat)

subsection \<open>The invariant\<close>

definition clear :: "udp_ctx \<Rightarrow> bool" where
  "clear ux \<longleftrightarrow> ux_pending ux = None \<and> ux_resolver ux = None"

text \<open>The stream is the frames taken, what is in the buffer behind \<open>n\<close> bytes, and what is to come; the
  datagrams sent so far are for some of the frames \<open>gone\<close>, in order.\<close>

definition accounted :: "udp_env \<Rightarrow> bytes \<Rightarrow> udp_frame_t list \<Rightarrow> udp_frame_t list \<Rightarrow> nat \<Rightarrow> udp_ctx \<Rightarrow> bool" where
  "accounted e in0 fs gone n ux \<longleftrightarrow> (\<forall>f \<in> set fs. trojan_frame_ok f) \<and>
     concat (map trojan_frame_enc fs) @ drop n (ux_in ux) @ cn_in (ux_client ux) = in0 \<and>
     (\<exists>gs. subseq gs gone \<and> (lossless e \<longrightarrow> gs = gone) \<and> list_all2 (carries e) gs (ux_sent ux))"

text \<open>The last frame taken waits.\<close>

definition keeps_frame :: "udp_env \<Rightarrow> udp_frame_t \<Rightarrow> resolve_data \<Rightarrow> bool" where
  "keeps_frame e f data \<longleftrightarrow> retargets e (uf_addr f) (rd_target data) \<and>
     addr_type (rd_target data) = ADDR_DOMAIN \<and> rd_payload data = uf_payload f"

definition waits_for :: "udp_env \<Rightarrow> udp_frame_t \<Rightarrow> udp_ctx \<Rightarrow> bool" where
  "waits_for e f ux \<longleftrightarrow>
     ux_state ux = ST_SOCKS5_UDP \<and> ux_resolver ux = None \<and> mem (ux_payload ux) (length (uf_payload f)) = uf_payload f \<and>
       (\<exists>a. ux_pending ux = Some (a, length (uf_payload f)) \<and> retargets e (uf_addr f) a) \<or>
     ux_state ux = ST_RESOLVING \<and> ux_pending ux = None \<and>
       (\<exists>data. ux_resolver ux = Some data \<and> keeps_frame e f data)"

definition udp_inv :: "udp_env \<Rightarrow> bytes \<Rightarrow> udp_ctx \<Rightarrow> bool" where
  "udp_inv e in0 ux \<longleftrightarrow> reply_ok ux \<and>
     (clear ux \<and> ux_state ux \<in> {ST_UDP, ST_SOCKS5_UDP} \<and> (\<exists>fs. accounted e in0 fs fs 0 ux) \<or>
      (\<exists>fs f. accounted e in0 (fs @ [f]) fs 0 ux \<and> waits_for e f ux))"

text \<open>A frame in hand, of which \<open>n\<close> bytes are still in the buffer, and the same after it has been sent or
  dropped.\<close>

definition in_hand :: "udp_env \<Rightarrow> bytes \<Rightarrow> udp_frame_t \<Rightarrow> nat \<Rightarrow> udp_ctx \<Rightarrow> bool" where
  "in_hand e in0 f n ux \<longleftrightarrow> reply_ok ux \<and> clear ux \<and> n \<le> length (ux_in ux) \<and> (\<exists>fs. accounted e in0 (fs @ [f]) fs n ux)"

definition done_with :: "udp_env \<Rightarrow> bytes \<Rightarrow> nat \<Rightarrow> udp_ctx \<Rightarrow> bool" where
  "done_with e in0 n ux \<longleftrightarrow> reply_ok ux \<and> clear ux \<and> n \<le> length (ux_in ux) \<and> (\<exists>fs. accounted e in0 fs fs n ux)"

lemma in_hand_done: "in_hand e in0 f n ux \<Longrightarrow> \<not> lossless e \<Longrightarrow> done_with e in0 n ux"
  unfolding in_hand_def done_with_def accounted_def using subseq_rev_drop_many by blast

text \<open>What the parts of the context that the invariant does not name may become.\<close>

lemma in_hand_cong:
  "in_hand e in0 f n ux \<Longrightarrow> ux_payload ux' = ux_payload ux \<Longrightarrow> ux_out ux' = ux_out ux \<Longrightarrow> ux_in ux' = ux_in ux \<Longrightarrow>
     ux_inbound ux' = ux_inbound ux \<Longrightarrow> ux_to_client ux' = ux_to_client ux \<Longrightarrow> ux_pending ux' = ux_pending ux \<Longrightarrow> ux_resolver ux' = ux_resolver ux \<Longrightarrow>
     ux_client ux' = ux_client ux \<Longrightarrow> ux_sent ux' = ux_sent ux \<Longrightarrow> in_hand e in0 f n ux'"
  by (simp add: in_hand_def reply_ok_def sizes_def clear_def accounted_def)

lemma done_with_cong:
  "done_with e in0 n ux \<Longrightarrow> ux_payload ux' = ux_payload ux \<Longrightarrow> ux_out ux' = ux_out ux \<Longrightarrow> ux_in ux' = ux_in ux \<Longrightarrow>
     ux_inbound ux' = ux_inbound ux \<Longrightarrow> ux_to_client ux' = ux_to_client ux \<Longrightarrow> ux_pending ux' = ux_pending ux \<Longrightarrow> ux_resolver ux' = ux_resolver ux \<Longrightarrow>
     ux_client ux' = ux_client ux \<Longrightarrow> ux_sent ux' = ux_sent ux \<Longrightarrow> done_with e in0 n ux'"
  by (simp add: done_with_def reply_ok_def sizes_def clear_def accounted_def)

lemma udp_inv_cong:
  "udp_inv e in0 ux \<Longrightarrow> ux_payload ux' = ux_payload ux \<Longrightarrow> ux_out ux' = ux_out ux \<Longrightarrow> ux_in ux' = ux_in ux \<Longrightarrow>
     ux_inbound ux' = ux_inbound ux \<Longrightarrow> ux_to_client ux' = ux_to_client ux \<Longrightarrow> ux_pending ux' = ux_pending ux \<Longrightarrow> ux_resolver ux' = ux_resolver ux \<Longrightarrow>
     ux_state ux' = ux_state ux \<Longrightarrow>
     cn_in (ux_client ux') = cn_in (ux_client ux) \<Longrightarrow> ux_sent ux' = ux_sent ux \<Longrightarrow> udp_inv e in0 ux'"
  by (simp add: udp_inv_def reply_ok_def sizes_def clear_def accounted_def waits_for_def)

lemma done_with_inv:
  "done_with e in0 n ux \<Longrightarrow> ux_in ux' = drop n (ux_in ux) \<Longrightarrow> ux_state ux' \<in> {ST_UDP, ST_SOCKS5_UDP} \<Longrightarrow>
     ux_payload ux' = ux_payload ux \<Longrightarrow> ux_out ux' = ux_out ux \<Longrightarrow>
     ux_inbound ux' = ux_inbound ux \<Longrightarrow> ux_to_client ux' = ux_to_client ux \<Longrightarrow> ux_pending ux' = ux_pending ux \<Longrightarrow> ux_resolver ux' = ux_resolver ux \<Longrightarrow>
     ux_client ux' = ux_client ux \<Longrightarrow> ux_sent ux' = ux_sent ux \<Longrightarrow> udp_inv e in0 ux'"
  unfolding udp_inv_def done_with_def by (auto simp: reply_ok_def sizes_def clear_def accounted_def)

subsection \<open>Sending\<close>

lemma udp_sendto_facts:
  "udp_sendto d ux = (r, ux') \<Longrightarrow> \<exists>evs. ux' = ux\<lparr>ux_sendto := evs, ux_sent := ux_sent ux @ [d]\<rparr>"
  by (auto simp: udp_sendto_def split: list.splits) (metis udp_ctx.surjective udp_ctx.update_convs(24))

lemma sendto_done:
  assumes "udp_sendto d ux = (r, ux')" "in_hand e in0 f n ux" "carries e f d"
  shows "done_with e in0 n ux' \<and> ux_in ux' = ux_in ux \<and> ux_state ux' = ux_state ux \<and> ux_client ux' = ux_client ux"
proof -
  obtain evs where ux': "ux' = ux\<lparr>ux_sendto := evs, ux_sent := ux_sent ux @ [d]\<rparr>"
    using udp_sendto_facts [OF assms(1)] by blast
  obtain fs gs where fs: "\<forall>f \<in> set (fs @ [f]). trojan_frame_ok f"
      "concat (map trojan_frame_enc (fs @ [f])) @ drop n (ux_in ux) @ cn_in (ux_client ux) = in0"
      "subseq gs fs" "lossless e \<longrightarrow> gs = fs" "list_all2 (carries e) gs (ux_sent ux)"
    using assms(2) by (auto simp: in_hand_def accounted_def)
  have "subseq (gs @ [f]) (fs @ [f])" using fs(3) by simp
  moreover have "list_all2 (carries e) (gs @ [f]) (ux_sent ux')"
    using fs(5) assms(3) by (simp add: ux' list_all2_appendI)
  ultimately have "accounted e in0 (fs @ [f]) (fs @ [f]) n ux'"
    using fs(1,2,4) unfolding accounted_def by (intro conjI exI [of _ "gs @ [f]"]) (simp_all add: ux')
  then show ?thesis using assms(2) unfolding done_with_def in_hand_def
    by (auto simp: ux' reply_ok_def sizes_def clear_def)
qed

lemma send_udp_sockaddr_done:
  assumes "send_udp_sockaddr env sa pl ux = (r, ux')" "in_hand e in0 f n ux" "carries e f (TO_TARGET sa pl)" "r"
  shows "done_with e in0 n ux' \<and> ux_in ux' = ux_in ux \<and> ux_state ux' = ux_state ux \<and> ux_client ux' = ux_client ux"
proof -
  have h: "in_hand e in0 f n (ux\<lparr>ux_udp4 := b\<rparr>)" "in_hand e in0 f n (ux\<lparr>ux_udp6 := b\<rparr>)" for b
    by (rule in_hand_cong [OF assms(2)]; simp)+
  show ?thesis
    using assms(1,4) sendto_done [OF _ h(1) assms(3)] sendto_done [OF _ h(2) assms(3)]
    by (fastforce simp: send_udp_sockaddr_def split: sockaddr.splits if_splits)
qed

lemma send_socks5_done:
  assumes "send_socks5_udp_frame None f ux = (r, ux')" "in_hand e in0 f0 n ux" "retargets e (uf_addr f0) (uf_addr f)"
    and "uf_payload f = uf_payload f0" "uf_payload_len f = word_of_nat (length (uf_payload f0))" "pton_ok e" "r"
  shows "done_with e in0 n ux' \<and> ux_in ux' = ux_in ux \<and> ux_state ux' = ux_state ux \<and> ux_client ux' = ux_client ux"
proof -
  have ok: "trojan_frame_ok f0" using assms(2) by (auto simp: in_hand_def accounted_def)
  let ?a = "uf_addr f" and ?pl = "uf_payload f0" and ?reg = "take SOCKS5_MAX_PACKET (ux_out ux)"
  have a: "trojan_addr_ok ?a" using resolved_target_ok [OF assms(3) _ assms(6)] frame_facts [OF ok] by blast
  have pl: "length ?pl \<le> 65535" using frame_facts [OF ok] by blast
  have "length (ux_out ux) = UDP_BUFFER_SIZE" using assms(2) by (simp add: in_hand_def reply_ok_def sizes_def)
  then have reg: "length ?reg = SOCKS5_MAX_PACKET" by (simp add: wire_defs)
  then have sp: "3 + addr_wire_len ?a + length ?pl \<le> length ?reg"
    using addr_wire_len_le [OF a] pl by (simp add: wire_defs)
  obtain m d where b: "socks5_build_udp_packet (Some ?a) (Some ?pl) (word_of_nat (length ?pl)) (Some ?reg) = (Some m, Some d)"
      "m \<le> SOCKS5_MAX_PACKET" "length d = length ?reg"
      "socks5_parse_udp_packet (Some (take m d)) =
         Some \<lparr>uf_addr = addr_of (addr_type ?a) (host_bytes ?a) (addr_port ?a) (addr_wire_len ?a),
               uf_payload_len = word_of_nat (length ?pl), uf_payload = ?pl, uf_wire_len = m\<rparr>"
    using socks5_udp_packet [OF a pl sp] by blast
  let ?u = "ux\<lparr>ux_out := d @ drop SOCKS5_MAX_PACKET (ux_out ux)\<rparr>"
  have fw: "forward_socks5_udp_packet (take m d) ?u = (r, ux')"
    using assms(1,4,5) b(1) by (simp add: send_socks5_udp_frame_def)
  have h: "in_hand e in0 f0 n ?u"
    using assms(2) b(3) reg unfolding in_hand_def accounted_def by (auto simp: reply_ok_def sizes_def clear_def)
  have "length (take m d) = m" using b(2,3) reg by simp
  then have c: "carries e f0 (TO_RELAY sa (take m d))" for sa
    using assms(3) b(4) unfolding carries_def by (intro exI [of _ ?a]) simp
  show ?thesis
    using fw assms(7) sendto_done [OF _ h c]
    by (fastforce simp: forward_socks5_udp_packet_def split: if_splits option.splits)
qed

text \<open>What is handed to the functions that send \<open>f0\<close>: a frame \<open>f\<close> with perhaps another spelling of the
  target, \<open>n\<close> bytes of which are still in the buffer. What they give back, and what the rest of the loop
  (\<open>k\<close>) and the handlers of the resolver (\<open>h\<close>) are known to keep.\<close>

definition for_frame :: "udp_env \<Rightarrow> udp_frame_t \<Rightarrow> nat \<Rightarrow> udp_frame_t \<Rightarrow> bool" where
  "for_frame e f0 n f \<longleftrightarrow> retargets e (uf_addr f0) (uf_addr f) \<and> uf_payload f = uf_payload f0 \<and>
     uf_payload_len f = uf_payload_len f0 \<and> uf_wire_len f = n"

definition good_rc :: "udp_env \<Rightarrow> bytes \<Rightarrow> nat \<Rightarrow> udp_ctx \<Rightarrow> udp_rc \<Rightarrow> udp_ctx \<Rightarrow> bool" where
  "good_rc e in0 n ux rc ux' \<longleftrightarrow>
     (rc = URC_OK \<longrightarrow> done_with e in0 n ux' \<and> ux_in ux' = ux_in ux \<and> ux_state ux' = ux_state ux \<and>
        ux_client ux' = ux_client ux) \<and>
     (rc = URC_AGAIN \<longrightarrow> udp_inv e in0 ux') \<and> (\<forall>out. rc = URC_GONE out \<longrightarrow> out \<noteq> UO_WAIT)"

definition keeps_inv ::
    "udp_env \<Rightarrow> bytes \<Rightarrow> (udp_ctx \<Rightarrow> world \<Rightarrow> udp_outcome \<times> udp_ctx \<times> world) \<Rightarrow> bool" where
  "keeps_inv e in0 k \<longleftrightarrow>
     (\<forall>ux w ux' w'. done_with e in0 0 ux \<longrightarrow> ux_state ux = ST_UDP \<longrightarrow> k ux w = (UO_WAIT, ux', w') \<longrightarrow> udp_inv e in0 ux')"

definition handler_keeps ::
    "udp_env \<Rightarrow> bytes \<Rightarrow> (resolve_data \<Rightarrow> resolved \<Rightarrow> udp_ctx \<Rightarrow> world \<Rightarrow> udp_outcome \<times> udp_ctx \<times> world) \<Rightarrow> bool" where
  "handler_keeps e in0 h \<longleftrightarrow>
     (\<forall>f0 data rv ux w ux' w'. in_hand e in0 f0 0 (ux\<lparr>ux_resolver := None\<rparr>) \<longrightarrow> keeps_frame e f0 data \<longrightarrow>
        h data rv ux w = (UO_WAIT, ux', w') \<longrightarrow> udp_inv e in0 ux')"

lemma done_with_state: "done_with e in0 n (ux\<lparr>ux_state := st\<rparr>) = done_with e in0 n ux"
  by (auto intro: done_with_cong)

lemma good_error: "good_rc e in0 n ux URC_ERROR ux'"
  by (simp add: good_rc_def)

lemma good_gone: "out \<noteq> UO_WAIT \<Longrightarrow> good_rc e in0 n ux (URC_GONE out) ux'"
  by (simp add: good_rc_def)

lemma good_rc_of:
  assumes "rc_of r w = (rc, ux', w')"
    and "fst r \<Longrightarrow> done_with e in0 n (snd r) \<and> ux_in (snd r) = ux_in ux \<and> ux_state (snd r) = ux_state ux \<and>
      ux_client (snd r) = ux_client ux"
  shows "good_rc e in0 n ux rc ux'"
  using assms by (auto simp: rc_of_def good_rc_def split: if_splits)

lemma udp_resume_keeps:
  assumes "udp_resume k ux w = (UO_WAIT, ux', w')" "keeps_inv e in0 k" "done_with e in0 0 ux"
  shows "udp_inv e in0 ux'"
proof -
  have "\<not> ux_inbound ux" using assms(3) by (simp add: done_with_def reply_ok_def sizes_def)
  then have "k (ux\<lparr>ux_state := ST_UDP\<rparr>) w = (UO_WAIT, ux', w')" using assms(1) by (simp add: udp_resume_def)
  then show ?thesis
    using assms(2,3) unfolding keeps_inv_def by (metis done_with_state udp_ctx.select_convs(1) udp_ctx.surjective udp_ctx.update_convs(1))
qed

subsection \<open>Waiting for a resolver\<close>

text \<open>The frame moves from the buffer into the resolver.\<close>

lemma in_hand_resolving:
  assumes "in_hand e in0 f0 n ux" "keeps_frame e f0 data"
    and "u = ux\<lparr>ux_resolver := Some data, ux_state := ST_RESOLVING, ux_in := drop n (ux_in ux)\<rparr>"
  shows "udp_inv e in0 u \<and> in_hand e in0 f0 0 (u\<lparr>ux_resolver := None\<rparr>)"
  using assms unfolding in_hand_def udp_inv_def waits_for_def
  by (auto simp: reply_ok_def sizes_def clear_def accounted_def)

lemma start_udp_resolver_good:
  assumes "start_udp_resolver env h route f ux w = (rc, ux', w')" "in_hand e in0 f0 n ux" "for_frame e f0 n f"
    and "handler_keeps e in0 h"
  shows "good_rc e in0 n ux rc ux'"
proof -
  define data where "data = \<lparr>rd_route = route, rd_pref = current_ip_prefer (session_outbound (ue_front env) w),
    rd_target = uf_addr f, rd_payload = uf_payload f\<rparr>"
  define u where "u = ux\<lparr>ux_resolver := Some data, ux_state := ST_RESOLVING, ux_in := drop n (ux_in ux)\<rparr>"
  have n: "uf_wire_len f = n" "n \<le> length (ux_in ux)" using assms(2,3) by (simp_all add: in_hand_def for_frame_def)
  show ?thesis
  proof (cases "addr_type (uf_addr f) \<noteq> ADDR_DOMAIN \<or> addr_host_len (uf_addr f) = 0 \<or> addr_host_len (uf_addr f) > 255 \<or>
      route_resolver (fr_srv (ue_front env)) = None")
    case True
    then show ?thesis using assms(1) by (auto simp: start_udp_resolver_def Let_def good_error split: if_splits)
  next
    case False
    then have kf: "keeps_frame e f0 data" using assms(3) by (simp add: keeps_frame_def data_def for_frame_def)
    note inv = in_hand_resolving [OF assms(2) kf u_def]
    have h: "h data rv u w = (UO_WAIT, a, b) \<Longrightarrow> udp_inv e in0 a" for rv a b
      using assms(4) inv kf unfolding handler_keeps_def by blast
    obtain r where "route_resolver (fr_srv (ue_front env)) = Some r" using False by blast
    then have "(case en_resolve_name (fr_env (ue_front env)) (host_bytes (uf_addr f)) of
        RESOLVE_FAILS \<Rightarrow> (URC_ERROR, u\<lparr>ux_resolver := None\<rparr>, w)
      | RESOLVE_LATER \<Rightarrow> (URC_AGAIN, u, w)
      | RESOLVE_NOW rv \<Rightarrow>
          (case h data rv u w of
             (UO_WAIT, ux, w) \<Rightarrow> (URC_AGAIN, ux, w)
           | (out, ux, w) \<Rightarrow> (URC_GONE out, ux, w))) = (rc, ux', w')"
      using False n assms(1) unfolding u_def data_def by (simp add: start_udp_resolver_def Let_def)
    then show ?thesis using inv
      by (auto simp: good_rc_def dest: h split: resolve_call.splits prod.splits udp_outcome.splits)
  qed
qed

lemma send_resolved_done:
  assumes "send_udp_resolved env addrs port (rd_payload data) pref ux = (True, ux')" "in_hand e in0 f0 n ux" "keeps_frame e f0 data"
  shows "done_with e in0 n ux'"
proof -
  have "carries e f0 (TO_TARGET sa (rd_payload data))" for sa
    using assms(3) by (auto simp: carries_def keeps_frame_def addr_to_ngx_addr_def wire_defs)
  then show ?thesis
    using assms(1) send_udp_sockaddr_done [OF _ assms(2)] by (auto simp: send_udp_resolved_def split: option.splits)
qed

lemma udp_resolved_keeps:
  assumes "keeps_inv e in0 k"
  shows "handler_keeps e in0 (udp_resolved env k)"
  unfolding handler_keeps_def
proof (intro allI impI)
  fix f0 data rv ux w ux' w'
  assume a: "in_hand e in0 f0 0 (ux\<lparr>ux_resolver := None\<rparr>)" "keeps_frame e f0 data"
    "udp_resolved env k data rv ux w = (UO_WAIT, ux', w')"
  then obtain u where u: "udp_resume k u w = (UO_WAIT, ux', w')"
      "send_udp_resolved env (rv_addrs rv) (addr_port (rd_target data)) (rd_payload data) (rd_pref data)
        (ux\<lparr>ux_resolver := None\<rparr>) = (True, u)"
    by (auto simp: udp_resolved_def Let_def split: if_splits prod.splits bool.splits)
  show "udp_inv e in0 ux'"
    using udp_resume_keeps [OF u(1) assms] send_resolved_done [OF u(2) a(1,2)] by blast
qed

subsection \<open>A frame on its way\<close>

lemma for_frame_len:
  "in_hand e in0 f0 n ux \<Longrightarrow> for_frame e f0 n f \<Longrightarrow> uf_payload_len f = word_of_nat (length (uf_payload f0)) \<and>
     unat (uf_payload_len f) = length (uf_payload f0) \<and> length (uf_payload f0) \<le> 65535 \<and> n \<le> length (ux_in ux)"
  using frame_facts [of f0] unat_len [of "length (uf_payload f0)"]
  by (auto simp: in_hand_def accounted_def for_frame_def)

lemma start_socks5_udp_facts:
  "start_socks5_udp env ux w = Inr u \<Longrightarrow> ux_state u = ST_SOCKS5_UDP \<and> ux_payload u = ux_payload ux \<and>
     ux_pending u = ux_pending ux \<and> ux_in u = ux_in ux \<and> ux_out u = ux_out ux \<and> ux_inbound u = ux_inbound ux \<and>
     ux_resolver u = ux_resolver ux \<and> ux_client u = ux_client ux \<and> ux_sent u = ux_sent ux \<and>
     ux_to_client u = ux_to_client ux"
  by (auto simp: start_socks5_udp_def split: option.splits if_splits sum.splits)

text \<open>The frame moves from the buffer to \<open>udp_payload\<close>, and a handshake begins.\<close>

lemma in_hand_pending:
  assumes "in_hand e in0 f0 n ux" "for_frame e f0 n f" "ux_payload ux = Some p"
    and "start_socks5_udp env (close_socks5_udp (ux\<lparr>ux_payload := Some (poke p 0 (uf_payload f)),
           ux_pending := Some (uf_addr f, unat (uf_payload_len f)), ux_saved_outbound := ob, ux_in := drop n (ux_in ux)\<rparr>)) w = Inr u"
  shows "udp_inv e in0 u"
proof -
  note len = for_frame_len [OF assms(1,2)]
  have u: "ux_state u = ST_SOCKS5_UDP" "ux_payload u = Some (poke p 0 (uf_payload f))"
    "ux_pending u = Some (uf_addr f, unat (uf_payload_len f))" "ux_in u = drop n (ux_in ux)" "ux_out u = ux_out ux"
    "ux_inbound u = ux_inbound ux" "ux_resolver u = ux_resolver ux" "ux_client u = ux_client ux" "ux_sent u = ux_sent ux"
    "ux_to_client u = ux_to_client ux"
    using start_socks5_udp_facts [OF assms(4)] by (simp_all add: close_socks5_udp_def Let_def)
  have p: "length p = MAX_UDP_PAYLOAD" using assms(1,3) by (simp add: in_hand_def reply_ok_def sizes_def)
  then have q: "length (poke p 0 (uf_payload f)) = MAX_UDP_PAYLOAD" "take (length (uf_payload f)) (poke p 0 (uf_payload f)) = uf_payload f"
    using assms(2) len by (simp_all add: length_poke poke_def wire_defs for_frame_def)
  have "waits_for e f0 u"
    using assms(1,2) len q(2) by (auto simp: waits_for_def u for_frame_def in_hand_def clear_def mem_def)
  moreover have "reply_ok u" "\<exists>fs. accounted e in0 (fs @ [f0]) fs 0 u"
    using assms(1) q(1) by (auto simp: in_hand_def reply_ok_def sizes_def accounted_def u)
  ultimately show ?thesis unfolding udp_inv_def by blast
qed

lemma send_udp_frame_routed_good:
  assumes "send_udp_frame_routed env k None f ux w = (rc, ux', w')" "in_hand e in0 f0 n ux" "for_frame e f0 n f"
    and "keeps_inv e in0 k" "pton_ok e"
  shows "good_rc e in0 n ux rc ux'"
proof -
  note len = for_frame_len [OF assms(2,3)]
  let ?ob = "session_outbound (ue_front env) w" and ?a = "uf_addr f"
  have d: "(if uf_wire_len f \<noteq> 0 \<and> uf_wire_len f \<le> length (ux_in ux) then drop (uf_wire_len f) (ux_in ux) else ux_in ux) =
      drop n (ux_in ux)"
    using len assms(3) by (auto simp: for_frame_def)
  have sa: "good_rc e in0 n ux rc ux'"
    if "rc_of (send_udp_sockaddr env sa (uf_payload f) ux) w = (rc, ux', w')"
      "\<forall>sa'. addr_to_ngx_addr ?a = SOCKADDR_OK sa' \<longrightarrow> sa = sa'" for sa
  proof (rule good_rc_of [OF that(1)])
    assume ok: "fst (send_udp_sockaddr env sa (uf_payload f) ux)"
    have "carries e f0 (TO_TARGET sa (uf_payload f))"
      using assms(3) that(2) by (auto simp: carries_def for_frame_def)
    then show "done_with e in0 n (snd (send_udp_sockaddr env sa (uf_payload f) ux)) \<and>
        ux_in (snd (send_udp_sockaddr env sa (uf_payload f) ux)) = ux_in ux \<and>
        ux_state (snd (send_udp_sockaddr env sa (uf_payload f) ux)) = ux_state ux \<and>
        ux_client (snd (send_udp_sockaddr env sa (uf_payload f) ux)) = ux_client ux"
      using send_udp_sockaddr_done [OF _ assms(2)] ok by (metis prod.collapse)
  qed
  consider (pending) p where "outbound_type_of ?ob = OUTBOUND_SOCKS5" "ux_payload ux = Some p"
      "(case start_socks5_udp env (close_socks5_udp (ux\<lparr>ux_payload := Some (poke p 0 (uf_payload f)),
           ux_pending := Some (uf_addr f, unat (uf_payload_len f)), ux_saved_outbound := get_outbound env w,
           ux_in := drop n (ux_in ux)\<rparr>)) w of Inl st \<Rightarrow> \<exists>st. rc = URC_GONE (UO_FINALIZE st) | Inr u \<Rightarrow> rc = URC_AGAIN \<and> ux' = u)"
    | (relay) "rc_of (send_socks5_udp_frame None f ux) w = (rc, ux', w')"
    | (error) "rc = URC_ERROR"
    | (literal) sa where "addr_to_ngx_addr ?a = SOCKADDR_OK sa" "rc_of (send_udp_sockaddr env sa (uf_payload f) ux) w = (rc, ux', w')"
    | (resolver) "start_udp_resolver env (udp_resolved env k) False f ux w = (rc, ux', w')"
    | (system) sa where "addr_type ?a = ADDR_DOMAIN" "rc_of (send_udp_sockaddr env sa (uf_payload f) ux) w = (rc, ux', w')"
    using assms(1) unfolding send_udp_frame_routed_def Let_def d
    by (cases "outbound_type_of ?ob = OUTBOUND_SOCKS5")
      (auto split: if_splits option.splits sockaddr_result.splits sum.splits)
  then show ?thesis
  proof cases
    case pending
    then show ?thesis using in_hand_pending [OF assms(2,3)]
      by (auto simp: good_rc_def split: sum.splits)
  next
    case relay
    have "uf_payload f = uf_payload f0" "retargets e (uf_addr f0) ?a" using assms(3) by (simp_all add: for_frame_def)
    then show ?thesis
      using send_socks5_done [OF _ assms(2) _ _ _ assms(5)] len
      by (intro good_rc_of [OF relay]) (metis prod.collapse)
  next
    case error
    then show ?thesis by (simp add: good_error)
  next
    case literal
    then show ?thesis using sa by auto
  next
    case resolver
    then show ?thesis using start_udp_resolver_good assms(2,3) udp_resolved_keeps [OF assms(4)] by blast
  next
    case system
    then show ?thesis using sa by (auto simp: addr_to_ngx_addr_def wire_defs)
  qed
qed

text \<open>What only the routing of a frame looks at.\<close>

lemma restore_simps [simp]:
  "in_hand e in0 f n (ux\<lparr>ux_restore := r\<rparr>) = in_hand e in0 f n ux"
  "done_with e in0 n (ux\<lparr>ux_restore := r\<rparr>) = done_with e in0 n ux"
  "udp_inv e in0 (ux\<lparr>ux_restore := r\<rparr>) = udp_inv e in0 ux"
  "in_hand e in0 f n (ux\<lparr>ux_refresh := rf\<rparr>) = in_hand e in0 f n ux"
  by (auto intro: in_hand_cong done_with_cong udp_inv_cong)

lemma good_restore [simp]: "good_rc e in0 n (ux\<lparr>ux_restore := r\<rparr>) rc ux' = good_rc e in0 n ux rc ux'"
    "good_rc e in0 n ux rc (ux'\<lparr>ux_restore := r\<rparr>) = good_rc e in0 n ux rc ux'"
    "good_rc e in0 n (ux\<lparr>ux_refresh := rf\<rparr>) rc ux' = good_rc e in0 n ux rc ux'"
  by (simp_all add: good_rc_def)

lemma udp_route_resolved_keeps:
  assumes "keeps_inv env in0 k" "pton_ok env"
  shows "handler_keeps env in0 (udp_route_resolved env k)"
  unfolding handler_keeps_def
proof (intro allI impI)
  fix f0 data rv ux w ux' w'
  assume hand: "in_hand env in0 f0 0 (ux\<lparr>ux_resolver := None\<rparr>)" and kf: "keeps_frame env f0 data"
    and run: "udp_route_resolved env k data rv ux w = (UO_WAIT, ux', w')"
  define f where "f = \<lparr>uf_addr = rd_target data, uf_payload_len = word_of_nat (length (rd_payload data)),
                      uf_payload = rd_payload data, uf_wire_len = 0\<rparr>"
  have "for_frame env f0 0 f"
    using frame_facts [of f0] hand kf by (auto simp: for_frame_def f_def keeps_frame_def in_hand_def accounted_def)
  note ff = this
  let ?fr = "ue_front env" and ?saved = "get_outbound env w"
  obtain ob ttl where sel: "rv_state rv = 0"
      "select_outbound_now (fr_env ?fr) (fr_srv ?fr) (cf_resolve (w_conf w)) (rd_target data) (rv_addrs rv) True = SELECTED ob ttl"
    using run by (auto simp: udp_route_resolved_def Let_def split: if_splits selection.splits)
  obtain c w1 where w1: "cache_insert (fr_srv ?fr) (rd_target data) (Some ob) ttl
      (route_valid_time (fr_env ?fr) (rv_valid rv)) (set_outbound env (Some ob) w) = (c, w1)" by (metis surj_pair)
  obtain m v where v: "udp_route_mapping_insert (fr_id ?fr) (rd_target data) (Some ob) c w1 = (m, v)" by (metis surj_pair)
  let ?u = "ux\<lparr>ux_resolver := None, ux_restore := ?saved\<rparr>"
  have u: "in_hand env in0 f0 0 ?u" using hand by simp
  have run: "(if frame_blocked env f ?u v then udp_resume k (?u\<lparr>ux_restore := None\<rparr>) (set_outbound env ?saved v)
      else (case send_udp_frame_routed env k None f ?u v of
                  (URC_GONE out, ux, w) \<Rightarrow> (out, ux, w)
                | (URC_AGAIN, ux, w) \<Rightarrow> (UO_WAIT, ux, w)
                | (URC_ERROR, ux, w) \<Rightarrow>
                    (UO_FINALIZE S_BAD_GATEWAY, ux\<lparr>ux_restore := None\<rparr>, set_outbound env ?saved w)
                | (URC_OK, ux, w) \<Rightarrow> udp_resume k (ux\<lparr>ux_restore := None\<rparr>) (set_outbound env ?saved w))) = (UO_WAIT, ux', w')"
    using run sel w1 v unfolding f_def by (simp add: udp_route_resolved_def Let_def)
  show "udp_inv env in0 ux'"
  proof (cases "frame_blocked env f ?u v")
    case True
    then have "\<not> lossless env" using lossless_never_blocks by blast
    then show ?thesis using run True udp_resume_keeps [OF _ assms(1)] in_hand_done [OF u] by fastforce
  next
    case False
    obtain rc t v' where r: "send_udp_frame_routed env k None f ?u v = (rc, t, v')" by (metis prod_cases3)
    then have "good_rc env in0 0 ?u rc t" using send_udp_frame_routed_good u ff assms by blast
    then show ?thesis
      using run False r udp_resume_keeps [OF _ assms(1)] by (auto simp: good_rc_def split: udp_rc.splits)
  qed
qed

lemma send_and_restore_good:
  assumes "send_and_restore env k None f saved ux w = (rc, ux', w')" "in_hand env in0 f0 n ux" "for_frame env f0 n f"
    and "keeps_inv env in0 k" "pton_ok env"
  shows "good_rc env in0 n ux rc ux'"
proof (cases "frame_blocked env f (ux\<lparr>ux_restore := saved\<rparr>) w")
  case True
  then have "\<not> lossless env" using lossless_never_blocks by blast
  then show ?thesis using assms(1) True in_hand_done [OF assms(2)] by (auto simp: send_and_restore_def Let_def good_rc_def)
next
  case False
  obtain rc1 u v where r: "send_udp_frame_routed env k None f (ux\<lparr>ux_restore := saved\<rparr>) w = (rc1, u, v)"
    by (metis prod_cases3)
  have "good_rc env in0 n ux rc1 u"
    using send_udp_frame_routed_good [OF r _ assms(3-5)] assms(2) by simp
  moreover have "rc = rc1 \<and> (ux' = u \<or> ux' = u\<lparr>ux_restore := None\<rparr>) \<or> (\<exists>out. rc = URC_GONE (used_after out))"
    using assms(1) False r by (auto simp: send_and_restore_def Let_def split: udp_rc.splits if_splits)
  ultimately show ?thesis by (auto simp: good_gone used_after_def)
qed

lemma map_and_send_good:
  "map_and_send env k None f saved entry ux w = (rc, ux', w') \<Longrightarrow> in_hand env in0 f0 n ux \<Longrightarrow> for_frame env f0 n f \<Longrightarrow>
     keeps_inv env in0 k \<Longrightarrow> pton_ok env \<Longrightarrow> good_rc env in0 n ux rc ux'"
  by (auto simp: map_and_send_def intro: send_and_restore_good split: prod.splits)

lemma udp_route_cache_miss_good:
  assumes "udp_route_cache_miss env k None f saved ux w = (rc, ux', w')" "in_hand env in0 f0 n ux" "for_frame env f0 n f"
    and "keeps_inv env in0 k" "pton_ok env" "\<not> lossless env"
  shows "good_rc env in0 n ux rc ux'"
proof -
  have r: "start_udp_route_resolver env k f ux w = (rc, ux', w') \<Longrightarrow> good_rc env in0 n ux rc ux'"
    using start_udp_resolver_good assms(2,3) udp_route_resolved_keeps [OF assms(4,5)]
    by (fastforce simp: start_udp_route_resolver_def good_error split: if_splits)
  have d: "good_rc env in0 n ux URC_OK ux" using in_hand_done [OF assms(2,6)] by (simp add: good_rc_def)
  show ?thesis
    using assms(1) r d map_and_send_good [OF _ assms(2-5)] send_and_restore_good [OF _ assms(2-5)]
    unfolding udp_route_cache_miss_def Let_def
    by (auto split: selection.splits if_splits option.splits prod.splits)
qed

lemma send_udp_frame_good:
  assumes "send_udp_frame env k None f0 ux w = (rc, ux', w')" "in_hand env in0 f0 (uf_wire_len f0) ux"
    and "keeps_inv env in0 k" "pton_ok env"
  shows "good_rc env in0 (uf_wire_len f0) ux rc ux'"
proof -
  let ?e = "fr_env (ue_front env)" and ?n = "uf_wire_len f0"
  define f where "f = f0\<lparr>uf_addr := route_resolve_target ?e (cf_resolve (w_conf w)) (uf_addr f0)\<rparr>"
  have ff: "for_frame env f0 ?n f" by (auto simp: for_frame_def f_def resolved_target_def)
  have m: "map_and_send env k None f s c (ux\<lparr>ux_refresh := rf\<rparr>) v = (rc, ux', w') \<Longrightarrow> good_rc env in0 ?n ux rc ux'" for s c rf v
    using map_and_send_good [where ux = "ux\<lparr>ux_refresh := rf\<rparr>"] assms(2-4) ff by fastforce
  have ll: "rs_route_enabled (fr_srv (ue_front env)) \<Longrightarrow> \<not> lossless env" by (simp add: lossless_def)
  show ?thesis
    using assms(1) m send_and_restore_good [OF _ assms(2) ff assms(3,4)] map_and_send_good [OF _ assms(2) ff assms(3,4)]
      udp_route_cache_miss_good [OF _ assms(2) ff assms(3,4)] ll
    unfolding send_udp_frame_def Let_def f_def [symmetric]
    by (auto split: option.splits if_splits prod.splits)
qed

subsection \<open>The loop\<close>

text \<open>The next frame is taken in hand, and its bytes are dropped when it is done with.\<close>

lemma frame_taken:
  assumes "done_with env in0 0 ux" "trojan_parse_udp_frame (Some (ux_in ux)) = Some f"
  shows "in_hand env in0 f (uf_wire_len f) ux"
proof -
  have "trojan_frame_dec (ux_in ux) = Inr (f, uf_wire_len f)" using assms(2) by (simp add: trojan_frame_dec_def)
  then obtain rest where f: "trojan_frame_ok f" "ux_in ux = trojan_frame_enc f @ rest" "uf_wire_len f = length (trojan_frame_enc f)"
    using trojan_codec.dec_inv by blast
  then show ?thesis using assms(1) unfolding in_hand_def done_with_def
    by (auto simp: accounted_def)
qed

lemma done_with_dropped: "done_with env in0 n ux \<Longrightarrow> done_with env in0 0 (ux\<lparr>ux_in := drop n (ux_in ux)\<rparr>)"
  by (auto simp: done_with_def reply_ok_def sizes_def clear_def accounted_def)

lemma process_udp_client_keeps:
  assumes "pton_ok env"
  shows "keeps_inv env in0 (process_udp_client fuel env)"
proof (induction fuel)
  case 0
  show ?case by (simp add: keeps_inv_def)
next
  case (Suc fuel)
  show ?case unfolding keeps_inv_def
  proof (intro allI impI)
    fix ux w ux' w'
    assume inv: "done_with env in0 0 ux" and st: "ux_state ux = ST_UDP"
      and run: "process_udp_client (Suc fuel) env ux w = (UO_WAIT, ux', w')"
    show "udp_inv env in0 ux'"
    proof (cases "trojan_parse_udp_frame (Some (ux_in ux))")
      case (Some f)
      note hand = frame_taken [OF inv Some]
      obtain rc u v where r: "send_udp_frame env (process_udp_client fuel env) None f ux w = (rc, u, v)"
        by (metis prod_cases3)
      have good: "good_rc env in0 (uf_wire_len f) ux rc u"
        using send_udp_frame_good [OF r hand Suc.IH assms] .
      show ?thesis
      proof (cases "rc = URC_OK")
        case True
        then have "done_with env in0 0 (u\<lparr>ux_in := drop (uf_wire_len f) (ux_in u)\<rparr>)" "ux_state u = ST_UDP"
          using good st by (auto simp: good_rc_def dest: done_with_dropped)
        moreover have "process_udp_client fuel env (u\<lparr>ux_in := drop (uf_wire_len f) (ux_in u)\<rparr>) v = (UO_WAIT, ux', w')"
          using run r Some True by simp
        ultimately show ?thesis using Suc.IH unfolding keeps_inv_def by fastforce
      next
        case False
        then show ?thesis using run r Some good
          by (auto simp: good_rc_def used_after_def split: udp_rc.splits if_splits)
      qed
    next
      case None
      note run' = run [unfolded process_udp_client.simps None option.case]
      obtain r c where rc: "conn_recv (UDP_BUFFER_SIZE - length (ux_in ux)) (ux_client ux) = (r, c)" by (metis surj_pair)
      show ?thesis
      proof (cases r)
        case (GOT bs)
        have "done_with env in0 0 (ux\<lparr>ux_client := c, ux_in := ux_in ux @ bs\<rparr>)"
          using inv conn_recv_stream [OF rc] GOT by (auto simp: done_with_def reply_ok_def sizes_def clear_def accounted_def)
        moreover have "process_udp_client fuel env (ux\<lparr>ux_client := c, ux_in := ux_in ux @ bs\<rparr>) w = (UO_WAIT, ux', w')"
          using run' rc GOT by (simp split: if_splits)
        ultimately show ?thesis using Suc.IH st unfolding keeps_inv_def by fastforce
      next
        case REC_AGAIN
        then have "ux' = ux\<lparr>ux_client := c\<rparr>" "cn_in c = cn_in (ux_client ux)"
          using run' rc conn_recv_stream [OF rc] by (simp_all split: if_splits)
        then show ?thesis using inv st unfolding udp_inv_def done_with_def
          by (auto simp: reply_ok_def sizes_def clear_def accounted_def)
      next
        case REC_CLOSED
        then show ?thesis using run' rc by (simp split: if_splits)
      qed
    qed
  qed
qed

subsection \<open>Events\<close>

lemma done_with_fields [simp]:
  "done_with e in0 n (ux\<lparr>ux_relay := r\<rparr>) = done_with e in0 n ux"
  "done_with e in0 n (ux\<lparr>ux_socks5_udp := b\<rparr>) = done_with e in0 n ux"
  "done_with e in0 n (ux\<lparr>ux_socks5_outbound := ob\<rparr>) = done_with e in0 n ux"
  "udp_inv e in0 (ux\<lparr>ux_relay := r\<rparr>) = udp_inv e in0 ux"
  "udp_inv e in0 (ux\<lparr>ux_socks5_udp := b\<rparr>) = udp_inv e in0 ux"
  "udp_inv e in0 (ux\<lparr>ux_socks5_outbound := ob\<rparr>) = udp_inv e in0 ux"
  "udp_inv e in0 (ux\<lparr>ux_upstream := u\<rparr>) = udp_inv e in0 ux"
  "udp_inv e in0 (ux\<lparr>ux_sendto := evs\<rparr>) = udp_inv e in0 ux"
  by (auto intro: done_with_cong udp_inv_cong)

lemma udp_inv_done:
  "udp_inv e in0 ux \<Longrightarrow> clear ux \<Longrightarrow> done_with e in0 0 ux"
  by (auto simp: udp_inv_def done_with_def waits_for_def clear_def)

lemma udp_client_keeps: "pton_ok env \<Longrightarrow> keeps_inv env in0 (udp_client env)"
  using process_udp_client_keeps unfolding keeps_inv_def udp_client_def by blast

lemma udp_client_event_keeps:
  assumes "udp_client_event env ux w = (UO_WAIT, ux', w')" "udp_inv env in0 ux" "pton_ok env"
  shows "udp_inv env in0 ux'"
proof (cases "ux_state ux = ST_UDP")
  case True
  then have "clear ux" using assms(2) by (auto simp: udp_inv_def waits_for_def)
  then show ?thesis
    using assms(1) True udp_client_keeps [OF assms(3)] udp_inv_done [OF assms(2)]
    unfolding udp_client_event_def keeps_inv_def by fastforce
next
  case False
  then show ?thesis using assms(1,2) by (simp add: udp_client_event_def)
qed

lemma udp_resolver_event_keeps:
  assumes "udp_resolver_event env rv ux w = (UO_WAIT, ux', w')" "udp_inv env in0 ux" "pton_ok env"
  shows "udp_inv env in0 ux'"
proof (cases "ux_resolver ux")
  case None
  then show ?thesis using assms(1,2) by (simp add: udp_resolver_event_def)
next
  case (Some data)
  then obtain fs f where f: "accounted env in0 (fs @ [f]) fs 0 ux" "keeps_frame env f data" "ux_pending ux = None"
    using assms(2) by (auto simp: udp_inv_def waits_for_def clear_def)
  then have "in_hand env in0 f 0 (ux\<lparr>ux_resolver := None\<rparr>)"
    using assms(2) by (auto simp: in_hand_def udp_inv_def reply_ok_def sizes_def clear_def accounted_def)
  then have keeps: "handler_keeps env in0 h \<Longrightarrow> h data rv ux w = (UO_WAIT, ux', w') \<Longrightarrow> udp_inv env in0 ux'" for h
    using f(2) unfolding handler_keeps_def by blast
  have "(if rd_route data then udp_route_resolved env (udp_client env) data rv ux w
      else udp_resolved env (udp_client env) data rv ux w) = (UO_WAIT, ux', w')"
    using assms(1) Some by (simp add: udp_resolver_event_def)
  then show ?thesis
    using keeps [OF udp_resolved_keeps [OF udp_client_keeps [OF assms(3)]]]
      keeps [OF udp_route_resolved_keeps [OF udp_client_keeps [OF assms(3)] assms(3)]]
    by (cases "rd_route data") simp_all
qed

lemma socks5_udp_ready_keeps:
  assumes "socks5_udp_ready env a ux w = (UO_WAIT, ux', w')" "udp_inv env in0 ux" "ux_state ux = ST_SOCKS5_UDP" "pton_ok env"
  shows "udp_inv env in0 ux'"
proof -
  obtain sa where run: "(let ux = ux\<lparr>ux_relay := Some sa, ux_socks5_udp := True, ux_socks5_outbound := get_outbound env w\<rparr> in
                 (case ux_pending ux of
                    None \<Rightarrow> udp_resume (udp_client env) ux w
                  | Some (a, len) \<Rightarrow>
                      let f = \<lparr>uf_addr = a, uf_payload_len = word_of_nat len,
                               uf_payload = mem (ux_payload ux) len, uf_wire_len = 0\<rparr>;
                          saved = get_outbound env w;
                          back = (\<lambda>ux. if ux_restore ux \<noteq> None then ux_restore ux else saved);
                          w = set_outbound env (ux_saved_outbound ux) w in
                      (case send_socks5_udp_frame None f (ux\<lparr>ux_pending := None\<rparr>) of
                         (False, ux) \<Rightarrow>
                           (UO_FINALIZE S_BAD_GATEWAY, ux\<lparr>ux_restore := None\<rparr>, set_outbound env (back ux) w)
                       | (True, ux) \<Rightarrow>
                           udp_resume (udp_client env) (ux\<lparr>ux_restore := None\<rparr>) (set_outbound env (back ux) w)))) = (UO_WAIT, ux', w')"
    using assms(1) by (auto simp: socks5_udp_ready_def split: option.splits if_splits)
  define u where "u = ux\<lparr>ux_relay := Some sa, ux_socks5_udp := True, ux_socks5_outbound := get_outbound env w\<rparr>"
  have inv: "udp_inv env in0 u" using assms(2) by (simp add: u_def)
  note res = udp_resume_keeps [OF _ udp_client_keeps [OF assms(4)]]
  show ?thesis
  proof (cases "ux_pending u")
    case None
    then have "clear u" using assms(2,3) by (auto simp: udp_inv_def waits_for_def clear_def u_def)
    then show ?thesis using run None res udp_inv_done [OF inv] unfolding u_def by fastforce
  next
    case (Some p)
    then obtain fs f0 b where f0: "accounted env in0 (fs @ [f0]) fs 0 u" "p = (b, length (uf_payload f0))"
        "mem (ux_payload u) (length (uf_payload f0)) = uf_payload f0" "retargets env (uf_addr f0) b" "ux_resolver u = None" "reply_ok u"
      using inv by (auto simp: udp_inv_def waits_for_def clear_def)
    then have hand: "in_hand env in0 f0 0 (u\<lparr>ux_pending := None\<rparr>)"
      by (auto simp: in_hand_def reply_ok_def sizes_def clear_def accounted_def)
    let ?f = "\<lparr>uf_addr = b, uf_payload_len = word_of_nat (length (uf_payload f0)),
                               uf_payload = uf_payload f0, uf_wire_len = 0\<rparr>"
    obtain r v where s: "send_socks5_udp_frame None ?f (u\<lparr>ux_pending := None\<rparr>) = (r, v)" by (metis surj_pair)
    have "r" "\<exists>t t' w''. t = v\<lparr>ux_restore := None\<rparr> \<and> udp_resume (udp_client env) t w'' = (UO_WAIT, ux', w')"
      using run Some s f0(2,3) unfolding u_def [symmetric] by (auto simp: Let_def split: bool.splits)
    moreover have "r \<Longrightarrow> done_with env in0 0 v"
      using send_socks5_done [OF s hand] f0(4) assms(4) by simp
    ultimately show ?thesis using res by auto
  qed
qed

lemma udp_handshake_event_keeps:
  assumes "udp_handshake_event env ux w = (UO_WAIT, ux', w')" "udp_inv env in0 ux" "ux_state ux = ST_SOCKS5_UDP" "pton_ok env"
  shows "udp_inv env in0 ux'"
proof -
  have r: "socks5_udp_ready env a (ux\<lparr>ux_upstream := u\<rparr>) w = (UO_WAIT, ux', w') \<Longrightarrow> udp_inv env in0 ux'" for a u
    using socks5_udp_ready_keeps [where ux = "ux\<lparr>ux_upstream := u\<rparr>"] assms(2-4) by simp
  show ?thesis
    using assms(1,2) by (auto simp: udp_handshake_event_def Let_def dest: r
        split: option.splits prod.splits hs_result.splits)
qed

lemma reply_keeps:
  "udp_inv e in0 ux \<Longrightarrow> ux_pending ux = None \<Longrightarrow> same_frames ux ux' \<Longrightarrow> reply_ok ux' \<Longrightarrow> udp_inv e in0 ux'"
  unfolding udp_inv_def by (auto simp: same_frames_def reply_ok_def clear_def accounted_def waits_for_def)

lemma write_keeps:
  assumes "flush_udp_client ux = (r, ux')" "udp_inv e in0 ux"
  shows "udp_inv e in0 ux'"
proof -
  have "ux_payload ux' = ux_payload ux \<and> ux_out ux' = ux_out ux \<and> ux_inbound ux' = ux_inbound ux"
    using assms(1) by (auto simp: flush_udp_client_def split: option.splits prod.splits)
  moreover have "reply_ok ux' \<and> same_frames ux ux'"
    using flush_client_facts [OF assms(1)] assms(2) by (auto simp: udp_inv_def)
  ultimately show ?thesis
    using assms(2) unfolding udp_inv_def by (auto simp: same_frames_def clear_def accounted_def waits_for_def)
qed

lemma clear_same: "same_frames ux ux' \<Longrightarrow> clear ux' = clear ux"
  by (simp add: same_frames_def clear_def)

subsection \<open>Runs\<close>

text \<open>A session of a Trojan client, from the buffers of \<open>init_udp_buffers\<close> and the first call, through events in any
  order, in whatever state the world is. Between two events the sockets get new results (\<open>new_io\<close>). A
  datagram is read only while no frame waits in \<open>udp_payload\<close>, which the read handlers overwrite.\<close>

definition new_io :: "recv_event list \<Rightarrow> send_event list \<Rightarrow> sendto_event list \<Rightarrow> handshake option \<Rightarrow> udp_ctx \<Rightarrow> udp_ctx" where
  "new_io rs ss es up ux =
     ux\<lparr>ux_client := (ux_client ux)\<lparr>cn_recvs := rs, cn_sends := ss\<rparr>, ux_sendto := es, ux_upstream := up\<rparr>"

inductive udp_run :: "udp_env \<Rightarrow> session \<Rightarrow> udp_ctx \<Rightarrow> bool" for env s where
  run_start: "length payload = MAX_UDP_PAYLOAD \<Longrightarrow> length out = UDP_BUFFER_SIZE \<Longrightarrow> \<not> ss_in_socks5 s \<Longrightarrow>
    start_udp_session env payload out s w = (UO_WAIT, ux, w') \<Longrightarrow> udp_run env s ux"
| run_io: "udp_run env s ux \<Longrightarrow> udp_run env s (new_io rs ss es up ux)"
| run_client: "udp_run env s ux \<Longrightarrow> udp_client_event env ux w = (UO_WAIT, ux', w') \<Longrightarrow> udp_run env s ux'"
| run_resolver: "udp_run env s ux \<Longrightarrow> udp_resolver_event env rv ux w = (UO_WAIT, ux', w') \<Longrightarrow> udp_run env s ux'"
| run_handshake: "udp_run env s ux \<Longrightarrow> ux_state ux = ST_SOCKS5_UDP \<Longrightarrow>
    udp_handshake_event env ux w = (UO_WAIT, ux', w') \<Longrightarrow> udp_run env s ux'"
| run_write: "udp_run env s ux \<Longrightarrow> udp_client_write_event ux = (UO_WAIT, ux') \<Longrightarrow> udp_run env s ux'"
| run_read: "udp_run env s ux \<Longrightarrow> ux_pending ux = None \<Longrightarrow> \<forall>sa bs. RECVFROM sa bs \<in> set evs \<longrightarrow> wf_sockaddr sa \<Longrightarrow>
    udp_read_handler evs ux = (UO_WAIT, ux', rest) \<Longrightarrow> udp_run env s ux'"
| run_relay: "udp_run env s ux \<Longrightarrow> ux_pending ux = None \<Longrightarrow>
    socks5_udp_read_handler evs ux = (UO_WAIT, ux', rest) \<Longrightarrow> udp_run env s ux'"
| run_control: "udp_run env s ux \<Longrightarrow> socks5_udp_control_handler False False ux = (UO_WAIT, ux') \<Longrightarrow> udp_run env s ux'"

lemma start_inv:
  assumes "length payload = MAX_UDP_PAYLOAD" "length out = UDP_BUFFER_SIZE" "\<not> ss_in_socks5 s"
  shows "done_with e (cn_in (ss_client s)) 0 (udp_start payload out s)" "ux_state (udp_start payload out s) = ST_UDP"
    "ux_to_client (udp_start payload out s) = None"
proof -
  let ?ux = "udp_start payload out s"
  have "accounted e (cn_in (ss_client s)) [] [] 0 ?ux" by (simp add: accounted_def udp_start_def)
  then show "done_with e (cn_in (ss_client s)) 0 ?ux" using assms unfolding done_with_def
    by (auto simp: reply_ok_def sizes_def clear_def udp_start_def)
qed (simp_all add: udp_start_def)

lemma udp_run_inv:
  assumes "udp_run env s ux" "pton_ok env"
  shows "udp_inv env (cn_in (ss_client s)) ux"
  using assms(1)
proof (induction rule: udp_run.induct)
  case (run_start payload out w ux w')
  note st = start_inv [OF run_start(1-3)]
  show ?case
  proof (cases "outbound_type_of (session_outbound (ue_front env) w) = OUTBOUND_SOCKS5")
    case True
    then have "start_socks5_udp env (udp_start payload out s) w = Inr ux"
      using run_start(4) by (simp add: start_udp_session_def Let_def split: sum.splits)
    then show ?thesis using start_socks5_udp_facts by (intro done_with_inv [OF st(1)]) simp_all
  next
    case False
    then have "udp_client env (udp_start payload out s) w = (UO_WAIT, ux, w')"
      using run_start(4) by (simp add: start_udp_session_def Let_def)
    then show ?thesis using udp_client_keeps [OF assms(2)] st unfolding keeps_inv_def by blast
  qed
next
  case (run_io ux rs ss es up)
  show ?case using run_io.IH by (rule udp_inv_cong) (simp_all add: new_io_def)
next
  case (run_client ux w ux' w')
  then show ?case using udp_client_event_keeps assms(2) by blast
next
  case (run_resolver ux rv w ux' w')
  then show ?case using udp_resolver_event_keeps assms(2) by blast
next
  case (run_handshake ux w ux' w')
  then show ?case using udp_handshake_event_keeps assms(2) by blast
next
  case (run_write ux ux')
  obtain r where "flush_udp_client ux = (r, ux')"
    using run_write.hyps(2) by (auto simp: udp_client_write_event_def split: prod.splits)
  moreover have "reply_ok ux" using run_write.IH by (auto simp: udp_inv_def)
  ultimately show ?case using write_keeps run_write.IH by blast
next
  case (run_read ux evs ux' rest)
  have "reply_ok ux" using run_read.IH by (simp add: udp_inv_def)
  then show ?case
    using run_read reply_keeps target_source.loop_gives unfolding udp_read_handler_def by metis
next
  case (run_relay ux evs ux' rest)
  have "reply_ok ux" using run_relay.IH by (simp add: udp_inv_def)
  then show ?case
    using run_relay reply_keeps relay_source.loop_gives unfolding socks5_udp_read_handler_def by metis
next
  case (run_control ux ux')
  then obtain u where "ux' = ux\<lparr>ux_upstream := u\<rparr> \<or> ux' = ux"
    by (auto simp: socks5_udp_control_handler_def Let_def split: option.splits prod.splits control.splits)
  then show ?case using run_control.IH by auto
qed


definition udp_sample_env :: udp_env where
  "udp_sample_env = \<lparr>ue_front = sample_front,
     ue_open = (\<lambda>_. True), ue_peer = (\<lambda>_. None)\<rparr>"

definition udp_sample_session :: session where
  "udp_sample_session =
     (zero_session \<lparr>cn_in = trojan_wire ADDR_IPV4 [1, 2, 3, 4] 53 [9], cn_recvs = [RECVD 100], cn_out = [], cn_sends = [],
        cn_eof = False, cn_error = False\<rparr>)\<lparr>ss_command := CMD_UDP_ASSOCIATE\<rparr>"

lemma udp_sample_lossless: "lossless udp_sample_env"
  by (simp add: lossless_def udp_sample_env_def sample_front_def session_outbound_def current_block_def split: option.splits)

lemma udp_sample_pton: "pton_ok udp_sample_env"
  by (simp add: pton_ok_def udp_sample_env_def sample_front_def sample_env_def pton4_grammar_def pton6_grammar_def)

lemma udp_sample_send:
  assumes "uf_addr f = addr_of ADDR_IPV4 [1, 2, 3, 4] 53 7" "ux_sendto ux = []"
  shows "\<exists>w'. send_udp_frame udp_sample_env k src f ux w =
    (URC_OK, ux\<lparr>ux_udp4 := True, ux_sent := ux_sent ux @ [TO_TARGET (SA4 0x01020304 53) (uf_payload f)],
       ux_restore := None\<rparr>, w')"
proof -
  let ?sa = "SA4 0x01020304 53"
  have t: "route_resolve_target (fr_env (ue_front udp_sample_env)) r (uf_addr f) = uf_addr f" for r
    by (simp add: assms route_resolve_target_def wire_defs)
  have sa: "addr_to_ngx_addr (uf_addr f) = SOCKADDR_OK ?sa"
    by (simp add: assms addr_to_ngx_addr_def addr_of_def addr_zero_def wire_defs read_u32_def bytes_u32_def)
  have o: "session_outbound (ue_front udp_sample_env) v = None" for v
    by (simp add: udp_sample_env_def sample_front_def session_outbound_def split: option.splits)
  have b: "\<not> frame_blocked udp_sample_env f u v" for u v by (rule lossless_never_blocks [OF udp_sample_lossless])
  have ty: "addr_type (uf_addr f) = ADDR_IPV4" by (simp add: assms)
  have op: "ue_open udp_sample_env v6" for v6 by (simp add: udp_sample_env_def)
  have nr: "\<not> rs_route_enabled (fr_srv (ue_front udp_sample_env))" by (simp add: udp_sample_env_def sample_front_def)
  have "send_udp_frame_routed udp_sample_env k src f (ux\<lparr>ux_restore := r\<rparr>) w =
      rc_of (udp_sendto (TO_TARGET ?sa (uf_payload f)) (ux\<lparr>ux_restore := r, ux_udp4 := True\<rparr>)) w" for r
    unfolding send_udp_frame_routed_def Let_def o sa option.case sockaddr_result.case outbound_type_of_def
    by (simp add: ty send_udp_sockaddr_def op)
  then have "\<exists>v. send_and_restore udp_sample_env k src f (get_outbound udp_sample_env w) ux w =
      (URC_OK, ux\<lparr>ux_udp4 := True, ux_sent := ux_sent ux @ [TO_TARGET ?sa (uf_payload f)], ux_restore := None\<rparr>, v)"
    using assms(2) by (simp add: send_and_restore_def Let_def b rc_of_def udp_sendto_def)
  moreover have "send_udp_frame udp_sample_env k src f ux w =
      send_and_restore udp_sample_env k src f (get_outbound udp_sample_env w) ux w"
    using t by (simp add: send_udp_frame_def Let_def nr)
  ultimately show ?thesis by simp
qed

lemma udp_sample_run:
  "\<exists>ux. udp_run udp_sample_env udp_sample_session ux \<and> ux_sent ux = [TO_TARGET (SA4 0x01020304 53) [9]] \<and> clear ux \<and>
     ux_in ux = [] \<and> cn_in (ux_client ux) = []"
proof -
  define wire where "wire = trojan_wire ADDR_IPV4 [1, 2, 3, 4] 53 [9]"
  define ux where "ux = udp_start (replicate MAX_UDP_PAYLOAD 0) (replicate UDP_BUFFER_SIZE 0) udp_sample_session"
  define c where "c = \<lparr>cn_in = [], cn_recvs = [], cn_out = [], cn_sends = [], cn_eof = False, cn_error = False\<rparr>"
  define u where "u = ux\<lparr>ux_client := c, ux_in := wire\<rparr>"
  define v where "v = u\<lparr>ux_udp4 := True, ux_sent := ux_sent u @ [TO_TARGET (SA4 0x01020304 53) [9]], ux_restore := None,
    ux_in := []\<rparr>"
  have l: "length wire = 12" by (simp add: wire_def trojan_addr_len_def wire_defs)
  have tl: "trojan_addr_len ADDR_IPV4 (length [1 :: byte, 2, 3, 4]) = 7" by (simp add: trojan_addr_len_def wire_defs)
  obtain f where f: "trojan_parse_udp_frame (Some wire) = Some f" "uf_addr f = addr_of ADDR_IPV4 [1, 2, 3, 4] 53 7"
      "uf_payload f = [9]" "uf_wire_len f = 12"
    using trojan_parse_udp_frame_wire [of ADDR_IPV4 "[1, 2, 3, 4]" "[9]" 53 "[]", unfolded tl]
    by (simp add: wire_def valid_addr_cases)
  have e: "trojan_parse_udp_frame (Some []) = None" by (simp add: trojan_parse_udp_frame_def trojan_parse_addr_def)
  have ux: "ux_in ux = []" "ux_client ux = ss_client udp_sample_session" "ux_sent ux = []" "ux_sendto ux = []" "clear ux"
    by (simp_all add: ux_def udp_start_def clear_def)
  have cl: "cn_in (ss_client udp_sample_session) = wire" "cn_recvs (ss_client udp_sample_session) = [RECVD 100]"
      "ss_client udp_sample_session = c\<lparr>cn_in := wire, cn_recvs := [RECVD 100]\<rparr>" "\<not> ss_in_socks5 udp_sample_session"
    by (simp_all add: udp_sample_session_def zero_session_def wire_def c_def)
  have fuel: "udp_fuel ux = Suc (Suc (Suc 11))" by (simp add: udp_fuel_def ux cl l)
  have B: "12 \<le> UDP_BUFFER_SIZE" by (simp add: wire_defs)
  have rc: "conn_recv UDP_BUFFER_SIZE (ss_client udp_sample_session) = (GOT wire, c)" "conn_recv UDP_BUFFER_SIZE c = (REC_AGAIN, c)"
    using B by (simp_all add: conn_recv_def cl l c_def)
  have us: "ux_sendto u = []" by (simp add: u_def ux)
  obtain w' where s: "send_udp_frame udp_sample_env (process_udp_client (Suc 11) udp_sample_env) None f u sample_world =
      (URC_OK, u\<lparr>ux_udp4 := True, ux_sent := ux_sent u @ [TO_TARGET (SA4 0x01020304 53) [9]], ux_restore := None\<rparr>, w')"
    using udp_sample_send [OF f(2) us] unfolding f(3) by blast
  have v: "ux_in v = []" "ux_client v = c" "ux_sent v = [TO_TARGET (SA4 0x01020304 53) [9]]" "clear v"
    using ux by (simp_all add: v_def u_def clear_def)
  have "process_udp_client (Suc (Suc (Suc 11))) udp_sample_env ux sample_world = process_udp_client (Suc (Suc 11)) udp_sample_env u sample_world"
    unfolding process_udp_client.simps(2) [of "Suc (Suc 11)"] ux e option.case using rc B
    by (simp add: u_def ux del: process_udp_client.simps)
  also have "\<dots> = process_udp_client (Suc 11) udp_sample_env v w'"
  proof -
    have ui: "ux_in u = wire" by (simp add: u_def)
    show ?thesis unfolding process_udp_client.simps(2) [of "Suc 11"] ui f(1) option.case s
      by (simp add: f(4) l ui v_def u_def del: process_udp_client.simps)
  qed
  also have "\<dots> = (UO_WAIT, v\<lparr>ux_client := c\<rparr>, w')"
    unfolding process_udp_client.simps(2) [of 11] v e option.case using rc B by simp
  finally have "udp_client udp_sample_env ux sample_world = (UO_WAIT, v\<lparr>ux_client := c\<rparr>, w')" by (simp only: udp_client_def fuel)
  moreover have "session_outbound (ue_front udp_sample_env) sample_world = None"
    by (simp add: udp_sample_env_def sample_front_def session_outbound_def split: option.splits)
  ultimately have "start_udp_session udp_sample_env (replicate MAX_UDP_PAYLOAD 0) (replicate UDP_BUFFER_SIZE 0) udp_sample_session sample_world =
      (UO_WAIT, v\<lparr>ux_client := c\<rparr>, w')"
    by (simp add: start_udp_session_def Let_def outbound_type_of_def ux_def)
  then have "udp_run udp_sample_env udp_sample_session (v\<lparr>ux_client := c\<rparr>)"
    using cl(4) by (intro run_start [OF length_replicate length_replicate])
  then show ?thesis using v by (intro exI [of _ "v\<lparr>ux_client := c\<rparr>"]) (auto simp: c_def clear_def)
qed




end
