(* ===== verification/Mt_Udp_Assoc.thy ===== *)
theory Mt_Udp_Assoc
  imports Mt_Udp_Props
begin

text \<open>
  The UDP associations of SOCKS5 clients: who is answered, and whose datagrams go out.
\<close>

subsection \<open>What the functions may do\<close>

text \<open>From \<open>ux\<close> to \<open>ux'\<close> datagrams are sent: to a target with a payload that is \<open>Q\<close>, to a relay only when there are
  routes (\<open>T\<close>) or it is \<open>R\<close>, to the client at its address only. What starts to wait is of the same kind.\<close>

definition sent_ok :: "bool \<Rightarrow> (bytes \<Rightarrow> bool) \<Rightarrow> (bytes \<Rightarrow> bool) \<Rightarrow> sockaddr option \<Rightarrow> datagram \<Rightarrow> bool" where
  "sent_ok T Q R c d \<longleftrightarrow>
     (case d of TO_TARGET sa pl \<Rightarrow> Q pl | TO_RELAY sa p \<Rightarrow> T \<or> R p | TO_CLIENT sa p \<Rightarrow> c = Some sa)"

definition data_ok :: "bool \<Rightarrow> (bytes \<Rightarrow> bool) \<Rightarrow> resolve_data option \<Rightarrow> bool" where
  "data_ok T Q rd \<longleftrightarrow> (\<forall>data. rd = Some data \<longrightarrow> Q (rd_payload data) \<and> (rd_route data \<longrightarrow> T))"

definition calm :: "bool \<Rightarrow> (bytes \<Rightarrow> bool) \<Rightarrow> (bytes \<Rightarrow> bool) \<Rightarrow> udp_ctx \<Rightarrow> udp_ctx \<Rightarrow> bool" where
  "calm T Q R ux ux' \<longleftrightarrow> ux_inbound ux' = ux_inbound ux \<and> ux_udp_client ux' = ux_udp_client ux \<and>
     (\<exists>ds. ux_sent ux' = ux_sent ux @ ds \<and> (\<forall>d \<in> set ds. sent_ok T Q R (ux_udp_client ux) d)) \<and>
     (ux_resolver ux' = ux_resolver ux \<or> data_ok T Q (ux_resolver ux')) \<and>
     (ux_pending ux' \<noteq> None \<longrightarrow> ux_pending ux \<noteq> None \<or> T)"

lemma calm_refl [simp]: "calm T Q R ux ux" by (simp add: calm_def)

lemma calm_trans: "calm T Q R a b \<Longrightarrow> calm T Q R b c \<Longrightarrow> calm T Q R a c"
  unfolding calm_def by (elim conjE exE) (auto simp: ball_Un)

text \<open>Fields that do not matter.\<close>

lemma calm_fields [simp]:
  "calm T Q R (ux\<lparr>ux_restore := r\<rparr>) ux' = calm T Q R ux ux'" "calm T Q R ux (ux'\<lparr>ux_restore := r\<rparr>) = calm T Q R ux ux'"
  "calm T Q R (ux\<lparr>ux_refresh := rf\<rparr>) ux' = calm T Q R ux ux'"
  "calm T Q R (ux\<lparr>ux_udp4 := b\<rparr>) ux' = calm T Q R ux ux'" "calm T Q R (ux\<lparr>ux_udp6 := b\<rparr>) ux' = calm T Q R ux ux'"
  "calm T Q R (ux\<lparr>ux_payload := p\<rparr>) ux' = calm T Q R ux ux'"
  "calm T Q R (ux\<lparr>ux_out := d\<rparr>) ux' = calm T Q R ux ux'" "calm T Q R ux (ux'\<lparr>ux_out := d\<rparr>) = calm T Q R ux ux'"
  "calm T Q R ux (ux'\<lparr>ux_state := st\<rparr>) = calm T Q R ux ux'" "calm T Q R ux (ux'\<lparr>ux_in := bs\<rparr>) = calm T Q R ux ux'"
  "calm T Q R ux (ux'\<lparr>ux_payload := p\<rparr>) = calm T Q R ux ux'" "calm T Q R ux (ux'\<lparr>ux_client := c\<rparr>) = calm T Q R ux ux'"
  "calm T Q R ux (ux'\<lparr>ux_sendto := es\<rparr>) = calm T Q R ux ux'" "calm T Q R ux (ux'\<lparr>ux_to_client := tc\<rparr>) = calm T Q R ux ux'"
  "calm T Q R ux (ux'\<lparr>ux_upstream := up\<rparr>) = calm T Q R ux ux'" "calm T Q R (ux\<lparr>ux_upstream := up\<rparr>) ux' = calm T Q R ux ux'"
  by (simp_all add: calm_def)

lemma sendto_calm: "sent_ok T Q R (ux_udp_client ux) d \<Longrightarrow> calm T Q R ux (snd (udp_sendto d ux))"
  by (simp add: calm_def udp_sendto_def split: list.splits)

lemma sockaddr_calm: "Q pl \<Longrightarrow> calm T Q R ux (snd (send_udp_sockaddr env sa pl ux))"
  using sendto_calm [of T Q R "ux\<lparr>ux_udp4 := True\<rparr>" "TO_TARGET sa pl"] sendto_calm [of T Q R "ux\<lparr>ux_udp6 := True\<rparr>" "TO_TARGET sa pl"]
  by (auto simp: send_udp_sockaddr_def sent_ok_def split: sockaddr.splits)

lemma resolved_calm: "Q pl \<Longrightarrow> calm T Q R ux (snd (send_udp_resolved env addrs port pl pref ux))"
  using sockaddr_calm by (simp add: send_udp_resolved_def split: option.splits)

lemma forward_calm: "T \<or> R p \<Longrightarrow> calm T Q R ux (snd (forward_socks5_udp_packet p ux))"
  using sendto_calm by (simp add: forward_socks5_udp_packet_def sent_ok_def split: option.splits)

lemma socks5_calm: "T \<Longrightarrow> calm T Q R ux (snd (send_socks5_udp_frame src f ux))"
  using forward_calm [of T R _ Q "ux\<lparr>ux_out := d\<rparr>" for d]
  by (auto simp: send_socks5_udp_frame_def Let_def split: option.splits prod.splits)

lemma start_calm:
  "start_socks5_udp env ux w = Inr u \<Longrightarrow> calm T Q R ux u"
  by (auto simp: start_socks5_udp_def calm_def split: option.splits if_splits sum.splits)

lemma close_calm: "calm T Q R ux (close_socks5_udp ux)"
  by (simp add: close_socks5_udp_def calm_def Let_def)

subsection \<open>A frame of a SOCKS5 client\<close>

lemma resume_calm: "ux_inbound ux \<Longrightarrow> udp_resume k ux w = (out, ux', w') \<Longrightarrow> calm T Q R ux ux'"
  by (auto simp: udp_resume_def)

lemma calm_inbound: "calm T Q R ux ux' \<Longrightarrow> ux_inbound ux' = ux_inbound ux" by (simp add: calm_def)

lemma done_resolver: "calm T Q R ux (ux\<lparr>ux_resolver := None\<rparr>)" by (simp add: calm_def data_ok_def)

lemma udp_resolved_calm:
  assumes "udp_resolved env k data rv ux w = (out, ux', w')" "ux_inbound ux" "Q (rd_payload data)"
  shows "calm T Q R ux ux'"
proof -
  obtain b u where s: "send_udp_resolved env (rv_addrs rv) (addr_port (rd_target data)) (rd_payload data) (rd_pref data)
      (ux\<lparr>ux_resolver := None\<rparr>) = (b, u)" by (metis surj_pair)
  have u: "calm T Q R ux u" using resolved_calm [where Q = Q, OF assms(3)] s done_resolver calm_trans by (metis snd_conv)
  show ?thesis
    using assms(1) s u done_resolver [of T Q R ux] resume_calm [of u] calm_inbound [OF u] assms(2) calm_trans [OF u]
    by (auto simp: udp_resolved_def Let_def split: if_splits bool.splits)
qed

lemma start_udp_resolver_calm:
  assumes "start_udp_resolver env h route f ux w = (rc, ux', w')" "ux_inbound ux" "Q (uf_payload f)" "route \<longrightarrow> T"
    and "\<And>data rv ux w out ux' w'. h data rv ux w = (out, ux', w') \<Longrightarrow> ux_inbound ux \<Longrightarrow> Q (rd_payload data) \<Longrightarrow> calm T Q R ux ux'"
  shows "calm T Q R ux ux'"
proof -
  define data where "data = \<lparr>rd_route = route, rd_pref = current_ip_prefer (session_outbound (ue_front env) w),
    rd_target = uf_addr f, rd_payload = uf_payload f\<rparr>"
  define u where "u = ux\<lparr>ux_resolver := Some data, ux_state := ST_RESOLVING,
    ux_in := (if uf_wire_len f \<le> length (ux_in ux) then drop (uf_wire_len f) (ux_in ux) else ux_in ux)\<rparr>"
  have u: "calm T Q R ux u" "calm T Q R ux (u\<lparr>ux_resolver := None\<rparr>)" "ux_inbound u" "Q (rd_payload data)"
    using assms(2-4) by (simp_all add: u_def calm_def data_ok_def data_def)
  have h: "h data rv u w = (out, v, w'') \<Longrightarrow> calm T Q R ux v" for rv out v w''
    using assms(5) [OF _ u(3,4)] calm_trans [OF u(1)] by blast
  show ?thesis
  proof (cases "addr_type (uf_addr f) \<noteq> ADDR_DOMAIN \<or> addr_host_len (uf_addr f) = 0 \<or> addr_host_len (uf_addr f) > 255 \<or>
      route_resolver (fr_srv (ue_front env)) = None")
    case True
    then show ?thesis using assms(1) by (auto simp: start_udp_resolver_def Let_def split: if_splits)
  next
    case False
    then obtain r where "route_resolver (fr_srv (ue_front env)) = Some r" by blast
    then have "(case en_resolve_name (fr_env (ue_front env)) (host_bytes (uf_addr f)) of
        RESOLVE_FAILS \<Rightarrow> (URC_ERROR, u\<lparr>ux_resolver := None\<rparr>, w)
      | RESOLVE_LATER \<Rightarrow> (URC_AGAIN, u, w)
      | RESOLVE_NOW rv \<Rightarrow>
          (case h data rv u w of
             (UO_WAIT, ux, w) \<Rightarrow> (URC_AGAIN, ux, w)
           | (out, ux, w) \<Rightarrow> (URC_GONE out, ux, w))) = (rc, ux', w')"
      using False assms(1) unfolding u_def data_def by (simp add: start_udp_resolver_def Let_def)
    then show ?thesis using u(1,2) by (auto dest: h split: resolve_call.splits prod.splits udp_outcome.splits)
  qed
qed

lemma send_udp_frame_routed_calm:
  assumes "send_udp_frame_routed env k src f ux w = (rc, ux', w')" "ux_inbound ux" "Q (uf_payload f)"
    and "T \<or> outbound_type_of (session_outbound (ue_front env) w) \<noteq> OUTBOUND_SOCKS5"
  shows "calm T Q R ux ux'"
proof -
  have r: "rc_of r w = (rc, ux', w') \<Longrightarrow> calm T Q R ux (snd r) \<Longrightarrow> calm T Q R ux ux'" for r
    by (auto simp: rc_of_def)
  have s: "start_udp_resolver env (udp_resolved env k) False f ux w = (rc, ux', w') \<Longrightarrow> calm T Q R ux ux'"
    using start_udp_resolver_calm [where Q = Q and T = T and R = R] assms(2,3) udp_resolved_calm [where Q = Q and T = T and R = R] by blast
  have p: "calm T Q R ux ux'" if "T" and
      "(case start_socks5_udp env (close_socks5_udp (ux\<lparr>ux_payload := q, ux_pending := pd, ux_saved_outbound := ob, ux_in := i\<rparr>)) w of
         Inl st \<Rightarrow> (URC_GONE (UO_FINALIZE st), ux\<lparr>ux_payload := q, ux_pending := pd, ux_saved_outbound := ob, ux_in := i\<rparr>, w)
       | Inr ux \<Rightarrow> (URC_AGAIN, ux, w)) = (rc, ux', w')" for q pd ob i
  proof -
    define v where "v = ux\<lparr>ux_payload := q, ux_pending := pd, ux_saved_outbound := ob, ux_in := i\<rparr>"
    have v: "calm T Q R ux v" using that(1) by (simp add: v_def calm_def)
    have "ux' = v \<or> start_socks5_udp env (close_socks5_udp v) w = Inr ux'"
      using that(2) unfolding v_def [symmetric] by (auto split: sum.splits)
    then show ?thesis using v calm_trans [OF calm_trans [OF v close_calm] start_calm] by blast
  qed
  show ?thesis
  proof (cases "outbound_type_of (session_outbound (ue_front env) w) = OUTBOUND_SOCKS5")
    case ty: True
    then have T using assms(4) by simp
    let ?again = "\<not> ux_socks5_udp ux \<or> ux_relay ux = None \<or> ux_socks5_outbound ux \<noteq> get_outbound env w"
    show ?thesis
    proof (cases "?again \<and> ux_payload ux \<noteq> None")
      case True
      then obtain q where q: "ux_payload ux = Some q" by blast
      show ?thesis
        by (rule p [OF \<open>T\<close>]) (use assms(1) True q ty in
          \<open>simp only: send_udp_frame_routed_def Let_def if_True option.case simp_thms\<close>)
    next
      case False
      then show ?thesis using assms(1) ty r socks5_calm [OF \<open>T\<close>]
        unfolding send_udp_frame_routed_def Let_def by (auto split: if_splits option.splits)
    qed
  next
    case False
    then show ?thesis using assms(1,3) r s sockaddr_calm [where Q = Q]
      unfolding send_udp_frame_routed_def Let_def by (auto split: if_splits option.splits sockaddr_result.splits)
  qed
qed

lemma udp_route_resolved_calm:
  assumes "udp_route_resolved env k data rv ux w = (out, ux', w')" "ux_inbound ux" "Q (rd_payload data)" "T"
  shows "calm T Q R ux ux'"
proof -
  let ?fr = "ue_front env" and ?a = "rd_target data" and ?saved = "get_outbound env w"
  have z: "calm T Q R ux (ux\<lparr>ux_resolver := None\<rparr>)" by (rule done_resolver)
  show ?thesis
  proof (cases "rv_state rv \<noteq> 0 \<or> (\<nexists>ob ttl. select_outbound_now (fr_env ?fr) (fr_srv ?fr) (cf_resolve (w_conf w)) ?a (rv_addrs rv) True
      = SELECTED ob ttl)")
    case True
    then show ?thesis using assms(1) z by (auto simp: udp_route_resolved_def Let_def split: selection.splits)
  next
    case False
    then obtain ob ttl where sel: "rv_state rv = 0"
      "select_outbound_now (fr_env ?fr) (fr_srv ?fr) (cf_resolve (w_conf w)) ?a (rv_addrs rv) True = SELECTED ob ttl" by blast
    obtain c w1 where w1: "cache_insert (fr_srv ?fr) ?a (Some ob) ttl
        (route_valid_time (fr_env ?fr) (rv_valid rv)) (set_outbound env (Some ob) w) = (c, w1)" by (metis surj_pair)
    obtain mp v where v: "udp_route_mapping_insert (fr_id ?fr) ?a (Some ob) c w1 = (mp, v)" by (metis surj_pair)
    let ?u = "ux\<lparr>ux_resolver := None, ux_restore := ?saved\<rparr>"
    let ?f = "\<lparr>uf_addr = ?a, uf_payload_len = word_of_nat (length (rd_payload data)), uf_payload = rd_payload data, uf_wire_len = 0\<rparr>"
    obtain rc t v' where r: "send_udp_frame_routed env k None ?f ?u v = (rc, t, v')" by (metis prod_cases3)
    have "calm T Q R ?u t" using send_udp_frame_routed_calm [where Q = Q and T = T and R = R, OF r] assms(2-4) by simp
    moreover have zu: "calm T Q R ux ?u" using z by simp
    ultimately have t: "calm T Q R ux t" using calm_trans by blast
    then have "ux_inbound t" using calm_inbound assms(2) by blast
    then have res: "udp_resume k (t\<lparr>ux_restore := r\<rparr>) w2 = (out, ux', w') \<Longrightarrow> calm T Q R ux ux'" for r w2
      using resume_calm [where ux = "t\<lparr>ux_restore := r\<rparr>"] t calm_trans by fastforce
    have blk: "udp_resume k (ux\<lparr>ux_resolver := None, ux_restore := r\<rparr>) w2 = (out, ux', w') \<Longrightarrow> calm T Q R ux ux'" for r w2
      using resume_calm [where ux = "ux\<lparr>ux_resolver := None, ux_restore := r\<rparr>"] z calm_trans assms(2) by fastforce
    have "(if frame_blocked env ?f ?u v then udp_resume k (?u\<lparr>ux_restore := None\<rparr>) (set_outbound env ?saved v)
      else (case (rc, t, v') of
                  (URC_GONE out, ux, w) \<Rightarrow> (out, ux, w)
                | (URC_AGAIN, ux, w) \<Rightarrow> (UO_WAIT, ux, w)
                | (URC_ERROR, ux, w) \<Rightarrow>
                    (UO_FINALIZE S_BAD_GATEWAY, ux\<lparr>ux_restore := None\<rparr>, set_outbound env ?saved w)
                | (URC_OK, ux, w) \<Rightarrow> udp_resume k (ux\<lparr>ux_restore := None\<rparr>) (set_outbound env ?saved w))) = (out, ux', w')"
      using assms(1) sel w1 v unfolding r [symmetric] by (simp add: udp_route_resolved_def Let_def)
    then show ?thesis using t by (auto dest: res blk split: if_split_asm udp_rc.splits)
  qed
qed

lemma send_and_restore_calm:
  assumes "send_and_restore env k src f saved ux w = (rc, ux', w')" "ux_inbound ux" "Q (uf_payload f)"
    and "T \<or> outbound_type_of (session_outbound (ue_front env) w) \<noteq> OUTBOUND_SOCKS5"
  shows "calm T Q R ux ux'"
proof -
  obtain rc1 u v where r: "send_udp_frame_routed env k src f (ux\<lparr>ux_restore := saved\<rparr>) w = (rc1, u, v)"
    by (metis prod_cases3)
  have "calm T Q R (ux\<lparr>ux_restore := saved\<rparr>) u"
    using send_udp_frame_routed_calm [where Q = Q and T = T and R = R, OF r] assms(2-4) by simp
  then show ?thesis using assms(1) r
    by (auto simp: send_and_restore_def Let_def split: udp_rc.splits if_splits)
qed

lemma map_and_send_calm:
  assumes "map_and_send env k src f saved entry ux w = (rc, ux', w')" "ux_inbound ux" "Q (uf_payload f)" "T"
  shows "calm T Q R ux ux'"
proof -
  obtain v where "send_and_restore env k src f saved ux v = (rc, ux', w')"
    using assms(1) by (auto simp: map_and_send_def split: prod.splits)
  then show ?thesis using send_and_restore_calm [where Q = Q and T = T, OF _ assms(2,3) disjI1 [OF assms(4)]] by blast
qed

lemma udp_route_cache_miss_calm:
  assumes "udp_route_cache_miss env k src f saved ux w = (rc, ux', w')" "ux_inbound ux" "Q (uf_payload f)" "T"
  shows "calm T Q R ux ux'"
proof -
  have r: "calm T Q R ux ux'" if "start_udp_route_resolver env k f ux w = (rc, ux', w')"
  proof (cases "route_resolver_kind (fr_srv (ue_front env)) = RESOLVER_NGINX")
    case True
    then have "start_udp_resolver env (udp_route_resolved env k) True f ux w = (rc, ux', w')"
      using that by (simp add: start_udp_route_resolver_def)
    then show ?thesis
      using start_udp_resolver_calm [where Q = Q and T = T and R = R and h = "udp_route_resolved env k", OF _ assms(2,3)]
        udp_route_resolved_calm [where Q = Q and T = T and R = R, OF _ _ _ assms(4)] assms(4) by blast
  next
    case False
    then show ?thesis using that by (simp add: start_udp_route_resolver_def)
  qed
  show ?thesis
    using assms(1) r map_and_send_calm [where Q = Q and T = T and R = R, OF _ assms(2-4)]
      send_and_restore_calm [where Q = Q and T = T and R = R, OF _ assms(2,3) disjI1 [OF assms(4)]]
    unfolding udp_route_cache_miss_def Let_def
    by (auto split: selection.splits if_splits option.splits prod.splits)
qed

lemma send_udp_frame_calm:
  assumes "send_udp_frame env k src f0 ux w = (rc, ux', w')" "ux_inbound ux" "Q (uf_payload f0)"
    and "T = rs_route_enabled (fr_srv (ue_front env))"
    and "T \<or> outbound_type_of (session_outbound (ue_front env) w) \<noteq> OUTBOUND_SOCKS5"
  shows "calm T Q R ux ux'"
proof -
  define f where "f = f0\<lparr>uf_addr := route_resolve_target (fr_env (ue_front env)) (cf_resolve (w_conf w)) (uf_addr f0)\<rparr>"
  have q: "Q (uf_payload f)" using assms(3) by (simp add: f_def)
  show ?thesis
  proof (cases T)
    case False
    then show ?thesis
      using assms(1,2,4,5) send_and_restore_calm [where Q = Q and T = T and R = R, OF _ _ q]
      by (simp add: send_udp_frame_def Let_def f_def [symmetric])
  next
    case True
    note sr = send_and_restore_calm [where Q = Q and T = T and R = R, OF _ assms(2) q disjI1 [OF True]]
      and ms = map_and_send_calm [where Q = Q and T = T and R = R, OF _ assms(2) q True]
      and cm = udp_route_cache_miss_calm [where Q = Q and T = T and R = R, OF _ assms(2) q True]
    have mr: "map_and_send env k src f s c (ux\<lparr>ux_refresh := rf\<rparr>) v = (rc, ux', w') \<Longrightarrow> calm T Q R ux ux'" for s c rf v
      using map_and_send_calm [where Q = Q and T = T and R = R and ux = "ux\<lparr>ux_refresh := rf\<rparr>", OF _ _ q True] assms(2) by simp
    show ?thesis
      using assms(1,4) True sr ms mr cm unfolding send_udp_frame_def Let_def f_def [symmetric]
      by (auto split: option.splits if_splits prod.splits)
  qed
qed

subsection \<open>The invariant\<close>

text \<open>Datagrams of the client so far: payloads, and whole packets.\<close>

definition client_payload :: "sockaddr option \<Rightarrow> recvfrom_event list \<Rightarrow> bytes \<Rightarrow> bool" where
  "client_payload c recv pl \<longleftrightarrow> (\<exists>sa bs f. c = Some sa \<and> RECVFROM sa bs \<in> set recv \<and>
     socks5_parse_udp_packet (Some (take SOCKS5_MAX_PACKET bs)) = Some f \<and> pl = uf_payload f)"

definition client_packet :: "sockaddr option \<Rightarrow> recvfrom_event list \<Rightarrow> bytes \<Rightarrow> bool" where
  "client_packet c recv p \<longleftrightarrow> (\<exists>sa bs. c = Some sa \<and> RECVFROM sa bs \<in> set recv \<and> p = take SOCKS5_MAX_PACKET bs)"

abbreviation has_routes :: "udp_env \<Rightarrow> bool" where "has_routes env \<equiv> rs_route_enabled (fr_srv (ue_front env))"

definition assoc_inv :: "udp_env \<Rightarrow> recvfrom_event list \<Rightarrow> udp_ctx \<Rightarrow> bool" where
  "assoc_inv env recv ux \<longleftrightarrow> ux_inbound ux \<and>
     (\<forall>d \<in> set (ux_sent ux). sent_ok (has_routes env) (client_payload (ux_udp_client ux) recv)
        (client_packet (ux_udp_client ux) recv) (ux_udp_client ux) d) \<and>
     data_ok (has_routes env) (client_payload (ux_udp_client ux) recv) (ux_resolver ux) \<and>
     (ux_pending ux \<noteq> None \<longrightarrow> has_routes env)"

lemma assoc_calm:
  "assoc_inv env recv ux \<Longrightarrow>
   calm (has_routes env) (client_payload (ux_udp_client ux) recv) (client_packet (ux_udp_client ux) recv) ux ux' \<Longrightarrow>
     assoc_inv env recv ux'"
  unfolding assoc_inv_def calm_def by (elim conjE exE) (auto simp: ball_Un)

lemma sent_ok_mono:
  "sent_ok T Q R c d \<Longrightarrow> (\<And>x. Q x \<Longrightarrow> Q' x) \<Longrightarrow> (\<And>x. R x \<Longrightarrow> R' x) \<Longrightarrow> (\<And>sa. c = Some sa \<Longrightarrow> c' = Some sa) \<Longrightarrow> sent_ok T Q' R' c' d"
  by (auto simp: sent_ok_def split: datagram.splits)

lemma assoc_more:
  assumes "assoc_inv env recv ux" "set recv \<subseteq> set recv'"
  shows "assoc_inv env recv' ux"
proof -
  have m: "client_payload c recv x \<Longrightarrow> client_payload c recv' x" "client_packet c recv x \<Longrightarrow> client_packet c recv' x" for c x
    using assms(2) unfolding client_payload_def client_packet_def by blast+
  show ?thesis
    using assms(1) m unfolding assoc_inv_def data_ok_def by (auto intro: sent_ok_mono)
qed

text \<open>The first sender becomes the client.\<close>

lemma assoc_pin:
  assumes "assoc_inv env recv ux" "ux_udp_client ux = None \<or> ux_udp_client ux = Some sa"
  shows "assoc_inv env recv (ux\<lparr>ux_udp_client := Some sa\<rparr>)"
proof (cases "ux_udp_client ux")
  case None
  have n: "\<not> client_payload None recv x" "\<not> client_packet None recv x" for x
    by (simp_all add: client_payload_def client_packet_def)
  show ?thesis
    using assms(1) n unfolding assoc_inv_def None data_ok_def by (auto intro: sent_ok_mono)
next
  case (Some c)
  then have "ux\<lparr>ux_udp_client := Some sa\<rparr> = ux" using assms(2) by simp
  then show ?thesis using assms(1) by simp
qed

lemma socks5_in_datagram_inv:
  assumes "socks5_in_datagram env sa bs ux w = (out, ux', w')" "assoc_inv env recv ux" "RECVFROM sa bs \<in> set recv"
  shows "assoc_inv env recv ux'"
proof -
  define b where "b = take SOCKS5_MAX_PACKET bs"
  define u where "u = ux\<lparr>ux_out := poke (ux_out ux) 0 b\<rparr>"
  let ?v = "u\<lparr>ux_udp_client := Some sa\<rparr>"
  let ?Q = "client_payload (Some sa) recv" and ?R = "client_packet (Some sa) recv"
  have u: "assoc_inv env recv u" using assms(2) by (rule assoc_calm) (simp add: u_def)
  have tk: "take (length b) (ux_out u) = b" by (simp add: u_def take_poked)
  have drop: "ux_resolver u = ux_resolver ux" "ux_udp_client u = ux_udp_client ux" by (simp_all add: u_def)
  note run = assms(1) [unfolded socks5_in_datagram_def Let_def b_def [symmetric] u_def [symmetric] tk]
  show ?thesis
  proof (cases "socks5_parse_udp_packet (Some b)")
    case None
    then show ?thesis using run u by simp
  next
    case (Some f)
    show ?thesis
    proof (cases "ux_resolver u \<noteq> None \<or> ux_udp_client u \<noteq> None \<and> ux_udp_client u \<noteq> Some sa")
      case True
      then show ?thesis using run u Some by (auto split: if_splits)
    next
      case False
      then have v: "assoc_inv env recv ?v" by (intro assoc_pin [OF u]) simp
      have q: "?Q (uf_payload f)" "?R b" using Some assms(3) unfolding client_payload_def client_packet_def b_def by blast+
      have tv: "take (length b) (ux_out ?v) = b" using tk by simp
      have c: "calm (has_routes env) ?Q ?R ?v x \<Longrightarrow> assoc_inv env recv x" for x
        using assoc_calm [OF v] by simp
      have nr: "(ux_resolver u \<noteq> None) = False" "(ux_udp_client u \<noteq> None \<and> ux_udp_client u \<noteq> Some sa) = False"
        using False by simp_all
      have run2: "(if \<not> has_routes env \<and> outbound_type_of (session_outbound (ue_front env) w) = OUTBOUND_SOCKS5
             then (UO_WAIT, snd (forward_socks5_udp_packet b ?v), w)
             else
               (case send_udp_frame env (udp_client env) (Some (3 + addr_wire_len (uf_addr f))) f ?v w of
                  (URC_GONE out, ux, w) \<Rightarrow> (used_after out, ux, w)
                | (_, ux, w) \<Rightarrow> (UO_WAIT, ux, w))) = (out, ux', w')"
        using run [unfolded Some option.case tv] unfolding nr if_False .
      show ?thesis
      proof (cases "\<not> has_routes env \<and> outbound_type_of (session_outbound (ue_front env) w) = OUTBOUND_SOCKS5")
        case True
        then show ?thesis using run2 c [OF forward_calm [OF disjI2]] q(2) by auto
      next
        case False
        obtain rc x w2 where s: "send_udp_frame env (udp_client env) (Some (3 + addr_wire_len (uf_addr f))) f ?v w = (rc, x, w2)"
          by (metis prod_cases3)
        have "ux_inbound ?v" using v by (simp add: assoc_inv_def)
        then have "calm (has_routes env) ?Q ?R ?v x"
          using send_udp_frame_calm [where Q = ?Q and R = ?R and T = "has_routes env", OF s] q(1) False by blast
        then show ?thesis using c run2 s False by (auto split: udp_rc.splits)
      qed
    qed
  qed
qed

lemma socks5_in_read_inv:
  assumes "socks5_in_udp_read_handler env evs ux w = (out, ux', w')" "assoc_inv env recv ux" "set evs \<subseteq> set recv"
  shows "assoc_inv env recv ux'"
  using assms
proof (induction env evs ux w rule: socks5_in_udp_read_handler.induct)
  case (3 env sa bs evs ux w)
  obtain o1 u v where d: "socks5_in_datagram env sa bs ux w = (o1, u, v)" by (metis prod_cases3)
  have "assoc_inv env recv u" using socks5_in_datagram_inv [OF d "3.prems"(2)] "3.prems"(3) by simp
  then show ?case using "3.prems"(1,3) "3.IH" [OF d [symmetric] _ refl] d by (auto split: udp_outcome.splits)
qed simp_all

subsection \<open>The other events\<close>

lemma assoc_resolver:
  assumes "udp_resolver_event env rv ux w = (out, ux', w')" "assoc_inv env recv ux"
  shows "assoc_inv env recv ux'"
proof (cases "ux_resolver ux")
  case None
  then show ?thesis using assms by (simp add: udp_resolver_event_def)
next
  case (Some data)
  let ?Q = "client_payload (ux_udp_client ux) recv" and ?R = "client_packet (ux_udp_client ux) recv"
  have i: "ux_inbound ux" "?Q (rd_payload data)" "rd_route data \<Longrightarrow> has_routes env"
    using assms(2) Some by (auto simp: assoc_inv_def data_ok_def)
  have "calm (has_routes env) ?Q ?R ux ux'"
  proof (cases "rd_route data")
    case True
    then have "udp_route_resolved env (udp_client env) data rv ux w = (out, ux', w')"
      using assms(1) Some by (simp add: udp_resolver_event_def)
    then show ?thesis using udp_route_resolved_calm [where Q = ?Q and R = ?R and T = "has_routes env"] i True by blast
  next
    case False
    then have "udp_resolved env (udp_client env) data rv ux w = (out, ux', w')"
      using assms(1) Some by (simp add: udp_resolver_event_def)
    then show ?thesis using udp_resolved_calm [where Q = ?Q and R = ?R and T = "has_routes env"] i by blast
  qed
  then show ?thesis by (rule assoc_calm [OF assms(2)])
qed

lemma assoc_ready:
  assumes "socks5_udp_ready env a ux w = (out, ux', w')" "assoc_inv env recv ux"
  shows "assoc_inv env recv ux'"
proof -
  let ?Q = "client_payload (ux_udp_client ux) recv" and ?R = "client_packet (ux_udp_client ux) recv"
  let ?calm = "calm (has_routes env) ?Q ?R"
  have inb: "ux_inbound ux" and pend: "ux_pending ux \<noteq> None \<Longrightarrow> has_routes env" using assms(2) by (simp_all add: assoc_inv_def)
  have "?calm ux ux'"
  proof (cases "ux' = ux")
    case False
    then obtain sa where run: "(let ux = ux\<lparr>ux_relay := Some sa, ux_socks5_udp := True, ux_socks5_outbound := get_outbound env w\<rparr> in
                 (case ux_pending ux of
                    None \<Rightarrow> udp_resume (udp_client env) ux w
                  | Some (a, len) \<Rightarrow>
                      let f = \<lparr>uf_addr = a, uf_payload_len = word_of_nat len,
                               uf_payload = mem (ux_payload ux) len, uf_wire_len = 0\<rparr>;
                          saved = get_outbound env w;
                          back = (\<lambda>ux. if ux_restore ux \<noteq> None then ux_restore ux else saved);
                          w = set_outbound env (ux_saved_outbound ux) w in
                      (case send_socks5_udp_frame None f (ux\<lparr>ux_pending := None\<rparr>) of
                         (False, ux) \<Rightarrow>
                           (UO_FINALIZE S_BAD_GATEWAY, ux\<lparr>ux_restore := None\<rparr>, set_outbound env (back ux) w)
                       | (True, ux) \<Rightarrow>
                           udp_resume (udp_client env) (ux\<lparr>ux_restore := None\<rparr>) (set_outbound env (back ux) w)))) = (out, ux', w')"
      using assms(1) by (auto simp: socks5_udp_ready_def split: option.splits if_splits)
    define u where "u = ux\<lparr>ux_relay := Some sa, ux_socks5_udp := True, ux_socks5_outbound := get_outbound env w\<rparr>"
    have u: "?calm ux u" "?calm ux (u\<lparr>ux_pending := None\<rparr>)" "ux_inbound u" "ux_pending u = ux_pending ux"
      using inb by (simp_all add: u_def calm_def)
    show ?thesis
    proof (cases "ux_pending u")
      case None
      then have "udp_resume (udp_client env) u w = (out, ux', w')" using run unfolding u_def by simp
      then show ?thesis using resume_calm u(1,3) calm_trans by blast
    next
      case (Some p)
      obtain x len where p: "p = (x, len)" by (cases p)
      let ?f = "\<lparr>uf_addr = x, uf_payload_len = word_of_nat len, uf_payload = mem (ux_payload u) len, uf_wire_len = 0\<rparr>"
      obtain r v where s: "send_socks5_udp_frame None ?f (u\<lparr>ux_pending := None\<rparr>) = (r, v)" by (metis surj_pair)
      have "has_routes env" using pend Some u(4) by simp
      then have "?calm (u\<lparr>ux_pending := None\<rparr>) v" using socks5_calm s by (metis snd_conv)
      then have v: "?calm ux v" using calm_trans u(2) by blast
      then have "ux_inbound v" using calm_inbound inb by blast
      then have res: "udp_resume (udp_client env) (v\<lparr>ux_restore := z\<rparr>) w2 = (out, ux', w') \<Longrightarrow> ?calm ux ux'" for z w2
        using resume_calm [where ux = "v\<lparr>ux_restore := z\<rparr>"] v calm_trans by fastforce
      show ?thesis
        using run Some s v p res unfolding u_def [symmetric] by (auto simp: Let_def split: bool.splits)
    qed
  qed simp
  then show ?thesis by (rule assoc_calm [OF assms(2)])
qed

lemma assoc_handshake:
  assumes "udp_handshake_event env ux w = (out, ux', w')" "assoc_inv env recv ux"
  shows "assoc_inv env recv ux'"
proof -
  have up: "assoc_inv env recv (ux\<lparr>ux_upstream := u\<rparr>)" for u using assms(2) by (simp add: assoc_inv_def)
  then have r: "socks5_udp_ready env a (ux\<lparr>ux_upstream := u\<rparr>) w = (out, ux', w') \<Longrightarrow> assoc_inv env recv ux'" for a u
    using assoc_ready by blast
  show ?thesis
    using assms up by (auto simp: udp_handshake_event_def Let_def dest: r
        split: option.splits prod.splits hs_result.splits)
qed

text \<open>What comes back goes to the client.\<close>

lemma flush_calm: "calm T Q R ux (snd (flush_udp_client ux))"
  by (auto simp: flush_udp_client_def split: option.splits prod.splits)

lemma give_socks5_calm: "calm T Q R ux (snd (give_socks5_client p ux))"
proof (cases "ux_udp_client ux")
  case None
  then show ?thesis by (simp add: give_socks5_client_def)
next
  case (Some sa)
  obtain b u where s: "udp_sendto (TO_CLIENT sa p) ux = (b, u)" by (metis surj_pair)
  have "calm T Q R ux u" using sendto_calm [of T Q R ux "TO_CLIENT sa p"] Some s by (simp add: sent_ok_def)
  then show ?thesis using Some s by (simp add: give_socks5_client_def split: bool.splits)
qed

lemma give_regions_calm:
  "calm T Q R ux (snd (give_socks5_client p (ux\<lparr>ux_out := d\<rparr>)))"
  "calm T Q R ux (snd (give_socks5_client p (ux\<lparr>ux_payload := q, ux_out := d\<rparr>)))"
  "calm T Q R ux (snd (give_socks5_client p (ux\<lparr>ux_payload := q, ux_out := d, ux_out := d'\<rparr>)))"
  using give_socks5_calm [of T Q R "ux\<lparr>ux_out := d\<rparr>"] give_socks5_calm [of T Q R "ux\<lparr>ux_payload := q, ux_out := d\<rparr>"]
    give_socks5_calm [of T Q R "ux\<lparr>ux_payload := q, ux_out := d'\<rparr>"]
  by simp_all

lemma read_loop_calm:
  assumes "\<And>sa bs ux. ux_inbound ux \<Longrightarrow> calm T Q R ux (snd (turn sa bs ux))"
    and "ux_inbound ux" "udp_read_loop turn evs ux = (out, ux', rest)"
  shows "calm T Q R ux ux'"
  using assms(2,3)
proof (induction evs arbitrary: ux)
  case Nil
  then show ?case using flush_calm by auto
next
  case (Cons ev evs)
  obtain r u where f: "flush_udp_client ux = (r, u)" by (metis surj_pair)
  have u: "calm T Q R ux u" using flush_calm f by (metis snd_conv)
  then have inb: "ux_inbound u" using calm_inbound Cons.prems(1) by blast
  show ?case
  proof (cases "\<exists>sa bs. r = IO_OK \<and> ev = RECVFROM sa bs")
    case True
    then obtain sa bs where ev: "r = IO_OK" "ev = RECVFROM sa bs" by blast
    obtain rt v where t: "turn sa bs u = (rt, v)" by (metis surj_pair)
    have v: "calm T Q R ux v" using assms(1) [OF inb, of sa bs] t u calm_trans by (metis snd_conv)
    have iv: "ux_inbound v" using calm_inbound [OF v] Cons.prems(1) by simp
    show ?thesis
      using Cons.prems(2) f ev t v Cons.IH [OF iv] calm_trans [OF v] by (auto split: read_turn.splits)
  next
    case False
    then have "ux' = u" using Cons.prems(2) f by (cases r; cases ev) auto
    then show ?thesis using u by simp
  qed
qed

lemma target_turn_calm: "ux_inbound ux \<Longrightarrow> calm T Q R ux (snd (udp_read_datagram sa bs ux))"
  unfolding udp_read_datagram_def Let_def
  by (auto simp del: poke_0 intro: give_regions_calm split: option.splits prod.splits)

lemma relay_turn_calm: "ux_inbound ux \<Longrightarrow> calm T Q R ux (snd (socks5_read_datagram bs ux))"
  unfolding socks5_read_datagram_def Let_def
  by (auto simp del: poke_0 intro: give_regions_calm split: option.splits prod.splits)

subsection \<open>Runs\<close>

text \<open>An association from the end of \<open>process_socks5_in\<close> on, with \<open>recv\<close> all that has come in at the socket for the client;
  the results of the sockets are renewed between the events, and the world may have changed.\<close>

inductive assoc_run :: "udp_env \<Rightarrow> recvfrom_event list \<Rightarrow> udp_ctx \<Rightarrow> bool" for env where
  assoc_start: "ss_in_socks5 s \<Longrightarrow> assoc_run env [] ((udp_start payload out s)\<lparr>ux_state := ST_SOCKS5_IN_UDP_CONTROL\<rparr>)"
| assoc_socks5: "ss_in_socks5 s \<Longrightarrow> start_socks5_udp env (udp_start payload out s) w = Inr ux \<Longrightarrow> assoc_run env [] ux"
| assoc_io: "assoc_run env recv ux \<Longrightarrow> assoc_run env recv (new_io rs ss es up ux)"
| assoc_recv: "assoc_run env recv ux \<Longrightarrow> socks5_in_udp_read_handler env evs ux w = (UO_WAIT, ux', w') \<Longrightarrow>
    assoc_run env (recv @ evs) ux'"
| assoc_resolved: "assoc_run env recv ux \<Longrightarrow> udp_resolver_event env rv ux w = (UO_WAIT, ux', w') \<Longrightarrow> assoc_run env recv ux'"
| assoc_hs: "assoc_run env recv ux \<Longrightarrow> udp_handshake_event env ux w = (UO_WAIT, ux', w') \<Longrightarrow> assoc_run env recv ux'"
| assoc_read: "assoc_run env recv ux \<Longrightarrow> udp_read_handler evs ux = (UO_WAIT, ux', rest) \<Longrightarrow> assoc_run env recv ux'"
| assoc_relay: "assoc_run env recv ux \<Longrightarrow> socks5_udp_read_handler evs ux = (UO_WAIT, ux', rest) \<Longrightarrow> assoc_run env recv ux'"
| assoc_control: "assoc_run env recv ux \<Longrightarrow> socks5_in_udp_control_handler False False ux = (UO_WAIT, ux') \<Longrightarrow> assoc_run env recv ux'"
| assoc_upstream: "assoc_run env recv ux \<Longrightarrow> socks5_udp_control_handler False False ux = (UO_WAIT, ux') \<Longrightarrow> assoc_run env recv ux'"

lemma assoc_start_inv: "ss_in_socks5 s \<Longrightarrow> assoc_inv env [] (udp_start payload out s)"
  by (simp add: assoc_inv_def udp_start_def data_ok_def)

lemma assoc_calm_any: "assoc_inv env recv ux \<Longrightarrow> (\<And>T Q R. calm T Q R ux ux') \<Longrightarrow> assoc_inv env recv ux'"
  using assoc_calm by blast

lemma assoc_run_inv: "assoc_run env recv ux \<Longrightarrow> assoc_inv env recv ux"
proof (induction rule: assoc_run.induct)
  case (assoc_start s payload out)
  then show ?case by (intro assoc_calm_any [OF assoc_start_inv [where s = s and payload = payload and out = out]]) simp_all
next
  case (assoc_socks5 s payload out w ux)
  then show ?case using start_calm by (intro assoc_calm_any [OF assoc_start_inv [where s = s and payload = payload and out = out]]) blast+
next
  case (assoc_io recv ux rs ss es up)
  show ?case by (rule assoc_calm_any [OF assoc_io.IH]) (simp add: new_io_def)
next
  case (assoc_recv recv ux evs w ux' w')
  have "assoc_inv env (recv @ evs) ux" using assoc_more [OF assoc_recv.IH] by simp
  then show ?case using socks5_in_read_inv [OF assoc_recv.hyps(2)] by simp
next
  case (assoc_resolved recv ux rv w ux' w')
  then show ?case using assoc_resolver by blast
next
  case (assoc_hs recv ux w ux' w')
  then show ?case using assoc_handshake by blast
next
  case (assoc_read recv ux evs ux' rest)
  then have "ux_inbound ux" "udp_read_loop udp_read_datagram evs ux = (UO_WAIT, ux', rest)"
    by (simp_all add: assoc_inv_def udp_read_handler_def)
  then have "calm T Q R ux ux'" for T Q R by (rule read_loop_calm [where turn = udp_read_datagram, rotated]) (rule target_turn_calm)
  then show ?case by (rule assoc_calm_any [OF assoc_read.IH])
next
  case (assoc_relay recv ux evs ux' rest)
  then have "ux_inbound ux" "udp_read_loop (\<lambda>sa. socks5_read_datagram) evs ux = (UO_WAIT, ux', rest)"
    by (simp_all add: assoc_inv_def socks5_udp_read_handler_def)
  then have "calm T Q R ux ux'" for T Q R
    by (rule read_loop_calm [where turn = "\<lambda>sa. socks5_read_datagram", rotated]) (rule relay_turn_calm)
  then show ?case by (rule assoc_calm_any [OF assoc_relay.IH])
next
  case (assoc_control recv ux ux')
  then obtain c where "ux' = ux\<lparr>ux_client := c\<rparr>"
    by (auto simp: socks5_in_udp_control_handler_def Let_def split: prod.splits)
  then show ?case by (intro assoc_calm_any [OF assoc_control.IH]) simp
next
  case (assoc_upstream recv ux ux')
  then obtain u where "ux' = ux\<lparr>ux_upstream := u\<rparr> \<or> ux' = ux"
    by (auto simp: socks5_udp_control_handler_def Let_def split: option.splits prod.splits)
  then show ?case by (intro assoc_calm_any [OF assoc_upstream.IH]) auto
qed

text \<open>
  C5: A SOCKS5 association belongs to its first sender. In every state that an association reaches, through
  datagrams of anybody, answers of targets, relays and resolvers and handshakes in any order: what is sent to
  a client goes to the address of the first sender of a SOCKS5 packet, and every payload sent to a target is
  the payload of a packet that this sender has sent. Without routes what is sent to the relay of a SOCKS5
  server is such a packet, unchanged. Nobody else can send through the association or receive from it.
\<close>

theorem association_pinned:
  assumes "assoc_run env recv ux"
  shows "(\<forall>sa p. TO_CLIENT sa p \<in> set (ux_sent ux) \<longrightarrow> ux_udp_client ux = Some sa) \<and>
    (\<forall>sa pl. TO_TARGET sa pl \<in> set (ux_sent ux) \<longrightarrow>
       (\<exists>c bs f. ux_udp_client ux = Some c \<and> RECVFROM c bs \<in> set recv \<and>
          socks5_parse_udp_packet (Some (take SOCKS5_MAX_PACKET bs)) = Some f \<and> pl = uf_payload f)) \<and>
    (\<forall>sa p. \<not> has_routes env \<and> TO_RELAY sa p \<in> set (ux_sent ux) \<longrightarrow>
       (\<exists>c bs. ux_udp_client ux = Some c \<and> RECVFROM c bs \<in> set recv \<and> p = take SOCKS5_MAX_PACKET bs))"
proof -
  have inv: "\<forall>d \<in> set (ux_sent ux). sent_ok (has_routes env) (client_payload (ux_udp_client ux) recv)
        (client_packet (ux_udp_client ux) recv) (ux_udp_client ux) d"
    using assoc_run_inv [OF assms] by (simp add: assoc_inv_def)
  show ?thesis
  proof (intro conjI allI impI)
    fix sa p
    assume "TO_CLIENT sa p \<in> set (ux_sent ux)"
    then show "ux_udp_client ux = Some sa" using inv by (auto simp: sent_ok_def)
  next
    fix sa pl
    assume "TO_TARGET sa pl \<in> set (ux_sent ux)"
    then have "client_payload (ux_udp_client ux) recv pl" using inv by (auto simp: sent_ok_def)
    then show "\<exists>c bs f. ux_udp_client ux = Some c \<and> RECVFROM c bs \<in> set recv \<and>
          socks5_parse_udp_packet (Some (take SOCKS5_MAX_PACKET bs)) = Some f \<and> pl = uf_payload f"
      unfolding client_payload_def by blast
  next
    fix sa p
    assume "\<not> has_routes env \<and> TO_RELAY sa p \<in> set (ux_sent ux)"
    then have "client_packet (ux_udp_client ux) recv p" using inv by (auto simp: sent_ok_def)
    then show "\<exists>c bs. ux_udp_client ux = Some c \<and> RECVFROM c bs \<in> set recv \<and> p = take SOCKS5_MAX_PACKET bs"
      unfolding client_packet_def by blast
  qed
qed

definition assoc_session :: session where
  "assoc_session = udp_sample_session\<lparr>ss_in_socks5 := True\<rparr>"

definition assoc_packet :: bytes where
  "assoc_packet = [0, 0, 0] @ trojan_addr_wire ADDR_IPV4 [1, 2, 3, 4] 53 @ [9]"

lemma assoc_packet_frame:
  "socks5_parse_udp_packet (Some assoc_packet) = Some \<lparr>uf_addr = addr_of ADDR_IPV4 [1, 2, 3, 4] 53 7,
     uf_payload_len = 1, uf_payload = [9], uf_wire_len = 11\<rparr>"
proof -
  have tl: "trojan_addr_len ADDR_IPV4 (length [1 :: byte, 2, 3, 4]) = 7" by (simp add: trojan_addr_len_def wire_defs)
  have a: "trojan_parse_addr (Some (trojan_addr_wire ADDR_IPV4 [1, 2, 3, 4] 53 @ [9])) = Some (addr_of ADDR_IPV4 [1, 2, 3, 4] 53 7)"
    using trojan_parse_addr_wire [of ADDR_IPV4 "[1, 2, 3, 4]" 53 "[9]", unfolded tl] by (simp add: valid_addr_cases)
  have l: "length (trojan_addr_wire ADDR_IPV4 [1, 2, 3, 4] 53) = 7" using tl by simp
  have d: "drop 3 assoc_packet = trojan_addr_wire ADDR_IPV4 [1, 2, 3, 4] 53 @ [9]" "drop 10 assoc_packet = [9]"
      "length assoc_packet = 11" "assoc_packet ! 0 = 0" "assoc_packet ! Suc 0 = 0" "assoc_packet ! 2 = 0"
    using l unfolding assoc_packet_def by simp_all
  show ?thesis by (simp add: socks5_parse_udp_packet_def d a)
qed

lemma assoc_sample_run:
  "\<exists>ux. assoc_run udp_sample_env [RECVFROM (SA4 5 6) assoc_packet] ux \<and> ux_sent ux = [TO_TARGET (SA4 0x01020304 53) [9]]"
proof -
  let ?f = "\<lparr>uf_addr = addr_of ADDR_IPV4 [1, 2, 3, 4] 53 7, uf_payload_len = 1, uf_payload = [9], uf_wire_len = 11\<rparr>"
  define ux where "ux = (udp_start [] (replicate UDP_BUFFER_SIZE 0) assoc_session)\<lparr>ux_state := ST_SOCKS5_IN_UDP_CONTROL\<rparr>"
  define v where "v = ux\<lparr>ux_out := poke (ux_out ux) 0 assoc_packet, ux_udp_client := Some (SA4 5 6)\<rparr>"
  have "length assoc_packet = 11" by (simp add: assoc_packet_def trojan_addr_len_def wire_defs)
  then have tk: "take SOCKS5_MAX_PACKET assoc_packet = assoc_packet" by (simp add: wire_defs)
  have o: "session_outbound (ue_front udp_sample_env) sample_world = None"
    by (simp add: udp_sample_env_def sample_front_def session_outbound_def split: option.splits)
  have ux: "ux_resolver ux = None" "ux_udp_client ux = None" "ux_sendto v = []" "ux_sent v = []"
    by (simp_all add: ux_def v_def udp_start_def)
  obtain w' where s: "send_udp_frame udp_sample_env (udp_client udp_sample_env) (Some (3 + addr_wire_len (uf_addr ?f))) ?f v sample_world =
      (URC_OK, v\<lparr>ux_udp4 := True, ux_sent := ux_sent v @ [TO_TARGET (SA4 0x01020304 53) [9]], ux_restore := None\<rparr>, w')"
    using udp_sample_send [where f = ?f and k = "udp_client udp_sample_env" and w = sample_world, OF _ ux(3)] by fastforce
  have "socks5_in_datagram udp_sample_env (SA4 5 6) assoc_packet ux sample_world =
      (UO_WAIT, v\<lparr>ux_udp4 := True, ux_sent := ux_sent v @ [TO_TARGET (SA4 0x01020304 53) [9]], ux_restore := None\<rparr>, w')"
    using s o unfolding socks5_in_datagram_def Let_def tk
    by (simp add: take_poked assoc_packet_frame ux v_def outbound_type_of_def del: poke_0)
  then have "socks5_in_udp_read_handler udp_sample_env [RECVFROM (SA4 5 6) assoc_packet] ux sample_world =
      (UO_WAIT, v\<lparr>ux_udp4 := True, ux_sent := ux_sent v @ [TO_TARGET (SA4 0x01020304 53) [9]], ux_restore := None\<rparr>, w')"
    by simp
  moreover have "assoc_run udp_sample_env [] ux" unfolding ux_def by (rule assoc_start) (simp add: assoc_session_def)
  ultimately have "assoc_run udp_sample_env ([] @ [RECVFROM (SA4 5 6) assoc_packet])
      (v\<lparr>ux_udp4 := True, ux_sent := ux_sent v @ [TO_TARGET (SA4 0x01020304 53) [9]], ux_restore := None\<rparr>)"
    by (rule assoc_recv [rotated])
  then show ?thesis using ux(4) by (intro exI conjI) (simp, simp)
qed

theorem association_pinned_witness:
  "\<exists>ux :: udp_ctx. ux_sent ux = [TO_TARGET (SA4 0x01020304 53) [9]] \<and> ux_udp_client ux = Some (SA4 5 6)"
proof -
  obtain ux where ux: "assoc_run udp_sample_env [RECVFROM (SA4 5 6) assoc_packet] ux"
      "ux_sent ux = [TO_TARGET (SA4 0x01020304 53) [9]]"
    using assoc_sample_run by blast
  have "\<exists>c bs f. ux_udp_client ux = Some c \<and> RECVFROM c bs \<in> set [RECVFROM (SA4 5 6) assoc_packet] \<and>
      socks5_parse_udp_packet (Some (take SOCKS5_MAX_PACKET bs)) = Some f \<and> [9] = uf_payload f"
    using association_pinned [OF ux(1)] ux(2) by (metis list.set_intros(1))
  with ux(2) show ?thesis by auto
qed

end
