(* ===== verification/Mt_Udp_Ends.thy ===== *)
theory Mt_Udp_Ends
  imports Mt_Udp_Replies
begin

text \<open>
  The loop over the frames of a client ends: every turn, and every handler of a resolver that runs inside of
  one, has less of the stream or fewer events of the socket before it.
\<close>

definition work :: "udp_ctx \<Rightarrow> nat" where
  "work ux = length (ux_in ux) + length (cn_in (ux_client ux)) + length (cn_recvs (ux_client ux))"

definition same_work :: "udp_ctx \<Rightarrow> udp_ctx \<Rightarrow> bool" where
  "same_work ux ux' \<longleftrightarrow> ux_in ux' = ux_in ux \<and> ux_client ux' = ux_client ux"

text \<open>The bytes that \<open>start_resolver\<close> takes off the stream.\<close>

definition taken_off :: "udp_frame_t \<Rightarrow> udp_ctx \<Rightarrow> nat" where
  "taken_off f ux = (if uf_wire_len f \<le> length (ux_in ux) then uf_wire_len f else 0)"

definition ends_below :: "nat \<Rightarrow> (udp_ctx \<Rightarrow> world \<Rightarrow> udp_outcome \<times> udp_ctx \<times> world) \<Rightarrow> bool" where
  "ends_below m k \<longleftrightarrow> (\<forall>ux w. work ux < m \<longrightarrow> fst (k ux w) \<noteq> UO_FUEL)"

definition handler_ends :: "nat \<Rightarrow> (resolve_data \<Rightarrow> resolved \<Rightarrow> udp_ctx \<Rightarrow> world \<Rightarrow> udp_outcome \<times> udp_ctx \<times> world) \<Rightarrow> bool" where
  "handler_ends m h \<longleftrightarrow> (\<forall>data rv ux w. work ux < m \<longrightarrow> fst (h data rv ux w) \<noteq> UO_FUEL)"

definition ends_rc :: "udp_ctx \<Rightarrow> udp_rc \<Rightarrow> udp_ctx \<Rightarrow> bool" where
  "ends_rc ux rc ux' \<longleftrightarrow> rc \<noteq> URC_GONE UO_FUEL \<and> (rc = URC_OK \<longrightarrow> same_work ux ux')"

lemma ends_simps [simp]:
  "ends_rc ux URC_AGAIN ux'" "ends_rc ux URC_ERROR ux'" "ends_rc ux (URC_GONE out) ux' = (out \<noteq> UO_FUEL)"
  "ends_rc ux URC_OK ux' = same_work ux ux'"
  by (simp_all add: ends_rc_def)

lemma same_work_refl [simp]: "same_work ux ux" by (simp add: same_work_def)

lemma same_work_fields [simp]:
  "same_work (ux\<lparr>ux_restore := r\<rparr>) ux' = same_work ux ux'" "same_work ux (ux'\<lparr>ux_restore := r\<rparr>) = same_work ux ux'"
  "same_work (ux\<lparr>ux_refresh := rf\<rparr>) ux' = same_work ux ux'"
  "same_work ux (ux'\<lparr>ux_udp4 := b\<rparr>) = same_work ux ux'" "same_work ux (ux'\<lparr>ux_udp6 := b\<rparr>) = same_work ux ux'"
  "same_work (ux\<lparr>ux_udp4 := b\<rparr>) ux' = same_work ux ux'" "same_work (ux\<lparr>ux_udp6 := b\<rparr>) ux' = same_work ux ux'"
  "same_work (ux\<lparr>ux_out := d\<rparr>) ux' = same_work ux ux'" "same_work ux (ux'\<lparr>ux_out := d\<rparr>) = same_work ux ux'"
  by (simp_all add: same_work_def)

lemma work_fields [simp]:
  "work (ux\<lparr>ux_restore := r\<rparr>) = work ux" "work (ux\<lparr>ux_refresh := rf\<rparr>) = work ux" "work (ux\<lparr>ux_resolver := d\<rparr>) = work ux"
  "work (ux\<lparr>ux_state := st\<rparr>) = work ux"
  by (simp_all add: work_def)

lemma same_work_eq: "same_work ux ux' \<Longrightarrow> work ux' = work ux" by (simp add: same_work_def work_def)

lemma sendto_work: "same_work ux (snd (udp_sendto d ux))"
  by (simp add: udp_sendto_def same_work_def split: list.splits)

lemma sockaddr_work: "same_work ux (snd (send_udp_sockaddr env sa pl ux))"
  using sendto_work [of "ux\<lparr>ux_udp4 := True\<rparr>"] sendto_work [of "ux\<lparr>ux_udp6 := True\<rparr>"]
  by (auto simp: send_udp_sockaddr_def split: sockaddr.splits)

lemma resolved_work: "same_work ux (snd (send_udp_resolved env addrs port pl pref ux))"
  using sockaddr_work by (simp add: send_udp_resolved_def split: option.splits)

lemma socks5_work: "same_work ux (snd (send_socks5_udp_frame src f ux))"
proof -
  have "same_work u (snd (forward_socks5_udp_packet p u))" for p u
    using sendto_work by (simp add: forward_socks5_udp_packet_def split: option.splits)
  from this [of "ux\<lparr>ux_out := d\<rparr>" for d] show ?thesis
    by (auto simp: send_socks5_udp_frame_def Let_def split: option.splits prod.splits)
qed

lemma ends_rc_of: "same_work ux (snd r) \<Longrightarrow> ends_rc ux (fst (rc_of r w)) (fst (snd (rc_of r w)))"
  by (simp add: rc_of_def)

lemma udp_resume_ends: "ends_below m k \<Longrightarrow> work ux < m \<Longrightarrow> fst (udp_resume k ux w) \<noteq> UO_FUEL"
  by (simp add: udp_resume_def ends_below_def)

lemma udp_resolved_ends:
  assumes "ends_below m k"
  shows "handler_ends m (udp_resolved env k)"
  unfolding handler_ends_def
proof (intro allI impI)
  fix data :: resolve_data and rv :: resolved and ux :: udp_ctx and w :: world
  assume m: "work ux < m"
  obtain b u where s: "send_udp_resolved env (rv_addrs rv) (addr_port (rd_target data)) (rd_payload data) (rd_pref data)
      (ux\<lparr>ux_resolver := None\<rparr>) = (b, u)" by (metis surj_pair)
  have "same_work (ux\<lparr>ux_resolver := None\<rparr>) u" using resolved_work s by (metis snd_conv)
  then have "work u < m" using same_work_eq m by fastforce
  then show "fst (udp_resolved env k data rv ux w) \<noteq> UO_FUEL"
    using udp_resume_ends [OF assms] s by (simp add: udp_resolved_def Let_def split: bool.splits)
qed

lemma start_udp_resolver_ends:
  assumes "start_udp_resolver env h route f ux w = (rc, ux', w')" "handler_ends m h" "work ux < m + taken_off f ux"
  shows "ends_rc ux rc ux'"
proof -
  have "work (ux\<lparr>ux_resolver := d, ux_state := st,
      ux_in := (if uf_wire_len f \<le> length (ux_in ux) then drop (uf_wire_len f) (ux_in ux) else ux_in ux)\<rparr>) < m" for d st
    using assms(3) by (auto simp: work_def taken_off_def split: if_splits)
  then have "fst (h data rv (ux\<lparr>ux_resolver := d, ux_state := st,
      ux_in := (if uf_wire_len f \<le> length (ux_in ux) then drop (uf_wire_len f) (ux_in ux) else ux_in ux)\<rparr>) w) \<noteq> UO_FUEL"
    for data rv d st w using assms(2) unfolding handler_ends_def by blast
  note H = this
  show ?thesis
  proof (cases rc)
    case URC_OK
    then show ?thesis using assms(1)
      by (auto simp: start_udp_resolver_def Let_def split: if_splits resolve_call.splits prod.splits udp_outcome.splits)
  next
    case (URC_GONE out)
    have "out \<noteq> UO_FUEL"
    proof
      assume "out = UO_FUEL"
      then obtain data rv d st where "fst (h data rv (ux\<lparr>ux_resolver := d, ux_state := st,
        ux_in := (if uf_wire_len f \<le> length (ux_in ux) then drop (uf_wire_len f) (ux_in ux) else ux_in ux)\<rparr>) w) = UO_FUEL"
        using assms(1) URC_GONE unfolding start_udp_resolver_def Let_def
        by (simp only: split: if_split_asm resolve_call.split_asm prod.split_asm udp_outcome.split_asm) (simp_all, (metis fst_conv)+)
      then show False using H by blast
    qed
    then show ?thesis using URC_GONE by simp
  qed simp_all
qed

lemma send_udp_frame_routed_ends:
  assumes "send_udp_frame_routed env k src f ux w = (rc, ux', w')" "ends_below m k" "work ux < m + taken_off f ux"
  shows "ends_rc ux rc ux'"
proof -
  have r: "rc_of r w = (rc, ux', w') \<Longrightarrow> same_work ux (snd r) \<Longrightarrow> ends_rc ux rc ux'" for r
    using ends_rc_of [of ux r w] by simp
  have s: "start_udp_resolver env (udp_resolved env k) False f ux w = (rc, ux', w') \<Longrightarrow> ends_rc ux rc ux'"
    using start_udp_resolver_ends [OF _ udp_resolved_ends [OF assms(2)] assms(3)] .
  show ?thesis
    using assms(1) unfolding send_udp_frame_routed_def Let_def
    by (auto simp: sockaddr_work socks5_work intro: r s split: if_splits option.splits sum.splits sockaddr_result.splits)
qed

lemma udp_route_resolved_ends:
  assumes "ends_below m k"
  shows "handler_ends m (udp_route_resolved env k)"
  unfolding handler_ends_def
proof (intro allI impI)
  fix data :: resolve_data and rv :: resolved and ux :: udp_ctx and w :: world
  assume m: "work ux < m"
  let ?fr = "ue_front env" and ?a = "rd_target data" and ?saved = "get_outbound env w"
  show "fst (udp_route_resolved env k data rv ux w) \<noteq> UO_FUEL"
  proof (cases "rv_state rv \<noteq> 0 \<or> (\<nexists>ob ttl. select_outbound_now (fr_env ?fr) (fr_srv ?fr) (cf_resolve (w_conf w)) ?a (rv_addrs rv) True
      = SELECTED ob ttl)")
    case True
    then show ?thesis by (auto simp: udp_route_resolved_def Let_def split: selection.splits)
  next
    case False
    then obtain ob ttl where sel: "rv_state rv = 0"
      "select_outbound_now (fr_env ?fr) (fr_srv ?fr) (cf_resolve (w_conf w)) ?a (rv_addrs rv) True = SELECTED ob ttl" by blast
    obtain c w1 where w1: "cache_insert (fr_srv ?fr) ?a (Some ob) ttl
        (route_valid_time (fr_env ?fr) (rv_valid rv)) (set_outbound env (Some ob) w) = (c, w1)" by (metis surj_pair)
    obtain mp v where v: "udp_route_mapping_insert (fr_id ?fr) ?a (Some ob) c w1 = (mp, v)" by (metis surj_pair)
    let ?u = "ux\<lparr>ux_resolver := None, ux_restore := ?saved\<rparr>"
    let ?f = "\<lparr>uf_addr = ?a, uf_payload_len = word_of_nat (length (rd_payload data)), uf_payload = rd_payload data, uf_wire_len = 0\<rparr>"
    obtain rc t v' where r: "send_udp_frame_routed env k None ?f ?u v = (rc, t, v')" by (metis prod_cases3)
    have u: "work ?u < m" using m by simp
    have "ends_rc ?u rc t"
      using send_udp_frame_routed_ends [OF r assms] u by (simp add: taken_off_def)
    then have "rc \<noteq> URC_GONE UO_FUEL" "rc = URC_OK \<Longrightarrow> work t < m"
      using same_work_eq [of ?u t] u by (simp_all add: ends_rc_def)
    then show ?thesis
      using sel w1 v r u udp_resume_ends [OF assms]
      by (auto simp: udp_route_resolved_def Let_def split: udp_rc.splits)
  qed
qed

lemma send_and_restore_ends:
  assumes "send_and_restore env k src f saved ux w = (rc, ux', w')" "ends_below m k" "work ux < m + taken_off f ux"
  shows "ends_rc ux rc ux'"
proof -
  obtain rc1 u v where r: "send_udp_frame_routed env k src f (ux\<lparr>ux_restore := saved\<rparr>) w = (rc1, u, v)"
    by (metis prod_cases3)
  have "ends_rc (ux\<lparr>ux_restore := saved\<rparr>) rc1 u"
    using send_udp_frame_routed_ends [OF r assms(2)] assms(3) by (simp add: taken_off_def)
  then show ?thesis using assms(1) r
    by (auto simp: send_and_restore_def Let_def ends_rc_def used_after_def split: udp_rc.splits if_splits)
qed

lemma map_and_send_ends:
  "map_and_send env k src f saved entry ux w = (rc, ux', w') \<Longrightarrow> ends_below m k \<Longrightarrow> work ux < m + taken_off f ux \<Longrightarrow>
     ends_rc ux rc ux'"
  by (auto simp: map_and_send_def intro: send_and_restore_ends split: prod.splits)

lemma udp_route_cache_miss_ends:
  assumes "udp_route_cache_miss env k src f saved ux w = (rc, ux', w')" "ends_below m k" "work ux < m + taken_off f ux"
  shows "ends_rc ux rc ux'"
proof -
  have r: "start_udp_route_resolver env k f ux w = (rc, ux', w') \<Longrightarrow> ends_rc ux rc ux'"
    using start_udp_resolver_ends [OF _ udp_route_resolved_ends [OF assms(2)] assms(3)]
    by (fastforce simp: start_udp_route_resolver_def split: if_splits)
  show ?thesis
    using assms(1) r map_and_send_ends [OF _ assms(2,3)] send_and_restore_ends [OF _ assms(2,3)]
    unfolding udp_route_cache_miss_def Let_def
    by (auto split: selection.splits if_splits option.splits prod.splits)
qed

lemma send_udp_frame_ends:
  assumes "send_udp_frame env k src f0 ux w = (rc, ux', w')" "ends_below m k" "work ux < m + taken_off f0 ux"
  shows "ends_rc ux rc ux'"
proof -
  define f where "f = f0\<lparr>uf_addr := route_resolve_target (fr_env (ue_front env)) (cf_resolve (w_conf w)) (uf_addr f0)\<rparr>"
  have m: "work ux < m + taken_off f ux" using assms(3) by (simp add: f_def taken_off_def split: if_splits)
  have mr: "map_and_send env k src f s c (ux\<lparr>ux_refresh := rf\<rparr>) v = (rc, ux', w') \<Longrightarrow> ends_rc ux rc ux'" for s c rf v
    using map_and_send_ends [OF _ assms(2), where ux = "ux\<lparr>ux_refresh := rf\<rparr>" and f = f] m
    by (fastforce simp: taken_off_def ends_rc_def)
  show ?thesis
    using assms(1) mr send_and_restore_ends [OF _ assms(2) m] map_and_send_ends [OF _ assms(2) m]
      udp_route_cache_miss_ends [OF _ assms(2) m]
    unfolding send_udp_frame_def Let_def f_def [symmetric]
    by (auto split: option.splits if_splits prod.splits)
qed

subsection \<open>The loop\<close>

lemma process_udp_client_ends: "ends_below fuel (process_udp_client fuel env)"
proof (induction fuel)
  case 0
  show ?case by (simp add: ends_below_def)
next
  case (Suc fuel)
  show ?case unfolding ends_below_def
  proof (intro allI impI)
    fix ux :: udp_ctx and w :: world
    assume m: "work ux < Suc fuel"
    show "fst (process_udp_client (Suc fuel) env ux w) \<noteq> UO_FUEL"
    proof (cases "trojan_parse_udp_frame (Some (ux_in ux))")
      case (Some f)
      then have "trojan_frame_dec (ux_in ux) = Inr (f, uf_wire_len f)" by (simp add: trojan_frame_dec_def)
      then have n: "0 < uf_wire_len f" "uf_wire_len f \<le> length (ux_in ux)" using trojan_codec.dec_consumes by blast+
      obtain rc u v where r: "send_udp_frame env (process_udp_client fuel env) None f ux w = (rc, u, v)" by (metis prod_cases3)
      have e: "ends_rc ux rc u" using send_udp_frame_ends [OF r Suc.IH] m n by (simp add: taken_off_def)
      have "work (u\<lparr>ux_in := drop (uf_wire_len f) (ux_in u)\<rparr>) < fuel" if "same_work ux u"
        using that m n by (auto simp: work_def same_work_def)
      then show ?thesis
        using e Some r Suc.IH unfolding ends_below_def by (auto simp: used_after_def split: udp_rc.splits)
    next
      case None
      obtain r c where rc: "conn_recv (UDP_BUFFER_SIZE - length (ux_in ux)) (ux_client ux) = (r, c)" by (metis surj_pair)
      have "work (ux\<lparr>ux_client := c, ux_in := ux_in ux @ bs\<rparr>) < fuel" if "r = GOT bs" for bs
      proof -
        have "length (bs @ cn_in c) = length (cn_in (ux_client ux))" "length (cn_recvs c) < length (cn_recvs (ux_client ux))"
          using conn_recv_stream [OF rc] that by auto
        then show ?thesis using m by (simp add: work_def)
      qed
      then show ?thesis
        using None rc Suc.IH unfolding ends_below_def by (auto split: received.splits)
    qed
  qed
qed

lemma udp_client_ends: "ends_below m (udp_client env)"
  using process_udp_client_ends unfolding ends_below_def udp_client_def udp_fuel_def work_def by blast

text \<open>
  C7: The loop over the frames of a UDP client returns. In every state of the session, the world and the sockets,
  with the resolver answering at once, later or not at all: \<open>process_udp_client\<close> ends before its fuel is
  used up (a turn takes a frame off the buffer or an event off the socket, also when the resolver's handler runs the
  loop inside of it), and so do the answer of the resolver, the end of a SOCKS5 handshake and a datagram of a
  SOCKS5 client.
\<close>

theorem udp_client_returns:
  "fst (udp_client env ux w) \<noteq> UO_FUEL \<and> fst (udp_resolver_event env rv ux w) \<noteq> UO_FUEL \<and>
   fst (socks5_udp_ready env a ux w) \<noteq> UO_FUEL \<and> fst (socks5_in_datagram env sa bs ux w) \<noteq> UO_FUEL"
proof (intro conjI)
  have k: "ends_below m (udp_client env)" for m by (rule udp_client_ends)
  have res: "fst (udp_resume (udp_client env) u v) \<noteq> UO_FUEL" for u v
    using udp_resume_ends [OF k [of "Suc (work u)"]] by simp
  show "fst (udp_client env ux w) \<noteq> UO_FUEL"
    using k [of "Suc (work ux)"] by (simp add: ends_below_def)
  have "handler_ends (Suc (work ux)) (udp_resolved env (udp_client env))"
    "handler_ends (Suc (work ux)) (udp_route_resolved env (udp_client env))"
    using udp_resolved_ends [OF k] udp_route_resolved_ends [OF k] by blast+
  then show "fst (udp_resolver_event env rv ux w) \<noteq> UO_FUEL"
    by (simp add: udp_resolver_event_def handler_ends_def split: option.splits)
  show "fst (socks5_udp_ready env a ux w) \<noteq> UO_FUEL"
    using res by (simp add: socks5_udp_ready_def Let_def split: option.splits prod.splits bool.splits)
  show "fst (socks5_in_datagram env sa bs ux w) \<noteq> UO_FUEL"
  proof -
    have "send_udp_frame env (udp_client env) src f u w \<noteq> (URC_GONE UO_FUEL, u', w')" for src f u u' w'
      using send_udp_frame_ends [OF _ k [of "Suc (work u)"]] by fastforce
    then show ?thesis
      by (auto simp: socks5_in_datagram_def Let_def used_after_def split: option.splits prod.splits udp_rc.splits)
  qed
qed

end
