(* ===== verification/Mt_Udp_Hazards.thy ===== *)
theory Mt_Udp_Hazards
  imports Mt_Udp_Replies
begin

text \<open>
  What can go wrong in a UDP session: regions that are used for two things at once, a handshake that is
  begun while another one runs, and callers that go on after the session has ended.
\<close>

subsection \<open>Two datagrams in \<open>udp_payload\<close>\<close>

text \<open>The payload of a frame that waits for a handshake is replaced by that of a datagram that arrives
  meanwhile.\<close>

lemma give_client_payload: "ux_payload (snd (give_client bs ux)) = ux_payload ux \<and> ux_pending (snd (give_client bs ux)) = ux_pending ux"
  by (auto simp: give_client_def flush_udp_client_def Let_def split: prod.splits)

lemma pending_overwritten:
  assumes "ux_pending ux = Some (a, n)" "ux_payload ux = Some p" "n \<le> length bs" "length bs \<le> MAX_UDP_PAYLOAD" "\<not> ux_inbound ux"
  shows "ux_pending (snd (udp_read_datagram sa bs ux)) = Some (a, n) \<and>
    mem (ux_payload (snd (udp_read_datagram sa bs ux))) n = take n bs"
proof -
  have "ux_pending (snd (udp_read_datagram sa bs ux)) = Some (a, n) \<and>
      ux_payload (snd (udp_read_datagram sa bs ux)) = Some (poke p 0 bs)"
    using assms give_client_payload
    by (simp add: udp_read_datagram_def Let_def split: option.splits prod.splits)
  then show ?thesis using assms(3) by (simp add: poke_def)
qed

subsection \<open>A packet built over its own payload\<close>

text \<open>The payload is copied after the header has been written: behind the header it arrives as it was, and when
  the new header is longer than the old one (a client names its target by a short text like \<open>::1\<close>, which is normalised to
  the 16 bytes of an address) its beginning is replaced by bytes of the header.\<close>

lemma build_in_place:
  assumes "trojan_addr_ok a" "3 + addr_wire_len a + len \<le> length d" "off + len \<le> length d"
    and "hdr = [0, 0, 0] @ trojan_addr_wire (addr_type a) (host_bytes a) (addr_port a)"
  shows "build_udp_in_place a off len d =
    (Some (length hdr + len), Some (hdr @ take len (drop off (hdr @ drop (length hdr) d)) @ drop (length hdr + len) d))"
proof -
  let ?n = "3 + addr_wire_len a" and ?d = "hdr @ drop (length hdr) d"
  have v: "addr_wire_len a = trojan_addr_len (addr_type a) (length (host_bytes a))"
    using assms(1) host_bytes_len [OF assms(1)] by (simp add: trojan_addr_ok_def)
  then have hl: "length hdr = ?n" by (simp add: assms(4))
  obtain d0 d1 d2 d3 r where d: "d = d0 # d1 # d2 # d3 # r"
    using assms(2) v by (cases d; cases "tl d"; cases "tl (tl d)"; cases "tl (tl (tl d))")
      (auto simp: trojan_addr_len_def split: if_splits)
  have put: "socks5_put_addr a (poke (poke d 0 [0, 0, 0]) 3 [addr_type a]) = Some (?d, ?n)"
    using assms(2) socks5_put_addr_ok [OF assms(1), of "[0, 0, 0]" d] hl d by (simp add: assms(4))
  have "length (take len (drop off ?d)) = len" using assms(2,3) hl by simp
  then have "poke ?d ?n (take len (drop off ?d)) = hdr @ take len (drop off ?d) @ drop (length hdr + len) d"
    using poke_append [of ?n hdr "drop (length hdr) d"] hl by (simp add: add.commute)
  then show ?thesis
    using assms(2) put hl by (simp add: build_udp_in_place_def Let_def)
qed

lemma in_place_kept:
  assumes "trojan_addr_ok a" "3 + addr_wire_len a + len \<le> length d" "off + len \<le> length d" "3 + addr_wire_len a \<le> off"
  shows "\<exists>d'. build_udp_in_place a off len d = (Some (3 + addr_wire_len a + len), Some d') \<and>
    take len (drop (3 + addr_wire_len a) d') = take len (drop off d)"
proof -
  define hdr where "hdr = [0, 0, 0] @ trojan_addr_wire (addr_type a) (host_bytes a) (addr_port a)"
  have hl: "length hdr = 3 + addr_wire_len a"
    using assms(1) host_bytes_len [OF assms(1)] by (simp add: hdr_def trojan_addr_ok_def)
  have "drop off (hdr @ drop (length hdr) d) = drop off d" using assms(4) hl by simp
  then show ?thesis
    using build_in_place [OF assms(1-3) hdr_def] hl assms(3) by simp
qed

lemma in_place_corrupts:
  assumes "trojan_addr_ok a" "3 + addr_wire_len a + len \<le> length d" "off + len \<le> length d" "off < 3 + addr_wire_len a" "0 < len"
  shows "\<exists>d'. build_udp_in_place a off len d = (Some (3 + addr_wire_len a + len), Some d') \<and>
    d' ! (3 + addr_wire_len a) = ([0, 0, 0] @ trojan_addr_wire (addr_type a) (host_bytes a) (addr_port a)) ! off"
proof -
  define hdr where "hdr = [0, 0, 0] @ trojan_addr_wire (addr_type a) (host_bytes a) (addr_port a)"
  have hl: "length hdr = 3 + addr_wire_len a"
    using assms(1) host_bytes_len [OF assms(1)] by (simp add: hdr_def trojan_addr_ok_def)
  have "(hdr @ take len (drop off (hdr @ drop (length hdr) d)) @ x) ! length hdr = hdr ! off" for x
    using assms(2-5) hl by (simp add: nth_append)
  then show ?thesis
    using build_in_place [OF assms(1-3) hdr_def] hl unfolding hdr_def [symmetric] by simp
qed

subsection \<open>A second handshake\<close>

text \<open>A connection whose handshake is not finished is not closed by \<open>close_socks5_udp\<close>; nothing refers to it
  when the next one is begun, and \<open>finalize\<close> does not close it either.\<close>

lemma handshake_lost:
  assumes "ux_upstream ux = Some h" "ux_socks5_outbound ux = None" "start_socks5_udp env (close_socks5_udp ux) w = Inr u"
  shows "ux_lost u = ux_lost ux @ [h] \<and> h \<in> set (ux_lost (finalize_udp u))"
  using assms by (auto simp: start_socks5_udp_def close_socks5_udp_def finalize_udp_def Let_def split: option.splits if_splits sum.splits)

subsection \<open>Callers of a session that has ended\<close>

text \<open>\<open>start_socks5_udp\<close> finalizes the session when no connection can be begun, and returns nothing; \<open>send_udp_frame\<close>
  then looks at the context.\<close>

lemma udp_use_after_free:
  assumes "session_outbound (ue_front env) w = Some ob" "ob_type ob = OUTBOUND_SOCKS5" "ue_peer env ob = None"
    and "\<not> ux_socks5_udp ux" "ux_payload ux = Some p" "\<not> frame_blocked env f (ux\<lparr>ux_restore := saved\<rparr>) w"
  shows "fst (send_and_restore env k src f saved ux w) = URC_GONE UO_USE_AFTER_FREE"
proof -
  have "start_socks5_udp env v w = Inl S_BAD_GATEWAY" for v using assms(1,3) by (simp add: start_socks5_udp_def)
  then have "fst (send_udp_frame_routed env k src f (ux\<lparr>ux_restore := saved\<rparr>) w) = URC_GONE (UO_FINALIZE S_BAD_GATEWAY)"
    using assms(1,2,4,5) by (simp add: send_udp_frame_routed_def Let_def outbound_type_of_def)
  then show ?thesis using assms(6)
    by (auto simp: send_and_restore_def Let_def used_after_def split: prod.splits udp_rc.splits)
qed

end
