(* ===== verification/Spec2Isabelle.thy ===== *)
theory Spec2Isabelle
  imports Mt_Keyed Mt_Sha224 Mt_Http Mt_Compile Mt_Cache_Map Mt_Select_Props Mt_Relay_Props Mt_Conf_Props Mt_Inbound_Props
    Mt_Udp_Assoc Mt_Udp_Ends Mt_Udp_Hazards
begin

text \<open>
  A model of \<open>ngx_stream_mtrojan_module\<close>, a stream module of nginx: a Trojan server with local SOCKS5 and
  HTTP CONNECT proxies, outbounds chosen by route rules, and the codecs of the Mtrojan protocol. The C
  sources are in \<open>src/\<close>; every definition that models code is named after the function it translates,
  without the prefix \<open>ngx_stream_mtrojan_\<close>, and follows its branches in the order of the source.

  \<^bold>\<open>The program and the theories.\<close>

  \<^item> Vocabulary: \<open>Mt_Prelude\<close> (bytes, C regions and pointers, big-endian integers, \<open>size_t\<close> arithmetic),
    \<open>Mt_Framing\<close> (interface of a self-delimiting format and the loop that splits a stream), \<open>Mt_Incremental\<close>
    (interface of a length function that is asked while a message arrives), \<open>Mt_Order\<close> (interface of a
    three-way comparison; sorting, bisection).
  \<^item> Protocol codecs: \<open>Mt_Address\<close>, \<open>Mt_Frames\<close>, \<open>Mt_Keyed\<close>, \<open>Mt_Literal\<close> (\<open>protocol.c\<close>, \<open>ip_prefer.h\<close>:
    addresses, plain and keyed frames, literals); \<open>Mt_Sha224\<close>, \<open>Mt_Trojan\<close> (\<open>trojan.c\<close>: the password hash,
    address and UDP frame); \<open>Mt_Socks5\<close> (\<open>socks5_protocol.c\<close>); \<open>Mt_Http\<close> (\<open>http_proxy_protocol.c\<close>,
    \<open>inbound.c\<close>, \<open>relay.h\<close>).
  \<^item> Route rules (\<open>rules.c\<close>): \<open>Mt_Mph\<close> (perfect-hash table of names), \<open>Mt_Prefix\<close> (prefix tables),
    \<open>Mt_Rules\<close> (groups, matching, the configuration block), \<open>Mt_Compile\<close> (properties).
  \<^item> The rest is \<open>module.c\<close>. \<open>Mt_Outbound\<close>: outbounds, blocked requests. \<open>Mt_Cache\<close>: the route cache, its links to
    sessions and UDP mappings; \<open>Mt_Cache_Lru\<close>, \<open>Mt_Cache_Links\<close>, \<open>Mt_Cache_Run\<close>, \<open>Mt_Cache_Map\<close>: its
    properties. \<open>Mt_Select\<close>, \<open>Mt_Select_Props\<close>: the choice of an outbound. \<open>Mt_Conf\<close>, \<open>Mt_Conf_Props\<close>: directives,
    merging, \<open>postconfiguration\<close>. \<open>Mt_Relay\<close>, \<open>Mt_Relay_Props\<close>: \<open>process_proxy\<close>. \<open>Mt_Io\<close>: the loops that
    fill and flush a buffer. \<open>Mt_Handshake\<close>, \<open>Mt_Handshake_Props\<close>: \<open>process_socks5\<close>. \<open>Mt_Resolve\<close>: from targets
    to socket addresses. \<open>Mt_Session\<close>: the context of a session. \<open>Mt_Front\<close>, \<open>Mt_Front_Props\<close>: the Trojan front
    end. \<open>Mt_Inbound\<close>, \<open>Mt_Inbound_Props\<close>: the local proxies.
  \<^item> UDP sessions: \<open>Mt_Udp\<close> (from a frame to \<open>sendto\<close>, a resolver or a SOCKS5 server: \<open>send_udp_frame\<close>,
    \<open>send_udp_frame_routed\<close>, \<open>start_resolver\<close>, \<open>resolve_handler\<close>), \<open>Mt_Udp_Events\<close> (the handlers:
    \<open>process_udp_client\<close>, the end of a handshake, the UDP sockets, the control connections); \<open>Mt_Udp_Replies\<close>
    (what comes back), \<open>Mt_Udp_Props\<close> (what goes out), \<open>Mt_Udp_Assoc\<close> (associations of SOCKS5 clients), \<open>Mt_Udp_Ends\<close> (the loop ends), \<open>Mt_Udp_Hazards\<close> (what can go
    wrong).

  A session runs through them in this order: a front end (\<open>front_event\<close>, \<open>inbound_event\<close>) reads the request
  and calls \<open>with_route\<close> (\<open>select_outbound\<close>, the cache, the rules); \<open>start_tcp\<close> names an address or a SOCKS5
  outbound, whose handshake is \<open>process_socks5\<close>; \<open>init_proxy\<close> begins the relay. A UDP session goes on with
  \<open>start_udp_session\<close>, in a context of its own (\<open>udp_ctx\<close>), and chooses the outbound of every frame anew. A handler of
  the resolver that runs inside of its caller is passed the rest of the loop as a function.

  \<^bold>\<open>Conventions.\<close> A \<open>uint8_t\<close>, \<open>uint16_t\<close>, \<open>uint32_t\<close> or \<open>uint64_t\<close> is a word of that width; a \<open>size_t\<close> is a \<open>nat\<close>,
  with \<open>sz_add\<close> and \<open>sz_mul\<close> where a sum or product may wrap. A pointer to bytes is a \<open>cptr\<close> (\<open>None\<close> for \<open>NULL\<close>)
  and comes with its region; a write is \<open>poke\<close>, which makes the region longer when it runs over its end, so that
  a theorem about the length of a region says that nothing is written outside. A pointer into an array or
  queue is an index. A status is \<open>merr\<close>, a function that returns 0 or -1 gives an option. Array reads are \<open>!\<close>
  behind the length tests of the source. A socket is a \<open>conn\<close>: the bytes that still arrive, the bytes sent, and
  two scripts that say how each \<open>recv\<close> and \<open>send\<close> answers; theorems quantify over the scripts. A handler is a
  function from the context (\<open>session\<close>) and the state shared by all sessions (\<open>world\<close>) to both and an
  \<open>outcome\<close>. Events between two calls of a handler are the steps of an inductive run (\<open>front_run\<close>,
  \<open>inbound_run\<close>, \<open>handshake_run\<close>, \<open>proxy_run\<close>, \<open>route_run\<close>, \<open>udp_run\<close>, \<open>assoc_run\<close>).

  \<^bold>\<open>Parameters.\<close> What is not in \<open>src/\<close> is an argument: the AEAD callbacks and \<open>malloc\<close> (\<open>aead_correct\<close>,
  \<open>malloc_ok\<close> state what a caller relies on), \<open>inet_pton\<close> (\<open>pton4_grammar\<close>, \<open>pton6_grammar\<close>: the documented
  grammar), \<open>getaddrinfo\<close>, \<open>ngx_resolve_name\<close>, the clock, PCRE, \<open>ngx_ptocidr\<close>, the parsers of nginx's
  configuration values (\<open>env_ok\<close>), and what \<open>getsockname\<close> says of the proxy's UDP socket (\<open>bound_ok\<close>: an IPv6
  address has sixteen bytes; \<open>wf_sockaddr\<close> says the same of \<open>recvfrom\<close>), whether a UDP socket can be made
  (\<open>ue_open\<close>) and a connection to a SOCKS5 server begun (\<open>ue_peer\<close>). Each hypothesis is discharged for a concrete instance in a witness. \<open>qsort\<close>
  is insertion sort; the order of equal elements is not used. Pool allocations of nginx succeed.

  \<^bold>\<open>Bounds and fuel.\<close> Loops whose end is not structural carry fuel with a proof or remark that it suffices:
  \<open>next_power_loop\<close> 64 (a 64-bit integer is doubled), \<open>ipv4_prefix_loop\<close> 33
  (one bit per turn), \<open>buckets_loop\<close> 64, \<open>process_socks5\<close> 9 (\<open>process_socks5_terminates\<close>), \<open>process_socks5_in\<close> 9
  (\<open>inbound_returns\<close>), \<open>process_udp_client\<close> \<open>udp_fuel\<close>, the bytes and events still before it
  (\<open>udp_client_returns\<close>). The other loops are recursive functions with a measure or on lists.

  \<^bold>\<open>What the lemmas show.\<close> Codecs: round trips inside the region, exact splitting of streams, no
  plaintext left by a forged frame. Rules: the compiled tables match exactly what the list of rules
  matches. Cache: it refines a least-recently-used map; its queues hold exactly the linked sessions.
  Configuration: what is accepted is well-formed and local proxies listen on loopback only. Handlers:
  they decide by the bytes of the client and not by how these are split, take exactly their message and
  leave the rest for the relay, which conserves both streams; their loops end. UDP: the frames of a client go
  out once, in order, to their targets, also through resolvers and handshakes; what comes back reaches it
  frame by frame; no region is left; an association serves its first sender only.

  \<^bold>\<open>Not modelled.\<close> Opening sockets (\<open>ngx_event_connect_peer\<close>, \<open>create_udp_connection\<close>), registering events and
  timers, and logging: they are calls into nginx or the kernel without a result the code computes with.
  The array of directives (\<open>ngx_stream_mtrojan_commands\<close>) is data for nginx's parser; \<open>srv_directive\<close> is its
  dispatch. A connection to a SOCKS5 server that is established at once makes its first call of \<open>process_socks5\<close>
  with the first event of the handshake, and in \<open>udp_run\<close> a UDP socket is not read while a frame waits in
  \<open>udp_payload\<close> (\<open>pending_overwritten\<close> shows why). The tests, the build script and the documents are not code of the module.
\<close>

end
